(* ===== verification/Prelude.thy ===== *)
theory Prelude
  imports Main
    "HOL-Library.List_Lexorder"
    "HOL-Library.Char_ord"
    "HOL-Library.Code_Target_Nat"
    "HOL-Library.Multiset"
    "HOL-Library.Sublist"
begin

text \<open>
  The vocabulary every component shares.  A Go string is a sequence of bytes, so it is
  a HOL \<^typ>\<open>string\<close> (a list of 8-bit characters); offsets are \<^typ>\<open>int\<close> because the
  code receives offsets from outside and checks their sign.  An error return is the left
  side of a sum; wrapping with \<open>fmt.Errorf("...: %w", e)\<close> keeps \<open>e\<close> for \<open>errors.Is\<close>, so
  a wrapped error is the sentinel it wraps.  A Go panic (a slice out of range) is the
  distinguished value \<open>Panic\<close> rather than a silent default.  A loop whose end has to be
  proved runs on fuel; \<open>Diverge\<close> is the value of running out of it, and each such loop has a
  lemma that its fuel is enough.

  A \<open>context.Context\<close> is what the code can see of it: the answers of \<open>ctx.Err()\<close>.  These
  are nil for some number of polls and the same error ever after, which is the record
  \<open>ctx\<close>; code that polls is a function from a context to a result and the context that is
  left.  The predicate \<open>polls\<close> and the evaluation \<open>val\<close> reduce reasoning on such code to
  reasoning on its value under a context that is never cancelled.
\<close>

section \<open>Collections of facts\<close>

named_theorems sm_apply "state-passing computations applied to a state"
named_theorems ctx_val "evaluation of context-polling code under a live context"
named_theorems ctx_polls "code that only polls its context"
named_theorems slice_simps "slices of byte strings"

section \<open>Errors and results\<close>

text \<open>The sentinels of \<open>internal/pii/errors.go\<close> and \<open>internal/contract/contract.go\<close>, the two
  context errors, and ad-hoc errors by their message.\<close>

datatype err =
    ErrSessionNotFound
  | ErrProcessingInProgress
  | ErrDetectorUnavailable
  | ErrInvalidSpan
  | ErrInvalidMLResponse
  | ErrPolicyRejected
  | ErrPayloadIDConflict
  | ErrStoreUnavailable
  | ErrDemaskingDisabled
  | ErrUnknownToken
  | ErrPayloadTooLarge
  | ErrInvalidMaskKind
  | ErrUnavailable
  | ErrCanceled
  | ErrDeadlineExceeded
  | ErrOther string
  | Panic
  | Diverge

type_synonym 'a res = "err + 'a"

definition rbind :: "'a res \<Rightarrow> ('a \<Rightarrow> 'b res) \<Rightarrow> 'b res" where
  "rbind r f = (case r of Inl e \<Rightarrow> Inl e | Inr x \<Rightarrow> f x)"

lemma rbind_simps [simp]:
  "rbind (Inl e) f = Inl e"
  "rbind (Inr x) f = f x"
  by (simp_all add: rbind_def)

lemma rbind_Inr_iff: "rbind r f = Inr y \<longleftrightarrow> (\<exists>x. r = Inr x \<and> f x = Inr y)"
  by (cases r) auto

lemma rbind_InrE:
  assumes "rbind r f = Inr y"
  obtains x where "r = Inr x" "f x = Inr y"
  using assms by (auto simp: rbind_Inr_iff)

lemma rbind_Inl_iff:
  "rbind r f = Inl e \<longleftrightarrow> r = Inl e \<or> (\<exists>x. r = Inr x \<and> f x = Inl e)"
  by (cases r) auto

section \<open>State-passing computations\<close>

type_synonym ('s, 'a) sm = "'s \<Rightarrow> 'a res \<times> 's"

definition ret :: "'a \<Rightarrow> ('s, 'a) sm" where
  "ret x = (\<lambda>s. (Inr x, s))"

definition throw :: "err \<Rightarrow> ('s, 'a) sm" where
  "throw e = (\<lambda>s. (Inl e, s))"

definition mbind :: "('s, 'a) sm \<Rightarrow> ('a \<Rightarrow> ('s, 'b) sm) \<Rightarrow> ('s, 'b) sm" where
  "mbind m f = (\<lambda>s. case m s of (Inl e, s') \<Rightarrow> (Inl e, s') | (Inr x, s') \<Rightarrow> f x s')"

definition lift :: "'a res \<Rightarrow> ('s, 'a) sm" where
  "lift r = (\<lambda>s. (r, s))"

lemma ret_apply [sm_apply]: "ret x s = (Inr x, s)"
  by (simp add: ret_def)

lemma throw_apply [sm_apply]: "throw e s = (Inl e, s)"
  by (simp add: throw_def)

lemma lift_apply [sm_apply]: "lift r s = (r, s)"
  by (simp add: lift_def)

lemma mbind_apply_Inr: "m s = (Inr x, s') \<Longrightarrow> mbind m f s = f x s'"
  by (simp add: mbind_def)

lemma mbind_apply_Inl: "m s = (Inl e, s') \<Longrightarrow> mbind m f s = (Inl e, s')"
  by (simp add: mbind_def)

lemma mbind_InrE:
  assumes "mbind m f s = (Inr y, s'')"
  obtains x s' where "m s = (Inr x, s')" "f x s' = (Inr y, s'')"
  using assms by (auto simp: mbind_def split: prod.splits sum.splits)

section \<open>Contexts\<close>

text \<open>\<open>live\<close> is the number of further polls answered nil (\<open>None\<close>: never cancelled),
  \<open>cause\<close> the error answered afterwards.\<close>

record ctx =
  live :: "nat option"
  cause :: err

definition background :: ctx where
  "background = \<lparr>live = None, cause = ErrCanceled\<rparr>"

definition poll :: "(ctx, unit) sm" where
  "poll c = (case live c of
      None \<Rightarrow> (Inr (), c)
    | Some 0 \<Rightarrow> (Inl (cause c), c)
    | Some (Suc n) \<Rightarrow> (Inr (), c\<lparr>live := Some n\<rparr>))"

definition val :: "(ctx, 'a) sm \<Rightarrow> 'a res" where
  "val m = fst (m background)"

text \<open>\<open>polls m\<close>: the only thing \<open>m\<close> does with its context is to poll it and give up with the
  context's error; otherwise its result is the one it has under a live context.\<close>

definition polls :: "(ctx, 'a) sm \<Rightarrow> bool" where
  "polls m \<longleftrightarrow> (\<forall>c. cause (snd (m c)) = cause c
      \<and> (fst (m c) = Inl (cause c) \<or> fst (m c) = val m)
      \<and> (live c = None \<longrightarrow> m c = (val m, c)))"

lemma pollsD:
  assumes "polls m"
  shows "cause (snd (m c)) = cause c"
    and "fst (m c) = Inl (cause c) \<or> fst (m c) = val m"
    and "live c = None \<Longrightarrow> m c = (val m, c)"
  using assms by (auto simp: polls_def)

lemma polls_Inr: "polls m \<Longrightarrow> m c = (Inr x, c') \<Longrightarrow> val m = Inr x"
  using pollsD(2)[of m c] by auto

lemma polls_Inl: "polls m \<Longrightarrow> m c = (Inl e, c') \<Longrightarrow> e = cause c \<or> val m = Inl e"
  using pollsD(2)[of m c] by auto

lemma polls_live: "polls m \<Longrightarrow> live c = None \<Longrightarrow> m c = (val m, c)"
  by (rule pollsD(3))

lemma val_ret [ctx_val, simp]: "val (ret x) = Inr x"
  by (simp add: val_def ret_apply)

lemma val_throw [ctx_val, simp]: "val (throw e) = Inl e"
  by (simp add: val_def throw_apply)

lemma val_lift [ctx_val, simp]: "val (lift r) = r"
  by (simp add: val_def lift_apply)

lemma val_poll [ctx_val, simp]: "val poll = Inr ()"
  by (simp add: val_def poll_def background_def)

lemma polls_ret [ctx_polls, simp, intro!]: "polls (ret x)"
  by (simp add: polls_def ret_apply)

lemma polls_throw [ctx_polls, simp, intro!]: "polls (throw e)"
  by (simp add: polls_def throw_apply)

lemma polls_lift [ctx_polls, simp, intro!]: "polls (lift r)"
  by (simp add: polls_def lift_apply)

lemma polls_poll [ctx_polls, simp, intro!]: "polls poll"
  by (auto simp: polls_def poll_def val_def background_def split: option.splits nat.splits)

lemma val_mbind [ctx_val]:
  assumes "polls m"
  shows "val (mbind m f) = rbind (val m) (\<lambda>x. val (f x))"
proof -
  have "m background = (val m, background)"
    using assms by (rule polls_live) (simp add: background_def)
  then show ?thesis
    by (cases "val m") (simp_all add: val_def mbind_def)
qed

lemma polls_mbind [ctx_polls, intro]:
  assumes "polls m" and "\<And>x. polls (f x)"
  shows "polls (mbind m f)"
  unfolding polls_def
proof (intro allI conjI impI)
  fix c
  obtain r c' where m: "m c = (r, c')"
    by (cases "m c")
  have c': "cause c' = cause c"
    using pollsD(1)[OF assms(1), of c] m by simp
  have val: "val (mbind m f) = rbind (val m) (\<lambda>x. val (f x))"
    by (rule val_mbind[OF assms(1)])
  show "cause (snd (mbind m f c)) = cause c"
    using m c' pollsD(1)[OF assms(2)] by (cases r) (simp_all add: mbind_def)
  show "fst (mbind m f c) = Inl (cause c) \<or> fst (mbind m f c) = val (mbind m f)"
  proof (cases r)
    case (Inl e)
    then show ?thesis
      using pollsD(2)[OF assms(1), of c] m val by (cases "val m") (simp_all add: mbind_def)
  next
    case (Inr x)
    then have "val m = Inr x"
      using polls_Inr[OF assms(1)] m by simp
    then show ?thesis
      using pollsD(2)[OF assms(2), of x c'] m Inr val c' by (simp add: mbind_def)
  qed
  assume "live c = None"
  then show "mbind m f c = (val (mbind m f), c)"
    using polls_live[OF assms(1), of c] polls_live[OF assms(2), of c] val
    by (cases "val m") (simp_all add: mbind_def)
qed

lemma polls_if [ctx_polls, intro]: "polls m \<Longrightarrow> polls n \<Longrightarrow> polls (if b then m else n)"
  by simp

lemma val_if [ctx_val]: "val (if b then m else n) = (if b then val m else val n)"
  by simp

lemma polls_case_option [ctx_polls, intro]:
  "polls m \<Longrightarrow> (\<And>x. polls (f x)) \<Longrightarrow> polls (case z of None \<Rightarrow> m | Some x \<Rightarrow> f x)"
  by (cases z) auto

lemma val_case_option [ctx_val]:
  "val (case z of None \<Rightarrow> m | Some x \<Rightarrow> f x) = (case z of None \<Rightarrow> val m | Some x \<Rightarrow> val (f x))"
  by (cases z) auto

section \<open>Byte strings\<close>

text \<open>\<open>s[a:b]\<close>: in range the bytes from \<open>a\<close> up to \<open>b\<close>, otherwise a panic.\<close>

definition slice :: "'a list \<Rightarrow> int \<Rightarrow> int \<Rightarrow> 'a list" where
  "slice s a b = take (nat (b - a)) (drop (nat a) s)"

definition slice_ok :: "'a list \<Rightarrow> int \<Rightarrow> int \<Rightarrow> bool" where
  "slice_ok s a b \<longleftrightarrow> 0 \<le> a \<and> a \<le> b \<and> b \<le> int (length s)"

definition go_slice :: "'a list \<Rightarrow> int \<Rightarrow> int \<Rightarrow> 'a list res" where
  "go_slice s a b = (if slice_ok s a b then Inr (slice s a b) else Inl Panic)"

lemma go_slice_ok [simp]: "slice_ok s a b \<Longrightarrow> go_slice s a b = Inr (slice s a b)"
  by (simp add: go_slice_def)

lemma length_slice [slice_simps]: "slice_ok s a b \<Longrightarrow> length (slice s a b) = nat (b - a)"
  by (auto simp: slice_def slice_ok_def)

lemma slice_all [slice_simps, simp]: "slice s 0 (int (length s)) = s"
  by (simp add: slice_def)

lemma slice_empty [slice_simps, simp]: "slice s a a = []"
  by (simp add: slice_def)

lemma slice_append [slice_simps]:
  assumes "0 \<le> a" "a \<le> b" "b \<le> c"
  shows "slice s a b @ slice s b c = slice s a c"
proof -
  have "nat (c - a) = nat (b - a) + nat (c - b)" and "nat b = nat a + nat (b - a)"
    using assms by (simp_all flip: nat_add_distrib)
  then show ?thesis
    by (simp add: slice_def take_add drop_drop add.commute)
qed

lemma slice_split3:
  assumes "0 \<le> a" "a \<le> b" "b \<le> int (length s)"
  shows "s = slice s 0 a @ slice s a b @ slice s b (int (length s))"
  using slice_append[of 0 a "int (length s)" s] slice_append[of a b "int (length s)" s] assms
  by simp

lemma slice_mid [slice_simps]:
  "slice (a @ b @ c) (int (length a)) (int (length a) + int (length b)) = b"
  by (simp add: slice_def)

lemma slice_infix: "\<exists>u v. s = u @ slice s a b @ v"
  unfolding slice_def by (metis append_take_drop_id)

lemma set_slice: "set (slice s a b) \<subseteq> set s"
  unfolding slice_def by (meson set_drop_subset set_take_subset subset_trans)

text \<open>\<open>xs[i]\<close>: the element at a position in range, otherwise a panic.\<close>

definition go_index :: "'a list \<Rightarrow> int \<Rightarrow> 'a res" where
  "go_index xs i = (if 0 \<le> i \<and> i < int (length xs) then Inr (xs ! nat i) else Inl Panic)"

lemma go_index_nat [simp]: "i < length xs \<Longrightarrow> go_index xs (int i) = Inr (xs ! i)"
  by (simp add: go_index_def)

lemma go_index_ok: "0 \<le> i \<Longrightarrow> i < int (length xs) \<Longrightarrow> go_index xs i = Inr (xs ! nat i)"
  by (simp add: go_index_def)

text \<open>\<open>strings.IndexByte\<close>, \<open>strings.LastIndexByte\<close>, \<open>strings.HasPrefix\<close>, \<open>strings.Index\<close>,
  \<open>strings.Contains\<close>.\<close>

fun index_byte :: "'a \<Rightarrow> 'a list \<Rightarrow> nat option" where
  "index_byte b [] = None"
| "index_byte b (c # cs) = (if c = b then Some 0 else map_option Suc (index_byte b cs))"

fun last_index_byte :: "'a \<Rightarrow> 'a list \<Rightarrow> nat option" where
  "last_index_byte b [] = None"
| "last_index_byte b (c # cs) =
     (case last_index_byte b cs of
        Some i \<Rightarrow> Some (Suc i)
      | None \<Rightarrow> (if c = b then Some 0 else None))"

fun has_prefix :: "'a list \<Rightarrow> 'a list \<Rightarrow> bool" where
  "has_prefix cs [] = True"
| "has_prefix [] (p # ps) = False"
| "has_prefix (c # cs) (p # ps) = (c = p \<and> has_prefix cs ps)"

fun str_index :: "'a list \<Rightarrow> 'a list \<Rightarrow> nat option" where
  "str_index [] p = (if p = [] then Some 0 else None)"
| "str_index (c # cs) p =
     (if has_prefix (c # cs) p then Some 0 else map_option Suc (str_index cs p))"

definition contains :: "'a list \<Rightarrow> 'a list \<Rightarrow> bool" where
  "contains s p \<longleftrightarrow> str_index s p \<noteq> None"

lemma has_prefix_iff: "has_prefix s p \<longleftrightarrow> (\<exists>t. s = p @ t)"
  by (induction s p rule: has_prefix.induct) auto

lemma contains_Cons: "contains (c # cs) p \<longleftrightarrow> has_prefix (c # cs) p \<or> contains cs p"
  by (auto simp: contains_def)

lemma contains_iff: "contains s p \<longleftrightarrow> (\<exists>a b. s = a @ p @ b)"
proof (induction s)
  case Nil
  then show ?case by (auto simp: contains_def)
next
  case (Cons c cs)
  show ?case
  proof
    assume "contains (c # cs) p"
    then consider "has_prefix (c # cs) p" | "contains cs p"
      by (auto simp: contains_Cons)
    then show "\<exists>a b. c # cs = a @ p @ b"
    proof cases
      case 1
      then show ?thesis by (metis append_Nil has_prefix_iff)
    next
      case 2
      then show ?thesis using Cons.IH by (metis append_Cons)
    qed
  next
    assume "\<exists>a b. c # cs = a @ p @ b"
    then obtain a b where ab: "c # cs = a @ p @ b" by blast
    show "contains (c # cs) p"
    proof (cases a)
      case Nil
      then have "has_prefix (c # cs) p" using ab unfolding has_prefix_iff by auto
      then show ?thesis by (simp add: contains_Cons)
    next
      case (Cons d ds)
      then have "cs = ds @ p @ b" using ab by simp
      then show ?thesis using Cons.IH by (auto simp: contains_Cons)
    qed
  qed
qed

lemma index_byte_None: "index_byte b s = None \<longleftrightarrow> b \<notin> set s"
  by (induction s) auto

lemma index_byte_append: "b \<notin> set p \<Longrightarrow> index_byte b (p @ b # s) = Some (length p)"
  by (induction p) auto

lemma index_byte_Some:
  "index_byte b s = Some i \<Longrightarrow> i < length s \<and> s ! i = b \<and> b \<notin> set (take i s)"
  by (induction s arbitrary: i) (auto split: if_splits simp: less_Suc_eq_0_disj)

lemma last_index_byte_None: "last_index_byte b s = None \<longleftrightarrow> b \<notin> set s"
  by (induction s) (auto split: option.splits)

lemma last_index_byte_append:
  "b \<notin> set s \<Longrightarrow> last_index_byte b (p @ b # s) = Some (length p)"
  using last_index_byte_None[of b s] by (induction p) auto

section \<open>Decimal numbers\<close>

text \<open>The verb \<open>%d\<close> of \<open>fmt.Sprintf\<close>.\<close>

definition digit_char :: "nat \<Rightarrow> char" where
  "digit_char d = char_of (48 + d)"

fun show_nat :: "nat \<Rightarrow> string" where
  "show_nat n = (if n < 10 then [digit_char n] else show_nat (n div 10) @ [digit_char (n mod 10)])"

declare show_nat.simps [simp del]

definition show_int :: "int \<Rightarrow> string" where
  "show_int i = (if i < 0 then CHR ''-'' # show_nat (nat (- i)) else show_nat (nat i))"

definition is_digit_char :: "char \<Rightarrow> bool" where
  "is_digit_char c \<longleftrightarrow> CHR ''0'' \<le> c \<and> c \<le> CHR ''9''"

definition read_nat :: "string \<Rightarrow> nat" where
  "read_nat s = foldl (\<lambda>a c. 10 * a + (of_char c - 48)) 0 s"

lemma of_char_digit: "d < 10 \<Longrightarrow> (of_char (digit_char d) :: nat) = 48 + d"
  by (simp add: digit_char_def)

lemma is_digit_digit_char: "d < 10 \<Longrightarrow> is_digit_char (digit_char d)"
  by (simp add: is_digit_char_def less_eq_char_def of_char_digit)

lemma show_nat_digits: "list_all is_digit_char (show_nat n)"
proof (induction n rule: show_nat.induct)
  case (1 n)
  then show ?case
    by (cases "n < 10") (simp_all add: show_nat.simps[of n] is_digit_digit_char)
qed

lemma show_nat_nonempty [simp]: "show_nat n \<noteq> []"
  by (subst show_nat.simps) simp

lemma read_show_nat: "read_nat (show_nat n) = n"
proof (induction n rule: show_nat.induct)
  case (1 n)
  then show ?case
    by (cases "n < 10") (simp_all add: show_nat.simps[of n] of_char_digit read_nat_def)
qed

lemma show_nat_inj: "show_nat m = show_nat n \<longleftrightarrow> m = n"
  by (metis read_show_nat)

lemma show_nat_no_minus: "CHR ''-'' \<notin> set (show_nat n)"
  using show_nat_digits[of n] by (auto simp: list_all_iff is_digit_char_def less_eq_char_def)

lemma show_int_inj: "show_int i = show_int j \<longleftrightarrow> i = j"
proof -
  have neq: "CHR ''-'' # show_nat m \<noteq> show_nat n" for m n
    using show_nat_no_minus[of n] by (metis list.set_intros(1))
  show ?thesis
    by (auto simp: show_int_def show_nat_inj neq neq[symmetric])
qed

end
