(* ===== verification/Floats.thy ===== *)
theory Floats
  imports Prelude Complex_Main "HOL-Library.Log_Nat"
begin

text \<open>
  \<open>float64\<close>.  A finite double denotes a rational, and Go's comparisons of finite doubles are the
  comparisons of those rationals; the infinities and NaN are constructors of their own, so that
  every comparison with NaN is false as it is in Go.  Positive and negative zero compare equal
  and are both \<open>Fin 0\<close>; a division by zero therefore has the sign of its numerator.  The
  operations round the exact result to the nearest double, ties to even, as IEEE 754 has it: 53
  bits of significand, exponents from -1074, overflow to an infinity.
\<close>

datatype f64 = NaN | NegInf | Fin rat | PosInf

fun f_lt :: "f64 \<Rightarrow> f64 \<Rightarrow> bool" where
  "f_lt NaN y = False"
| "f_lt x NaN = False"
| "f_lt (Fin a) (Fin b) = (a < b)"
| "f_lt NegInf NegInf = False"
| "f_lt NegInf y = True"
| "f_lt PosInf y = False"
| "f_lt x NegInf = False"
| "f_lt x PosInf = True"

fun f_eq :: "f64 \<Rightarrow> f64 \<Rightarrow> bool" where
  "f_eq NaN y = False"
| "f_eq x NaN = False"
| "f_eq x y = (x = y)"

definition f_le :: "f64 \<Rightarrow> f64 \<Rightarrow> bool" where
  "f_le x y \<longleftrightarrow> f_lt x y \<or> f_eq x y"

definition f_neq :: "f64 \<Rightarrow> f64 \<Rightarrow> bool" where
  "f_neq x y \<longleftrightarrow> \<not> f_eq x y"

definition is_nan :: "f64 \<Rightarrow> bool" where
  "is_nan x \<longleftrightarrow> x = NaN"

definition is_inf :: "f64 \<Rightarrow> bool" where
  "is_inf x \<longleftrightarrow> x = PosInf \<or> x = NegInf"

lemma f_eq_iff: "f_eq x y \<longleftrightarrow> x = y \<and> x \<noteq> NaN"
  by (cases x; cases y) auto

lemma f_neq_self: "f_neq x x \<longleftrightarrow> x = NaN"
  by (simp add: f_neq_def f_eq_iff)

lemma f_lt_irrefl [simp]: "\<not> f_lt x x"
  by (cases x) auto

lemma f_lt_asym: "f_lt x y \<Longrightarrow> \<not> f_lt y x"
  by (cases x; cases y) auto

lemma f_lt_trans: "f_lt x y \<Longrightarrow> f_lt y z \<Longrightarrow> f_lt x z"
  by (cases x; cases y; cases z) auto

lemma f_lt_NaN [simp]: "\<not> f_lt NaN y" "\<not> f_lt x NaN"
  by (cases x; simp)+

lemma f_lt_total: "x \<noteq> NaN \<Longrightarrow> y \<noteq> NaN \<Longrightarrow> f_lt x y \<or> x = y \<or> f_lt y x"
  by (cases x; cases y) auto

lemma f_lt_cotrans: "y \<noteq> NaN \<Longrightarrow> f_lt x z \<Longrightarrow> f_lt x y \<or> f_lt y z"
  by (cases x; cases y; cases z) auto

lemma f_le_iff: "x \<noteq> NaN \<Longrightarrow> y \<noteq> NaN \<Longrightarrow> f_le x y \<longleftrightarrow> \<not> f_lt y x"
  using f_lt_total[of x y] by (auto simp: f_le_def f_eq_iff dest: f_lt_asym)

section \<open>Rounding\<close>

definition pow2 :: "int \<Rightarrow> rat" where
  "pow2 e = (if 0 \<le> e then of_int (2 ^ nat e) else 1 / of_int (2 ^ nat (- e)))"

definition round_even :: "rat \<Rightarrow> int" where
  "round_even x =
     (let n = \<lfloor>x\<rfloor>; d = x - of_int n in
      if d < 1 / 2 then n else if d > 1 / 2 then n + 1 else if even n then n else n + 1)"

text \<open>The exponent of the leading bit of a positive rational.\<close>

definition leading_exponent :: "rat \<Rightarrow> int" where
  "leading_exponent x =
     (case quotient_of x of (p, q) \<Rightarrow>
        let e = bitlen p - bitlen q in if pow2 e \<le> x then e else e - 1)"

definition f_round :: "rat \<Rightarrow> f64" where
  "f_round x =
     (if x = 0 then Fin 0
      else
        let u = max (leading_exponent \<bar>x\<bar> - 52) (-1074);
            m = round_even (\<bar>x\<bar> / pow2 u);
            y = of_int m * pow2 u in
        if u > 971 \<or> u = 971 \<and> m \<ge> 2 ^ 53 then (if x < 0 then NegInf else PosInf)
        else Fin (if x < 0 then - y else y))"

text \<open>A significand of 53 bits with the exponent \<open>u\<close> of its last bit is out of range when the number
  is 2^1024 or more.\<close>

section \<open>Arithmetic\<close>

fun f_neg :: "f64 \<Rightarrow> f64" where
  "f_neg NaN = NaN"
| "f_neg NegInf = PosInf"
| "f_neg PosInf = NegInf"
| "f_neg (Fin a) = Fin (- a)"

fun f_add :: "f64 \<Rightarrow> f64 \<Rightarrow> f64" where
  "f_add NaN y = NaN"
| "f_add x NaN = NaN"
| "f_add (Fin a) (Fin b) = f_round (a + b)"
| "f_add PosInf NegInf = NaN"
| "f_add NegInf PosInf = NaN"
| "f_add PosInf y = PosInf"
| "f_add NegInf y = NegInf"
| "f_add x PosInf = PosInf"
| "f_add x NegInf = NegInf"

definition f_sub :: "f64 \<Rightarrow> f64 \<Rightarrow> f64" where
  "f_sub x y = f_add x (f_neg y)"

definition f_inf :: "bool \<Rightarrow> f64" where
  "f_inf neg = (if neg then NegInf else PosInf)"

fun f_sign :: "f64 \<Rightarrow> int" where
  "f_sign NaN = 0"
| "f_sign NegInf = -1"
| "f_sign PosInf = 1"
| "f_sign (Fin a) = (if a < 0 then -1 else if a = 0 then 0 else 1)"

fun f_mul :: "f64 \<Rightarrow> f64 \<Rightarrow> f64" where
  "f_mul NaN y = NaN"
| "f_mul x NaN = NaN"
| "f_mul (Fin a) (Fin b) = f_round (a * b)"
| "f_mul x y = (if f_sign x * f_sign y = 0 then NaN else f_inf (f_sign x * f_sign y < 0))"

fun f_div :: "f64 \<Rightarrow> f64 \<Rightarrow> f64" where
  "f_div NaN y = NaN"
| "f_div x NaN = NaN"
| "f_div (Fin a) (Fin b) = (if b = 0 then (if a = 0 then NaN else f_inf (a < 0)) else f_round (a / b))"
| "f_div (Fin a) y = Fin 0"
| "f_div x (Fin b) = f_inf (if b < 0 then f_sign x > 0 else f_sign x < 0)"
| "f_div x y = NaN"

definition f_of_int :: "int \<Rightarrow> f64" where
  "f_of_int n = f_round (of_int n)"

text \<open>\<open>math.Min\<close>.\<close>

definition f_min :: "f64 \<Rightarrow> f64 \<Rightarrow> f64" where
  "f_min x y =
     (if x = NegInf \<or> y = NegInf then NegInf
      else if x = NaN \<or> y = NaN then NaN
      else if f_lt x y then x else y)"

lemma pow2_pos [simp]: "0 < pow2 e"
  by (simp add: pow2_def)

lemma round_even_nonneg: "0 \<le> x \<Longrightarrow> 0 \<le> round_even x"
  by (auto simp: round_even_def Let_def)

lemma f_round_0 [simp]: "f_round 0 = Fin 0"
  by (simp add: f_round_def)

lemma f_round_not_NaN [simp]: "f_round x \<noteq> NaN"
  by (simp add: f_round_def Let_def)

lemma f_round_nonneg:
  assumes "0 \<le> x"
  shows "\<not> f_lt (f_round x) (Fin 0)"
proof (cases "x = 0")
  case False
  let ?u = "max (leading_exponent \<bar>x\<bar> - 52) (-1074)"
  have "0 \<le> round_even (\<bar>x\<bar> / pow2 ?u)"
    using round_even_nonneg pow2_pos[of ?u] by (simp add: less_imp_le)
  then have "0 \<le> of_int (round_even (\<bar>x\<bar> / pow2 ?u)) * pow2 ?u"
    using pow2_pos[of ?u] by (simp add: less_imp_le)
  then show ?thesis
    using assms False by (simp add: f_round_def Let_def not_less)
qed simp

lemma f_lt_Fin_0: "\<not> f_lt x (Fin 0) \<longleftrightarrow> x = NaN \<or> x = PosInf \<or> (\<exists>a. x = Fin a \<and> 0 \<le> a)"
  by (cases x) (auto simp: not_less)

lemma f_min_le: "\<not> f_lt y (f_min x y)"
  by (cases x; cases y) (auto simp: f_min_def)

text \<open>Rounding does not pass an integer.\<close>

lemma round_even_le: "x \<le> of_int n \<Longrightarrow> round_even x \<le> n"
proof -
  assume x: "x \<le> of_int n"
  then have f: "\<lfloor>x\<rfloor> \<le> n"
    by (simp add: floor_le_iff)
  show ?thesis
  proof (cases "\<lfloor>x\<rfloor> = n")
    case True
    then have "x = of_int n"
      using x by (metis floor_correct order_antisym)
    then show ?thesis by (simp add: round_even_def)
  next
    case False
    then show ?thesis
      using f by (auto simp: round_even_def Let_def)
  qed
qed

lemma leading_exponent_le:
  assumes "0 < x" "x \<le> of_int n" "n < 2 ^ 53"
  shows "leading_exponent x \<le> 52"
proof -
  obtain p q where pq: "quotient_of x = (p, q)"
    by fastforce
  have q: "0 < q" "x = of_int p / of_int q"
    using quotient_of_denom_pos[OF pq] quotient_of_div[OF pq] by simp_all
  have p: "0 < p"
    using assms(1) q by (simp add: zero_less_divide_iff)
  have xq: "of_int p = x * of_int q"
    using q by simp
  also have "x * of_int q \<le> of_int n * of_int q"
    using assms(2) q(1) by (intro mult_right_mono) simp_all
  finally have "(of_int p :: rat) \<le> of_int (n * q)"
    by simp
  then have "p \<le> n * q"
    by (simp only: of_int_le_iff)
  also have "n * q < 2 ^ 53 * 2 ^ nat (bitlen q)"
  proof -
    have "q < 2 ^ nat (bitlen q)"
      using bitlen_bounds[OF q(1)] by simp
    moreover have "n \<le> 2 ^ 53"
      using assms(3) by simp
    ultimately show ?thesis
      using q(1) assms(3) by (smt (verit) mult_strict_mono mult_right_mono mult_left_mono zero_less_power)
  qed
  also have "\<dots> = 2 ^ (53 + nat (bitlen q))"
    by (simp add: power_add)
  finally have "bitlen p \<le> 53 + bitlen q"
    using bitlen_nonneg[of q] by (simp add: bitlen_le_iff_power nat_add_distrib)
  moreover have "\<not> pow2 53 \<le> x"
    using assms(2,3) by (auto simp: pow2_def not_le intro: le_less_trans)
  ultimately show ?thesis
    by (cases "bitlen p - bitlen q = 53") (auto simp: leading_exponent_def pq Let_def)
qed

lemma f_round_le_int:
  assumes "x \<le> of_int n" "0 \<le> n" "n < 2 ^ 53"
  shows "\<not> f_lt (Fin (of_int n)) (f_round x)"
proof (cases "0 < x")
  case False
  then have "x \<le> 0" by simp
  let ?u = "max (leading_exponent \<bar>x\<bar> - 52) (-1074)"
  have "0 \<le> of_int (round_even (\<bar>x\<bar> / pow2 ?u)) * pow2 ?u"
    using round_even_nonneg[of "\<bar>x\<bar> / pow2 ?u"] pow2_pos[of ?u] by (simp add: less_imp_le)
  moreover have "(0 :: rat) \<le> of_int n"
    using assms(2) by simp
  ultimately show ?thesis
    using \<open>x \<le> 0\<close> by (auto simp: f_round_def Let_def not_less)
next
  case True
  let ?u = "max (leading_exponent \<bar>x\<bar> - 52) (-1074)"
  have u: "?u \<le> 0"
    using leading_exponent_le[OF True assms(1,3)] True by simp
  have p: "pow2 ?u = 1 / of_int (2 ^ nat (- ?u))"
    using u by (cases "?u = 0") (simp_all add: pow2_def)
  have "x / pow2 ?u \<le> of_int (n * 2 ^ nat (- ?u))"
    using assms(1) unfolding p by (simp add: mult_right_mono)
  then have "round_even (\<bar>x\<bar> / pow2 ?u) \<le> n * 2 ^ nat (- ?u)"
    using True by (intro round_even_le) simp
  then have "of_int (round_even (\<bar>x\<bar> / pow2 ?u)) * pow2 ?u \<le> of_int (n * 2 ^ nat (- ?u)) * pow2 ?u"
    by (intro mult_right_mono) (simp_all only: of_int_le_iff less_imp_le pow2_pos)
  also have "\<dots> = of_int n"
    unfolding p by simp
  finally show ?thesis
    using True u by (auto simp: f_round_def Let_def not_less)
qed

lemma f_round_le_1: "x \<le> 1 \<Longrightarrow> \<not> f_lt (Fin 1) (f_round x)"
  using f_round_le_int[of x 1] by simp

lemma f_round_below [simp]: "q \<le> 1 \<Longrightarrow> f_round q \<noteq> PosInf"
  using f_round_le_1[of q] by (cases "f_round q") auto

section \<open>Small integers are exact\<close>

lemma round_even_of_int [simp]: "round_even (of_int n) = n"
  by (simp add: round_even_def)

lemma f_round_int:
  assumes "0 \<le> n" "n < 2 ^ 53"
  shows "f_round (of_int n) = Fin (of_int n)"
proof (cases "n = 0")
  case False
  let ?u = "max (leading_exponent (of_int n) - 52) (-1074)"
  have "leading_exponent (of_int n) \<le> 52"
    using False assms by (intro leading_exponent_le[of _ n]) simp_all
  then have u: "?u \<le> 0"
    by simp
  have p: "pow2 ?u = 1 / of_int (2 ^ nat (- ?u))"
    using u by (cases "?u = 0") (simp_all add: pow2_def)
  have "of_int n / pow2 ?u = (of_int (n * 2 ^ nat (- ?u)) :: rat)"
    unfolding p by simp
  then have r: "round_even (of_int n / pow2 ?u) = n * 2 ^ nat (- ?u)"
    by (simp only: round_even_of_int)
  have "of_int (n * 2 ^ nat (- ?u)) * pow2 ?u = (of_int n :: rat)"
    unfolding p by simp
  moreover have "\<bar>of_int n :: rat\<bar> = of_int n"
    using assms(1) by simp
  moreover have "\<not> 971 < ?u" "?u \<noteq> 971"
    using u by linarith+
  ultimately show ?thesis
    using False assms(1) r by (simp add: f_round_def Let_def)
qed simp

end
