(* ===== verification/Utf8.thy ===== *)
theory Utf8
  imports Prelude
begin

text \<open>
  The part of Go's \<open>unicode/utf8\<close> the code uses: decoding with the replacement rune for a
  byte that starts no valid sequence (width 1), \<open>range\<close> over a string and \<open>[]rune(s)\<close>,
  \<open>ValidString\<close>, \<open>RuneCountInString\<close>, \<open>RuneLen\<close> and the encoder.  Byte offsets of runes are
  the prefix sums of the decoded widths.
\<close>

type_synonym rune = nat

definition byte :: "char \<Rightarrow> nat" where
  "byte c = of_char c"

definition rune_error :: rune where
  "rune_error = 0xFFFD"

definition cont_byte :: "nat \<Rightarrow> bool" where
  "cont_byte b \<longleftrightarrow> 0x80 \<le> b \<and> b \<le> 0xBF"

text \<open>The bounds of the second byte of a three- and four-byte sequence exclude overlong
  forms, surrogates and code points past \<open>U+10FFFF\<close>.\<close>

definition second3 :: "nat \<Rightarrow> nat \<Rightarrow> bool" where
  "second3 b0 b1 \<longleftrightarrow> (if b0 = 0xE0 then 0xA0 else 0x80) \<le> b1 \<and> b1 \<le> (if b0 = 0xED then 0x9F else 0xBF)"

definition second4 :: "nat \<Rightarrow> nat \<Rightarrow> bool" where
  "second4 b0 b1 \<longleftrightarrow> (if b0 = 0xF0 then 0x90 else 0x80) \<le> b1 \<and> b1 \<le> (if b0 = 0xF4 then 0x8F else 0xBF)"

fun decode_rune :: "string \<Rightarrow> rune \<times> nat" where
  "decode_rune [] = (rune_error, 0)"
| "decode_rune (c0 # cs) =
     (let b0 = byte c0 in
      if b0 < 0x80 then (b0, 1)
      else if 0xC2 \<le> b0 \<and> b0 \<le> 0xDF then
        (case cs of
           c1 # _ \<Rightarrow>
             (if cont_byte (byte c1) then ((b0 - 0xC0) * 64 + (byte c1 - 0x80), 2)
              else (rune_error, 1))
         | _ \<Rightarrow> (rune_error, 1))
      else if 0xE0 \<le> b0 \<and> b0 \<le> 0xEF then
        (case cs of
           c1 # c2 # _ \<Rightarrow>
             (if second3 b0 (byte c1) \<and> cont_byte (byte c2)
              then ((b0 - 0xE0) * 4096 + (byte c1 - 0x80) * 64 + (byte c2 - 0x80), 3)
              else (rune_error, 1))
         | _ \<Rightarrow> (rune_error, 1))
      else if 0xF0 \<le> b0 \<and> b0 \<le> 0xF4 then
        (case cs of
           c1 # c2 # c3 # _ \<Rightarrow>
             (if second4 b0 (byte c1) \<and> cont_byte (byte c2) \<and> cont_byte (byte c3)
              then ((b0 - 0xF0) * 262144 + (byte c1 - 0x80) * 4096 + (byte c2 - 0x80) * 64
                      + (byte c3 - 0x80), 4)
              else (rune_error, 1))
         | _ \<Rightarrow> (rune_error, 1))
      else (rune_error, 1))"

declare decode_rune.simps(2) [simp del]

lemma decode_rune_width:
  assumes "s \<noteq> []"
  shows "1 \<le> snd (decode_rune s)" and "snd (decode_rune s) \<le> length s"
proof -
  obtain c cs where s: "s = c # cs"
    using assms by (cases s) auto
  show "1 \<le> snd (decode_rune s)" "snd (decode_rune s) \<le> length s"
    unfolding s decode_rune.simps Let_def by (auto split: list.splits)
qed

function decode_all :: "string \<Rightarrow> (rune \<times> nat) list" where
  "decode_all s = (if s = [] then [] else decode_rune s # decode_all (drop (snd (decode_rune s)) s))"
  by pat_completeness auto
termination
proof (relation "measure length", simp)
  fix s :: string
  assume "s \<noteq> []"
  then show "(drop (snd (decode_rune s)) s, s) \<in> measure length"
    using decode_rune_width(1)[of s] by (cases s) auto
qed

declare decode_all.simps [simp del]

lemma decode_all_Nil [simp]: "decode_all [] = []"
  by (simp add: decode_all.simps)

lemma decode_all_rec:
  "s \<noteq> [] \<Longrightarrow> decode_all s = decode_rune s # decode_all (drop (snd (decode_rune s)) s)"
  by (subst decode_all.simps) simp

lemma decode_all_eq_Nil [simp]: "decode_all s = [] \<longleftrightarrow> s = []"
  by (subst decode_all.simps) simp

text \<open>\<open>[]rune(s)\<close>, \<open>utf8.RuneCountInString\<close>, \<open>utf8.ValidString\<close>.\<close>

definition runes :: "string \<Rightarrow> rune list" where
  "runes s = map fst (decode_all s)"

definition rune_count :: "string \<Rightarrow> nat" where
  "rune_count s = length (runes s)"

definition bad_decode :: "rune \<times> nat \<Rightarrow> bool" where
  "bad_decode d \<longleftrightarrow> d = (rune_error, 1)"

definition valid_string :: "string \<Rightarrow> bool" where
  "valid_string s \<longleftrightarrow> list_all (\<lambda>d. \<not> bad_decode d) (decode_all s)"

text \<open>The offsets \<open>i\<close> of \<open>for i := range s\<close>, starting at \<open>off\<close>.\<close>

fun offsets_from :: "nat \<Rightarrow> nat list \<Rightarrow> nat list" where
  "offsets_from off [] = []"
| "offsets_from off (w # ws) = off # offsets_from (off + w) ws"

definition rune_offsets :: "string \<Rightarrow> nat list" where
  "rune_offsets s = offsets_from 0 (map snd (decode_all s))"

text \<open>\<open>utf8.RuneLen\<close> (-1 for a value that is no code point) and \<open>utf8.AppendRune\<close>.\<close>

definition rune_len :: "rune \<Rightarrow> int" where
  "rune_len r =
     (if r < 0x80 then 1
      else if r < 0x800 then 2
      else if 0xD800 \<le> r \<and> r \<le> 0xDFFF then -1
      else if r < 0x10000 then 3
      else if r \<le> 0x10FFFF then 4
      else -1)"

definition valid_rune :: "rune \<Rightarrow> bool" where
  "valid_rune r \<longleftrightarrow> r < 0xD800 \<or> 0xE000 \<le> r \<and> r \<le> 0x10FFFF"

definition encode_valid :: "rune \<Rightarrow> string" where
  "encode_valid r = map char_of
     (if r < 0x80 then [r]
      else if r < 0x800 then [0xC0 + r div 64, 0x80 + r mod 64]
      else if r < 0x10000 then [0xE0 + r div 4096, 0x80 + r div 64 mod 64, 0x80 + r mod 64]
      else [0xF0 + r div 262144, 0x80 + r div 4096 mod 64, 0x80 + r div 64 mod 64, 0x80 + r mod 64])"

definition encode_rune :: "rune \<Rightarrow> string" where
  "encode_rune r = (if valid_rune r then encode_valid r else encode_valid rune_error)"

section \<open>Widths and offsets\<close>

lemma sum_widths: "sum_list (map snd (decode_all s)) = length s"
proof (induction s rule: decode_all.induct)
  case (1 s)
  show ?case
  proof (cases "s = []")
    case False
    then show ?thesis
      using 1 decode_rune_width(2)[of s] by (simp add: decode_all_rec)
  qed simp
qed

lemma width_pos: "w \<in> set (map snd (decode_all s)) \<Longrightarrow> 1 \<le> w"
proof (induction s rule: decode_all.induct)
  case (1 s)
  then show ?case
    using decode_rune_width(1)[of s] by (cases "s = []") (auto simp: decode_all_rec)
qed

lemma length_offsets_from [simp]: "length (offsets_from off ws) = length ws"
  by (induction ws arbitrary: off) auto

lemma nth_offsets_from:
  "i < length ws \<Longrightarrow> offsets_from off ws ! i = off + sum_list (take i ws)"
  by (induction ws arbitrary: off i) (auto simp: nth_Cons split: nat.splits)

lemma length_rune_offsets [simp]: "length (rune_offsets s) = rune_count s"
  by (simp add: rune_offsets_def rune_count_def runes_def)

lemma rune_count_Nil [simp]: "rune_count [] = 0"
  by (simp add: rune_count_def runes_def)

lemma rune_count_le: "rune_count s \<le> length s"
proof -
  have "length ws \<le> sum_list ws" if "\<forall>w \<in> set ws. (1::nat) \<le> w" for ws
    using that by (induction ws) auto
  then show ?thesis
    using width_pos[of _ s] sum_widths[of s] by (metis length_map rune_count_def runes_def)
qed

lemma rune_count_eq_0 [simp]: "rune_count s = 0 \<longleftrightarrow> s = []"
  by (simp add: rune_count_def runes_def)

section \<open>Round trips\<close>

lemma byte_char_of [simp]: "n < 256 \<Longrightarrow> byte (char_of n) = n"
  by (simp add: byte_def)

lemma char_of_byte [simp]: "char_of (byte c) = c"
  by (simp add: byte_def)

lemma byte_less [simp]: "byte c < 256"
  by (simp add: byte_def)

lemma length_encode_valid: "valid_rune r \<Longrightarrow> int (length (encode_valid r)) = rune_len r"
  by (auto simp: encode_valid_def rune_len_def valid_rune_def)

lemma base64_join [simp]:
  assumes "(b::nat) < 64"
  shows "(x * 64 + b) div 64 = x" and "(x * 64 + b) mod 64 = b"
  using assms by simp_all

lemma base64_split3: "(r::nat) = r div 4096 * 4096 + r div 64 mod 64 * 64 + r mod 64"
proof -
  have "r = r div 64 * 64 + r mod 64" by simp
  moreover have "r div 64 = r div 64 div 64 * 64 + r div 64 mod 64" by simp
  moreover have "r div 64 div 64 = r div 4096" by (simp flip: div_mult2_eq)
  ultimately show ?thesis by linarith
qed

lemma base64_split4:
  "(r::nat) = r div 262144 * 262144 + r div 4096 mod 64 * 4096 + r div 64 mod 64 * 64 + r mod 64"
proof -
  have "r div 4096 = r div 4096 div 64 * 64 + r div 4096 mod 64" by simp
  moreover have "r div 4096 div 64 = r div 262144" by (simp flip: div_mult2_eq)
  ultimately show ?thesis using base64_split3[of r] by linarith
qed

lemma base64_digits3:
  assumes "b < 64" "c < 64" and r: "(r::nat) = a * 4096 + b * 64 + c"
  shows "r div 4096 = a" "r div 64 mod 64 = b" "r mod 64 = c" "r div 64 = a * 64 + b"
proof -
  have r': "r = (a * 64 + b) * 64 + c" using r by simp
  show d: "r div 64 = a * 64 + b" and "r mod 64 = c" unfolding r' using assms(2) by (rule base64_join)+
  show "r div 64 mod 64 = b" unfolding d using assms(1) by (rule base64_join)
  have "r div 4096 = r div 64 div 64" by (simp flip: div_mult2_eq)
  then show "r div 4096 = a" unfolding d using assms(1) by simp
qed

lemma base64_digits4:
  assumes "b < 64" "c < 64" "d < 64" and r: "(r::nat) = a * 262144 + b * 4096 + c * 64 + d"
  shows "r div 262144 = a" "r div 4096 mod 64 = b" "r div 64 mod 64 = c" "r mod 64 = d"
proof -
  have r': "r = (a * 64 + b) * 4096 + c * 64 + d" using r by simp
  note dig = base64_digits3[OF assms(2,3) r']
  show "r div 64 mod 64 = c" "r mod 64 = d" by (rule dig)+
  show "r div 4096 mod 64 = b" unfolding dig(1) using assms(1) by simp
  have "r div 262144 = r div 4096 div 64" by (simp flip: div_mult2_eq)
  then show "r div 262144 = a" unfolding dig(1) using assms(1) by simp
qed

text \<open>Decoding an encoded rune gives it back, and a well-formed sequence is the encoding
  of the rune it decodes to.\<close>

lemma decode_encode:
  assumes "valid_rune r"
  shows "decode_rune (encode_valid r @ t) = (r, length (encode_valid r))"
proof -
  consider "r < 0x80" | "0x80 \<le> r" "r < 0x800" | "0x800 \<le> r" "r < 0x10000"
    | "0x10000 \<le> r" "r \<le> 0x10FFFF"
    using assms by (force simp: valid_rune_def)
  then show ?thesis
  proof cases
    case 1
    then show ?thesis by (simp add: encode_valid_def decode_rune.simps(2))
  next
    case 2
    then have "2 \<le> r div 64" "r div 64 < 32" by simp_all
    with 2 show ?thesis
      by (simp add: encode_valid_def decode_rune.simps(2) cont_byte_def)
  next
    case 3
    define a b c where abc: "a = r div 4096" "b = r div 64 mod 64" "c = r mod 64"
    have r: "r = a * 4096 + b * 64 + c"
      unfolding abc by (rule base64_split3)
    have lt: "a < 16" "b < 64" "c < 64" using 3 by (auto simp: abc)
    have "second3 (0xE0 + a) (0x80 + b)"
      using assms 3 lt unfolding second3_def valid_rune_def r by auto
    moreover have "encode_valid r = map char_of [0xE0 + a, 0x80 + b, 0x80 + c]"
      using 3 by (simp add: encode_valid_def abc)
    ultimately show ?thesis
      using lt by (simp add: decode_rune.simps(2) cont_byte_def r)
  next
    case 4
    define a b c d where abc: "a = r div 262144" "b = r div 4096 mod 64" "c = r div 64 mod 64" "d = r mod 64"
    have r: "r = a * 262144 + b * 4096 + c * 64 + d"
      unfolding abc by (rule base64_split4)
    have lt: "a < 5" "b < 64" "c < 64" "d < 64" using 4 by (auto simp: abc)
    have "second4 (0xF0 + a) (0x80 + b)"
      using assms 4 lt unfolding second4_def valid_rune_def r by auto
    moreover have "encode_valid r = map char_of [0xF0 + a, 0x80 + b, 0x80 + c, 0x80 + d]"
      using 4 by (simp add: encode_valid_def abc)
    ultimately show ?thesis
      using lt by (simp add: decode_rune.simps(2) cont_byte_def r)
  qed
qed

lemma encode_decode:
  assumes "s \<noteq> []" "\<not> bad_decode (decode_rune s)"
  shows "valid_rune (fst (decode_rune s))"
    and "encode_valid (fst (decode_rune s)) = take (snd (decode_rune s)) s"
proof -
  obtain c0 cs where s: "s = c0 # cs" using assms(1) by (cases s) auto
  define b0 where "b0 = byte c0"
  have c0: "c0 = char_of b0" by (simp add: b0_def)
  have lt: "b0 < 256" by (simp add: b0_def)
  let ?G = "valid_rune (fst (decode_rune s)) \<and> encode_valid (fst (decode_rune s)) = take (snd (decode_rune s)) s"
  consider "b0 < 0x80" | "0xC2 \<le> b0" "b0 \<le> 0xDF" | "0xE0 \<le> b0" "b0 \<le> 0xEF" | "0xF0 \<le> b0" "b0 \<le> 0xF4"
    using assms(2) unfolding s decode_rune.simps Let_def b0_def[symmetric]
    by (auto simp: bad_decode_def split: if_splits)
  then have ?G
  proof cases
    case 1
    then show ?thesis by (simp add: s decode_rune.simps(2) b0_def[symmetric] valid_rune_def encode_valid_def c0[symmetric])
  next
    case 2
    then obtain c1 t where cs: "cs = c1 # t" and ok: "cont_byte (byte c1)"
      using assms(2) unfolding s decode_rune.simps Let_def b0_def[symmetric]
      by (auto simp: bad_decode_def split: list.splits if_splits)
    define b1 where "b1 = byte c1 - 0x80"
    have b1: "b1 < 64" "byte c1 = 0x80 + b1" using ok by (auto simp: cont_byte_def b1_def)
    have c1: "c1 = char_of (0x80 + b1)" using b1(2) by (metis char_of_byte)
    define a where "a = b0 - 0xC0"
    have a: "b0 = 0xC0 + a" "2 \<le> a" "a < 32" using 2 by (auto simp: a_def)
    have d: "decode_rune s = (a * 64 + b1, 2)"
      using 2 ok by (simp add: s cs decode_rune.simps(2) b0_def[symmetric] a_def b1_def)
    have "encode_valid (a * 64 + b1) = [c0, c1]"
      using a b1(1) by (simp add: encode_valid_def c0 c1)
    then show ?thesis unfolding d using a b1(1) by (simp add: valid_rune_def s cs)
  next
    case 3
    then obtain c1 c2 t where cs: "cs = c1 # c2 # t"
      and ok: "second3 b0 (byte c1)" "cont_byte (byte c2)"
      using assms(2) unfolding s decode_rune.simps Let_def b0_def[symmetric]
      by (auto simp: bad_decode_def split: list.splits if_splits)
    define b1 b2 where "b1 = byte c1 - 0x80" and "b2 = byte c2 - 0x80"
    have b: "b1 < 64" "byte c1 = 0x80 + b1" "b2 < 64" "byte c2 = 0x80 + b2"
      using ok by (auto simp: cont_byte_def second3_def b1_def b2_def split: if_splits)
    have c12: "c1 = char_of (0x80 + b1)" "c2 = char_of (0x80 + b2)" using b by (metis char_of_byte)+
    define a where "a = b0 - 0xE0"
    have a: "b0 = 0xE0 + a" "a < 16" using 3 by (auto simp: a_def)
    have d: "decode_rune s = (a * 4096 + b1 * 64 + b2, 3)"
      using 3 ok by (simp add: s cs decode_rune.simps(2) b0_def[symmetric] a_def b1_def b2_def)
    have rng: "0x800 \<le> a * 4096 + b1 * 64 + b2" "a * 4096 + b1 * 64 + b2 < 0x10000"
      "valid_rune (a * 4096 + b1 * 64 + b2)"
      using ok(1) a b unfolding second3_def valid_rune_def by (auto split: if_splits)
    note dig = base64_digits3[OF b(1,3) refl[of "a * 4096 + b1 * 64 + b2"]]
    have "encode_valid (a * 4096 + b1 * 64 + b2) = [c0, c1, c2]"
      using rng(1,2) a b dig by (simp add: encode_valid_def c0 c12)
    then show ?thesis unfolding d using rng by (simp add: s cs)
  next
    case 4
    then obtain c1 c2 c3 t where cs: "cs = c1 # c2 # c3 # t"
      and ok: "second4 b0 (byte c1)" "cont_byte (byte c2)" "cont_byte (byte c3)"
      using assms(2) unfolding s decode_rune.simps Let_def b0_def[symmetric]
      by (auto simp: bad_decode_def split: list.splits if_splits)
    define b1 b2 b3 where "b1 = byte c1 - 0x80" and "b2 = byte c2 - 0x80" and "b3 = byte c3 - 0x80"
    have b: "b1 < 64" "byte c1 = 0x80 + b1" "b2 < 64" "byte c2 = 0x80 + b2" "b3 < 64" "byte c3 = 0x80 + b3"
      using ok by (auto simp: cont_byte_def second4_def b1_def b2_def b3_def split: if_splits)
    have c12: "c1 = char_of (0x80 + b1)" "c2 = char_of (0x80 + b2)" "c3 = char_of (0x80 + b3)"
      using b by (metis char_of_byte)+
    define a where "a = b0 - 0xF0"
    have a: "b0 = 0xF0 + a" "a < 5" using 4 by (auto simp: a_def)
    define r where "r = a * 262144 + b1 * 4096 + b2 * 64 + b3"
    have d: "decode_rune s = (r, 4)"
      using 4 ok by (simp add: s cs decode_rune.simps(2) b0_def[symmetric] a_def b1_def b2_def b3_def r_def)
    have rng: "0x10000 \<le> r" "valid_rune r"
      using ok(1) a b unfolding second4_def valid_rune_def r_def by (auto split: if_splits)
    note dig = base64_digits4[OF b(1,3,5) r_def]
    have "encode_valid r = [c0, c1, c2, c3]"
      using rng(1) a b dig by (simp add: encode_valid_def c0 c12)
    then show ?thesis unfolding d using rng by (simp add: s cs)
  qed
  then show "valid_rune (fst (decode_rune s))"
    and "encode_valid (fst (decode_rune s)) = take (snd (decode_rune s)) s" by auto
qed


lemma valid_rune_error [simp]: "valid_rune rune_error"
  by (simp add: valid_rune_def rune_error_def)

lemma encode_rune_valid [simp]: "valid_rune r \<Longrightarrow> encode_rune r = encode_valid r"
  by (simp add: encode_rune_def)

lemma encode_valid_nonempty [simp]: "encode_valid r \<noteq> []"
  by (simp add: encode_valid_def)

lemma encode_rune_nonempty [simp]: "encode_rune r \<noteq> []"
  by (simp add: encode_rune_def)

text \<open>An encoding is never taken for a decoding failure: the replacement rune itself has
  width 3.\<close>

lemma encode_not_bad: "valid_rune r \<Longrightarrow> \<not> bad_decode (r, length (encode_valid r))"
  by (auto simp: bad_decode_def encode_valid_def rune_error_def split: if_splits)

lemma decode_all_encode:
  "valid_rune r \<Longrightarrow> decode_all (encode_valid r @ t) = (r, length (encode_valid r)) # decode_all t"
  by (subst decode_all_rec) (simp_all add: decode_encode)

definition encode_all :: "rune list \<Rightarrow> string" where
  "encode_all rs = concat (map encode_rune rs)"

lemma encode_all_simps [simp]:
  "encode_all [] = []"
  "encode_all (r # rs) = encode_rune r @ encode_all rs"
  "encode_all (rs @ rs') = encode_all rs @ encode_all rs'"
  by (simp_all add: encode_all_def)

lemma decode_all_encode_all:
  "list_all valid_rune rs \<Longrightarrow>
     decode_all (encode_all rs @ t) = map (\<lambda>r. (r, length (encode_rune r))) rs @ decode_all t"
  by (induction rs) (simp_all add: decode_all_encode)

text \<open>The two round trips between text and runes.\<close>

lemma runes_encode_all: "list_all valid_rune rs \<Longrightarrow> runes (encode_all rs) = rs"
  using decode_all_encode_all[of rs "[]"] by (simp add: runes_def comp_def)

lemma valid_encode_all: "list_all valid_rune rs \<Longrightarrow> valid_string (encode_all rs)"
proof -
  have "list_all (\<lambda>r. \<not> bad_decode (r, length (encode_rune r))) rs" if "list_all valid_rune rs"
    using that encode_not_bad by (induction rs) auto
  then show "list_all valid_rune rs \<Longrightarrow> valid_string (encode_all rs)"
    using decode_all_encode_all[of rs "[]"] by (simp add: valid_string_def list_all_iff)
qed

lemma valid_string_runes:
  "valid_string s \<Longrightarrow> list_all valid_rune (runes s) \<and> encode_all (runes s) = s"
proof (induction s rule: decode_all.induct)
  case (1 s)
  show ?case
  proof (cases "s = []")
    case True
    then show ?thesis by (simp add: runes_def)
  next
    case False
    have ok: "\<not> bad_decode (decode_rune s)" "valid_string (drop (snd (decode_rune s)) s)"
      using "1.prems" False by (simp_all add: valid_string_def decode_all_rec)
    have "runes s = fst (decode_rune s) # runes (drop (snd (decode_rune s)) s)"
      using False by (simp add: runes_def decode_all_rec)
    then show ?thesis
      using "1.IH"[OF False ok(2)] encode_decode[OF False ok(1)] by simp
  qed
qed

lemma runes_valid: "valid_string s \<Longrightarrow> list_all valid_rune (runes s)"
  and encode_runes: "valid_string s \<Longrightarrow> encode_all (runes s) = s"
  using valid_string_runes by auto

lemma valid_string_iff: "valid_string s \<longleftrightarrow> (\<exists>rs. list_all valid_rune rs \<and> s = encode_all rs)"
  using valid_string_runes valid_encode_all by metis

lemma valid_string_Nil [simp]: "valid_string []"
  by (simp add: valid_string_def)

lemma decode_all_append:
  "valid_string a \<Longrightarrow> decode_all (a @ b) = decode_all a @ decode_all b"
  using decode_all_encode_all[of "runes a" b] decode_all_encode_all[of "runes a" "[]"]
    valid_string_runes[of a] by simp

lemma valid_string_append:
  "valid_string a \<Longrightarrow> valid_string (a @ b) \<longleftrightarrow> valid_string b"
  by (simp add: valid_string_def decode_all_append)

lemma runes_append: "valid_string a \<Longrightarrow> runes (a @ b) = runes a @ runes b"
  by (simp add: runes_def decode_all_append)

section \<open>Rune boundaries of a valid text\<close>

definition byte_offset :: "rune list \<Rightarrow> nat \<Rightarrow> nat" where
  "byte_offset rs i = length (encode_all (take i rs))"

lemma byte_offset_0 [simp]: "byte_offset rs 0 = 0"
  by (simp add: byte_offset_def)

lemma byte_offset_mono: "i \<le> j \<Longrightarrow> byte_offset rs i \<le> byte_offset rs j"
  using append_take_drop_id[of i "take j rs"]
  by (metis byte_offset_def encode_all_simps(3) le_add1 length_append min.absorb1 take_take)

lemma byte_offset_strict:
  assumes "i < j" "j \<le> length rs"
  shows "byte_offset rs i < byte_offset rs j"
proof -
  have "take (Suc i) rs = take i rs @ [rs ! i]"
    using assms by (simp add: take_Suc_conv_app_nth)
  then have "byte_offset rs i < byte_offset rs (Suc i)"
    by (simp add: byte_offset_def)
  then show ?thesis
    using byte_offset_mono[of "Suc i" j rs] assms by simp
qed

lemma byte_offset_le: "byte_offset rs i \<le> length (encode_all rs)"
  by (metis append_take_drop_id byte_offset_def encode_all_simps(3) le_add1 length_append)

lemma byte_offset_length: "length rs \<le> i \<Longrightarrow> byte_offset rs i = length (encode_all rs)"
  by (simp add: byte_offset_def)

lemma rune_offsets_nth:
  assumes "valid_string s" "i < rune_count s"
  shows "rune_offsets s ! i = byte_offset (runes s) i"
proof -
  have "map snd (decode_all s) = map (length \<circ> encode_rune) (runes s)"
    using decode_all_encode_all[of "runes s" "[]"] valid_string_runes[OF assms(1)] by simp
  then show ?thesis
    using assms(2)
    by (simp add: rune_offsets_def nth_offsets_from byte_offset_def encode_all_def length_concat
        take_map rune_count_def comp_def)
qed

text \<open>Cutting a valid text at two rune boundaries gives the text of the runes in between.\<close>

lemma slice_at_boundaries:
  assumes "valid_string s" "i \<le> j"
  shows "slice s (int (byte_offset (runes s) i)) (int (byte_offset (runes s) j))
    = encode_all (drop i (take j (runes s)))"
proof -
  define rs where "rs = runes s"
  have s: "s = encode_all rs"
    using encode_runes[OF assms(1)] by (simp add: rs_def)
  have tj: "take j rs = take i rs @ drop i (take j rs)"
    using assms(2) by (metis append_take_drop_id min.absorb1 take_take)
  have "s = encode_all (take i rs) @ encode_all (drop i (take j rs)) @ encode_all (drop j rs)"
    unfolding s using tj by (metis append.assoc append_take_drop_id encode_all_simps(3))
  moreover have "int (byte_offset rs j) =
      int (length (encode_all (take i rs))) + int (length (encode_all (drop i (take j rs))))"
    unfolding byte_offset_def by (subst tj) simp
  ultimately show ?thesis
    using slice_mid[of "encode_all (take i rs)" "encode_all (drop i (take j rs))"]
    by (metis byte_offset_def rs_def)
qed

lemma valid_slice_at_boundaries:
  assumes "valid_string s" "i \<le> j"
  shows "valid_string (slice s (int (byte_offset (runes s) i)) (int (byte_offset (runes s) j)))"
  unfolding slice_at_boundaries[OF assms]
proof (rule valid_encode_all)
  show "list_all valid_rune (drop i (take j (runes s)))"
    using runes_valid[OF assms(1)] by (auto simp: list_all_iff dest: in_set_dropD in_set_takeD)
qed

end
