(* ===== verification/Pii.thy ===== *)
theory Pii
  imports Floats Utf8
begin

text \<open>
  The data of the packages \<open>internal/pii\<close> and \<open>internal/entity\<close>: the two vocabularies of
  entity types (the detectors' \<open>etype\<close> and the tokens' \<open>pii_kind\<close>), spans, replacements,
  token mappings, sessions and policies, with the source's field order.  String constants
  of a Go string type are a datatype with the function that gives the string.  The
  \<open>Metadata\<close> field of \<open>pii.Entity\<close>, which no code reads or writes, is left out.
\<close>

section \<open>Kinds of personal data\<close>

datatype pii_kind =
    PIIKindFullName | PIIKindFirstName | PIIKindLastName
  | PIIKindMiddleName | PIIKindAddress | PIIKindCity
  | PIIKindStreet | PIIKindHouse | PIIKindApartment
  | PIIKindBirthPlace | PIIKindCitizenship | PIIKindPassportIssuer
  | PIIKindCardHolderName | PIIKindEmail | PIIKindPhone
  | PIIKindINN | PIIKindBankCard | PIIKindPassport
  | PIIKindPassportDivision | PIIKindDate | PIIKindDriverLicense
  | PIIKindCVV | PIIKindPIN | PIIKindPostalCode
  | PIIKindCountry | PIIKindRegion | PIIKindDistrict

fun kind_name :: "pii_kind \<Rightarrow> string" where
  "kind_name PIIKindFullName = ''full_name''"
| "kind_name PIIKindFirstName = ''first_name''"
| "kind_name PIIKindLastName = ''last_name''"
| "kind_name PIIKindMiddleName = ''patronymic''"
| "kind_name PIIKindAddress = ''address''"
| "kind_name PIIKindCity = ''city''"
| "kind_name PIIKindStreet = ''street''"
| "kind_name PIIKindHouse = ''house''"
| "kind_name PIIKindApartment = ''apartment''"
| "kind_name PIIKindBirthPlace = ''place_of_birth''"
| "kind_name PIIKindCitizenship = ''citizenship''"
| "kind_name PIIKindPassportIssuer = ''passport_issuer''"
| "kind_name PIIKindCardHolderName = ''cardholder_name''"
| "kind_name PIIKindEmail = ''email''"
| "kind_name PIIKindPhone = ''phone''"
| "kind_name PIIKindINN = ''inn''"
| "kind_name PIIKindBankCard = ''card''"
| "kind_name PIIKindPassport = ''passport''"
| "kind_name PIIKindPassportDivision = ''department_code''"
| "kind_name PIIKindDate = ''date''"
| "kind_name PIIKindDriverLicense = ''driver_license''"
| "kind_name PIIKindCVV = ''cvv''"
| "kind_name PIIKindPIN = ''pin''"
| "kind_name PIIKindPostalCode = ''postal_code''"
| "kind_name PIIKindCountry = ''country''"
| "kind_name PIIKindRegion = ''region''"
| "kind_name PIIKindDistrict = ''district''"

definition kinds_list :: "pii_kind list" where
  "kinds_list =
    [PIIKindFullName, PIIKindFirstName, PIIKindLastName,
     PIIKindMiddleName, PIIKindAddress, PIIKindCity,
     PIIKindStreet, PIIKindHouse, PIIKindApartment,
     PIIKindBirthPlace, PIIKindCitizenship, PIIKindPassportIssuer,
     PIIKindCardHolderName, PIIKindEmail, PIIKindPhone,
     PIIKindINN, PIIKindBankCard, PIIKindPassport,
     PIIKindPassportDivision, PIIKindDate, PIIKindDriverLicense,
     PIIKindCVV, PIIKindPIN, PIIKindPostalCode,
     PIIKindCountry, PIIKindRegion, PIIKindDistrict]"

text \<open>The conversion \<open>pii.PIIKind(k)\<close> of a string followed by the check that the kind is one of
  the constants: \<open>None\<close> for a string that is no known kind.\<close>

definition kind_of_string :: "string \<Rightarrow> pii_kind option" where
  "kind_of_string s = find (\<lambda>k. kind_name k = s) kinds_list"

lemma kinds_list_complete: "k \<in> set kinds_list"
  by (cases k) (simp_all add: kinds_list_def)

lemma kind_of_name [simp]: "kind_of_string (kind_name k) = Some k"
  by (cases k) (simp_all add: kind_of_string_def kinds_list_def)

lemma kind_name_inj: "kind_name k = kind_name l \<longleftrightarrow> k = l"
  by (metis kind_of_name option.inject)

lemma kind_of_string_Some: "kind_of_string s = Some k \<longleftrightarrow> s = kind_name k"
proof
  assume "kind_of_string s = Some k"
  then show "s = kind_name k"
    by (auto simp: kind_of_string_def find_Some_iff)
qed simp

text \<open>Kinds are compared as strings.\<close>

instantiation pii_kind :: linorder
begin

definition less_eq_pii_kind :: "pii_kind \<Rightarrow> pii_kind \<Rightarrow> bool" where
  "less_eq_pii_kind k l \<longleftrightarrow> kind_name k \<le> kind_name l"

definition less_pii_kind :: "pii_kind \<Rightarrow> pii_kind \<Rightarrow> bool" where
  "less_pii_kind k l \<longleftrightarrow> kind_name k < kind_name l"

instance
proof
  fix x y z :: pii_kind
  show "x < y \<longleftrightarrow> x \<le> y \<and> \<not> y \<le> x"
    unfolding less_eq_pii_kind_def less_pii_kind_def by (rule less_le_not_le)
  show "x \<le> x"
    unfolding less_eq_pii_kind_def by (rule order_refl)
  show "x \<le> y \<Longrightarrow> y \<le> z \<Longrightarrow> x \<le> z"
    unfolding less_eq_pii_kind_def by (rule order_trans)
  show "x \<le> y \<Longrightarrow> y \<le> x \<Longrightarrow> x = y"
    unfolding less_eq_pii_kind_def by (metis order_antisym kind_name_inj)
  show "x \<le> y \<or> y \<le> x"
    unfolding less_eq_pii_kind_def by (rule linear)
qed

end

section \<open>Spans, replacements, sessions, policies\<close>

datatype source = SourceML | SourceReg

fun source_name :: "source \<Rightarrow> string" where
  "source_name SourceML = ''ml''"
| "source_name SourceReg = ''regex''"

lemma source_name_inj: "source_name s = source_name t \<longleftrightarrow> s = t"
  by (cases s; cases t) simp_all

instantiation source :: linorder
begin

definition less_eq_source :: "source \<Rightarrow> source \<Rightarrow> bool" where
  "less_eq_source s t \<longleftrightarrow> source_name s \<le> source_name t"

definition less_source :: "source \<Rightarrow> source \<Rightarrow> bool" where
  "less_source s t \<longleftrightarrow> source_name s < source_name t"

instance
proof
  fix x y z :: source
  show "x < y \<longleftrightarrow> x \<le> y \<and> \<not> y \<le> x"
    unfolding less_eq_source_def less_source_def by (rule less_le_not_le)
  show "x \<le> x"
    unfolding less_eq_source_def by (rule order_refl)
  show "x \<le> y \<Longrightarrow> y \<le> z \<Longrightarrow> x \<le> z"
    unfolding less_eq_source_def by (rule order_trans)
  show "x \<le> y \<Longrightarrow> y \<le> x \<Longrightarrow> x = y"
    unfolding less_eq_source_def by (metis order_antisym source_name_inj)
  show "x \<le> y \<or> y \<le> x"
    unfolding less_eq_source_def by (rule linear)
qed

end

record pii_entity =
  e_kind :: pii_kind
  e_start :: int
  e_end :: int
  e_conf :: f64
  e_source :: source

record replacement =
  r_start :: int
  r_end :: int
  r_token :: string
  r_original :: string
  r_kind :: pii_kind
  r_source :: source
  r_conf :: f64

record token_mapping =
  m_token :: string
  m_original :: string
  m_kind :: pii_kind
  m_source :: source
  m_start :: int
  m_end :: int

datatype session_status = PROCESSING | READY | FAILED

text \<open>Times are nanoseconds; the zero \<open>time.Time\<close> of \<open>ExpiresAt\<close> is \<open>None\<close>.  A request's mask kinds
  stay the strings it sent.\<close>

record session =
  payload_id :: string
  payload_hash :: "nat list"
  mappings :: "token_mapping list"
  status :: session_status
  created_at :: int
  expires_at :: "int option"
  mask_kinds_set :: bool
  mask_kinds :: "string list"

record policy =
  allowed_kinds :: "pii_kind \<Rightarrow> bool"
  detokenization_allowed :: bool
  min_confidence :: f64
  masking_strategy :: string
  allow_partial_result :: bool

section \<open>The rule engine's entities\<close>

datatype etype =
    FULL_NAME | BIRTH_DATE | BIRTH_PLACE | PASSPORT | CITIZENSHIP
  | PASSPORT_ISSUER | DEPARTMENT_CODE | PASSPORT_ISSUE_DATE | DRIVER_LICENSE | ADDRESS
  | EMAIL | PHONE | INN | CARD_NUMBER | CVV
  | PIN | CARDHOLDER_NAME | COUNTRY | REGION | DISTRICT
  | CITY | STREET | HOUSE | APARTMENT | POSTAL_CODE

definition all_types :: "etype list" where
  "all_types =
    [FULL_NAME, BIRTH_DATE, BIRTH_PLACE, PASSPORT, CITIZENSHIP,
     PASSPORT_ISSUER, DEPARTMENT_CODE, PASSPORT_ISSUE_DATE, DRIVER_LICENSE, ADDRESS,
     EMAIL, PHONE, INN, CARD_NUMBER, CVV,
     PIN, CARDHOLDER_NAME, COUNTRY, REGION, DISTRICT,
     CITY, STREET, HOUSE, APARTMENT, POSTAL_CODE]"

datatype esource = SourceRegex | SourceChecksum | SourceDictionary | SourceContext | SourceFormat

record candidate_span =
  c_type :: etype
  c_text :: string
  c_start :: int
  c_end :: int
  c_score :: f64
  c_sources :: "esource list"
  c_reason :: string
  c_contextual :: bool

record entity =
  ent_type :: etype
  ent_text :: string
  ent_start :: int
  ent_end :: int
  ent_score :: f64
  ent_reason :: string

text \<open>The loop over the sources collects three flags.\<close>

fun evidence_flags :: "bool \<times> bool \<times> bool \<Rightarrow> esource list \<Rightarrow> bool \<times> bool \<times> bool" where
  "evidence_flags flags [] = flags"
| "evidence_flags (has_checksum, has_context, has_dict) (s # ss) =
     (case s of
        SourceChecksum \<Rightarrow> evidence_flags (True, has_context, has_dict) ss
      | SourceContext \<Rightarrow> evidence_flags (has_checksum, True, has_dict) ss
      | SourceDictionary \<Rightarrow> evidence_flags (has_checksum, has_context, True) ss
      | _ \<Rightarrow> evidence_flags (has_checksum, has_context, has_dict) ss)"

definition evidence_strength :: "candidate_span \<Rightarrow> int" where
  "evidence_strength c =
     (case evidence_flags (False, False, False) (c_sources c) of
        (has_checksum, has_context, has_dict) \<Rightarrow>
          if has_checksum \<and> has_context then 5
          else if has_checksum then 4
          else if has_dict \<and> has_context then 3
          else if has_dict then 2
          else if has_context then 2
          else 1)"

lemma evidence_flags_eq:
  "evidence_flags (a, b, d) ss =
     (a \<or> SourceChecksum \<in> set ss, b \<or> SourceContext \<in> set ss, d \<or> SourceDictionary \<in> set ss)"
  by (induction ss arbitrary: a b d) (auto split: esource.split)

lemma all_types_complete: "t \<in> set all_types"
  by (cases t) (simp_all add: all_types_def)

end
