(* ===== verification/Allocator.thy ===== *)
theory Allocator
  imports Pii
begin

text \<open>
  \<open>internal/tokenizer/allocator.go\<close>: tokens \<open><KIND_n>\<close> for the values of one text.  The same
  value of the same kind gets the same token, the counter of a kind skips every token
  that occurs in the text already.  A missing counter is 0, a missing mapping is \<open>None\<close>.
  The search loop has no bound in the code; it ends because tokens with different numbers
  occur at different places of the text, so at most \<open>length text\<close> of them are taken.
\<close>

record allocator =
  a_text :: string
  a_counters :: "pii_kind \<Rightarrow> nat"
  a_mappings :: "pii_kind \<Rightarrow> string \<Rightarrow> string option"

definition new_allocator :: "string \<Rightarrow> allocator" where
  "new_allocator text = \<lparr>a_text = text, a_counters = (\<lambda>_. 0), a_mappings = (\<lambda>_ _. None)\<rparr>"

text \<open>\<open>strings.ToUpper\<close> on the ASCII names of the kinds.\<close>

definition upper_char :: "char \<Rightarrow> char" where
  "upper_char c = (if CHR ''a'' \<le> c \<and> c \<le> CHR ''z'' then char_of (of_char c - (32::nat)) else c)"

definition lower_char :: "char \<Rightarrow> char" where
  "lower_char c = (if CHR ''A'' \<le> c \<and> c \<le> CHR ''Z'' then char_of (of_char c + (32::nat)) else c)"

definition token_prefix :: "pii_kind \<Rightarrow> string" where
  "token_prefix kind = map upper_char (kind_name kind)"

definition token_of :: "pii_kind \<Rightarrow> nat \<Rightarrow> string" where
  "token_of kind n = CHR ''<'' # token_prefix kind @ CHR ''_'' # show_nat n @ [CHR ''>'']"

section \<open>The shape of tokens\<close>

definition is_upper_char :: "char \<Rightarrow> bool" where
  "is_upper_char c \<longleftrightarrow> CHR ''A'' \<le> c \<and> c \<le> CHR ''Z'' \<or> c = CHR ''_''"

lemma token_prefix_chars: "list_all is_upper_char (token_prefix k)"
  by (cases k) (simp_all add: token_prefix_def upper_char_def is_upper_char_def less_eq_char_def)

lemma token_prefix_nonempty [simp]: "token_prefix k \<noteq> []"
  by (cases k) (simp_all add: token_prefix_def)

lemma lower_upper_char:
  assumes "CHR ''a'' \<le> c \<and> c \<le> CHR ''z'' \<or> c = CHR ''_''"
  shows "lower_char (upper_char c) = c"
  using assms by (auto simp: lower_char_def upper_char_def less_eq_char_def)

lemma kind_name_chars:
  "list_all (\<lambda>c. CHR ''a'' \<le> c \<and> c \<le> CHR ''z'' \<or> c = CHR ''_'') (kind_name k)"
  by (cases k) (simp_all add: less_eq_char_def)

lemma lower_token_prefix: "map lower_char (token_prefix k) = kind_name k"
proof -
  have "lower_char (upper_char c) = c" if "c \<in> set (kind_name k)" for c
    using that kind_name_chars[of k] lower_upper_char[of c] unfolding list_all_iff by blast
  then show ?thesis
    unfolding token_prefix_def map_map comp_def by (rule map_idI)
qed

lemma token_prefix_inj: "token_prefix k = token_prefix l \<longleftrightarrow> k = l"
  by (metis kind_name_inj lower_token_prefix)

lemma show_nat_no_special:
  "CHR ''_'' \<notin> set (show_nat n)" "CHR ''<'' \<notin> set (show_nat n)" "CHR ''>'' \<notin> set (show_nat n)"
  using show_nat_digits[of n] by (auto simp: list_all_iff is_digit_char_def less_eq_char_def)

lemma token_prefix_no_special:
  "CHR ''<'' \<notin> set (token_prefix k)" "CHR ''>'' \<notin> set (token_prefix k)"
  using token_prefix_chars[of k] by (auto simp: list_all_iff is_upper_char_def less_eq_char_def)

lemma token_of_neq_Nil [simp]: "token_of k n \<noteq> []"
  by (simp add: token_of_def)

text \<open>A token is determined by its end: no token is a proper prefix of another.\<close>

lemma append_sep_inj:
  "c \<notin> set a \<Longrightarrow> c \<notin> set b \<Longrightarrow> a @ c # x = b @ c # y \<longleftrightarrow> a = b \<and> x = y"
proof (induction a arbitrary: b)
  case Nil
  then show ?case by (cases b) auto
next
  case (Cons d a)
  then show ?case by (cases b) auto
qed

lemma append_last_sep_inj:
  assumes "c \<notin> set x" "c \<notin> set y"
  shows "a @ c # x = b @ c # y \<longleftrightarrow> a = b \<and> x = y"
  using append_sep_inj[of c "rev x" "rev y" "rev a" "rev b"] assms
  by (metis append.assoc append_Cons append_Nil rev_append rev_is_rev_conv rev_rev_ident
      rev_singleton_conv set_rev rev.simps(2))

lemma token_of_prefix_inj:
  assumes "token_of k m @ s = token_of l n @ t"
  shows "k = l \<and> m = n"
proof -
  let ?u = "CHR ''_''" and ?g = "CHR ''>''"
  have "(token_prefix k @ ?u # show_nat m) @ ?g # s = (token_prefix l @ ?u # show_nat n) @ ?g # t"
    using assms by (simp add: token_of_def)
  then have "token_prefix k @ ?u # show_nat m = token_prefix l @ ?u # show_nat n"
    by (subst (asm) append_sep_inj) (simp_all add: token_prefix_no_special show_nat_no_special)
  then show ?thesis
    by (simp add: append_last_sep_inj show_nat_no_special token_prefix_inj show_nat_inj)
qed

lemma token_of_inj: "token_of k m = token_of l n \<longleftrightarrow> k = l \<and> m = n"
  using token_of_prefix_inj[of k m "[]" l n "[]"] by auto

section \<open>The search for a free number\<close>

definition taken :: "string \<Rightarrow> pii_kind \<Rightarrow> nat set" where
  "taken text kind = {m. contains text (token_of kind m)}"

lemma str_index_has_prefix: "str_index s p = Some i \<Longrightarrow> has_prefix (drop i s) p \<and> i \<le> length s"
  by (induction s p arbitrary: i rule: str_index.induct) (auto split: if_splits)

lemma taken_bound: "finite (taken text kind) \<and> card (taken text kind) \<le> length text"
proof -
  define pos where "pos = (\<lambda>m. the (str_index text (token_of kind m)))"
  have pre: "has_prefix (drop (pos m) text) (token_of kind m)" if "m \<in> taken text kind" for m
    using that str_index_has_prefix[of "text" "token_of kind m"]
    by (auto simp: taken_def contains_def pos_def)
  have inj: "inj_on pos (taken text kind)"
  proof (rule inj_onI)
    fix m n assume mn: "m \<in> taken text kind" "n \<in> taken text kind" "pos m = pos n"
    obtain s where s: "drop (pos m) text = token_of kind m @ s"
      using pre[OF mn(1)] unfolding has_prefix_iff by blast
    obtain t where t: "drop (pos n) text = token_of kind n @ t"
      using pre[OF mn(2)] unfolding has_prefix_iff by blast
    show "m = n"
      using token_of_prefix_inj[of kind m s kind n t] s t mn(3) by simp
  qed
  have sub: "pos ` taken text kind \<subseteq> {..<length text}"
  proof clarsimp
    fix m assume "m \<in> taken text kind"
    then show "pos m < length text"
      using pre[of m] by (cases "pos m < length text") (auto simp: has_prefix_iff)
  qed
  show ?thesis
    using inj sub by (metis card_inj_on_le card_lessThan finite_lessThan inj_on_finite)
qed

text \<open>The loop, from the counter's value: increment, format, test.\<close>

function alloc_loop :: "string \<Rightarrow> pii_kind \<Rightarrow> nat \<Rightarrow> nat \<times> string" where
  "alloc_loop text kind n =
     (let n' = n + 1; token = token_of kind n' in
      if \<not> contains text token then (n', token) else alloc_loop text kind n')"
  by pat_completeness auto
termination
proof (relation "measure (\<lambda>(text, kind, n). card (taken text kind \<inter> {n<..}))", simp)
  fix s kind and n n' :: nat and tok
  assume n': "n' = n + 1" and tok: "tok = token_of kind n'" and "\<not> \<not> contains s tok"
  then have "n' \<in> taken s kind"
    by (simp add: taken_def)
  then have "taken s kind \<inter> {n'<..} \<subset> taken s kind \<inter> {n<..}"
    using n' by auto
  then show "((s, kind, n'), s, kind, n) \<in> measure (\<lambda>(text, kind, n). card (taken text kind \<inter> {n<..}))"
    using taken_bound[of s kind] by (simp add: psubset_card_mono)
qed

declare alloc_loop.simps [simp del]

definition allocate :: "allocator \<Rightarrow> pii_kind \<Rightarrow> string \<Rightarrow> string \<times> allocator" where
  "allocate a kind value =
     (case a_mappings a kind value of
        Some token \<Rightarrow> (token, a)
      | None \<Rightarrow>
          (case alloc_loop (a_text a) kind (a_counters a kind) of
             (n, token) \<Rightarrow>
               (token, a\<lparr>a_counters := (a_counters a)(kind := n),
                         a_mappings := (a_mappings a)(kind := (a_mappings a kind)(value \<mapsto> token))\<rparr>)))"

lemma alloc_loop_spec:
  assumes "alloc_loop text kind n = (m, token)"
  shows "n < m \<and> token = token_of kind m \<and> \<not> contains text token
    \<and> (\<forall>i. n < i \<and> i < m \<longrightarrow> contains text (token_of kind i))"
  using assms
proof (induction "text" kind n rule: alloc_loop.induct)
  case (1 s k i)
  show ?case
  proof (cases "contains s (token_of k (i + 1))")
    case False
    with "1.prems" show ?thesis
      unfolding alloc_loop.simps[of s k i] by (auto simp: Let_def)
  next
    case True
    with "1.prems" have rest: "alloc_loop s k (i + 1) = (m, token)"
      unfolding alloc_loop.simps[of s k i] by (simp add: Let_def)
    have IH: "i + 1 < m \<and> token = token_of k m \<and> \<not> contains s token
        \<and> (\<forall>j. i + 1 < j \<and> j < m \<longrightarrow> contains s (token_of k j))"
      using "1.IH"[OF refl refl] True rest by blast
    have "contains s (token_of k j)" if "i < j" "j < m" for j
      using IH that True by (cases "j = i + 1") auto
    then show ?thesis using IH by auto
  qed
qed

lemma alloc_loop_tries:
  assumes "alloc_loop text kind n = (m, token)"
  shows "m \<le> n + length text + 1"
proof -
  have "{n<..<m} \<subseteq> taken text kind"
    using alloc_loop_spec[OF assms] by (auto simp: taken_def)
  then have "card {n<..<m} \<le> length text"
    using taken_bound[of "text" kind] card_mono le_trans by blast
  then show ?thesis by simp
qed

section \<open>The invariant of an allocator\<close>

text \<open>Every recorded token is a numbered token of its kind, within the counter, absent from
  the text, and recorded for one value only.\<close>

definition alloc_inv :: "allocator \<Rightarrow> bool" where
  "alloc_inv a \<longleftrightarrow> (\<forall>k v t. a_mappings a k v = Some t \<longrightarrow>
      (\<exists>n. 1 \<le> n \<and> n \<le> a_counters a k \<and> t = token_of k n) \<and> \<not> contains (a_text a) t
      \<and> (\<forall>k' v'. a_mappings a k' v' = Some t \<longrightarrow> k' = k \<and> v' = v))"

lemma alloc_inv_new [simp]: "alloc_inv (new_allocator text)"
  by (simp add: alloc_inv_def new_allocator_def)

lemma alloc_invD:
  assumes "alloc_inv a" "a_mappings a k v = Some t"
  obtains n where "1 \<le> n" "n \<le> a_counters a k" "t = token_of k n" "\<not> contains (a_text a) t"
  using assms unfolding alloc_inv_def by blast

lemma alloc_inv_inj:
  "alloc_inv a \<Longrightarrow> a_mappings a k v = Some t \<Longrightarrow> a_mappings a k' v' = Some t \<Longrightarrow> k' = k \<and> v' = v"
  unfolding alloc_inv_def by blast

lemma allocate_text [simp]: "a_text (snd (allocate a k v)) = a_text a"
  by (simp add: allocate_def split: option.split prod.split)

lemma allocate_records: "allocate a k v = (t, a') \<Longrightarrow> a_mappings a' k v = Some t"
  by (auto simp: allocate_def split: option.splits prod.splits)

lemma allocate_keeps:
  "allocate a k v = (t, a') \<Longrightarrow> a_mappings a k' v' = Some t' \<Longrightarrow> a_mappings a' k' v' = Some t'"
  by (auto simp: allocate_def split: option.splits prod.splits)

lemma allocate_inv:
  assumes inv: "alloc_inv a" and alloc: "allocate a k v = (t, a')"
  shows "alloc_inv a'"
proof (cases "a_mappings a k v")
  case (Some t')
  then show ?thesis using alloc inv by (simp add: allocate_def)
next
  case None
  obtain n where loop: "alloc_loop (a_text a) k (a_counters a k) = (n, t)"
    and a': "a' = a\<lparr>a_counters := (a_counters a)(k := n),
                    a_mappings := (a_mappings a)(k := (a_mappings a k)(v \<mapsto> t))\<rparr>"
    using alloc None by (auto simp: allocate_def split: prod.splits)
  note spec = alloc_loop_spec[OF loop]
  have fresh: "a_mappings a k' v' \<noteq> Some t" for k' v'
  proof
    assume m: "a_mappings a k' v' = Some t"
    obtain n' where "n' \<le> a_counters a k'" "t = token_of k' n'"
      using inv m by (rule alloc_invD)
    then show False
      using spec by (auto simp: token_of_inj)
  qed
  show ?thesis
    unfolding alloc_inv_def
  proof (intro allI impI)
    fix k1 v1 t1
    assume m1: "a_mappings a' k1 v1 = Some t1"
    show "(\<exists>n. 1 \<le> n \<and> n \<le> a_counters a' k1 \<and> t1 = token_of k1 n) \<and> \<not> contains (a_text a') t1
      \<and> (\<forall>k' v'. a_mappings a' k' v' = Some t1 \<longrightarrow> k' = k1 \<and> v' = v1)"
    proof (cases "k1 = k \<and> v1 = v")
      case True
      then have "t1 = t" using m1 a' by simp
      then show ?thesis
        using spec fresh True unfolding a' by (auto split: if_splits intro!: exI[of _ n])
    next
      case False
      then have old: "a_mappings a k1 v1 = Some t1"
        using m1 a' by (auto split: if_splits)
      then have "t1 \<noteq> t" using fresh by metis
      obtain n1 where n1: "1 \<le> n1" "n1 \<le> a_counters a k1" "t1 = token_of k1 n1"
        "\<not> contains (a_text a) t1"
        using inv old by (rule alloc_invD)
      have "n1 \<le> a_counters a' k1"
        using n1(2) spec unfolding a' by auto
      then show ?thesis
        using n1 \<open>t1 \<noteq> t\<close> alloc_inv_inj[OF inv old] unfolding a' by (auto split: if_splits)
    qed
  qed
qed

end
