(* ===== verification/Detokenizer.thy ===== *)
theory Detokenizer
  imports Allocator
begin

text \<open>
  \<open>internal/tokenizer/detokenizer.go\<close>: replace every known token of a text by its original,
  reject a well-formed token that is not in the mappings, copy everything else.  The index
  \<open>i\<close> only moves forward, so the loop runs on the rest of the text; the bytes written to
  the builder are the result.  \<open>isToken\<close> ranges over runes; a byte that is no ASCII
  character decodes to a rune outside both ranges, so testing bytes decides the same.
\<close>

definition is_token :: "string \<Rightarrow> bool" where
  "is_token s =
     (if length s < 3 then False
      else
        (case last_index_byte CHR ''_'' s of
           None \<Rightarrow> False
         | Some us \<Rightarrow>
             if us \<le> 0 \<or> us = length s - 1 then False
             else if \<not> list_all (\<lambda>r. \<not> (r < CHR ''0'' \<or> r > CHR ''9'')) (drop (us + 1) s) then False
             else if \<not> list_all (\<lambda>r. \<not> (r < CHR ''A'' \<or> r > CHR ''Z'' \<and> r \<noteq> CHR ''_'')) (take us s)
             then False
             else True))"

fun token_map_from ::
  "(string \<Rightarrow> token_mapping option) \<Rightarrow> token_mapping list \<Rightarrow> (ctx, string \<Rightarrow> token_mapping option) sm" where
  "token_map_from tm [] = ret tm"
| "token_map_from tm (m # ms) =
     mbind poll (\<lambda>_.
       (case tm (m_token m) of
          Some existing \<Rightarrow>
            (if m_original existing \<noteq> m_original m \<or> m_kind existing \<noteq> m_kind m
             then throw ErrUnknownToken
             else token_map_from tm ms)
        | None \<Rightarrow> token_map_from (tm(m_token m \<mapsto> m)) ms))"

text \<open>At a \<open><\<close>: the candidate between it and the next \<open>>\<close>, when there is one.\<close>

definition token_candidate :: "string \<Rightarrow> string option" where
  "token_candidate s =
     (case s of
        [] \<Rightarrow> None
      | c # cs \<Rightarrow>
          (if c = CHR ''<'' then
             (case index_byte CHR ''>'' s of
                None \<Rightarrow> None
              | Some rel \<Rightarrow> (let inner = take (rel - 1) cs in if is_token inner then Some inner else None))
           else None))"

function detok_loop :: "(string \<Rightarrow> token_mapping option) \<Rightarrow> string \<Rightarrow> string \<Rightarrow> (ctx, string) sm" where
  "detok_loop tm sb [] = ret sb"
| "detok_loop tm sb (c # cs) =
     mbind poll (\<lambda>_.
       (case token_candidate (c # cs) of
          Some inner \<Rightarrow>
            (case tm (CHR ''<'' # inner @ [CHR ''>'']) of
               None \<Rightarrow> throw ErrUnknownToken
             | Some m \<Rightarrow> detok_loop tm (sb @ m_original m) (drop (length inner + 1) cs))
        | None \<Rightarrow> detok_loop tm (sb @ [c]) cs))"
  by pat_completeness auto
termination
  by (relation "measure (\<lambda>(tm, sb, s). length s)") auto

definition detokenize :: "string \<Rightarrow> token_mapping list \<Rightarrow> (ctx, string) sm" where
  "detokenize text ms = mbind (token_map_from Map.empty ms) (\<lambda>tm. detok_loop tm [] text)"

section \<open>Values under a live context\<close>

lemma polls_token_map [ctx_polls, intro!]: "polls (token_map_from tm ms)"
  by (induction ms arbitrary: tm) (auto intro!: polls_mbind split: option.split)

lemma polls_detok_loop [ctx_polls, intro!]: "polls (detok_loop tm sb s)"
  by (induction tm sb s rule: detok_loop.induct) (auto intro!: polls_mbind split: option.split)

lemma polls_detokenize [ctx_polls, intro!]: "polls (detokenize text ms)"
  by (auto simp: detokenize_def intro!: polls_mbind)

text \<open>The token map as a function of the mappings: the first mapping of each token, and an
  error when a later one disagrees.\<close>

lemma val_token_map_Cons:
  "val (token_map_from tm (m # ms)) =
     (case tm (m_token m) of
        Some existing \<Rightarrow>
          (if m_original existing \<noteq> m_original m \<or> m_kind existing \<noteq> m_kind m then Inl ErrUnknownToken
           else val (token_map_from tm ms))
      | None \<Rightarrow> val (token_map_from (tm(m_token m \<mapsto> m)) ms))"
  by (simp add: val_mbind split: option.split)

lemma val_detok_Cons:
  "val (detok_loop tm sb (c # cs)) =
     (case token_candidate (c # cs) of
        Some inner \<Rightarrow>
          (case tm (CHR ''<'' # inner @ [CHR ''>'']) of
             None \<Rightarrow> Inl ErrUnknownToken
           | Some m \<Rightarrow> val (detok_loop tm (sb @ m_original m) (drop (length inner + 1) cs)))
      | None \<Rightarrow> val (detok_loop tm (sb @ [c]) cs))"
  by (simp add: val_mbind split: option.split)

declare token_map_from.simps(2) [simp del] detok_loop.simps(2) [simp del]

text \<open>Mappings agree when equal tokens carry equal originals and kinds.\<close>

definition consistent :: "token_mapping list \<Rightarrow> bool" where
  "consistent ms \<longleftrightarrow> (\<forall>m \<in> set ms. \<forall>m' \<in> set ms. m_token m = m_token m' \<longrightarrow>
      m_original m = m_original m' \<and> m_kind m = m_kind m')"

lemma val_token_map_consistent:
  assumes "consistent (ms0 @ ms)"
    and "\<forall>t m. tm t = Some m \<longrightarrow> m \<in> set ms0 \<and> m_token m = t"
    and "\<forall>m \<in> set ms0. tm (m_token m) \<noteq> None"
  shows "\<exists>tm'. val (token_map_from tm ms) = Inr tm'
    \<and> (\<forall>t m. tm' t = Some m \<longrightarrow> m \<in> set (ms0 @ ms) \<and> m_token m = t)
    \<and> (\<forall>m \<in> set (ms0 @ ms). tm' (m_token m) \<noteq> None)"
  using assms
proof (induction ms arbitrary: ms0 tm)
  case Nil
  then show ?case by auto
next
  case (Cons m ms)
  have cons: "consistent ((ms0 @ [m]) @ ms)"
    using Cons.prems(1) by simp
  show ?case
  proof (cases "tm (m_token m)")
    case None
    have "\<exists>tm'. val (token_map_from (tm(m_token m \<mapsto> m)) ms) = Inr tm'
        \<and> (\<forall>t m'. tm' t = Some m' \<longrightarrow> m' \<in> set ((ms0 @ [m]) @ ms) \<and> m_token m' = t)
        \<and> (\<forall>m' \<in> set ((ms0 @ [m]) @ ms). tm' (m_token m') \<noteq> None)"
      by (rule Cons.IH[OF cons]) (use Cons.prems(2,3) in \<open>auto split: if_splits\<close>)
    then show ?thesis
      using None by (simp add: val_token_map_Cons)
  next
    case (Some e)
    then have e: "e \<in> set ms0" "m_token e = m_token m"
      using Cons.prems(2) by auto
    then have "m_original e = m_original m \<and> m_kind e = m_kind m"
      using Cons.prems(1) unfolding consistent_def by auto
    moreover have "\<exists>tm'. val (token_map_from tm ms) = Inr tm'
        \<and> (\<forall>t m'. tm' t = Some m' \<longrightarrow> m' \<in> set ((ms0 @ [m]) @ ms) \<and> m_token m' = t)
        \<and> (\<forall>m' \<in> set ((ms0 @ [m]) @ ms). tm' (m_token m') \<noteq> None)"
      by (rule Cons.IH[OF cons]) (use Cons.prems(2,3) Some in auto)
    ultimately show ?thesis
      using Some by (simp add: val_token_map_Cons)
  qed
qed

lemma val_token_map:
  assumes "consistent ms"
  obtains tm where "val (token_map_from Map.empty ms) = Inr tm"
    "\<And>m. m \<in> set ms \<Longrightarrow> map_option m_original (tm (m_token m)) = Some (m_original m)"
    "\<And>t m. tm t = Some m \<Longrightarrow> m \<in> set ms \<and> m_token m = t"
proof -
  obtain tm where tm: "val (token_map_from Map.empty ms) = Inr tm"
    "\<And>t m. tm t = Some m \<Longrightarrow> m \<in> set ms \<and> m_token m = t"
    "\<And>m. m \<in> set ms \<Longrightarrow> tm (m_token m) \<noteq> None"
    using val_token_map_consistent[of "[]" ms Map.empty] assms by auto
  have "map_option m_original (tm (m_token m)) = Some (m_original m)" if m: "m \<in> set ms" for m
  proof -
    obtain m' where m': "tm (m_token m) = Some m'"
      using tm(3)[OF m] by blast
    then have "m' \<in> set ms" "m_token m' = m_token m"
      using tm(2) by auto
    then have "m_original m' = m_original m"
      using assms m unfolding consistent_def by blast
    then show ?thesis
      by (simp add: m')
  qed
  then show thesis
    using that tm by blast
qed

section \<open>Texts without tokens\<close>

text \<open>The text has somewhere a \<open><\<close> whose stretch to the next \<open>>\<close> looks like a token.\<close>

fun has_token :: "string \<Rightarrow> bool" where
  "has_token [] = False"
| "has_token (c # cs) = (token_candidate (c # cs) \<noteq> None \<or> has_token cs)"

lemma is_token_no_special:
  assumes "is_token s"
  shows "CHR ''<'' \<notin> set s" "CHR ''>'' \<notin> set s"
proof -
  obtain us where us: "last_index_byte CHR ''_'' s = Some us"
    and dig: "list_all (\<lambda>r. \<not> (r < CHR ''0'' \<or> r > CHR ''9'')) (drop (us + 1) s)"
    and up: "list_all (\<lambda>r. \<not> (r < CHR ''A'' \<or> r > CHR ''Z'' \<and> r \<noteq> CHR ''_'')) (take us s)"
    using assms by (auto simp: is_token_def split: if_splits option.splits)
  have "us < length s \<and> s ! us = CHR ''_''"
    using us by (induction s arbitrary: us) (auto split: option.splits if_splits)
  then have s: "s = take us s @ CHR ''_'' # drop (us + 1) s"
    using id_take_nth_drop[of us s] by simp
  have "c \<notin> set s" if "c = CHR ''<'' \<or> c = CHR ''>''" for c
  proof
    assume "c \<in> set s"
    then have "c \<in> set (take us s) \<or> c = CHR ''_'' \<or> c \<in> set (drop (us + 1) s)"
      by (subst (asm) s) auto
    then show False
      using that dig up unfolding list_all_iff less_char_def by auto
  qed
  then show "CHR ''<'' \<notin> set s" "CHR ''>'' \<notin> set s" by auto
qed

lemma token_candidate_Some:
  "token_candidate s = Some inner \<longleftrightarrow>
     (\<exists>rest. s = CHR ''<'' # inner @ CHR ''>'' # rest) \<and> is_token inner"
proof
  assume "token_candidate s = Some inner"
  then obtain cs i where s: "s = CHR ''<'' # cs" and i: "index_byte CHR ''>'' cs = Some i"
    and inner: "inner = take i cs" "is_token inner"
    by (auto simp: token_candidate_def Let_def split: list.splits if_splits option.splits)
  have "cs = take i cs @ CHR ''>'' # drop (Suc i) cs"
    using index_byte_Some[OF i] by (metis id_take_nth_drop)
  then show "(\<exists>rest. s = CHR ''<'' # inner @ CHR ''>'' # rest) \<and> is_token inner"
    using s inner by auto
next
  assume "(\<exists>rest. s = CHR ''<'' # inner @ CHR ''>'' # rest) \<and> is_token inner"
  then obtain rest where s: "s = CHR ''<'' # inner @ CHR ''>'' # rest" and tok: "is_token inner"
    by blast
  have "index_byte CHR ''>'' s = Some (Suc (length inner))"
    using is_token_no_special(2)[OF tok] by (simp add: s index_byte_append)
  then show "token_candidate s = Some inner"
    using tok by (simp add: token_candidate_def s)
qed

lemma has_token_iff:
  "has_token s \<longleftrightarrow> (\<exists>a inner b. s = a @ CHR ''<'' # inner @ CHR ''>'' # b \<and> is_token inner)"
proof (induction s)
  case Nil
  then show ?case by simp
next
  case (Cons c cs)
  have "has_token (c # cs) \<longleftrightarrow> (\<exists>inner. token_candidate (c # cs) = Some inner) \<or> has_token cs"
    by auto
  also have "\<dots> \<longleftrightarrow> (\<exists>a inner b. c # cs = a @ CHR ''<'' # inner @ CHR ''>'' # b \<and> is_token inner)"
    (is "?L \<longleftrightarrow> ?R")
  proof
    assume ?L
    then show ?R
      unfolding token_candidate_Some Cons.IH by (metis append_Cons append_Nil)
  next
    assume ?R
    then obtain a inner b where ab: "c # cs = a @ CHR ''<'' # inner @ CHR ''>'' # b" "is_token inner"
      by blast
    show ?L
    proof (cases a)
      case Nil
      then show ?thesis
        using ab unfolding token_candidate_Some by auto
    next
      case (Cons d a')
      then have "has_token cs"
        using ab unfolding Cons.IH by auto
      then show ?thesis ..
    qed
  qed
  finally show ?case .
qed

lemma has_token_infix: "\<not> has_token (a @ b @ c) \<Longrightarrow> \<not> has_token b"
  unfolding has_token_iff by (metis append.assoc append_Cons)

lemma is_token_token_of: "is_token (token_prefix k @ CHR ''_'' # show_nat n)"
proof -
  have len: "2 \<le> length (token_prefix k) + length (show_nat n)"
    using token_prefix_nonempty[of k] show_nat_nonempty[of n]
    by (cases "token_prefix k"; cases "show_nat n") auto
  have "last_index_byte CHR ''_'' (token_prefix k @ CHR ''_'' # show_nat n) = Some (length (token_prefix k))"
    by (rule last_index_byte_append) (rule show_nat_no_special)
  moreover have "list_all (\<lambda>r. \<not> (r < CHR ''0'' \<or> r > CHR ''9'')) (show_nat n)"
    using show_nat_digits[of n] by (auto simp: list_all_iff is_digit_char_def)
  moreover have "list_all (\<lambda>r. \<not> (r < CHR ''A'' \<or> r > CHR ''Z'' \<and> r \<noteq> CHR ''_'')) (token_prefix k)"
    using token_prefix_chars[of k] by (auto simp: list_all_iff is_upper_char_def less_char_def less_eq_char_def)
  ultimately show ?thesis
    using len by (simp add: is_token_def)
qed

lemma token_candidate_token_of:
  "token_candidate (token_of k n @ rest) = Some (token_prefix k @ CHR ''_'' # show_nat n)"
  using is_token_token_of[of k n] by (auto simp: token_candidate_Some token_of_def)

section \<open>What detokenization does to a masked text\<close>

lemma val_detok_plain:
  assumes "\<not> has_token s"
  shows "val (detok_loop tm sb s) = Inr (sb @ s)"
  using assms by (induction s arbitrary: sb) (simp_all add: val_detok_Cons)

text \<open>A stretch without tokens is copied also when a token follows it: the token's \<open><\<close>
  cannot lie inside a candidate.\<close>

lemma val_detok_gap:
  assumes "\<not> has_token g"
  shows "val (detok_loop tm sb (g @ token_of k n @ rest)) = val (detok_loop tm (sb @ g) (token_of k n @ rest))"
  using assms
proof (induction g arbitrary: sb)
  case Nil
  then show ?case by simp
next
  case (Cons c g)
  have "token_candidate (c # g @ token_of k n @ rest) = None"
  proof (rule ccontr)
    assume "token_candidate (c # g @ token_of k n @ rest) \<noteq> None"
    then obtain inner t where t: "c # g @ token_of k n @ rest = CHR ''<'' # inner @ CHR ''>'' # t"
      and tok: "is_token inner"
      by (auto simp: token_candidate_Some)
    have eq: "g @ token_of k n @ rest = inner @ CHR ''>'' # t" and c: "c = CHR ''<''"
      using t by auto
    show False
    proof (cases "CHR ''>'' \<in> set g")
      case True
      then obtain g1 g2 where g: "g = g1 @ CHR ''>'' # g2" "CHR ''>'' \<notin> set g1"
        by (meson split_list_first)
      then have "inner = g1"
        using eq is_token_no_special(2)[OF tok] append_sep_inj[of "CHR ''>''" g1 inner] by auto
      then have "has_token (c # g)"
        using tok c unfolding g(1) has_token_iff by (metis append_Nil)
      then show False using Cons.prems by simp
    next
      case False
      have "g @ CHR ''<'' # (token_prefix k @ CHR ''_'' # show_nat n) @ CHR ''>'' # rest = inner @ CHR ''>'' # t"
        using eq by (simp add: token_of_def)
      then have "inner = g @ CHR ''<'' # token_prefix k @ CHR ''_'' # show_nat n"
        using False is_token_no_special(2)[OF tok] token_prefix_no_special(2)[of k] show_nat_no_special(3)[of n]
          append_sep_inj[of "CHR ''>''" "g @ CHR ''<'' # token_prefix k @ CHR ''_'' # show_nat n" inner rest t]
        by simp
      then show False
        using is_token_no_special(1)[OF tok] by simp
    qed
  qed
  then show ?case
    using Cons by (simp add: val_detok_Cons)
qed

lemma val_detok_token:
  assumes "tm (token_of k n) = Some m"
  shows "val (detok_loop tm sb (token_of k n @ rest)) = val (detok_loop tm (sb @ m_original m) rest)"
proof -
  have "token_of k n @ rest = CHR ''<'' # ((token_prefix k @ CHR ''_'' # show_nat n) @ [CHR ''>'']) @ rest"
    by (simp add: token_of_def)
  then show ?thesis
    using assms token_candidate_token_of[of k n rest]
    by (simp add: val_detok_Cons token_of_def)
qed

section \<open>Unknown tokens\<close>

lemma token_map_Inl: "val (token_map_from tm ms) = Inl e \<Longrightarrow> e = ErrUnknownToken"
  by (induction ms arbitrary: tm) (auto simp: val_token_map_Cons split: option.splits if_splits)

lemma token_map_Inr:
  "val (token_map_from tm ms) = Inr tm' \<Longrightarrow> tm' t = Some m \<Longrightarrow> tm t = Some m \<or> m \<in> set ms \<and> m_token m = t"
proof (induction ms arbitrary: tm)
  case Nil
  then show ?case by simp
next
  case (Cons m0 ms)
  show ?case
  proof (cases "tm (m_token m0)")
    case None
    then have "val (token_map_from (tm(m_token m0 \<mapsto> m0)) ms) = Inr tm'"
      using Cons.prems(1) by (simp add: val_token_map_Cons)
    from Cons.IH[OF this Cons.prems(2)] show ?thesis
      by (auto split: if_splits)
  next
    case (Some m1)
    then show ?thesis
      using Cons.IH[of tm] Cons.prems by (auto simp: val_token_map_Cons split: if_splits)
  qed
qed

text \<open>Two candidates of a text do not overlap: the later one starts after the earlier one.\<close>

lemma candidate_after:
  assumes "CHR ''<'' # inner @ CHR ''>'' # rest = a @ CHR ''<'' # v" "a \<noteq> []" "CHR ''<'' \<notin> set inner"
  shows "\<exists>a'. a = CHR ''<'' # inner @ CHR ''>'' # a' \<and> rest = a' @ CHR ''<'' # v"
proof -
  obtain a1 where a: "a = CHR ''<'' # a1" "inner @ CHR ''>'' # rest = a1 @ CHR ''<'' # v"
    using assms(1,2) by (cases a) auto
  have "(inner @ [CHR ''>'']) @ rest = a1 @ CHR ''<'' # v"
    using a(2) by simp
  then consider u where "inner @ [CHR ''>''] = a1 @ u" "u @ rest = CHR ''<'' # v"
    | u where "(inner @ [CHR ''>'']) @ u = a1" "rest = u @ CHR ''<'' # v"
    unfolding append_eq_append_conv2 by blast
  then show ?thesis
  proof cases
    case 1
    show ?thesis
    proof (cases u)
      case Nil
      then have "a1 = inner @ [CHR ''>'']" "rest = CHR ''<'' # v"
        using 1 by simp_all
      then show ?thesis using a(1) by (intro exI[of _ "[]"]) simp
    next
      case (Cons x xs)
      then have "CHR ''<'' \<in> set (inner @ [CHR ''>''])"
        using 1 by simp
      then show ?thesis using assms(3) by simp
    qed
  next
    case 2
    then show ?thesis using a(1) by (intro exI[of _ u]) auto
  qed
qed

lemma val_detok_unknown:
  assumes "s = a @ CHR ''<'' # inner @ CHR ''>'' # b" "is_token inner" "tm (CHR ''<'' # inner @ [CHR ''>'']) = None"
  shows "val (detok_loop tm sb s) = Inl ErrUnknownToken"
  using assms
proof (induction "length s" arbitrary: s a sb rule: less_induct)
  case less
  have "s \<noteq> []" using less.prems(1) by simp
  then obtain c cs where s: "s = c # cs" by (meson neq_Nil_conv)
  show ?case
  proof (cases "token_candidate s")
    case None
    then have "a \<noteq> []"
      using less.prems(1,2) token_candidate_Some[of s inner] by auto
    then obtain a' where "cs = a' @ CHR ''<'' # inner @ CHR ''>'' # b"
      using less.prems(1) s by (cases a) auto
    then show ?thesis
      using less.hyps[of cs a'] less.prems(2,3) None s by (simp add: val_detok_Cons)
  next
    case (Some i)
    then obtain rest where rest: "s = CHR ''<'' # i @ CHR ''>'' # rest" "is_token i"
      using token_candidate_Some[of s i] by blast
    show ?thesis
    proof (cases "tm (CHR ''<'' # i @ [CHR ''>''])")
      case None
      then show ?thesis using Some s by (simp add: val_detok_Cons)
    next
      case (Some m)
      have "a \<noteq> []"
      proof
        assume "a = []"
        then have "token_candidate s = Some inner"
          using less.prems(1,2) token_candidate_Some[of s inner] by auto
        then show False
          using \<open>token_candidate s = Some i\<close> Some less.prems(3) by simp
      qed
      then obtain a' where a': "rest = a' @ CHR ''<'' # inner @ CHR ''>'' # b"
        using candidate_after[of i rest a "inner @ CHR ''>'' # b"] rest(1) less.prems(1)
          is_token_no_special(1)[OF rest(2)] by auto
      have "drop (length i + 1) cs = rest"
        using rest(1) s by simp
      then have "val (detok_loop tm sb s) = val (detok_loop tm (sb @ m_original m) rest)"
        using Some \<open>token_candidate s = Some i\<close> s by (simp add: val_detok_Cons)
      also have "\<dots> = Inl ErrUnknownToken"
        using less.hyps[OF _ a'] less.prems(2,3) rest(1) by simp
      finally show ?thesis .
    qed
  qed
qed

lemma detokenize_unknown:
  assumes "is_token inner" "CHR ''<'' # inner @ [CHR ''>''] \<notin> m_token ` set ms"
  shows "val (detokenize (a @ CHR ''<'' # inner @ CHR ''>'' # b) ms) = Inl ErrUnknownToken"
proof (cases "val (token_map_from Map.empty ms)")
  case (Inl e)
  then show ?thesis
    using token_map_Inl by (simp add: detokenize_def val_mbind polls_token_map)
next
  case (Inr tm)
  have "tm (CHR ''<'' # inner @ [CHR ''>'']) = None"
  proof (rule ccontr)
    assume "tm (CHR ''<'' # inner @ [CHR ''>'']) \<noteq> None"
    then obtain m where "tm (CHR ''<'' # inner @ [CHR ''>'']) = Some m" by blast
    then have "m \<in> set ms" "m_token m = CHR ''<'' # inner @ [CHR ''>'']"
      using token_map_Inr[OF Inr] by auto
    then show False using assms(2) by force
  qed
  from val_detok_unknown[of _ a inner b tm, OF refl assms(1) this] show ?thesis
    using Inr by (simp add: detokenize_def val_mbind polls_token_map)
qed

lemma detokenize_errors: "val (detokenize text ms) = Inl e \<Longrightarrow> e = ErrUnknownToken"
proof -
  have "val (detok_loop tm sb s) = Inl e \<Longrightarrow> e = ErrUnknownToken" for tm sb s
    by (induction tm sb s rule: detok_loop.induct)
      (auto simp: val_detok_Cons split: option.splits)
  then show "val (detokenize text ms) = Inl e \<Longrightarrow> e = ErrUnknownToken"
    using token_map_Inl by (auto simp: detokenize_def val_mbind polls_token_map rbind_Inl_iff)
qed

end
