(* ===== verification/GoSort.thy ===== *)
theory GoSort
  imports Prelude
begin

text \<open>
  \<open>sort.Slice\<close> and \<open>sort.SliceStable\<close>.  The model runs the insertion sort of the Go
  library (\<open>insertionSort_func\<close>, what \<open>sort.Slice\<close> executes on up to 12 elements): each
  element moves left past the elements it is less than.  On longer slices Go's sort may
  order elements that are equal under \<open>less\<close> differently; what the components rely on
  is only the interface below: the result is a permutation, it is ordered, and where
  \<open>less\<close> distinguishes all elements it is the only ordered permutation.
\<close>

fun ins_left :: "('a \<Rightarrow> 'a \<Rightarrow> bool) \<Rightarrow> 'a \<Rightarrow> 'a list \<Rightarrow> 'a list" where
  "ins_left lt x [] = [x]"
| "ins_left lt x (y # ys) = (if lt x y then y # ins_left lt x ys else x # y # ys)"

text \<open>The sorted prefix is kept reversed, its last element first.\<close>

fun sort_onto :: "('a \<Rightarrow> 'a \<Rightarrow> bool) \<Rightarrow> 'a list \<Rightarrow> 'a list \<Rightarrow> 'a list" where
  "sort_onto lt acc [] = acc"
| "sort_onto lt acc (x # xs) = sort_onto lt (ins_left lt x acc) xs"

definition go_sort :: "('a \<Rightarrow> 'a \<Rightarrow> bool) \<Rightarrow> 'a list \<Rightarrow> 'a list" where
  "go_sort lt xs = rev (sort_onto lt [] xs)"

lemma mset_ins_left [simp]: "mset (ins_left lt x ys) = add_mset x (mset ys)"
  by (induction ys) auto

lemma mset_sort_onto: "mset (sort_onto lt acc xs) = mset acc + mset xs"
  by (induction xs arbitrary: acc) auto

lemma mset_go_sort [simp]: "mset (go_sort lt xs) = mset xs"
  by (simp add: go_sort_def mset_sort_onto)

lemma set_go_sort [simp]: "set (go_sort lt xs) = set xs"
  by (metis mset_go_sort set_mset_mset)

lemma length_go_sort [simp]: "length (go_sort lt xs) = length xs"
  by (metis mset_go_sort size_mset)

lemma go_sort_Nil [simp]: "go_sort lt [] = []"
  by (simp add: go_sort_def)

lemma go_sort_eq_Nil [simp]: "go_sort lt xs = [] \<longleftrightarrow> xs = []"
  by (metis length_0_conv length_go_sort)

lemma set_ins_left [simp]: "set (ins_left lt x ys) = insert x (set ys)"
  by (metis mset_ins_left set_mset_add_mset_insert set_mset_mset)

section \<open>What a comparison has to satisfy\<close>

text \<open>\<open>ok\<close> delimits the elements the comparison is used on (a comparison of confidences is
  an order only where no confidence is NaN).\<close>

locale strict_weak =
  fixes ok :: "'a \<Rightarrow> bool" and lt :: "'a \<Rightarrow> 'a \<Rightarrow> bool"
  assumes less_asym: "ok x \<Longrightarrow> ok y \<Longrightarrow> lt x y \<Longrightarrow> \<not> lt y x"
    and less_neg_trans:
      "ok x \<Longrightarrow> ok y \<Longrightarrow> ok z \<Longrightarrow> \<not> lt x y \<Longrightarrow> \<not> lt y z \<Longrightarrow> \<not> lt x z"
begin

abbreviation ordered :: "'a list \<Rightarrow> bool" where
  "ordered \<equiv> sorted_wrt (\<lambda>a b. \<not> lt b a)"

lemma ins_left_sorted:
  assumes "ok x" "\<forall>y \<in> set ys. ok y" "sorted_wrt (\<lambda>a b. \<not> lt a b) ys"
  shows "sorted_wrt (\<lambda>a b. \<not> lt a b) (ins_left lt x ys)"
  using assms(2,3)
proof (induction ys)
  case Nil
  then show ?case by simp
next
  case (Cons y ys)
  show ?case
  proof (cases "lt x y")
    case True
    then have "\<not> lt y x"
      using less_asym[of x y] assms(1) Cons.prems(1) by simp
    then show ?thesis
      using True Cons by simp
  next
    case False
    then have "\<not> lt x z" if "z \<in> set ys" for z
      using less_neg_trans[of x y z] assms(1) Cons.prems that by simp
    then show ?thesis
      using False Cons.prems(2) by simp
  qed
qed

lemma sort_onto_sorted:
  assumes "\<forall>x \<in> set (acc @ xs). ok x" "sorted_wrt (\<lambda>a b. \<not> lt a b) acc"
  shows "sorted_wrt (\<lambda>a b. \<not> lt a b) (sort_onto lt acc xs)"
  using assms by (induction xs arbitrary: acc) (simp_all add: ins_left_sorted)

lemma go_sort_ordered: "\<forall>x \<in> set xs. ok x \<Longrightarrow> ordered (go_sort lt xs)"
  using sort_onto_sorted[of "[]" xs] by (simp add: go_sort_def sorted_wrt_rev)

end

text \<open>Where the comparison tells any two elements apart, sorting has one possible result,
  whatever the order of the input and however the sort treats ties.\<close>

locale strict_total = strict_weak +
  assumes less_total: "ok x \<Longrightarrow> ok y \<Longrightarrow> \<not> lt x y \<Longrightarrow> \<not> lt y x \<Longrightarrow> x = y"
begin

lemma ordered_unique:
  assumes "\<forall>x \<in> set xs. ok x" "ordered xs" "ordered ys" "mset xs = mset ys"
  shows "xs = ys"
  using assms
proof (induction xs arbitrary: ys)
  case Nil
  then show ?case by simp
next
  case (Cons x xs)
  then obtain y ys' where ys: "ys = y # ys'"
    by (cases ys) auto
  have sets: "set (x # xs) = set ys"
    using Cons.prems(4) by (metis set_mset_mset)
  have "x = y"
  proof (rule ccontr)
    assume "x \<noteq> y"
    then have "y \<in> set xs" "x \<in> set ys'"
      using sets ys by auto
    then have "\<not> lt y x" "\<not> lt x y"
      using Cons.prems(2,3) ys by auto
    then show False
      using less_total[of x y] \<open>x \<noteq> y\<close> \<open>y \<in> set xs\<close> Cons.prems(1) by simp
  qed
  moreover have "mset xs = mset ys'"
    using Cons.prems(4) ys \<open>x = y\<close> by simp
  ultimately show ?case
    using Cons.IH[of ys'] Cons.prems ys by simp
qed

lemma go_sort_unique:
  assumes "\<forall>x \<in> set xs. ok x" "ordered ys" "mset ys = mset xs"
  shows "go_sort lt xs = ys"
  by (rule ordered_unique) (use assms go_sort_ordered in auto)

lemma go_sort_perm:
  assumes "\<forall>x \<in> set xs. ok x" "mset xs = mset ys"
  shows "go_sort lt xs = go_sort lt ys"
proof -
  have "set xs = set ys"
    using assms(2) by (metis set_mset_mset)
  then show ?thesis
    using assms by (intro go_sort_unique) (simp_all add: go_sort_ordered)
qed

end

text \<open>A list already in order is left alone, even where the comparison has ties: the sort
  is stable.\<close>

lemma sort_onto_ordered:
  assumes "sorted_wrt (\<lambda>a b. \<not> lt b a) (rev acc @ xs)"
  shows "sort_onto lt acc xs = rev xs @ acc"
  using assms
proof (induction xs arbitrary: acc)
  case Nil
  then show ?case by simp
next
  case (Cons x xs)
  have "ins_left lt x acc = x # acc"
    using Cons.prems by (cases acc) (auto simp: sorted_wrt_append)
  then show ?case
    using Cons.IH[of "x # acc"] Cons.prems by simp
qed

lemma go_sort_id: "sorted_wrt (\<lambda>a b. \<not> lt b a) xs \<Longrightarrow> go_sort lt xs = xs"
  using sort_onto_ordered[of lt "[]" xs] by (simp add: go_sort_def)

text \<open>A strictly increasing arrangement is the only ordered one.\<close>

lemma strict_ordered_unique:
  assumes "sorted_wrt lt xs" "sorted_wrt (\<lambda>a b. \<not> lt b a) ys" "mset xs = mset ys" "\<And>x. \<not> lt x x"
  shows "xs = ys"
  using assms(1-3)
proof (induction xs arbitrary: ys)
  case Nil
  then show ?case by simp
next
  case (Cons x xs)
  then obtain y ys' where ys: "ys = y # ys'"
    by (cases ys) auto
  have sets: "set (x # xs) = set ys"
    using Cons.prems(3) by (metis set_mset_mset)
  have "x = y"
  proof (rule ccontr)
    assume "x \<noteq> y"
    then have "y \<in> set xs" "x \<in> set ys'"
      using sets ys by auto
    then show False
      using Cons.prems(1,2) ys by auto
  qed
  then show ?case
    using Cons.IH[of ys'] Cons.prems ys by simp
qed

text \<open>Comparisons built from keys: one key decides, and ties go to the next comparison.\<close>

definition key_order :: "('a \<Rightarrow> bool) \<Rightarrow> ('a \<Rightarrow> 'b) \<Rightarrow> ('b \<Rightarrow> 'b \<Rightarrow> bool) \<Rightarrow> bool" where
  "key_order ok f k \<longleftrightarrow>
     (\<forall>x y. ok x \<longrightarrow> ok y \<longrightarrow> k (f x) (f y) \<longrightarrow> \<not> k (f y) (f x)) \<and>
     (\<forall>x y z. ok x \<longrightarrow> ok y \<longrightarrow> ok z \<longrightarrow> k (f x) (f y) \<longrightarrow> k (f y) (f z) \<longrightarrow> k (f x) (f z)) \<and>
     (\<forall>x y. ok x \<longrightarrow> ok y \<longrightarrow> f x \<noteq> f y \<longrightarrow> k (f x) (f y) \<or> k (f y) (f x))"

lemma key_orderD:
  assumes "key_order ok f k"
  shows "ok x \<Longrightarrow> ok y \<Longrightarrow> k (f x) (f y) \<Longrightarrow> \<not> k (f y) (f x)"
    and "ok x \<Longrightarrow> ok y \<Longrightarrow> ok z \<Longrightarrow> k (f x) (f y) \<Longrightarrow> k (f y) (f z) \<Longrightarrow> k (f x) (f z)"
    and "ok x \<Longrightarrow> ok y \<Longrightarrow> f x \<noteq> f y \<Longrightarrow> k (f x) (f y) \<or> k (f y) (f x)"
  using assms unfolding key_order_def by blast+

lemma key_order_less: "key_order ok (f :: 'a \<Rightarrow> 'b :: linorder) (<)"
  unfolding key_order_def by auto

lemma key_order_greater: "key_order ok (f :: 'a \<Rightarrow> 'b :: linorder) (>)"
  unfolding key_order_def by auto

lemma key_order_bool: "key_order ok f (\<lambda>a b. a \<and> \<not> b)"
  unfolding key_order_def by auto

lemma strict_weak_by:
  assumes "strict_weak ok lt" "key_order ok f k"
  shows "strict_weak ok (\<lambda>a b. if f a \<noteq> f b then k (f a) (f b) else lt a b)"
proof -
  note less_asym = strict_weak.less_asym[OF assms(1)]
    and less_neg_trans = strict_weak.less_neg_trans[OF assms(1)]
  note key = key_orderD[OF assms(2)]
  show ?thesis
  proof
    fix x y assume "ok x" "ok y" "if f x \<noteq> f y then k (f x) (f y) else lt x y"
    then show "\<not> (if f y \<noteq> f x then k (f y) (f x) else lt y x)"
      using key(1) less_asym by (auto split: if_splits)
  next
    fix x y z assume ok: "ok x" "ok y" "ok z"
      and xy: "\<not> (if f x \<noteq> f y then k (f x) (f y) else lt x y)"
      and yz: "\<not> (if f y \<noteq> f z then k (f y) (f z) else lt y z)"
    show "\<not> (if f x \<noteq> f z then k (f x) (f z) else lt x z)"
    proof (cases "f x = f y \<or> f y = f z")
      case True
      then show ?thesis
        using xy yz less_neg_trans[OF ok] by auto
    next
      case False
      then have "k (f y) (f x)" "k (f z) (f y)"
        using xy yz key(3)[OF ok(1,2)] key(3)[OF ok(2,3)] by auto
      then have "k (f z) (f x)"
        using key(2) ok by blast
      then show ?thesis
        using key(1)[OF ok(3,1)] key(1)[OF ok(1,3)] by auto
    qed
  qed
qed

lemma strict_weak_cong:
  assumes "strict_weak ok lt" "\<And>x y. ok x \<Longrightarrow> ok y \<Longrightarrow> lt' x y = lt x y"
  shows "strict_weak ok lt'"
  using assms(1) unfolding strict_weak_def assms(2) by (metis assms(2))

text \<open>Two elements tie when neither comes first.\<close>

definition tie :: "('a \<Rightarrow> 'a \<Rightarrow> bool) \<Rightarrow> 'a \<Rightarrow> 'a \<Rightarrow> bool" where
  "tie lt x y \<longleftrightarrow> \<not> lt x y \<and> \<not> lt y x"

text \<open>A symmetric relation between the elements of a list does not depend on their order.\<close>

lemma sorted_wrt_sym_mset:
  assumes "\<And>x y. R x y \<Longrightarrow> R y x" "mset xs = mset ys" "sorted_wrt R xs"
  shows "sorted_wrt R ys"
  using assms(2,3)
proof (induction xs arbitrary: ys)
  case Nil
  then show ?case by simp
next
  case (Cons x xs)
  then have "x \<in> set ys"
    by (metis list.set_intros(1) set_mset_mset)
  then obtain u v where ys: "ys = u @ x # v"
    by (meson split_list)
  then have "mset xs = mset (u @ v)"
    using Cons.prems(1) by simp
  moreover from this have "set xs = set u \<union> set v"
    by (metis set_append set_mset_mset)
  ultimately show ?case
    using Cons.IH[of "u @ v"] Cons.prems(2) assms(1) by (auto simp: ys sorted_wrt_append)
qed

end
