(* ===== verification/Plan.thy ===== *)
theory Plan
  imports Detokenizer GoSort
begin

text \<open>
  \<open>internal/tokenizer/plan.go\<close>: the replacements for one list of detected entities.  Every
  entity's span is validated, also of those the policy rejects; entities are taken by
  start and, at equal starts, longest first; tokens come from one allocator.
\<close>

definition validate_span :: "string \<Rightarrow> int \<Rightarrow> int \<Rightarrow> unit res" where
  "validate_span text start stop =
     (if start < 0 \<or> stop > int (length text) \<or> start \<ge> stop then Inl ErrInvalidSpan
      else if \<not> valid_string (slice text start stop) then Inl ErrInvalidSpan
      else Inr ())"

definition entity_before :: "pii_entity \<Rightarrow> pii_entity \<Rightarrow> bool" where
  "entity_before a b =
     (if e_start a \<noteq> e_start b then e_start a < e_start b else e_end a > e_end b)"

fun plan_loop :: "string \<Rightarrow> policy \<Rightarrow> allocator \<Rightarrow> pii_entity list \<Rightarrow> (ctx, replacement list) sm" where
  "plan_loop text pol a [] = ret []"
| "plan_loop text pol a (e # es) =
     mbind poll (\<lambda>_.
     mbind (lift (validate_span text (e_start e) (e_end e))) (\<lambda>_.
     if \<not> allowed_kinds pol (e_kind e) then plan_loop text pol a es
     else if f_lt (e_conf e) (min_confidence pol) then plan_loop text pol a es
     else
       mbind (lift (go_slice text (e_start e) (e_end e))) (\<lambda>original.
       case allocate a (e_kind e) original of (token, a') \<Rightarrow>
       mbind (plan_loop text pol a' es) (\<lambda>plan.
       ret (\<lparr>r_start = e_start e, r_end = e_end e, r_token = token, r_original = original,
             r_kind = e_kind e, r_source = e_source e, r_conf = e_conf e\<rparr> # plan)))))"

definition build_replacement_plan ::
  "string \<Rightarrow> pii_entity list \<Rightarrow> policy \<Rightarrow> (ctx, replacement list) sm" where
  "build_replacement_plan text entities pol =
     plan_loop text pol (new_allocator text) (go_sort entity_before entities)"

section \<open>Spans\<close>

text \<open>What \<open>validateSpan\<close> accepts: a non-empty stretch of the text that is valid UTF-8.\<close>

definition span_ok :: "string \<Rightarrow> int \<Rightarrow> int \<Rightarrow> bool" where
  "span_ok text s e \<longleftrightarrow> 0 \<le> s \<and> s < e \<and> e \<le> int (length text) \<and> valid_string (slice text s e)"

lemma validate_span_iff: "validate_span text s e = (if span_ok text s e then Inr () else Inl ErrInvalidSpan)"
  by (auto simp: validate_span_def span_ok_def)

lemma span_ok_slice: "span_ok text s e \<Longrightarrow> slice_ok text s e"
  by (simp add: span_ok_def slice_ok_def)

lemma span_ok_go_slice [simp]: "span_ok text s e \<Longrightarrow> go_slice text s e = Inr (slice text s e)"
  by (simp add: span_ok_slice)

text \<open>UTF-8 is self-synchronising: a valid text splits into valid parts wherever the right
  part does not begin with a continuation byte.\<close>

lemma encode_valid_tail:
  assumes "valid_rune r" "encode_valid r = u @ c # v" "u \<noteq> []"
  shows "cont_byte (byte c)"
proof -
  have "list_all (\<lambda>c. cont_byte (byte c)) (tl (encode_valid r))"
    using assms(1) by (auto simp: encode_valid_def cont_byte_def valid_rune_def)
  then show ?thesis
    using assms(2,3) by (cases u) auto
qed

lemma encode_valid_hd: "valid_rune r \<Longrightarrow> \<not> cont_byte (byte (hd (encode_valid r)))"
  by (auto simp: encode_valid_def cont_byte_def valid_rune_def)

lemma valid_string_hd:
  assumes "valid_string s" "s \<noteq> []"
  shows "\<not> cont_byte (byte (hd s))"
proof -
  obtain r rs where rs: "list_all valid_rune (r # rs)" "s = encode_all (r # rs)"
    using assms by (metis encode_all_simps(1) neq_Nil_conv valid_string_iff)
  then show ?thesis
    using encode_valid_hd[of r] by simp
qed

lemma valid_string_split:
  assumes "valid_string (u @ c # v)" "\<not> cont_byte (byte c)"
  shows "valid_string u \<and> valid_string (c # v)"
proof -
  have "list_all valid_rune rs \<Longrightarrow> encode_all rs = u @ c # v \<Longrightarrow> valid_string u" for rs
  proof (induction rs arbitrary: u)
    case Nil
    then show ?case by simp
  next
    case (Cons r rs)
    have enc: "encode_valid r @ encode_all rs = u @ c # v"
      using Cons.prems by simp
    show ?case
    proof (cases "length u < length (encode_valid r)")
      case True
      then have "take (length u) (encode_valid r) = u"
        using enc by (simp add: append_eq_append_conv_if)
      then have "encode_valid r = u @ drop (length u) (encode_valid r)"
        using append_take_drop_id[of "length u" "encode_valid r"] by simp
      moreover obtain d w' where "drop (length u) (encode_valid r) = d # w'"
        using True by (cases "drop (length u) (encode_valid r)") auto
      ultimately have w: "encode_valid r = u @ d # w'"
        by simp
      then have "d = c" using enc by simp
      then have "u = []"
        using encode_valid_tail[of r u c w'] w assms(2) Cons.prems(1) by auto
      then show ?thesis by simp
    next
      case False
      then obtain u' where u': "u = encode_valid r @ u'" "encode_all rs = u' @ c # v"
        using enc by (auto simp: append_eq_append_conv2)
      then have "valid_string u'"
        using Cons.IH Cons.prems(1) by simp
      moreover have "valid_string (encode_valid r)"
        using valid_encode_all[of "[r]"] Cons.prems(1) by simp
      ultimately show ?thesis
        using u' by (simp add: valid_string_append)
    qed
  qed
  then have "valid_string u"
    using assms(1) unfolding valid_string_iff by metis
  then show ?thesis
    using assms(1) valid_string_append by blast
qed

lemma slice_nonempty: "slice_ok s a b \<Longrightarrow> a < b \<Longrightarrow> slice s a b \<noteq> []"
  using length_slice[of s a b] by auto

text \<open>Two overlapping valid spans cut each other at rune boundaries.\<close>

lemma span_ok_cut_left:
  assumes "span_ok text a b" "span_ok text c d" "a < c" "c < b"
  shows "span_ok text a c"
proof -
  have bounds: "0 \<le> a" "b \<le> int (length text)" "c < d" "d \<le> int (length text)"
    using assms by (auto simp: span_ok_def)
  have join: "slice text a c @ slice text c b = slice text a b"
    by (rule slice_append) (use assms bounds in auto)
  have ne: "slice text c b \<noteq> []" "slice text c d \<noteq> []"
    using slice_nonempty[of "text" c b] slice_nonempty[of "text" c d] assms bounds
    by (auto simp: slice_ok_def)
  have "hd (slice text c b) = hd (slice text c d)"
    using assms(4) bounds unfolding slice_def
    by (metis hd_take zero_less_nat_eq diff_gt_0_iff_gt)
  then have "\<not> cont_byte (byte (hd (slice text c b)))"
    using valid_string_hd ne(2) assms(2) by (simp add: span_ok_def)
  moreover have "valid_string (slice text a c @ hd (slice text c b) # tl (slice text c b))"
    using assms(1) ne(1) join by (simp add: span_ok_def)
  ultimately have "valid_string (slice text a c)"
    using valid_string_split by blast
  then show ?thesis
    using assms bounds by (simp add: span_ok_def)
qed

lemma span_ok_split:
  assumes "span_ok text a b" "span_ok text a c" "c < b"
  shows "span_ok text c b"
proof -
  have "slice text a c @ slice text c b = slice text a b"
    by (rule slice_append) (use assms in \<open>auto simp: span_ok_def\<close>)
  then have "valid_string (slice text c b)"
    using assms valid_string_append[of "slice text a c" "slice text c b"] by (simp add: span_ok_def)
  then show ?thesis
    using assms by (simp add: span_ok_def)
qed

lemma span_ok_cut_right:
  assumes "span_ok text a b" "span_ok text c d" "c < b" "b < d" "a \<le> c"
  shows "span_ok text b d"
proof (cases "a = c")
  case True
  then show ?thesis using assms span_ok_split by blast
next
  case False
  then have "span_ok text a c"
    using span_ok_cut_left[OF assms(1,2)] assms by simp
  then have "span_ok text c b"
    using span_ok_split[OF assms(1)] assms by simp
  then show ?thesis
    using span_ok_split[OF assms(2)] assms by simp
qed

section \<open>Plans under a live context\<close>

lemma polls_plan_loop [ctx_polls, intro!]: "polls (plan_loop text pol a es)"
  by (induction es arbitrary: a) (auto intro!: polls_mbind split: prod.split)

lemma polls_build_replacement_plan [ctx_polls, intro!]: "polls (build_replacement_plan text es pol)"
  by (simp add: build_replacement_plan_def polls_plan_loop)

definition accepts :: "policy \<Rightarrow> pii_kind \<Rightarrow> f64 \<Rightarrow> bool" where
  "accepts pol k conf \<longleftrightarrow> allowed_kinds pol k \<and> \<not> f_lt conf (min_confidence pol)"

definition entity_ok :: "string \<Rightarrow> pii_entity \<Rightarrow> bool" where
  "entity_ok text e \<longleftrightarrow> span_ok text (e_start e) (e_end e)"

text \<open>The plan as a pure function of validated entities.\<close>

fun plan_of :: "string \<Rightarrow> policy \<Rightarrow> allocator \<Rightarrow> pii_entity list \<Rightarrow> replacement list" where
  "plan_of text pol a [] = []"
| "plan_of text pol a (e # es) =
     (if accepts pol (e_kind e) (e_conf e) then
        (case allocate a (e_kind e) (slice text (e_start e) (e_end e)) of (token, a') \<Rightarrow>
          \<lparr>r_start = e_start e, r_end = e_end e, r_token = token,
           r_original = slice text (e_start e) (e_end e),
           r_kind = e_kind e, r_source = e_source e, r_conf = e_conf e\<rparr> # plan_of text pol a' es)
      else plan_of text pol a es)"

lemma val_plan_loop:
  "val (plan_loop text pol a es) =
     (if list_all (entity_ok text) es then Inr (plan_of text pol a es) else Inl ErrInvalidSpan)"
proof (induction es arbitrary: a)
  case Nil
  then show ?case by simp
next
  case (Cons e es)
  show ?case
  proof (cases "entity_ok text e")
    case False
    then show ?thesis
      by (simp add: val_mbind validate_span_iff entity_ok_def)
  next
    case True
    then show ?thesis
      using Cons.IH
      by (auto simp: val_mbind validate_span_iff entity_ok_def accepts_def polls_plan_loop
          split: prod.split)
  qed
qed

lemma val_build_replacement_plan:
  "val (build_replacement_plan text es pol) =
     (if list_all (entity_ok text) es
      then Inr (plan_of text pol (new_allocator text) (go_sort entity_before es))
      else Inl ErrInvalidSpan)"
  by (simp add: build_replacement_plan_def val_plan_loop list_all_iff)

text \<open>A planned replacement: a valid span with the text it covers.\<close>

definition repl_ok :: "string \<Rightarrow> replacement \<Rightarrow> bool" where
  "repl_ok text r \<longleftrightarrow>
     span_ok text (r_start r) (r_end r) \<and> r_original r = slice text (r_start r) (r_end r)"

definition repl_of_entity :: "string \<Rightarrow> pii_entity \<Rightarrow> string \<Rightarrow> replacement" where
  "repl_of_entity text e token =
     \<lparr>r_start = e_start e, r_end = e_end e, r_token = token,
      r_original = slice text (e_start e) (e_end e),
      r_kind = e_kind e, r_source = e_source e, r_conf = e_conf e\<rparr>"

lemma plan_of_in:
  assumes "r \<in> set (plan_of text pol a es)"
  shows "\<exists>e \<in> set es. \<exists>t. r = repl_of_entity text e t \<and> accepts pol (e_kind e) (e_conf e)"
  using assms by (induction es arbitrary: a) (auto simp: repl_of_entity_def split: if_splits prod.splits)

lemma plan_of_has:
  assumes "e \<in> set es" "accepts pol (e_kind e) (e_conf e)"
  shows "\<exists>t. repl_of_entity text e t \<in> set (plan_of text pol a es)"
  using assms(1)
proof (induction es arbitrary: a)
  case Nil
  then show ?case by simp
next
  case (Cons e' es)
  show ?case
  proof (cases "e' = e")
    case True
    then show ?thesis
      using assms(2)
      by (cases "allocate a (e_kind e) (slice text (e_start e) (e_end e))") (auto simp: repl_of_entity_def)
  next
    case False
    then have "\<exists>t. repl_of_entity text e t \<in> set (plan_of text pol a' es)" for a'
      using Cons by simp
    then show ?thesis
      by (cases "allocate a (e_kind e') (slice text (e_start e') (e_end e'))") auto
  qed
qed

text \<open>Tokens handed out by one allocator for one text: numbered, absent from the text, equal
  exactly for the same kind and the same original.\<close>

definition tokens_fresh :: "string \<Rightarrow> replacement list \<Rightarrow> bool" where
  "tokens_fresh text rs \<longleftrightarrow>
     (\<forall>r \<in> set rs. (\<exists>n. r_token r = token_of (r_kind r) n) \<and> \<not> contains text (r_token r)) \<and>
     (\<forall>r \<in> set rs. \<forall>r' \<in> set rs.
        r_token r = r_token r' \<longleftrightarrow> r_kind r = r_kind r' \<and> r_original r = r_original r')"

lemma tokens_fresh_allocator:
  assumes "alloc_inv a" "\<forall>r \<in> set rs. a_mappings a (r_kind r) (r_original r) = Some (r_token r)"
    "a_text a = text"
  shows "tokens_fresh text rs"
proof -
  have "(\<exists>n. r_token r = token_of (r_kind r) n) \<and> \<not> contains text (r_token r)" if "r \<in> set rs" for r
    using alloc_invD[OF assms(1)] assms(2,3) that by metis
  moreover have "r_token r = r_token r' \<longleftrightarrow> r_kind r = r_kind r' \<and> r_original r = r_original r'"
    if "r \<in> set rs" "r' \<in> set rs" for r r'
    using alloc_inv_inj[OF assms(1)] assms(2) that by (metis option.inject)
  ultimately show ?thesis
    by (simp add: tokens_fresh_def)
qed

lemma plan_of_allocator:
  assumes "alloc_inv a"
  shows "\<exists>a'. alloc_inv a' \<and> a_text a' = a_text a
    \<and> (\<forall>k v t. a_mappings a k v = Some t \<longrightarrow> a_mappings a' k v = Some t)
    \<and> (\<forall>r \<in> set (plan_of text pol a es). a_mappings a' (r_kind r) (r_original r) = Some (r_token r))"
  using assms
proof (induction es arbitrary: a)
  case Nil
  then show ?case by auto
next
  case (Cons e es)
  show ?case
  proof (cases "accepts pol (e_kind e) (e_conf e)")
    case False
    then show ?thesis using Cons by simp
  next
    case True
    obtain tok a1 where al: "allocate a (e_kind e) (slice text (e_start e) (e_end e)) = (tok, a1)"
      by (cases "allocate a (e_kind e) (slice text (e_start e) (e_end e))")
    obtain a' where a': "alloc_inv a'" "a_text a' = a_text a1"
      "\<forall>k v t. a_mappings a1 k v = Some t \<longrightarrow> a_mappings a' k v = Some t"
      "\<forall>r \<in> set (plan_of text pol a1 es). a_mappings a' (r_kind r) (r_original r) = Some (r_token r)"
      using Cons.IH[OF allocate_inv[OF Cons.prems al]] by blast
    have "a_text a1 = a_text a"
      using allocate_text[of a "e_kind e" "slice text (e_start e) (e_end e)"] al by simp
    then show ?thesis
      using True al a' allocate_records[OF al] allocate_keeps[OF al]
      by (intro exI[of _ a']) auto
  qed
qed

lemma plan_of_tokens: "tokens_fresh text (plan_of text pol (new_allocator text) es)"
proof -
  obtain a' where "alloc_inv a'" "a_text a' = a_text (new_allocator text)"
    "\<forall>r \<in> set (plan_of text pol (new_allocator text) es).
       a_mappings a' (r_kind r) (r_original r) = Some (r_token r)"
    using plan_of_allocator[OF alloc_inv_new] by blast
  then show ?thesis
    using tokens_fresh_allocator[of a'] by (simp add: new_allocator_def)
qed

end
