(* ===== verification/Apply.thy ===== *)
theory Apply
  imports Plan
begin

text \<open>
  \<open>internal/tokenizer/apply.go\<close>: sort the replacements by start, validate them, record the
  mapping of every replacement, and build the masked text from the end.  The parts are
  collected last first and written in reverse.  Every slice the code takes is modelled with
  its panic; \<open>val_apply_replacements\<close> shows that validation rules the panics out.
\<close>

definition spans_overlap :: "replacement \<Rightarrow> replacement \<Rightarrow> bool" where
  "spans_overlap a b \<longleftrightarrow> r_start a < r_end b \<and> r_start b < r_end a"

fun validate_from :: "string \<Rightarrow> replacement option \<Rightarrow> replacement list \<Rightarrow> (ctx, unit) sm" where
  "validate_from text prev [] = ret ()"
| "validate_from text prev (r # rs) =
     mbind poll (\<lambda>_.
     mbind (lift (validate_span text (r_start r) (r_end r))) (\<lambda>_.
     mbind (lift (go_slice text (r_start r) (r_end r))) (\<lambda>s.
     if s \<noteq> r_original r then throw ErrInvalidSpan
     else if r_token r = [] then throw ErrInvalidSpan
     else if (case prev of None \<Rightarrow> False | Some p \<Rightarrow> spans_overlap p r) then throw ErrInvalidSpan
     else validate_from text (Some r) rs)))"

definition validate_replacements :: "string \<Rightarrow> replacement list \<Rightarrow> (ctx, unit) sm" where
  "validate_replacements text rs = validate_from text None rs"

definition mapping_of :: "replacement \<Rightarrow> token_mapping" where
  "mapping_of r = \<lparr>m_token = r_token r, m_original = r_original r, m_kind = r_kind r,
     m_source = r_source r, m_start = r_start r, m_end = r_end r\<rparr>"

fun mappings_from ::
  "(string \<Rightarrow> token_mapping option) \<Rightarrow> token_mapping list \<Rightarrow> replacement list \<Rightarrow> (ctx, token_mapping list) sm"
where
  "mappings_from tok acc [] = ret acc"
| "mappings_from tok acc (r # rs) =
     mbind poll (\<lambda>_.
       (case tok (r_token r) of
          Some existing \<Rightarrow>
            (if m_original existing \<noteq> r_original r \<or> m_kind existing \<noteq> r_kind r
             then throw ErrInvalidSpan
             else mappings_from tok (acc @ [mapping_of r]) rs)
        | None \<Rightarrow>
            mappings_from
              (tok(r_token r \<mapsto> \<lparr>m_token = r_token r, m_original = r_original r, m_kind = r_kind r,
                  m_source = r_source r, m_start = 0, m_end = 0\<rparr>))
              (acc @ [mapping_of r]) rs))"

definition build_mappings :: "replacement list \<Rightarrow> (ctx, token_mapping list) sm" where
  "build_mappings rs = mappings_from Map.empty [] rs"

text \<open>The first loop of \<open>buildMaskedText\<close>, on the reversed replacements, and the second one.\<close>

fun masked_parts :: "string \<Rightarrow> int \<Rightarrow> string list \<Rightarrow> replacement list \<Rightarrow> (ctx, string list) sm" where
  "masked_parts text prev parts [] =
     mbind (lift (go_slice text 0 prev)) (\<lambda>s. ret (parts @ [s]))"
| "masked_parts text prev parts (r # rs) =
     mbind poll (\<lambda>_.
     mbind (lift (go_slice text (r_end r) prev)) (\<lambda>s.
     masked_parts text (r_start r) (parts @ [s, r_token r]) rs))"

fun write_parts :: "string \<Rightarrow> string list \<Rightarrow> (ctx, string) sm" where
  "write_parts sb [] = ret sb"
| "write_parts sb (p # ps) = mbind poll (\<lambda>_. write_parts (sb @ p) ps)"

definition build_masked_text :: "string \<Rightarrow> replacement list \<Rightarrow> (ctx, string) sm" where
  "build_masked_text text rs =
     mbind (masked_parts text (int (length text)) [] (rev rs)) (\<lambda>parts. write_parts [] (rev parts))"

definition starts_before :: "replacement \<Rightarrow> replacement \<Rightarrow> bool" where
  "starts_before a b \<longleftrightarrow> r_start a < r_start b"

definition apply_replacements :: "string \<Rightarrow> replacement list \<Rightarrow> (ctx, string \<times> token_mapping list) sm" where
  "apply_replacements text rs =
     (let srt = go_sort starts_before rs in
      mbind (validate_replacements text srt) (\<lambda>_.
      mbind (build_mappings srt) (\<lambda>ms.
      mbind (build_masked_text text srt) (\<lambda>masked.
      ret (masked, ms)))))"

section \<open>Polling\<close>

lemma polls_validate_from [ctx_polls, intro!]: "polls (validate_from text prev rs)"
  by (induction rs arbitrary: prev) (auto intro!: polls_mbind)

lemma polls_mappings_from [ctx_polls, intro!]: "polls (mappings_from tok acc rs)"
  by (induction rs arbitrary: tok acc) (auto intro!: polls_mbind split: option.split)

lemma polls_masked_parts [ctx_polls, intro!]: "polls (masked_parts text prev parts rs)"
  by (induction rs arbitrary: prev parts) (auto intro!: polls_mbind)

lemma polls_write_parts [ctx_polls, intro!]: "polls (write_parts sb ps)"
  by (induction ps arbitrary: sb) (auto intro!: polls_mbind)

lemma polls_build_masked_text [ctx_polls, intro!]: "polls (build_masked_text text rs)"
  by (auto simp: build_masked_text_def intro!: polls_mbind)

lemma polls_apply_replacements [ctx_polls, intro!]: "polls (apply_replacements text rs)"
  by (auto simp: apply_replacements_def validate_replacements_def build_mappings_def Let_def
      intro!: polls_mbind)

section \<open>Replacements in order\<close>

text \<open>Valid replacements from position \<open>p\<close> on, left to right without overlap.\<close>

fun chain_ok :: "string \<Rightarrow> int \<Rightarrow> replacement list \<Rightarrow> bool" where
  "chain_ok text p [] = True"
| "chain_ok text p (r # rs) =
     (p \<le> r_start r \<and> repl_ok text r \<and> r_token r \<noteq> [] \<and> chain_ok text (r_end r) rs)"

text \<open>The text from \<open>p\<close> to \<open>q\<close> with the spans replaced by tokens.\<close>

fun splice :: "string \<Rightarrow> int \<Rightarrow> replacement list \<Rightarrow> int \<Rightarrow> string" where
  "splice text p [] q = slice text p q"
| "splice text p (r # rs) q = slice text p (r_start r) @ r_token r @ splice text (r_end r) rs q"

fun end_of :: "int \<Rightarrow> replacement list \<Rightarrow> int" where
  "end_of p [] = p"
| "end_of p (r # rs) = end_of (r_end r) rs"

lemma repl_okD:
  assumes "repl_ok text r"
  shows "0 \<le> r_start r" "r_start r < r_end r" "r_end r \<le> int (length text)"
    "r_original r = slice text (r_start r) (r_end r)" "span_ok text (r_start r) (r_end r)"
  using assms by (auto simp: repl_ok_def span_ok_def)

lemma chain_ok_snoc:
  "chain_ok text p (rs @ [r]) \<longleftrightarrow>
     chain_ok text p rs \<and> end_of p rs \<le> r_start r \<and> repl_ok text r \<and> r_token r \<noteq> []"
  by (induction rs arbitrary: p) auto

lemma splice_snoc:
  "splice text p (rs @ [r]) q = splice text p rs (r_start r) @ r_token r @ slice text (r_end r) q"
  by (induction rs arbitrary: p) auto

lemma end_of_snoc [simp]: "end_of p (rs @ [r]) = r_end r"
  by (induction rs arbitrary: p) auto

lemma chain_ok_end: "chain_ok text p rs \<Longrightarrow> p \<le> end_of p rs"
  by (induction rs arbitrary: p) (auto dest!: repl_okD(2), fastforce)

lemma chain_ok_all: "chain_ok text p rs \<Longrightarrow> r \<in> set rs \<Longrightarrow> repl_ok text r \<and> r_token r \<noteq> [] \<and> p \<le> r_start r"
proof (induction rs arbitrary: p)
  case Nil
  then show ?case by simp
next
  case (Cons r' rs)
  then show ?case
    using repl_okD(2)[of "text" r'] by fastforce
qed

lemma chain_ok_sorted: "chain_ok text p rs \<Longrightarrow> sorted_wrt (\<lambda>a b. r_end a \<le> r_start b) rs"
  by (induction rs arbitrary: p) (auto dest: chain_ok_all)

lemma chain_ok_starts: "chain_ok text p rs \<Longrightarrow> sorted_wrt (\<lambda>a b. r_start a < r_start b) rs"
proof (induction rs arbitrary: p)
  case Nil
  then show ?case by simp
next
  case (Cons r rs)
  then show ?case
    using repl_okD(2)[of "text" r] by (fastforce dest: chain_ok_all)
qed

section \<open>Validation\<close>

lemma val_validate_Cons:
  "val (validate_from text prev (r # rs)) =
     (if repl_ok text r \<and> r_token r \<noteq> [] \<and> \<not> (case prev of None \<Rightarrow> False | Some p \<Rightarrow> spans_overlap p r)
      then val (validate_from text (Some r) rs) else Inl ErrInvalidSpan)"
proof (cases "span_ok text (r_start r) (r_end r)")
  case False
  then show ?thesis
    by (simp add: val_mbind validate_span_iff repl_ok_def)
next
  case True
  then show ?thesis
    by (simp add: val_mbind validate_span_iff repl_ok_def val_if)
qed

declare validate_from.simps(2) [simp del]

lemma val_validate_Some:
  assumes "repl_ok text p" "sorted_wrt (\<lambda>a b. r_start a \<le> r_start b) (p # rs)"
  shows "val (validate_from text (Some p) rs) =
    (if chain_ok text (r_end p) rs then Inr () else Inl ErrInvalidSpan)"
  using assms
proof (induction rs arbitrary: p)
  case Nil
  then show ?case by simp
next
  case (Cons r rs)
  show ?case
  proof (cases "repl_ok text r \<and> r_token r \<noteq> []")
    case False
    then show ?thesis by (auto simp: val_validate_Cons)
  next
    case True
    have "r_start p \<le> r_start r"
      using Cons.prems(2) by simp
    then have "spans_overlap p r \<longleftrightarrow> \<not> r_end p \<le> r_start r"
      using repl_okD(2)[of "text" r] True by (auto simp: spans_overlap_def)
    then show ?thesis
      using Cons.IH[of r] Cons.prems(2) True by (simp add: val_validate_Cons)
  qed
qed

lemma val_validate:
  assumes "sorted_wrt (\<lambda>a b. r_start a \<le> r_start b) rs"
  shows "val (validate_replacements text rs) = (if chain_ok text 0 rs then Inr () else Inl ErrInvalidSpan)"
proof (cases rs)
  case Nil
  then show ?thesis by (simp add: validate_replacements_def)
next
  case (Cons r rs')
  then show ?thesis
    using val_validate_Some[of "text" r rs'] assms repl_okD(1)[of "text" r]
    by (auto simp: validate_replacements_def val_validate_Cons simp del: validate_from.simps)
qed

section \<open>Mappings\<close>

lemma val_mappings_Cons:
  "val (mappings_from tok acc (r # rs)) =
     (case tok (r_token r) of
        Some existing \<Rightarrow>
          (if m_original existing \<noteq> r_original r \<or> m_kind existing \<noteq> r_kind r
           then Inl ErrInvalidSpan else val (mappings_from tok (acc @ [mapping_of r]) rs))
      | None \<Rightarrow> val (mappings_from
            (tok(r_token r \<mapsto> \<lparr>m_token = r_token r, m_original = r_original r, m_kind = r_kind r,
                  m_source = r_source r, m_start = 0, m_end = 0\<rparr>)) (acc @ [mapping_of r]) rs))"
  by (simp add: val_mbind split: option.split)

declare mappings_from.simps(2) [simp del]

definition repl_consistent :: "replacement list \<Rightarrow> bool" where
  "repl_consistent rs \<longleftrightarrow> (\<forall>r \<in> set rs. \<forall>r' \<in> set rs. r_token r = r_token r' \<longrightarrow>
      r_original r = r_original r' \<and> r_kind r = r_kind r')"

definition seen_by :: "(string \<Rightarrow> token_mapping option) \<Rightarrow> replacement list \<Rightarrow> bool" where
  "seen_by tok rs \<longleftrightarrow>
     (\<forall>r \<in> set rs. \<exists>m. tok (r_token r) = Some m \<and> m_original m = r_original r \<and> m_kind m = r_kind r) \<and>
     (\<forall>t m. tok t = Some m \<longrightarrow> (\<exists>r \<in> set rs. r_token r = t))"

lemma repl_consistent_new:
  assumes "repl_consistent rs0" "\<forall>r' \<in> set rs0. r_token r' \<noteq> r_token r"
  shows "repl_consistent (rs0 @ [r])"
  unfolding repl_consistent_def
proof (intro ballI impI)
  fix a b assume "a \<in> set (rs0 @ [r])" "b \<in> set (rs0 @ [r])" "r_token a = r_token b"
  then consider "a \<in> set rs0" "b \<in> set rs0" | "a = b"
    using assms(2) by fastforce
  then show "r_original a = r_original b \<and> r_kind a = r_kind b"
    using assms(1) \<open>r_token a = r_token b\<close> unfolding repl_consistent_def by cases blast+
qed

lemma repl_consistent_same:
  assumes "repl_consistent rs0" "r' \<in> set rs0" "r_token r' = r_token r"
    "r_original r' = r_original r" "r_kind r' = r_kind r"
  shows "repl_consistent (rs0 @ [r])"
  unfolding repl_consistent_def
proof (intro ballI impI)
  have same: "r_original a = r_original r \<and> r_kind a = r_kind r"
    if "a \<in> set (rs0 @ [r])" "r_token a = r_token r" for a
  proof (cases "a = r")
    case False
    then have "a \<in> set rs0" using that(1) by simp
    then have "r_original a = r_original r' \<and> r_kind a = r_kind r'"
      using assms(1,2,3) that(2) unfolding repl_consistent_def by metis
    then show ?thesis using assms(4,5) by simp
  qed simp
  fix a b assume ab: "a \<in> set (rs0 @ [r])" "b \<in> set (rs0 @ [r])" "r_token a = r_token b"
  then consider "a \<in> set rs0" "b \<in> set rs0" | "r_token a = r_token r" "r_token b = r_token r"
    by fastforce
  then show "r_original a = r_original b \<and> r_kind a = r_kind b"
  proof cases
    case 1
    then show ?thesis using assms(1) ab(3) unfolding repl_consistent_def by blast
  next
    case 2
    then show ?thesis using same[OF ab(1)] same[OF ab(2)] by simp
  qed
qed

lemma val_mappings_from:
  assumes "seen_by tok rs0" "repl_consistent rs0"
  shows "val (mappings_from tok acc rs) =
    (if repl_consistent (rs0 @ rs) then Inr (acc @ map mapping_of rs) else Inl ErrInvalidSpan)"
  using assms
proof (induction rs arbitrary: tok acc rs0)
  case Nil
  then show ?case by simp
next
  case (Cons r rs)
  have app: "rs0 @ r # rs = (rs0 @ [r]) @ rs" by simp
  show ?case
  proof (cases "tok (r_token r)")
    case None
    then have new: "\<forall>r' \<in> set rs0. r_token r' \<noteq> r_token r"
      using Cons.prems(1) unfolding seen_by_def by fastforce
    have "seen_by (tok(r_token r \<mapsto> \<lparr>m_token = r_token r, m_original = r_original r, m_kind = r_kind r,
                  m_source = r_source r, m_start = 0, m_end = 0\<rparr>)) (rs0 @ [r])"
      using Cons.prems(1) new unfolding seen_by_def by auto
    moreover have "repl_consistent (rs0 @ [r])"
      using Cons.prems(2) new by (rule repl_consistent_new)
    ultimately show ?thesis
      unfolding app val_mappings_Cons None option.case
      by (subst Cons.IH[of _ "rs0 @ [r]"]) simp_all
  next
    case (Some m)
    then obtain r' where r': "r' \<in> set rs0" "r_token r' = r_token r"
      using Cons.prems(1) unfolding seen_by_def by blast
    then have m: "m_original m = r_original r'" "m_kind m = r_kind r'"
      using Cons.prems(1) Some unfolding seen_by_def by fastforce+
    show ?thesis
    proof (cases "m_original m = r_original r \<and> m_kind m = r_kind r")
      case False
      then have "\<not> repl_consistent (rs0 @ r # rs)"
        using r' m unfolding repl_consistent_def by auto
      then show ?thesis
        using Some False by (auto simp: val_mappings_Cons)
    next
      case True
      have "seen_by tok (rs0 @ [r])"
        using Cons.prems(1) Some True unfolding seen_by_def by auto
      moreover have "repl_consistent (rs0 @ [r])"
        using Cons.prems(2) r' m True by (intro repl_consistent_same) auto
      ultimately show ?thesis
        unfolding app val_mappings_Cons Some using True by (simp add: Cons.IH[of _ "rs0 @ [r]"])
    qed
  qed
qed

lemma val_build_mappings:
  "val (build_mappings rs) = (if repl_consistent rs then Inr (map mapping_of rs) else Inl ErrInvalidSpan)"
proof -
  have "seen_by Map.empty []" "repl_consistent []"
    unfolding seen_by_def repl_consistent_def by simp_all
  from val_mappings_from[OF this, of "[]" rs] show ?thesis
    by (simp add: build_mappings_def)
qed

section \<open>The masked text\<close>

lemma val_write_parts: "val (write_parts sb ps) = Inr (sb @ concat ps)"
  by (induction ps arbitrary: sb) (simp_all add: val_mbind)

lemma val_masked_parts:
  assumes "chain_ok text 0 rs" "end_of 0 rs \<le> q" "q \<le> int (length text)"
  shows "\<exists>ps. val (masked_parts text q parts (rev rs)) = Inr (parts @ ps)
    \<and> concat (rev ps) = splice text 0 rs q"
  using assms
proof (induction rs arbitrary: q parts rule: rev_induct)
  case Nil
  then show ?case by (auto simp: val_mbind slice_ok_def)
next
  case (snoc r rs)
  have r: "chain_ok text 0 rs" "end_of 0 rs \<le> r_start r" "repl_ok text r"
    using snoc.prems(1) by (auto simp: chain_ok_snoc)
  have "r_end r \<le> q"
    using snoc.prems(2) by simp
  then have ok: "slice_ok text (r_end r) q"
    using repl_okD[OF r(3)] snoc.prems(3) by (simp add: slice_ok_def)
  have "r_start r \<le> int (length text)"
    using repl_okD[OF r(3)] by simp
  then obtain ps where ps: "val (masked_parts text (r_start r) (parts @ [slice text (r_end r) q, r_token r]) (rev rs))
      = Inr ((parts @ [slice text (r_end r) q, r_token r]) @ ps)" "concat (rev ps) = splice text 0 rs (r_start r)"
    using snoc.IH[OF r(1,2)] by blast
  then have "val (masked_parts text q parts (rev (rs @ [r])))
      = Inr (parts @ [slice text (r_end r) q, r_token r] @ ps)"
    using ok by (simp add: val_mbind)
  then show ?case
    using ps(2) by (intro exI[of _ "[slice text (r_end r) q, r_token r] @ ps"]) (simp add: splice_snoc)
qed

lemma chain_ok_end_le: "chain_ok text p rs \<Longrightarrow> p \<le> int (length text) \<Longrightarrow> end_of p rs \<le> int (length text)"
  by (induction rs arbitrary: p) (auto dest: repl_okD(3))

lemma val_build_masked_text:
  assumes "chain_ok text 0 rs"
  shows "val (build_masked_text text rs) = Inr (splice text 0 rs (int (length text)))"
proof -
  have "end_of 0 rs \<le> int (length text)"
    using chain_ok_end_le[OF assms] by simp
  then obtain ps where ps: "val (masked_parts text (int (length text)) [] (rev rs)) = Inr ps"
    "concat (rev ps) = splice text 0 rs (int (length text))"
    using val_masked_parts[OF assms, of "int (length text)" "[]"] by auto
  then show ?thesis
    by (simp add: build_masked_text_def val_mbind polls_masked_parts val_write_parts)
qed

section \<open>The whole operation\<close>

interpretation by_start: strict_weak "\<lambda>_. True" starts_before
  by unfold_locales (auto simp: starts_before_def)

lemma starts_sorted: "sorted_wrt (\<lambda>a b. r_start a \<le> r_start b) (go_sort starts_before rs)"
  using by_start.go_sort_ordered[of rs] by (simp add: starts_before_def not_less)

text \<open>Applying replacements either reports an invalid span or gives the splice of the sorted
  replacements with the list of their mappings; it never panics.\<close>

lemma val_apply_replacements:
  "val (apply_replacements text rs) =
     (let srt = go_sort starts_before rs in
      if chain_ok text 0 srt \<and> repl_consistent srt
      then Inr (splice text 0 srt (int (length text)), map mapping_of srt)
      else Inl ErrInvalidSpan)"
proof -
  have polls: "polls (validate_replacements text srt)" "polls (build_mappings srt)" for srt
    by (auto simp: validate_replacements_def build_mappings_def)
  show ?thesis
    by (auto simp: apply_replacements_def Let_def val_mbind polls polls_build_masked_text
        val_validate[OF starts_sorted] val_build_mappings val_build_masked_text)
qed

lemma val_apply_Inr:
  "val (apply_replacements text rs) = Inr (masked, ms) \<longleftrightarrow>
     (let srt = go_sort starts_before rs in
      chain_ok text 0 srt \<and> repl_consistent srt
      \<and> masked = splice text 0 srt (int (length text)) \<and> ms = map mapping_of srt)"
  by (auto simp: val_apply_replacements Let_def)

section \<open>Order independence\<close>

lemma chain_sort_unique:
  assumes "chain_ok text p (go_sort starts_before rs)" "mset rs = mset rs'"
  shows "go_sort starts_before rs = go_sort starts_before rs'"
proof (rule strict_ordered_unique[where lt = starts_before])
  show "sorted_wrt starts_before (go_sort starts_before rs)"
    using chain_ok_starts[OF assms(1)] by (simp add: starts_before_def[abs_def])
  show "sorted_wrt (\<lambda>x y. \<not> starts_before y x) (go_sort starts_before rs')"
    using starts_sorted[of rs'] by (simp add: starts_before_def not_less)
qed (use assms(2) in \<open>simp_all add: starts_before_def\<close>)

lemma repl_consistent_mset: "mset rs = mset rs' \<Longrightarrow> repl_consistent rs = repl_consistent rs'"
  unfolding repl_consistent_def by (metis set_mset_mset)

lemma val_apply_perm:
  assumes "mset rs = mset rs'"
  shows "val (apply_replacements text rs) = val (apply_replacements text rs')"
proof (cases "chain_ok text 0 (go_sort starts_before rs) \<or> chain_ok text 0 (go_sort starts_before rs')")
  case True
  then have "go_sort starts_before rs = go_sort starts_before rs'"
    using chain_sort_unique assms by metis
  then show ?thesis
    by (simp only: val_apply_replacements)
next
  case False
  then show ?thesis
    by (simp add: val_apply_replacements Let_def)
qed

section \<open>The way back\<close>

lemma slice_no_token: "\<not> has_token text \<Longrightarrow> \<not> has_token (slice text a b)"
  by (metis has_token_infix slice_infix)

lemma val_detok_splice:
  assumes "chain_ok text p rs" "0 \<le> p" "end_of p rs \<le> q" "q \<le> int (length text)"
    and "\<not> has_token text"
    and "\<forall>r \<in> set rs. (\<exists>k n. r_token r = token_of k n)
      \<and> map_option m_original (tm (r_token r)) = Some (r_original r)"
  shows "val (detok_loop tm sb (splice text p rs q)) = Inr (sb @ slice text p q)"
  using assms
proof (induction rs arbitrary: p sb)
  case Nil
  then show ?case
    by (simp add: val_detok_plain slice_no_token)
next
  case (Cons r rs)
  from Cons.prems(1) have r: "p \<le> r_start r" "repl_ok text r" "chain_ok text (r_end r) rs"
    by auto
  note r' = repl_okD[OF r(2)]
  obtain k n m where tok: "r_token r = token_of k n" "tm (token_of k n) = Some m" "m_original m = r_original r"
    using Cons.prems(6) by auto
  have "val (detok_loop tm sb (splice text p (r # rs) q))
      = val (detok_loop tm ((sb @ slice text p (r_start r)) @ r_original r) (splice text (r_end r) rs q))"
    by (simp add: tok val_detok_gap[OF slice_no_token[OF Cons.prems(5)]] val_detok_token[of tm k n m, OF tok(2)])
  also have "\<dots> = Inr (sb @ (slice text p (r_start r) @ r_original r @ slice text (r_end r) q))"
    using Cons.IH[OF r(3)] Cons.prems r' by simp
  also have "slice text p (r_start r) @ r_original r @ slice text (r_end r) q = slice text p q"
  proof -
    have "r_end r \<le> q"
      using chain_ok_end[OF r(3)] Cons.prems(3) by simp
    then show ?thesis
      using r r' Cons.prems(2) by (simp add: slice_append)
  qed
  finally show ?case by simp
qed

lemma mapping_of_consistent: "repl_consistent rs \<Longrightarrow> consistent (map mapping_of rs)"
  unfolding repl_consistent_def consistent_def set_map ball_simps mapping_of_def token_mapping.simps
  by blast

text \<open>Detokenizing a masked text with its own mappings restores the text.\<close>

lemma val_detok_masked:
  assumes "val (apply_replacements text rs) = Inr (masked, ms)"
    and "\<not> has_token text" "\<forall>r \<in> set rs. \<exists>k n. r_token r = token_of k n"
  shows "val (detokenize masked ms) = Inr text"
proof -
  let ?s = "go_sort starts_before rs"
  have s: "chain_ok text 0 ?s" "repl_consistent ?s" "masked = splice text 0 ?s (int (length text))"
    "ms = map mapping_of ?s"
    using assms(1) by (simp_all add: val_apply_Inr Let_def)
  obtain tm where tm: "val (token_map_from Map.empty ms) = Inr tm"
    "\<And>m. m \<in> set ms \<Longrightarrow> map_option m_original (tm (m_token m)) = Some (m_original m)"
    using val_token_map[OF mapping_of_consistent[OF s(2)]] s(4) by metis
  have "map_option m_original (tm (r_token r)) = Some (r_original r)" if r: "r \<in> set ?s" for r
  proof -
    have "mapping_of r \<in> set ms"
      using r by (simp add: s(4))
    from tm(2)[OF this] show ?thesis
      by (simp add: mapping_of_def)
  qed
  then have "val (detok_loop tm [] masked) = Inr ([] @ slice text 0 (int (length text)))"
    unfolding s(3) using s(1) chain_ok_end_le[OF s(1)] assms(2,3)
    by (intro val_detok_splice) auto
  then show ?thesis
    by (simp add: detokenize_def val_mbind polls_token_map tm(1) slice_def)
qed

section \<open>Applying the recorded mappings again\<close>

text \<open>The replacements a retry rebuilds from the mappings of a session.\<close>

definition replacement_of :: "token_mapping \<Rightarrow> replacement" where
  "replacement_of m = \<lparr>r_start = m_start m, r_end = m_end m, r_token = m_token m,
     r_original = m_original m, r_kind = m_kind m, r_source = m_source m, r_conf = Fin 0\<rparr>"

lemma replacement_of_mapping_of [simp]: "replacement_of (mapping_of r) = r\<lparr>r_conf := Fin 0\<rparr>"
  by (simp add: replacement_of_def mapping_of_def)

lemma chain_ok_conf [simp]: "chain_ok text p (map (r_conf_update f) rs) = chain_ok text p rs"
  by (induction rs arbitrary: p) (auto simp: repl_ok_def)

lemma splice_conf [simp]: "splice text p (map (r_conf_update f) rs) q = splice text p rs q"
  by (induction rs arbitrary: p) auto

lemma repl_consistent_conf [simp]: "repl_consistent (map (r_conf_update f) rs) = repl_consistent rs"
  by (simp add: repl_consistent_def)

lemma val_apply_again:
  assumes "val (apply_replacements text rs) = Inr (masked, ms)"
  shows "val (apply_replacements text (map replacement_of ms)) = Inr (masked, ms)"
proof -
  let ?s = "go_sort starts_before rs"
  let ?c = "map (r_conf_update (\<lambda>_. Fin 0)) ?s"
  have s: "chain_ok text 0 ?s" "repl_consistent ?s" "masked = splice text 0 ?s (int (length text))"
    "ms = map mapping_of ?s"
    using assms(1) by (simp_all add: val_apply_Inr Let_def)
  have c: "map replacement_of ms = ?c"
    by (simp add: s(4))
  have "chain_ok text 0 ?c" using s(1) by simp
  then have "sorted_wrt starts_before ?c"
    using chain_ok_starts[of "text" 0 ?c] by (simp only: starts_before_def[abs_def])
  then have "go_sort starts_before ?c = ?c"
    by (intro go_sort_id) (rule sorted_wrt_mono_rel, auto simp: starts_before_def)
  then show ?thesis
    unfolding c val_apply_Inr Let_def using s by (simp add: mapping_of_def)
qed

end
