(* ===== verification/Merge.thy ===== *)
theory Merge
  imports Apply
begin

text \<open>
  \<open>internal/tokenizer/merge.go\<close>: the plans of the two detectors become one.  Candidates that
  differ only in source, confidence or token are one candidate (the loop over a Go map
  keyed by a formatted string, with the order of first occurrence kept beside it); then the
  candidates, strongest first, take what the stronger ones left uncovered; at last tokens
  are handed out again, left to right.
\<close>

definition type_priority :: "pii_kind \<Rightarrow> int" where
  "type_priority k =
     (if k \<in> {PIIKindPhone, PIIKindEmail, PIIKindINN, PIIKindBankCard,
              PIIKindPassport, PIIKindPassportDivision, PIIKindDate,
              PIIKindDriverLicense, PIIKindCVV, PIIKindPIN, PIIKindPostalCode,
              PIIKindFullName, PIIKindAddress} then 2
      else if k \<in> {PIIKindFirstName, PIIKindLastName, PIIKindMiddleName,
              PIIKindCity, PIIKindStreet, PIIKindHouse, PIIKindApartment,
              PIIKindBirthPlace, PIIKindCitizenship, PIIKindPassportIssuer,
              PIIKindCardHolderName} then 1
      else 0)"

definition primary_source :: "pii_kind \<Rightarrow> source" where
  "primary_source k =
     (if k \<in> {PIIKindPhone, PIIKindEmail, PIIKindINN, PIIKindBankCard,
              PIIKindPassport, PIIKindPassportDivision, PIIKindDate,
              PIIKindDriverLicense, PIIKindCVV, PIIKindPIN, PIIKindPostalCode} then SourceReg
      else SourceML)"

definition candidate_less :: "replacement \<Rightarrow> replacement \<Rightarrow> bool" where
  "candidate_less a b =
     (let pa = type_priority (r_kind a); pb = type_priority (r_kind b) in
      if pa \<noteq> pb then pa > pb
      else
        let a_primary = (r_source a = primary_source (r_kind a));
            b_primary = (r_source b = primary_source (r_kind b)) in
        if a_primary \<noteq> b_primary then a_primary
        else if f_neq (r_conf a) (r_conf b) then f_lt (r_conf b) (r_conf a)
        else
          let a_len = r_end a - r_start a; b_len = r_end b - r_start b in
          if a_len \<noteq> b_len then a_len > b_len
          else if r_start a \<noteq> r_start b then r_start a < r_start b
          else if r_end a \<noteq> r_end b then r_end a < r_end b
          else if r_kind a \<noteq> r_kind b then r_kind a < r_kind b
          else if r_source a \<noteq> r_source b then r_source a < r_source b
          else r_token a < r_token b)"

definition pick_winner :: "replacement \<Rightarrow> replacement \<Rightarrow> replacement" where
  "pick_winner a b =
     (let primary_a = primary_source (r_kind a); primary_b = primary_source (r_kind b) in
      if r_source a = primary_a \<and> r_source b \<noteq> primary_b then a
      else if r_source b = primary_b \<and> r_source a \<noteq> primary_a then b
      else if f_neq (r_conf a) (r_conf b) then (if f_lt (r_conf b) (r_conf a) then a else b)
      else if r_source a \<noteq> r_source b then (if r_source a < r_source b then a else b)
      else if r_token a < r_token b then a
      else b)"

text \<open>The key \<open>"%d:%d:%s:%s"\<close> of \<open>dedupe\<close>.\<close>

definition dedupe_key :: "replacement \<Rightarrow> string" where
  "dedupe_key r =
     show_int (r_start r) @ '':'' @ show_int (r_end r) @ '':'' @ kind_name (r_kind r) @ '':'' @ r_original r"

fun dedupe_loop ::
  "(string \<Rightarrow> replacement option) \<Rightarrow> string list \<Rightarrow> replacement list
    \<Rightarrow> (string \<Rightarrow> replacement option) \<times> string list"
where
  "dedupe_loop by_key order [] = (by_key, order)"
| "dedupe_loop by_key order (r # rs) =
     (let key = dedupe_key r in
      case by_key key of
        None \<Rightarrow> dedupe_loop (by_key(key \<mapsto> r)) (order @ [key]) rs
      | Some existing \<Rightarrow> dedupe_loop (by_key(key \<mapsto> pick_winner existing r)) order rs)"

definition dedupe :: "replacement list \<Rightarrow> replacement list" where
  "dedupe rs =
     (case dedupe_loop Map.empty [] rs of (by_key, order) \<Rightarrow> map (\<lambda>key. the (by_key key)) order)"

definition by_start_end :: "replacement \<Rightarrow> replacement \<Rightarrow> bool" where
  "by_start_end a b =
     (if r_start a \<noteq> r_start b then r_start a < r_start b else r_end a < r_end b)"

text \<open>The loop of \<open>uncoveredSpans\<close>; \<open>stop\<close> is \<open>c.End\<close>, the last line is the code after the loop.\<close>

definition uncovered_tail :: "int \<Rightarrow> int \<Rightarrow> (int \<times> int) list" where
  "uncovered_tail stop cursor = (if cursor < stop then [(cursor, stop)] else [])"

fun uncovered_loop :: "int \<Rightarrow> int \<Rightarrow> replacement list \<Rightarrow> (int \<times> int) list" where
  "uncovered_loop stop cursor [] = uncovered_tail stop cursor"
| "uncovered_loop stop cursor (s # ss) =
     (if r_end s \<le> cursor then uncovered_loop stop cursor ss
      else if r_start s \<ge> stop then uncovered_tail stop cursor
      else
        let out = (if r_start s > cursor then [(cursor, min (r_start s) stop)] else []);
            cursor' = (if r_end s > cursor then max cursor (r_end s) else cursor) in
        out @ (if cursor' \<ge> stop then uncovered_tail stop cursor' else uncovered_loop stop cursor' ss))"

definition uncovered_spans :: "replacement \<Rightarrow> replacement list \<Rightarrow> (int \<times> int) list" where
  "uncovered_spans c selected = uncovered_loop (r_end c) (r_start c) (go_sort by_start_end selected)"

fun append_pieces ::
  "string \<Rightarrow> replacement \<Rightarrow> (int \<times> int) list \<Rightarrow> replacement list \<Rightarrow> replacement list res" where
  "append_pieces text c [] selected = Inr selected"
| "append_pieces text c (u # us) selected =
     rbind (go_slice text (fst u) (snd u)) (\<lambda>original.
       append_pieces text c us
         (selected @ [c\<lparr>r_start := fst u, r_end := snd u, r_original := original\<rparr>]))"

fun resolve_loop :: "string \<Rightarrow> replacement list \<Rightarrow> replacement list \<Rightarrow> (ctx, replacement list) sm" where
  "resolve_loop text selected [] = ret selected"
| "resolve_loop text selected (c # cs) =
     mbind poll (\<lambda>_.
     mbind (lift (append_pieces text c (uncovered_spans c selected) selected)) (\<lambda>selected'.
     resolve_loop text selected' cs))"

definition resolve_overlaps :: "string \<Rightarrow> replacement list \<Rightarrow> (ctx, replacement list) sm" where
  "resolve_overlaps text rs = resolve_loop text [] (go_sort candidate_less rs)"

fun normalize_loop :: "allocator \<Rightarrow> replacement list \<Rightarrow> replacement list" where
  "normalize_loop a [] = []"
| "normalize_loop a (r # rs) =
     (case allocate a (r_kind r) (r_original r) of (token, a') \<Rightarrow>
        r\<lparr>r_token := token\<rparr> # normalize_loop a' rs)"

definition normalize_tokens :: "string \<Rightarrow> replacement list \<Rightarrow> replacement list" where
  "normalize_tokens text rs = normalize_loop (new_allocator text) rs"

fun combine_loop :: "string \<Rightarrow> policy \<Rightarrow> replacement list \<Rightarrow> replacement list \<Rightarrow> (ctx, replacement list) sm" where
  "combine_loop text pol validated [] = ret validated"
| "combine_loop text pol validated (r # rs) =
     mbind poll (\<lambda>_.
     mbind (lift (validate_span text (r_start r) (r_end r))) (\<lambda>_.
     mbind (lift (go_slice text (r_start r) (r_end r))) (\<lambda>s.
     if s \<noteq> r_original r then throw ErrInvalidSpan
     else if \<not> allowed_kinds pol (r_kind r) then combine_loop text pol validated rs
     else if f_lt (r_conf r) (min_confidence pol) then combine_loop text pol validated rs
     else combine_loop text pol (validated @ [r]) rs)))"

definition plan_before :: "replacement \<Rightarrow> replacement \<Rightarrow> bool" where
  "plan_before a b =
     (if r_start a \<noteq> r_start b then r_start a < r_start b
      else if r_end a \<noteq> r_end b then r_end a > r_end b
      else r_kind a < r_kind b)"

definition combine_plans ::
  "string \<Rightarrow> replacement list \<Rightarrow> replacement list \<Rightarrow> policy \<Rightarrow> (ctx, replacement list) sm" where
  "combine_plans text ml_plan backend_plan pol =
     mbind (combine_loop text pol [] (ml_plan @ backend_plan)) (\<lambda>validated.
     mbind (resolve_overlaps text (dedupe validated)) (\<lambda>selected.
     ret (normalize_tokens text (go_sort plan_before selected))))"

section \<open>Polling\<close>

lemma polls_combine_loop [ctx_polls, intro!]: "polls (combine_loop text pol v rs)"
  by (induction rs arbitrary: v) (auto intro!: polls_mbind)

lemma polls_resolve_loop [ctx_polls, intro!]: "polls (resolve_loop text sel cs)"
  by (induction cs arbitrary: sel) (auto intro!: polls_mbind)

lemma polls_resolve_overlaps [ctx_polls, intro!]: "polls (resolve_overlaps text rs)"
  by (simp add: resolve_overlaps_def polls_resolve_loop)

lemma polls_combine_plans [ctx_polls, intro!]: "polls (combine_plans text ml be pol)"
  by (auto simp: combine_plans_def intro!: polls_mbind)

section \<open>Acceptance\<close>

definition accepted :: "policy \<Rightarrow> replacement list \<Rightarrow> replacement list" where
  "accepted pol rs = filter (\<lambda>r. accepts pol (r_kind r) (r_conf r)) rs"

lemma val_combine_Cons:
  "val (combine_loop text pol v (r # rs)) =
     (if repl_ok text r
      then val (combine_loop text pol (if accepts pol (r_kind r) (r_conf r) then v @ [r] else v) rs)
      else Inl ErrInvalidSpan)"
proof (cases "span_ok text (r_start r) (r_end r)")
  case False
  then show ?thesis
    by (simp add: val_mbind validate_span_iff repl_ok_def)
next
  case True
  then show ?thesis
    by (simp add: val_mbind validate_span_iff repl_ok_def accepts_def val_if)
qed

declare combine_loop.simps(2) [simp del]

lemma val_combine_loop:
  "val (combine_loop text pol v rs) =
     (if list_all (repl_ok text) rs then Inr (v @ accepted pol rs) else Inl ErrInvalidSpan)"
  by (induction rs arbitrary: v) (simp_all add: val_combine_Cons accepted_def)

section \<open>The order of candidates\<close>

definition no_nan :: "replacement \<Rightarrow> bool" where
  "no_nan r \<longleftrightarrow> r_conf r \<noteq> NaN"

definition valid_cand :: "string \<Rightarrow> replacement \<Rightarrow> bool" where
  "valid_cand text r \<longleftrightarrow> no_nan r \<and> repl_ok text r"

lemma key_order_conf: "key_order no_nan r_conf (\<lambda>x y. f_lt y x)"
  unfolding key_order_def no_nan_def by (auto dest: f_lt_asym f_lt_total intro: f_lt_trans)

text \<open>The comparison as a chain of keys.\<close>

abbreviation is_primary :: "replacement \<Rightarrow> bool" where
  "is_primary r \<equiv> r_source r = primary_source (r_kind r)"

lemma strict_weak_False: "strict_weak ok (\<lambda>_ _. False)"
  by unfold_locales auto

lemmas less9 = strict_weak_by[OF strict_weak_False key_order_less[of no_nan r_token]]
lemmas less8 = strict_weak_by[OF less9 key_order_less[of no_nan r_source]]
lemmas less7 = strict_weak_by[OF less8 key_order_less[of no_nan r_kind]]
lemmas less6 = strict_weak_by[OF less7 key_order_less[of no_nan r_end]]
lemmas less5 = strict_weak_by[OF less6 key_order_less[of no_nan r_start]]
lemmas less4 = strict_weak_by[OF less5 key_order_greater[of no_nan "\<lambda>r. r_end r - r_start r"]]
lemmas less3 = strict_weak_by[OF less4 key_order_conf]
lemmas less2 = strict_weak_by[OF less3 key_order_bool[of no_nan is_primary]]
lemmas less1 = strict_weak_by[OF less2 key_order_greater[of no_nan "\<lambda>r. type_priority (r_kind r)"]]

lemma candidate_less_keys:
  assumes "no_nan a" "no_nan b"
  shows "candidate_less a b =
    (if type_priority (r_kind a) \<noteq> type_priority (r_kind b)
     then type_priority (r_kind a) > type_priority (r_kind b)
     else if is_primary a \<noteq> is_primary b then is_primary a \<and> \<not> is_primary b
     else if r_conf a \<noteq> r_conf b then f_lt (r_conf b) (r_conf a)
     else if r_end a - r_start a \<noteq> r_end b - r_start b then r_end a - r_start a > r_end b - r_start b
     else if r_start a \<noteq> r_start b then r_start a < r_start b
     else if r_end a \<noteq> r_end b then r_end a < r_end b
     else if r_kind a \<noteq> r_kind b then r_kind a < r_kind b
     else if r_source a \<noteq> r_source b then r_source a < r_source b
     else if r_token a \<noteq> r_token b then r_token a < r_token b
     else False)"
proof -
  have conf: "f_neq (r_conf a) (r_conf b) \<longleftrightarrow> r_conf a \<noteq> r_conf b"
    using assms by (simp add: no_nan_def f_neq_def f_eq_iff)
  show ?thesis
    unfolding candidate_less_def Let_def conf by (intro if_cong refl) auto
qed

lemma candidate_less_weak: "strict_weak no_nan candidate_less"
  by (rule strict_weak_cong[OF less1 candidate_less_keys])

interpretation cand: strict_weak no_nan candidate_less
  by (rule candidate_less_weak)

lemma candidate_tie:
  assumes "no_nan a" "no_nan b"
  shows "tie candidate_less a b \<longleftrightarrow>
    is_primary a = is_primary b \<and> r_conf a = r_conf b \<and> r_start a = r_start b \<and> r_end a = r_end b
    \<and> r_kind a = r_kind b \<and> r_source a = r_source b \<and> r_token a = r_token b"
proof -
  note keys = candidate_less_keys[OF assms] candidate_less_keys[OF assms(2,1)]
  have neg: "f_lt (r_conf a) (r_conf b) \<or> f_lt (r_conf b) (r_conf a)" if "r_conf a \<noteq> r_conf b"
    using assms f_lt_total that unfolding no_nan_def by blast
  show ?thesis
  proof (cases "r_conf a = r_conf b \<and> r_kind a = r_kind b")
    case True
    then show ?thesis
      unfolding tie_def keys by auto
  next
    case False
    then show ?thesis
      using neg unfolding tie_def keys by auto
  qed
qed

text \<open>On valid replacements a tie is equality: the original is the text of the span.\<close>

interpretation total: strict_total "\<lambda>r. no_nan r \<and> repl_ok text r" candidate_less for "text"
proof
  fix x y
  assume x: "no_nan x \<and> repl_ok text x" and y: "no_nan y \<and> repl_ok text y"
  show "candidate_less x y \<Longrightarrow> \<not> candidate_less y x"
    using cand.less_asym x y by blast
  show "\<not> candidate_less x z \<Longrightarrow> \<not> candidate_less z y \<Longrightarrow> \<not> candidate_less x y"
    if "no_nan z \<and> repl_ok text z" for z
    using cand.less_neg_trans x y that by blast
  assume "\<not> candidate_less x y" "\<not> candidate_less y x"
  then have "tie candidate_less x y"
    by (simp add: tie_def)
  then show "x = y"
    using x y candidate_tie[of x y] by (simp add: repl_ok_def)
qed

section \<open>Deduplication\<close>

lemma show_int_no_colon: "CHR '':'' \<notin> set (show_int i)"
proof -
  have "CHR '':'' \<notin> set (show_nat n)" for n
    using show_nat_digits[of n] by (auto simp: list_all_iff is_digit_char_def less_eq_char_def)
  then show ?thesis
    by (simp add: show_int_def)
qed

lemma kind_name_no_colon: "CHR '':'' \<notin> set (kind_name k)"
  by (cases k) simp_all

text \<open>The formatted key identifies span, kind and original: no part before the last can hold
  a colon.\<close>

definition same_cand :: "replacement \<Rightarrow> replacement \<Rightarrow> bool" where
  "same_cand a b \<longleftrightarrow> r_start a = r_start b \<and> r_end a = r_end b \<and> r_kind a = r_kind b
     \<and> r_original a = r_original b"

lemma dedupe_key_iff: "dedupe_key a = dedupe_key b \<longleftrightarrow> same_cand a b"
  using append_sep_inj[OF show_int_no_colon show_int_no_colon]
    append_sep_inj[OF kind_name_no_colon kind_name_no_colon]
  by (simp add: dedupe_key_def same_cand_def show_int_inj kind_name_inj)

lemma pick_winner_in: "pick_winner a b = a \<or> pick_winner a b = b"
  by (simp add: pick_winner_def Let_def)

text \<open>Of two equal candidates the one that comes first in the candidate order wins.\<close>

lemma pick_winner_least:
  assumes "same_cand a b" "no_nan a" "no_nan b"
  shows "\<not> candidate_less a (pick_winner a b)" "\<not> candidate_less b (pick_winner a b)"
proof -
  have eq: "r_start b = r_start a" "r_end b = r_end a" "r_kind b = r_kind a"
    using assms(1) by (simp_all add: same_cand_def)
  have conf: "f_neq (r_conf a) (r_conf b) \<longleftrightarrow> r_conf a \<noteq> r_conf b"
    using assms by (simp add: no_nan_def f_neq_def f_eq_iff)
  have irr: "\<not> candidate_less a a" "\<not> candidate_less b b"
    using cand.less_asym assms by blast+
  have "pick_winner a b = (if candidate_less a b then a else b)"
  proof (cases "r_conf a = r_conf b")
    case True
    then show ?thesis
      unfolding candidate_less_keys[OF assms(2,3)] pick_winner_def Let_def conf eq by auto
  next
    case False
    then show ?thesis
      unfolding candidate_less_keys[OF assms(2,3)] pick_winner_def Let_def conf eq by auto
  qed
  then show "\<not> candidate_less a (pick_winner a b)" "\<not> candidate_less b (pick_winner a b)"
    using irr cand.less_asym[OF assms(2,3)] by auto
qed

text \<open>The state of the loop after the candidates \<open>done\<close>: the keys in order of first
  occurrence, and for each key one of its candidates, a strongest one.\<close>

definition dedupe_inv ::
  "replacement list \<Rightarrow> (string \<Rightarrow> replacement option) \<Rightarrow> string list \<Rightarrow> bool"
where
  "dedupe_inv seen by_key order \<longleftrightarrow>
     distinct order \<and> set order = dedupe_key ` set seen \<and>
     (\<forall>k. k \<notin> set order \<longrightarrow> by_key k = None) \<and>
     (\<forall>k \<in> set order. \<exists>w \<in> set seen. by_key k = Some w \<and> dedupe_key w = k
        \<and> (list_all no_nan seen \<longrightarrow> (\<forall>m \<in> set seen. dedupe_key m = k \<longrightarrow> \<not> candidate_less m w)))"

lemma dedupe_invE:
  assumes "dedupe_inv seen by_key order" "k \<in> set order"
  obtains w where "w \<in> set seen" "by_key k = Some w" "dedupe_key w = k"
    "list_all no_nan seen \<longrightarrow> (\<forall>m \<in> set seen. dedupe_key m = k \<longrightarrow> \<not> candidate_less m w)"
  using assms unfolding dedupe_inv_def by blast

lemma dedupe_inv_new:
  assumes "dedupe_inv seen by_key order" "by_key (dedupe_key r) = None"
  shows "dedupe_inv (seen @ [r]) (by_key(dedupe_key r \<mapsto> r)) (order @ [dedupe_key r])"
proof -
  have new: "dedupe_key r \<notin> set order"
    using assms unfolding dedupe_inv_def by fastforce
  have "\<exists>w \<in> set (seen @ [r]). (by_key(dedupe_key r \<mapsto> r)) k = Some w \<and> dedupe_key w = k
      \<and> (list_all no_nan (seen @ [r]) \<longrightarrow> (\<forall>m \<in> set (seen @ [r]). dedupe_key m = k \<longrightarrow> \<not> candidate_less m w))"
    if k: "k \<in> set (order @ [dedupe_key r])" for k
  proof (cases "k = dedupe_key r")
    case True
    have "\<not> candidate_less m r" if m: "m \<in> set (seen @ [r])" "dedupe_key m = k" "no_nan r" for m
    proof -
      have "m \<notin> set seen"
        using m(2) new assms(1) True unfolding dedupe_inv_def by force
      then have "m = r"
        using m(1) by simp
      then show ?thesis using cand.less_asym[of r r] m(3) by blast
    qed
    then show ?thesis
      using True by (intro bexI[of _ r]) auto
  next
    case False
    then obtain w where w: "w \<in> set seen" "by_key k = Some w" "dedupe_key w = k"
      "list_all no_nan seen \<longrightarrow> (\<forall>m \<in> set seen. dedupe_key m = k \<longrightarrow> \<not> candidate_less m w)"
      using dedupe_invE[OF assms(1), of k] k by auto
    then show ?thesis
      using False by (intro bexI[of _ w]) auto
  qed
  then show ?thesis
    using assms(1) new unfolding dedupe_inv_def by auto
qed

lemma dedupe_inv_old:
  assumes "dedupe_inv seen by_key order" "by_key (dedupe_key r) = Some e"
  shows "dedupe_inv (seen @ [r]) (by_key(dedupe_key r \<mapsto> pick_winner e r)) order"
proof -
  have old: "dedupe_key r \<in> set order"
    using assms unfolding dedupe_inv_def by fastforce
  then have e: "e \<in> set seen" "dedupe_key e = dedupe_key r"
    "list_all no_nan seen \<longrightarrow> (\<forall>m \<in> set seen. dedupe_key m = dedupe_key r \<longrightarrow> \<not> candidate_less m e)"
    using assms unfolding dedupe_inv_def by fastforce+
  let ?w = "pick_winner e r"
  have best: "\<not> candidate_less m ?w"
    if m: "m \<in> set (seen @ [r])" "dedupe_key m = dedupe_key r" "list_all no_nan (seen @ [r])" for m
  proof -
    have nn: "no_nan e" "no_nan r" "no_nan m" "no_nan ?w"
      using m e(1) pick_winner_in[of e r] by (auto simp: list_all_iff)
    have w: "\<not> candidate_less e ?w" "\<not> candidate_less r ?w"
      using pick_winner_least[of e r] nn e(2) by (auto simp: dedupe_key_iff)
    show ?thesis
    proof (cases "m = r")
      case False
      then have "\<not> candidate_less m e"
        using m e(3) by auto
      then show ?thesis
        using cand.less_neg_trans w(1) nn by blast
    qed (use w in simp)
  qed
  have "\<exists>w \<in> set (seen @ [r]). (by_key(dedupe_key r \<mapsto> ?w)) k = Some w \<and> dedupe_key w = k
      \<and> (list_all no_nan (seen @ [r]) \<longrightarrow> (\<forall>m \<in> set (seen @ [r]). dedupe_key m = k \<longrightarrow> \<not> candidate_less m w))"
    if k: "k \<in> set order" for k
  proof (cases "k = dedupe_key r")
    case True
    then show ?thesis
      using best e(1,2) pick_winner_in[of e r] by (intro bexI[of _ ?w]) auto
  next
    case False
    then obtain w where w: "w \<in> set seen" "by_key k = Some w" "dedupe_key w = k"
      "list_all no_nan seen \<longrightarrow> (\<forall>m \<in> set seen. dedupe_key m = k \<longrightarrow> \<not> candidate_less m w)"
      using dedupe_invE[OF assms(1) k] by metis
    then show ?thesis
      using False by (intro bexI[of _ w]) auto
  qed
  then show ?thesis
    using assms(1) old unfolding dedupe_inv_def by auto
qed

lemma dedupe_loop_inv:
  assumes "dedupe_inv seen by_key order" "dedupe_loop by_key order rs = (by_key', order')"
  shows "dedupe_inv (seen @ rs) by_key' order'"
  using assms
proof (induction rs arbitrary: seen by_key order)
  case Nil
  then show ?case by simp
next
  case (Cons r rs)
  show ?case
  proof (cases "by_key (dedupe_key r)")
    case None
    show ?thesis
      using Cons.IH[OF dedupe_inv_new[OF Cons.prems(1) None]] Cons.prems(2) None
      by (simp add: Let_def del: fun_upd_apply)
  next
    case (Some e)
    show ?thesis
      using Cons.IH[OF dedupe_inv_old[OF Cons.prems(1) Some]] Cons.prems(2) Some
      by (simp add: Let_def del: fun_upd_apply)
  qed
qed

lemma dedupe_spec:
  "distinct (map dedupe_key (dedupe rs))"
  "set (dedupe rs) \<subseteq> set rs"
  "r \<in> set rs \<Longrightarrow> \<exists>w \<in> set (dedupe rs). same_cand w r"
  "list_all no_nan rs \<Longrightarrow> w \<in> set (dedupe rs) \<Longrightarrow> r \<in> set rs \<Longrightarrow> same_cand w r \<Longrightarrow> \<not> candidate_less r w"
proof -
  obtain by_key order where l: "dedupe_loop Map.empty [] rs = (by_key, order)"
    by (cases "dedupe_loop Map.empty [] rs")
  have "dedupe_inv [] Map.empty []"
    by (simp add: dedupe_inv_def)
  from dedupe_loop_inv[OF this l] have inv: "dedupe_inv rs by_key order" by simp
  have d: "dedupe rs = map (\<lambda>k. the (by_key k)) order"
    by (simp add: dedupe_def l)
  have w: "the (by_key k) \<in> set rs" "dedupe_key (the (by_key k)) = k"
    "list_all no_nan rs \<longrightarrow> (\<forall>m \<in> set rs. dedupe_key m = k \<longrightarrow> \<not> candidate_less m (the (by_key k)))"
    if "k \<in> set order" for k
    using inv that unfolding dedupe_inv_def by fastforce+
  have keys: "map dedupe_key (dedupe rs) = order"
    unfolding d using w(2) by (simp add: map_idI)
  show "distinct (map dedupe_key (dedupe rs))"
    unfolding keys using inv by (simp add: dedupe_inv_def)
  show "set (dedupe rs) \<subseteq> set rs"
    unfolding d using w(1) by auto
  show "\<exists>w \<in> set (dedupe rs). same_cand w r" if r: "r \<in> set rs"
  proof -
    have "dedupe_key r \<in> set order"
      using inv r by (simp add: dedupe_inv_def)
    then show ?thesis
      using w(2)[of "dedupe_key r"] unfolding d dedupe_key_iff by auto
  qed
  show "\<not> candidate_less r w" if nn: "list_all no_nan rs" and ww: "w \<in> set (dedupe rs)"
    and r: "r \<in> set rs" and same: "same_cand w r"
  proof -
    obtain k where k: "k \<in> set order" "w = the (by_key k)"
      using ww unfolding d by auto
    have "dedupe_key r = k"
      using same w(2)[OF k(1)] k(2) unfolding dedupe_key_iff[symmetric] by simp
    then show ?thesis
      using w(3)[OF k(1)] nn r k(2) by blast
  qed
qed

lemma dedupe_distinct: "distinct (dedupe rs)"
  using dedupe_spec(1)[of rs] by (simp add: distinct_map)

text \<open>The result does not depend on the order of the candidates, up to its own order.\<close>

lemma dedupe_set_subset:
  assumes "list_all (\<lambda>r. no_nan r \<and> repl_ok text r) rs" "set rs = set rs'"
  shows "set (dedupe rs) \<subseteq> set (dedupe rs')"
proof
  fix w assume w: "w \<in> set (dedupe rs)"
  then have wr: "w \<in> set rs" using dedupe_spec(2) by blast
  then obtain v where v: "v \<in> set (dedupe rs')" "same_cand v w"
    using dedupe_spec(3)[of w rs'] assms(2) by blast
  have nn: "list_all no_nan rs" "list_all no_nan rs'"
    using assms by (auto simp: list_all_iff)
  have vr: "v \<in> set rs" using v dedupe_spec(2) assms(2) by blast
  have "\<not> candidate_less w v"
    using dedupe_spec(4)[OF nn(2) v(1)] wr v(2) assms(2) by blast
  moreover have "\<not> candidate_less v w"
    using dedupe_spec(4)[OF nn(1) w vr] v(2) by (simp add: same_cand_def)
  moreover have "no_nan w \<and> repl_ok text w" "no_nan v \<and> repl_ok text v"
    using assms(1) wr vr by (simp_all add: list_all_iff)
  ultimately have "w = v"
    using total.less_total[of w "text" v] by blast
  then show "w \<in> set (dedupe rs')" using v(1) by simp
qed

lemma dedupe_mset:
  assumes "list_all (\<lambda>r. no_nan r \<and> repl_ok text r) rs" "mset rs = mset rs'"
  shows "mset (dedupe rs) = mset (dedupe rs')"
proof -
  have s: "set rs = set rs'"
    using assms(2) by (metis set_mset_mset)
  have "list_all (\<lambda>r. no_nan r \<and> repl_ok text r) rs'"
    using assms(1) unfolding list_all_iff s .
  then have "set (dedupe rs) = set (dedupe rs')"
    using dedupe_set_subset[OF assms(1) s] dedupe_set_subset[OF _ s[symmetric]] by blast
  then show ?thesis
    using dedupe_distinct by (metis set_eq_iff_mset_eq_distinct)
qed

section \<open>What the stronger candidates leave uncovered\<close>

abbreviation span_of :: "replacement \<Rightarrow> int set" where
  "span_of r \<equiv> {r_start r..<r_end r}"

definition bytes_of :: "replacement list \<Rightarrow> int set" where
  "bytes_of rs = (\<Union>r \<in> set rs. span_of r)"

lemma bytes_of_simps [simp]:
  "bytes_of [] = {}" "bytes_of (r # rs) = span_of r \<union> bytes_of rs"
  "bytes_of (rs @ rs') = bytes_of rs \<union> bytes_of rs'"
  by (auto simp: bytes_of_def)

lemma bytes_of_mset: "mset rs = mset rs' \<Longrightarrow> bytes_of rs = bytes_of rs'"
  unfolding bytes_of_def by (metis set_mset_mset)

definition covered :: "(int \<times> int) list \<Rightarrow> int set" where
  "covered us = (\<Union>u \<in> set us. {fst u..<snd u})"

lemma covered_simps [simp]:
  "covered [] = {}" "covered (u # us) = {fst u..<snd u} \<union> covered us"
  "covered (us @ vs) = covered us \<union> covered vs"
  by (auto simp: covered_def)

interpretation by_start_end: strict_weak "\<lambda>_. True" by_start_end
  by unfold_locales (auto simp: by_start_end_def split: if_splits)

lemma by_start_end_sorted: "sorted_wrt (\<lambda>a b. r_start a \<le> r_start b) (go_sort by_start_end rs)"
  by (rule sorted_wrt_mono_rel[OF _ by_start_end.go_sort_ordered])
    (auto simp: by_start_end_def split: if_splits)

lemma covered_tail [simp]: "covered (uncovered_tail stop cursor) = {cursor..<stop}"
  by (simp add: uncovered_tail_def)

lemma covered_loop:
  assumes "sorted_wrt (\<lambda>a b. r_start a \<le> r_start b) ss"
  shows "covered (uncovered_loop stop cursor ss) = {cursor..<stop} - bytes_of ss"
  using assms
proof (induction ss arbitrary: cursor)
  case Nil
  then show ?case by simp
next
  case (Cons s ss)
  then have IH: "covered (uncovered_loop stop p ss) = {p..<stop} - bytes_of ss" for p
    by simp
  show ?case
  proof (cases "r_end s \<le> cursor")
    case True
    then show ?thesis by (auto simp: IH)
  next
    case False
    note s = False
    show ?thesis
    proof (cases "r_start s \<ge> stop")
      case True
      then have "{cursor..<stop} \<inter> bytes_of (s # ss) = {}"
        using Cons.prems by (fastforce simp: bytes_of_def)
      then show ?thesis using True s by auto
    next
      case False
      have later: "{cursor..<r_start s} \<inter> bytes_of ss = {}"
        using Cons.prems by (fastforce simp: bytes_of_def)
      show ?thesis
      proof (cases "r_end s \<ge> stop")
        case True
        then show ?thesis using s False later by (auto simp: Let_def)
      next
        case False
        then show ?thesis
          using s \<open>\<not> r_start s \<ge> stop\<close> later by (auto simp: Let_def IH)
      qed
    qed
  qed
qed

text \<open>The pieces come left to right, are not empty, and lie between the cursor and the end.\<close>

definition pieces_from :: "int \<Rightarrow> int \<Rightarrow> (int \<times> int) list \<Rightarrow> bool" where
  "pieces_from lo hi us \<longleftrightarrow> sorted_wrt (\<lambda>u v. snd u \<le> fst v) us
     \<and> (\<forall>u \<in> set us. lo \<le> fst u \<and> fst u < snd u \<and> snd u \<le> hi)"

lemma pieces_from_Nil [simp]: "pieces_from lo hi []"
  by (simp add: pieces_from_def)

lemma pieces_from_mono: "pieces_from lo hi us \<Longrightarrow> lo' \<le> lo \<Longrightarrow> pieces_from lo' hi us"
  unfolding pieces_from_def by fastforce

lemma pieces_from_Cons:
  "pieces_from b hi us \<Longrightarrow> lo \<le> a \<Longrightarrow> a < b \<Longrightarrow> b \<le> hi \<Longrightarrow> pieces_from lo hi ((a, b) # us)"
  unfolding pieces_from_def by fastforce

lemma pieces_tail [simp]: "pieces_from cursor stop (uncovered_tail stop cursor)"
  by (simp add: uncovered_tail_def pieces_from_def)

lemma pieces_loop:
  assumes "\<forall>s \<in> set ss. r_start s < r_end s"
  shows "pieces_from cursor stop (uncovered_loop stop cursor ss)"
  using assms
proof (induction ss arbitrary: cursor)
  case Nil
  then show ?case by simp
next
  case (Cons s ss)
  let ?rest = "if r_end s \<ge> stop then uncovered_tail stop (r_end s) else uncovered_loop stop (r_end s) ss"
  have rest: "pieces_from (r_end s) stop ?rest"
    using Cons by simp
  show ?case
  proof (cases "r_end s \<le> cursor \<or> r_start s \<ge> stop")
    case True
    then show ?thesis using Cons by (auto simp del: Let_def)
  next
    case False
    then have eq: "uncovered_loop stop cursor (s # ss) =
        (if r_start s > cursor then [(cursor, r_start s)] else []) @ ?rest"
      by (auto simp: Let_def)
    show ?thesis
    proof (cases "r_start s > cursor")
      case True
      have "pieces_from (r_start s) stop ?rest"
        using pieces_from_mono[OF rest, of "r_start s"] Cons.prems by simp
      then have "pieces_from cursor stop ((cursor, r_start s) # ?rest)"
        using True False by (intro pieces_from_Cons) auto
      then show ?thesis
        unfolding eq using True by simp
    next
      case False
      have "pieces_from cursor stop ?rest"
        using rest \<open>\<not> (r_end s \<le> cursor \<or> r_start s \<ge> stop)\<close> by (intro pieces_from_mono[OF rest]) simp
      then show ?thesis
        unfolding eq using False by simp
    qed
  qed
qed

text \<open>Every piece of a valid span is a valid span: the cuts are at rune boundaries.\<close>

lemma span_ok_rest:
  assumes "span_ok text p q" "span_ok text a b" "p < b" "b < q"
  shows "span_ok text b q"
proof (cases "a \<le> p")
  case True
  then show ?thesis
    using span_ok_cut_right[OF assms(2,1)] assms by simp
next
  case False
  have "span_ok text p a"
    using span_ok_cut_left[OF assms(1,2)] False assms by (simp add: span_ok_def)
  then have "span_ok text a q"
    using span_ok_split[OF assms(1)] assms by (simp add: span_ok_def)
  then show ?thesis
    using span_ok_split[OF _ assms(2)] assms by blast
qed

lemma loop_spans_ok:
  assumes "\<forall>s \<in> set ss. span_ok text (r_start s) (r_end s)" "cursor < stop \<longrightarrow> span_ok text cursor stop"
  shows "\<forall>u \<in> set (uncovered_loop stop cursor ss). span_ok text (fst u) (snd u)"
  using assms
proof (induction ss arbitrary: cursor)
  case Nil
  then show ?case by (auto simp: uncovered_tail_def)
next
  case (Cons s ss)
  have s: "span_ok text (r_start s) (r_end s)" using Cons.prems(1) by simp
  show ?case
  proof (cases "r_end s \<le> cursor")
    case True
    then show ?thesis using Cons by simp
  next
    case False
    note ns = False
    show ?thesis
    proof (cases "r_start s \<ge> stop \<or> cursor \<ge> stop")
      case True
      have "\<forall>u \<in> set (uncovered_loop stop p ss). span_ok text (fst u) (snd u)" if "p \<ge> stop" for p
        using Cons.IH[of p] Cons.prems(1) that by simp
      then show ?thesis
        using True ns Cons.prems(2) s
        by (auto simp: uncovered_tail_def Let_def)
    next
      case False
      then have c: "span_ok text cursor stop" "r_start s < stop"
        using Cons.prems(2) by auto
      have piece: "span_ok text cursor (r_start s)" if "r_start s > cursor"
        using span_ok_cut_left[OF c(1) s] c(2) that by simp
      have rest: "\<forall>u \<in> set (uncovered_loop stop (r_end s) ss). span_ok text (fst u) (snd u)" if "r_end s < stop"
        using Cons.IH[of "r_end s"] Cons.prems(1) span_ok_rest[OF c(1) s] ns that by simp
      show ?thesis
      proof
        fix u assume "u \<in> set (uncovered_loop stop cursor (s # ss))"
        then have "u = (cursor, r_start s) \<and> cursor < r_start s
            \<or> r_end s < stop \<and> u \<in> set (uncovered_loop stop (r_end s) ss)"
          using ns c(2) by (auto simp: Let_def uncovered_tail_def split: if_splits)
        then show "span_ok text (fst u) (snd u)"
          using piece rest by fastforce
      qed
    qed
  qed
qed

lemma uncovered_spans_spec:
  assumes "\<forall>s \<in> set sel. span_ok text (r_start s) (r_end s)" "span_ok text (r_start c) (r_end c)"
  shows "covered (uncovered_spans c sel) = span_of c - bytes_of sel"
    and "pieces_from (r_start c) (r_end c) (uncovered_spans c sel)"
    and "\<forall>u \<in> set (uncovered_spans c sel). span_ok text (fst u) (snd u)"
proof -
  have b: "bytes_of (go_sort by_start_end sel) = bytes_of sel"
    by (rule bytes_of_mset) simp
  show "covered (uncovered_spans c sel) = span_of c - bytes_of sel"
    unfolding uncovered_spans_def by (subst covered_loop[OF by_start_end_sorted]) (simp add: b)
  show "pieces_from (r_start c) (r_end c) (uncovered_spans c sel)"
    unfolding uncovered_spans_def by (rule pieces_loop) (use assms(1) in \<open>simp add: span_ok_def\<close>)
  show "\<forall>u \<in> set (uncovered_spans c sel). span_ok text (fst u) (snd u)"
    unfolding uncovered_spans_def by (rule loop_spans_ok) (use assms in simp_all)
qed

section \<open>Resolution\<close>

definition piece_of :: "string \<Rightarrow> replacement \<Rightarrow> int \<times> int \<Rightarrow> replacement" where
  "piece_of text c u = c\<lparr>r_start := fst u, r_end := snd u, r_original := slice text (fst u) (snd u)\<rparr>"

lemma append_pieces_eq:
  assumes "\<forall>u \<in> set us. span_ok text (fst u) (snd u)"
  shows "append_pieces text c us sel = Inr (sel @ map (piece_of text c) us)"
  using assms by (induction us arbitrary: sel) (simp_all add: piece_of_def)

lemma bytes_of_pieces: "bytes_of (map (piece_of text c) us) = covered us"
  by (auto simp: bytes_of_def covered_def piece_of_def)

lemma piece_bytes:
  assumes "covered us = X" "p \<in> set (map (piece_of text c) us)"
  shows "span_of p \<subseteq> X"
proof -
  obtain u where "u \<in> set us" "p = piece_of text c u"
    using assms(2) by auto
  then show ?thesis
    unfolding assms(1)[symmetric] covered_def piece_of_def by fastforce
qed

text \<open>The selection as a function.\<close>

fun resolved :: "string \<Rightarrow> replacement list \<Rightarrow> replacement list \<Rightarrow> replacement list" where
  "resolved text sel [] = sel"
| "resolved text sel (c # cs) = resolved text (sel @ map (piece_of text c) (uncovered_spans c sel)) cs"

definition spans_ok :: "string \<Rightarrow> replacement list \<Rightarrow> bool" where
  "spans_ok text rs \<longleftrightarrow> (\<forall>r \<in> set rs. repl_ok text r)"

lemma spans_okD: "spans_ok text rs \<Longrightarrow> \<forall>s \<in> set rs. span_ok text (r_start s) (r_end s)"
  by (simp add: spans_ok_def repl_ok_def)

lemma pieces_ok:
  assumes "spans_ok text sel" "repl_ok text c"
  shows "spans_ok text (sel @ map (piece_of text c) (uncovered_spans c sel))"
  using assms uncovered_spans_spec(3)[OF spans_okD[OF assms(1)], of c]
  by (auto simp: spans_ok_def repl_ok_def piece_of_def)

lemma val_resolve_loop:
  assumes "spans_ok text sel" "spans_ok text cs"
  shows "val (resolve_loop text sel cs) = Inr (resolved text sel cs)"
  using assms
proof (induction cs arbitrary: sel)
  case Nil
  then show ?case by simp
next
  case (Cons c cs)
  have c: "repl_ok text c" "spans_ok text cs"
    using Cons.prems(2) by (simp_all add: spans_ok_def)
  have "append_pieces text c (uncovered_spans c sel) sel
      = Inr (sel @ map (piece_of text c) (uncovered_spans c sel))"
    using uncovered_spans_spec(3)[OF spans_okD[OF Cons.prems(1)], of c] c(1)
    by (intro append_pieces_eq) (simp add: repl_ok_def)
  then show ?case
    using Cons.IH[OF pieces_ok[OF Cons.prems(1) c(1)] c(2)] by (simp add: val_mbind)
qed

abbreviation apart :: "replacement \<Rightarrow> replacement \<Rightarrow> bool" where
  "apart a b \<equiv> span_of a \<inter> span_of b = {}"

lemma pieces_apart:
  assumes "pieces_from lo hi us"
  shows "sorted_wrt apart (map (piece_of text c) us)"
  using assms unfolding pieces_from_def sorted_wrt_map
  by (auto simp: piece_of_def intro: sorted_wrt_mono_rel[of us "\<lambda>u v. snd u \<le> fst v"])

definition resolved_inv :: "string \<Rightarrow> replacement list \<Rightarrow> int set \<Rightarrow> bool" where
  "resolved_inv text sel B \<longleftrightarrow> spans_ok text sel \<and> sorted_wrt apart sel \<and> bytes_of sel = B"

lemma resolved_inv_step:
  assumes "resolved_inv text sel B" "repl_ok text c"
  shows "resolved_inv text (sel @ map (piece_of text c) (uncovered_spans c sel)) (B \<union> span_of c)"
proof -
  let ?ps = "map (piece_of text c) (uncovered_spans c sel)"
  have sel: "spans_ok text sel" "sorted_wrt apart sel" "bytes_of sel = B"
    using assms(1) by (simp_all add: resolved_inv_def)
  have u: "covered (uncovered_spans c sel) = span_of c - bytes_of sel"
    "pieces_from (r_start c) (r_end c) (uncovered_spans c sel)"
    using uncovered_spans_spec[OF spans_okD[OF sel(1)], of c] assms(2) by (simp_all add: repl_ok_def)
  have "apart s p" if "s \<in> set sel" "p \<in> set ?ps" for s p
  proof -
    have "span_of s \<subseteq> bytes_of sel"
      unfolding bytes_of_def using that(1) by blast
    then show ?thesis
      using piece_bytes[OF u(1) that(2)] by blast
  qed
  then have "sorted_wrt apart (sel @ ?ps)"
    using sel(2) pieces_apart[OF u(2)] unfolding sorted_wrt_append by blast
  moreover have "bytes_of (sel @ ?ps) = B \<union> span_of c"
    unfolding bytes_of_simps(3) bytes_of_pieces u(1) sel(3) by blast
  ultimately show ?thesis
    unfolding resolved_inv_def using pieces_ok[OF sel(1) assms(2)] by blast
qed

lemma resolved_inv:
  assumes "resolved_inv text sel B" "spans_ok text cs"
  shows "resolved_inv text (resolved text sel cs) (B \<union> bytes_of cs)"
  using assms
proof (induction cs arbitrary: sel B)
  case Nil
  then show ?case by simp
next
  case (Cons c cs)
  have c: "repl_ok text c" "spans_ok text cs"
    using Cons.prems(2) by (simp_all add: spans_ok_def)
  show ?case
    using Cons.IH[OF resolved_inv_step[OF Cons.prems(1) c(1)] c(2)] by (simp only: resolved.simps bytes_of_simps Un_assoc)
qed

text \<open>Where each selected piece comes from: the first candidate, in the order of the list,
  that covers its bytes.\<close>

definition takes_after :: "replacement \<Rightarrow> replacement \<Rightarrow> bool" where
  "takes_after p c \<longleftrightarrow> r_kind p = r_kind c \<and> r_source p = r_source c \<and> r_conf p = r_conf c
     \<and> span_of p \<subseteq> span_of c"

definition origin :: "replacement list \<Rightarrow> replacement list \<Rightarrow> bool" where
  "origin sel cs \<longleftrightarrow>
     (\<forall>p \<in> set sel. \<exists>us c vs. cs = us @ c # vs \<and> takes_after p c \<and> span_of p \<inter> bytes_of us = {})"

lemma origin_step:
  assumes "origin sel cs" "bytes_of sel = bytes_of cs" "spans_ok text sel" "repl_ok text c"
  shows "origin (sel @ map (piece_of text c) (uncovered_spans c sel)) (cs @ [c])"
  unfolding origin_def
proof
  fix p assume p: "p \<in> set (sel @ map (piece_of text c) (uncovered_spans c sel))"
  show "\<exists>us d vs. cs @ [c] = us @ d # vs \<and> takes_after p d \<and> span_of p \<inter> bytes_of us = {}"
  proof (cases "p \<in> set sel")
    case True
    then obtain us d vs where "cs = us @ d # vs" "takes_after p d" "span_of p \<inter> bytes_of us = {}"
      using assms(1) unfolding origin_def by blast
    then show ?thesis
      by (intro exI[of _ us] exI[of _ d] exI[of _ "vs @ [c]"]) simp
  next
    case False
    then obtain u where u: "u \<in> set (uncovered_spans c sel)" "p = piece_of text c u"
      using p by auto
    have "span_of p \<subseteq> covered (uncovered_spans c sel)"
      using u by (auto simp: piece_of_def covered_def)
    also have "\<dots> = span_of c - bytes_of cs"
      using uncovered_spans_spec(1)[OF spans_okD[OF assms(3)], of c] assms(2,4) by (simp add: repl_ok_def)
    finally have "span_of p \<subseteq> span_of c" "span_of p \<inter> bytes_of cs = {}"
      by blast+
    moreover have "takes_after p c"
      using \<open>span_of p \<subseteq> span_of c\<close> u(2) unfolding takes_after_def by (simp add: piece_of_def)
    ultimately show ?thesis
      by (intro exI[of _ cs] exI[of _ c] exI[of _ "[]"]) simp
  qed
qed

lemma resolved_origin:
  assumes "origin sel cs0" "bytes_of sel = bytes_of cs0" "spans_ok text sel" "spans_ok text cs"
  shows "origin (resolved text sel cs) (cs0 @ cs)"
  using assms
proof (induction cs arbitrary: sel cs0)
  case Nil
  then show ?case by simp
next
  case (Cons c cs)
  have c: "repl_ok text c" "spans_ok text cs"
    using Cons.prems(4) by (simp_all add: spans_ok_def)
  have "bytes_of (sel @ map (piece_of text c) (uncovered_spans c sel)) = bytes_of (cs0 @ [c])"
    using uncovered_spans_spec(1)[OF spans_okD[OF Cons.prems(3)], of c] c(1) Cons.prems(2)
    by (auto simp: repl_ok_def bytes_of_pieces)
  then show ?case
    using Cons.IH[OF origin_step[OF Cons.prems(1,2,3) c(1)] _ pieces_ok[OF Cons.prems(3) c(1)] c(2)]
    by simp
qed

lemma origin_strongest:
  assumes "origin sel cs" "sorted_wrt (\<lambda>a b. \<not> candidate_less b a) cs" "list_all no_nan cs"
    and "p \<in> set sel" "i \<in> span_of p" "c \<in> set cs" "i \<in> span_of c"
  shows "\<exists>d \<in> set cs. takes_after p d \<and> i \<in> span_of d \<and> \<not> candidate_less c d"
proof -
  obtain us d vs where d: "cs = us @ d # vs" "takes_after p d" "span_of p \<inter> bytes_of us = {}"
    using assms(1,4) unfolding origin_def by blast
  have "c \<notin> set us"
    using d(3) assms(5,7) unfolding bytes_of_def by blast
  then have "c = d \<or> c \<in> set vs"
    using assms(6) d(1) by auto
  moreover have "no_nan d"
    using assms(3) d(1) by simp
  ultimately have "\<not> candidate_less c d"
    using assms(2) d(1) cand.less_asym[of d d] by (auto simp: sorted_wrt_append)
  then show ?thesis
    using d assms(5) unfolding takes_after_def by auto
qed

section \<open>The combined plan\<close>

lemma normalize_loop_allocator:
  assumes "alloc_inv a"
  shows "\<exists>a'. alloc_inv a' \<and> a_text a' = a_text a
    \<and> (\<forall>k v t. a_mappings a k v = Some t \<longrightarrow> a_mappings a' k v = Some t)
    \<and> (\<forall>r \<in> set (normalize_loop a rs). a_mappings a' (r_kind r) (r_original r) = Some (r_token r))"
  using assms
proof (induction rs arbitrary: a)
  case Nil
  then show ?case by auto
next
  case (Cons r rs)
  obtain tok a1 where al: "allocate a (r_kind r) (r_original r) = (tok, a1)"
    by (cases "allocate a (r_kind r) (r_original r)")
  obtain a' where a': "alloc_inv a'" "a_text a' = a_text a1"
    "\<forall>k v t. a_mappings a1 k v = Some t \<longrightarrow> a_mappings a' k v = Some t"
    "\<forall>r \<in> set (normalize_loop a1 rs). a_mappings a' (r_kind r) (r_original r) = Some (r_token r)"
    using Cons.IH[OF allocate_inv[OF Cons.prems al]] by blast
  have "a_text a1 = a_text a"
    using allocate_text[of a "r_kind r" "r_original r"] al by simp
  then show ?case
    using al a' allocate_records[OF al] allocate_keeps[OF al]
    by (intro exI[of _ a']) auto
qed

lemma normalize_tokens_fresh: "tokens_fresh text (normalize_tokens text rs)"
proof -
  obtain a' where "alloc_inv a'" "a_text a' = a_text (new_allocator text)"
    "\<forall>r \<in> set (normalize_loop (new_allocator text) rs).
       a_mappings a' (r_kind r) (r_original r) = Some (r_token r)"
    using normalize_loop_allocator[OF alloc_inv_new] by blast
  then show ?thesis
    using tokens_fresh_allocator[of a'] by (simp add: normalize_tokens_def new_allocator_def)
qed

lemma normalize_loop_fields:
  "map (r_token_update (\<lambda>_. [])) (normalize_loop a rs) = map (r_token_update (\<lambda>_. [])) rs"
  by (induction rs arbitrary: a) (auto split: prod.split)

lemma normalize_tokens_fields:
  "map (r_token_update (\<lambda>_. [])) (normalize_tokens text rs) = map (r_token_update (\<lambda>_. [])) rs"
  by (simp add: normalize_tokens_def normalize_loop_fields)

text \<open>The plan as a pure function of valid candidates.\<close>

definition combined_plan :: "string \<Rightarrow> policy \<Rightarrow> replacement list \<Rightarrow> replacement list" where
  "combined_plan text pol rs =
     normalize_tokens text
       (go_sort plan_before (resolved text [] (go_sort candidate_less (dedupe (accepted pol rs)))))"

lemma accepted_ok: "list_all (repl_ok text) rs \<Longrightarrow> spans_ok text (accepted pol rs)"
  by (auto simp: spans_ok_def accepted_def list_all_iff)

lemma candidates_ok:
  "list_all (repl_ok text) rs \<Longrightarrow> spans_ok text (go_sort candidate_less (dedupe (accepted pol rs)))"
  using accepted_ok[of "text" rs pol] dedupe_spec(2)[of "accepted pol rs"]
  unfolding spans_ok_def by auto

lemma val_combine_plans:
  "val (combine_plans text ml be pol) =
     (if list_all (repl_ok text) (ml @ be) then Inr (combined_plan text pol (ml @ be))
      else Inl ErrInvalidSpan)"
proof (cases "list_all (repl_ok text) (ml @ be)")
  case False
  then have "val (combine_loop text pol [] (ml @ be)) = Inl ErrInvalidSpan"
    by (simp only: val_combine_loop if_False)
  then show ?thesis
    unfolding if_not_P[OF False] combine_plans_def by (subst val_mbind) auto
next
  case True
  have loop: "val (combine_loop text pol [] (ml @ be)) = Inr (accepted pol (ml @ be))"
    using True by (simp only: val_combine_loop if_True append_Nil)
  have "val (resolve_overlaps text (dedupe (accepted pol (ml @ be)))) =
    Inr (resolved text [] (go_sort candidate_less (dedupe (accepted pol (ml @ be)))))"
    unfolding resolve_overlaps_def
    by (rule val_resolve_loop[OF _ candidates_ok[OF True]]) (simp add: spans_ok_def)
  then show ?thesis
    unfolding if_P[OF True] combine_plans_def combined_plan_def
    by (simp add: val_mbind loop polls_combine_loop polls_resolve_overlaps)
qed

text \<open>The selected pieces, before the final sort.\<close>

definition selected :: "string \<Rightarrow> policy \<Rightarrow> replacement list \<Rightarrow> replacement list" where
  "selected text pol rs = resolved text [] (go_sort candidate_less (dedupe (accepted pol rs)))"

lemma dedupe_bytes: "bytes_of (dedupe rs) = bytes_of rs"
proof
  show "bytes_of (dedupe rs) \<subseteq> bytes_of rs"
    using dedupe_spec(2)[of rs] unfolding bytes_of_def by blast
  show "bytes_of rs \<subseteq> bytes_of (dedupe rs)"
  proof
    fix i assume "i \<in> bytes_of rs"
    then obtain r where r: "r \<in> set rs" "i \<in> span_of r"
      unfolding bytes_of_def by blast
    then obtain w where "w \<in> set (dedupe rs)" "same_cand w r"
      using dedupe_spec(3) by blast
    then show "i \<in> bytes_of (dedupe rs)"
      using r(2) unfolding bytes_of_def same_cand_def by (intro UN_I[of w]) auto
  qed
qed

lemma selected_inv:
  assumes "list_all (repl_ok text) rs"
  shows "resolved_inv text (selected text pol rs) (bytes_of (accepted pol rs))"
proof -
  have "resolved_inv text [] {}"
    by (simp add: resolved_inv_def spans_ok_def)
  from resolved_inv[OF this candidates_ok[OF assms, of pol]] show ?thesis
    using bytes_of_mset[OF mset_go_sort] dedupe_bytes by (simp add: selected_def)
qed

lemma apart_order:
  assumes "repl_ok text a" "repl_ok text b" "apart a b" "r_start a \<le> r_start b"
  shows "r_end a \<le> r_start b"
proof (rule ccontr)
  assume "\<not> r_end a \<le> r_start b"
  then have "r_start b \<in> span_of a \<inter> span_of b"
    using assms(4) repl_okD(2)[OF assms(2)] by simp
  then show False using assms(3) by blast
qed

interpretation plan_before: strict_weak "\<lambda>_. True" plan_before
  by unfold_locales (auto simp: plan_before_def split: if_splits)

lemma plan_before_sorted: "sorted_wrt (\<lambda>a b. r_start a \<le> r_start b) (go_sort plan_before rs)"
  by (rule sorted_wrt_mono_rel[OF _ plan_before.go_sort_ordered])
    (auto simp: plan_before_def split: if_splits)

lemma chain_of_sorted:
  assumes "spans_ok text rs" "sorted_wrt apart rs" "sorted_wrt (\<lambda>a b. r_start a \<le> r_start b) rs"
    and "\<forall>r \<in> set rs. r_token r \<noteq> []" "\<forall>r \<in> set rs. p \<le> r_start r"
  shows "chain_ok text p rs"
  using assms
proof (induction rs arbitrary: p)
  case Nil
  then show ?case by simp
next
  case (Cons r rs)
  have "r_end r \<le> r_start s" if "s \<in> set rs" for s
  proof (rule apart_order)
    show "repl_ok text r" "repl_ok text s"
      using Cons.prems(1) that by (simp_all add: spans_ok_def)
    show "apart r s" "r_start r \<le> r_start s"
      using Cons.prems(2,3) that unfolding sorted_wrt.simps by blast+
  qed
  then show ?case
    using Cons.IH[of "r_end r"] Cons.prems by (simp add: spans_ok_def)
qed

text \<open>Handing out tokens changes nothing else.\<close>

abbreviation erase :: "replacement list \<Rightarrow> replacement list" where
  "erase \<equiv> map (r_token_update (\<lambda>_. []))"

lemma spans_ok_erase: "spans_ok text (erase rs) = spans_ok text rs"
  by (simp add: spans_ok_def repl_ok_def)

lemma apart_erase: "sorted_wrt apart (erase rs) = sorted_wrt apart rs"
  by (simp add: sorted_wrt_map)

lemma bytes_of_erase: "bytes_of (erase rs) = bytes_of rs"
  by (simp add: bytes_of_def)

lemma starts_erase:
  "sorted_wrt (\<lambda>a b. r_start a \<le> r_start b) (erase rs) = sorted_wrt (\<lambda>a b. r_start a \<le> r_start b) rs"
  by (simp add: sorted_wrt_map)

lemma apart_sym_mset: "mset xs = mset ys \<Longrightarrow> sorted_wrt apart xs \<Longrightarrow> sorted_wrt apart ys"
  by (rule sorted_wrt_sym_mset[where R = apart]) auto

lemma combined_plan_eq: "combined_plan text pol rs = normalize_tokens text (go_sort plan_before (selected text pol rs))"
  by (simp add: combined_plan_def selected_def)

lemma combined_erase: "erase (combined_plan text pol rs) = erase (go_sort plan_before (selected text pol rs))"
  by (simp add: combined_plan_eq normalize_tokens_fields)

text \<open>The combined plan: in order, without overlaps, with fresh tokens, covering exactly what the
  accepted candidates cover.\<close>

lemma combined_plan_spec:
  assumes "list_all (repl_ok text) rs"
  shows "chain_ok text 0 (combined_plan text pol rs)"
    and "bytes_of (combined_plan text pol rs) = bytes_of (accepted pol rs)"
    and "tokens_fresh text (combined_plan text pol rs)"
proof -
  let ?sel = "selected text pol rs" and ?plan = "combined_plan text pol rs"
  have sel: "spans_ok text ?sel" "sorted_wrt apart ?sel" "bytes_of ?sel = bytes_of (accepted pol rs)"
    using selected_inv[OF assms, of pol] by (simp_all only: resolved_inv_def)
  have srt: "spans_ok text (go_sort plan_before ?sel)" "sorted_wrt apart (go_sort plan_before ?sel)"
    "bytes_of (go_sort plan_before ?sel) = bytes_of ?sel"
    using sel(1) apart_sym_mset[OF _ sel(2), of "go_sort plan_before ?sel"] bytes_of_mset[OF mset_go_sort]
    by (simp_all add: spans_ok_def)
  show fresh: "tokens_fresh text ?plan"
    by (simp add: combined_plan_eq normalize_tokens_fresh)
  show "bytes_of ?plan = bytes_of (accepted pol rs)"
    using bytes_of_erase[of ?plan] bytes_of_erase[of "go_sort plan_before ?sel"] srt(3) sel(3)
    by (simp only: combined_erase)
  show "chain_ok text 0 ?plan"
  proof (rule chain_of_sorted)
    show ok: "spans_ok text ?plan"
      using srt(1) spans_ok_erase combined_erase by metis
    show "sorted_wrt apart ?plan"
      using srt(2) apart_erase[of ?plan] apart_erase[of "go_sort plan_before ?sel"] by (simp only: combined_erase)
    show "sorted_wrt (\<lambda>a b. r_start a \<le> r_start b) ?plan"
      using plan_before_sorted[of ?sel] starts_erase[of ?plan] starts_erase[of "go_sort plan_before ?sel"]
      by (simp only: combined_erase)
    show "\<forall>r \<in> set ?plan. r_token r \<noteq> []"
      using fresh by (auto simp: tokens_fresh_def token_of_def)
    show "\<forall>r \<in> set ?plan. 0 \<le> r_start r"
      using ok repl_okD(1) by (auto simp: spans_ok_def)
  qed
qed

lemma tokens_fresh_consistent: "tokens_fresh text rs \<Longrightarrow> repl_consistent rs"
  unfolding tokens_fresh_def repl_consistent_def by blast

text \<open>Applying a plan that is in order.\<close>

lemma val_apply_chain:
  assumes "chain_ok text 0 rs" "repl_consistent rs"
  shows "val (apply_replacements text rs) = Inr (splice text 0 rs (int (length text)), map mapping_of rs)"
proof -
  have "sorted_wrt (\<lambda>a b. \<not> starts_before b a) rs"
    using chain_ok_starts[OF assms(1)] by (rule sorted_wrt_mono_rel[rotated]) (auto simp: starts_before_def)
  then have "go_sort starts_before rs = rs"
    by (rule go_sort_id)
  then show ?thesis
    using assms by (simp add: val_apply_replacements)
qed

text \<open>Each byte of a result is replaced for the strongest accepted candidate that covers it.\<close>

lemma combined_plan_strongest:
  assumes "list_all (repl_ok text) rs" "list_all no_nan rs"
    and "r \<in> set (combined_plan text pol rs)" "i \<in> span_of r"
    and "c \<in> set (accepted pol rs)" "i \<in> span_of c"
  shows "\<exists>d \<in> set (accepted pol rs). r_kind r = r_kind d \<and> r_source r = r_source d
    \<and> i \<in> span_of d \<and> \<not> candidate_less c d"
proof -
  let ?acc = "accepted pol rs"
  let ?cs = "go_sort candidate_less (dedupe ?acc)"
  have nn: "list_all no_nan ?acc" "list_all no_nan ?cs"
    using assms(2) dedupe_spec(2)[of ?acc] by (auto simp: list_all_iff accepted_def)
  have "r_token_update (\<lambda>_. []) r \<in> set (erase (combined_plan text pol rs))"
    using assms(3) by auto
  then obtain p where p: "p \<in> set (selected text pol rs)"
    "r_token_update (\<lambda>_. []) r = r_token_update (\<lambda>_. []) p"
    unfolding combined_erase by auto
  have rp: "r_start r = r_start p" "r_end r = r_end p" "r_kind r = r_kind p" "r_source r = r_source p"
    using arg_cong[OF p(2), of r_start] arg_cong[OF p(2), of r_end] arg_cong[OF p(2), of r_kind]
      arg_cong[OF p(2), of r_source] by simp_all
  obtain w where w: "w \<in> set (dedupe ?acc)" "same_cand w c"
    using dedupe_spec(3)[OF assms(5)] by blast
  have org: "origin (selected text pol rs) ?cs"
    using resolved_origin[of "[]" "[]" "text" ?cs] candidates_ok[OF assms(1), of pol]
    by (simp add: selected_def origin_def spans_ok_def)
  have srt: "sorted_wrt (\<lambda>a b. \<not> candidate_less b a) ?cs"
    by (rule cand.go_sort_ordered) (use nn(2) in \<open>simp add: list_all_iff\<close>)
  obtain d where d: "d \<in> set ?cs" "takes_after p d" "i \<in> span_of d" "\<not> candidate_less w d"
    using origin_strongest[OF org srt nn(2) p(1), of i w] w assms(4,6) rp by (auto simp: same_cand_def)
  have "\<not> candidate_less c w"
    using dedupe_spec(4)[OF nn(1) w(1) assms(5) w(2)] .
  moreover have "no_nan c" "no_nan w" "no_nan d"
    using nn assms(5) w(1) d(1) by (auto simp: list_all_iff)
  ultimately have "\<not> candidate_less c d"
    using cand.less_neg_trans d(4) by blast
  moreover have "d \<in> set ?acc"
    using d(1) dedupe_spec(2)[of ?acc] by auto
  ultimately show ?thesis
    using d(2,3) rp by (auto simp: takes_after_def)
qed

text \<open>The result does not depend on the order in which the candidates arrive.\<close>

lemma combined_plan_perm:
  assumes "list_all (repl_ok text) rs" "list_all no_nan rs" "mset rs = mset rs'"
  shows "combined_plan text pol rs = combined_plan text pol rs'"
proof -
  have "list_all (\<lambda>r. no_nan r \<and> repl_ok text r) (accepted pol rs)"
    using assms(1,2) by (simp add: list_all_iff accepted_def)
  moreover have "mset (accepted pol rs) = mset (accepted pol rs')"
    using assms(3) by (simp add: accepted_def mset_filter)
  ultimately have d: "mset (dedupe (accepted pol rs)) = mset (dedupe (accepted pol rs'))"
    by (rule dedupe_mset)
  have "\<forall>r \<in> set (dedupe (accepted pol rs)). no_nan r \<and> repl_ok text r"
    using assms(1,2) dedupe_spec(2)[of "accepted pol rs"] by (auto simp: list_all_iff accepted_def)
  then have "go_sort candidate_less (dedupe (accepted pol rs)) = go_sort candidate_less (dedupe (accepted pol rs'))"
    using d by (rule total.go_sort_perm)
  then show ?thesis
    by (simp add: combined_plan_def)
qed

end
