(* ===== verification/Chunker.thy ===== *)
theory Chunker
  imports Pii
begin

text \<open>
  \<open>internal/ml/chunker.go\<close>: a text is cut into overlapping pieces of a bounded number of code
  points.  The loop of \<open>SplitText\<close> runs on fuel, one unit for each code point of the text;
  \<open>split_text_ok\<close> shows that this is enough, that no index is out of range, and what the pieces
  are.
\<close>

record chunk_config =
  target_code_points :: int
  max_code_points :: int
  overlap_code_points :: int

definition default_chunk_config :: chunk_config where
  "default_chunk_config =
     \<lparr>target_code_points = 300, max_code_points = 350, overlap_code_points = 50\<rparr>"

record text_chunk =
  ch_text :: string
  start_code_point :: int
  end_code_point :: int
  start_byte :: int
  end_byte :: int

definition config_validate :: "chunk_config \<Rightarrow> unit res" where
  "config_validate c =
     (if target_code_points c \<le> 0 then Inl (ErrOther ''target code points must be > 0'')
      else if max_code_points c \<le> 0 then Inl (ErrOther ''max code points must be > 0'')
      else if target_code_points c > max_code_points c
      then Inl (ErrOther ''target code points must not exceed max code points'')
      else if overlap_code_points c < 0 \<or> overlap_code_points c \<ge> max_code_points c
      then Inl (ErrOther ''overlap code points must be >= 0 and < max code points'')
      else Inr ())"

definition is_boundary :: "rune list \<Rightarrow> int \<Rightarrow> bool" where
  "is_boundary rs cp =
     (if cp \<le> 0 \<or> cp \<ge> int (length rs) then False
      else
        let prev = rs ! nat (cp - 1) in
        if prev = 10 then True
        else if prev = 46 \<or> prev = 63 \<or> prev = 33 then
          (if cp = int (length rs) then True
           else let next = rs ! nat cp in next = 32 \<or> next = 10)
        else False)"

definition max_int :: int where
  "max_int = 9223372036854775807"

text \<open>The loop over the candidates \<open>cp\<close>, with the nearest boundary so far and its distance.\<close>

fun best_boundary :: "rune list \<Rightarrow> int \<Rightarrow> int \<Rightarrow> int \<Rightarrow> int list \<Rightarrow> int" where
  "best_boundary rs goal best best_dist [] = best"
| "best_boundary rs goal best best_dist (cp # cps) =
     (if \<not> is_boundary rs cp then best_boundary rs goal best best_dist cps
      else
        let dist = (if cp - goal < 0 then - (cp - goal) else cp - goal) in
        if dist < best_dist then best_boundary rs goal cp dist cps
        else best_boundary rs goal best best_dist cps)"

definition find_chunk_end :: "rune list \<Rightarrow> int list \<Rightarrow> int \<Rightarrow> chunk_config \<Rightarrow> (int \<times> int \<times> bool) res" where
  "find_chunk_end rs offsets start_cp cfg =
     (let text_len = int (length rs) in
      if start_cp + target_code_points cfg \<ge> text_len then
        rbind (go_index offsets text_len) (\<lambda>b. Inr (text_len, b, True))
      else
        let max_end = (if start_cp + max_code_points cfg > text_len then text_len
                       else start_cp + max_code_points cfg);
            low0 = start_cp + target_code_points cfg - overlap_code_points cfg;
            low = (if low0 < start_cp + 1 then start_cp + 1 else low0);
            best = best_boundary rs (start_cp + target_code_points cfg) (-1) max_int [low..max_end] in
        if best \<ge> 0 then rbind (go_index offsets best) (\<lambda>b. Inr (best, b, True))
        else rbind (go_index offsets max_end) (\<lambda>b. Inr (max_end, b, False)))"

fun split_loop ::
  "nat \<Rightarrow> string \<Rightarrow> rune list \<Rightarrow> int list \<Rightarrow> chunk_config \<Rightarrow> int \<Rightarrow> int \<Rightarrow> text_chunk list
    \<Rightarrow> (ctx, text_chunk list) sm"
where
  "split_loop 0 text rs offsets cfg start_cp start_b chunks =
     (if start_cp < int (length rs) then throw Diverge else ret chunks)"
| "split_loop (Suc fuel) text rs offsets cfg start_cp start_b chunks =
     (if \<not> start_cp < int (length rs) then ret chunks
      else
        mbind poll (\<lambda>_.
        mbind (lift (find_chunk_end rs offsets start_cp cfg)) (\<lambda>(end_cp, end_b, safe).
        mbind (lift (go_slice text start_b end_b)) (\<lambda>piece.
        let chunks' = chunks @ [\<lparr>ch_text = piece, start_code_point = start_cp, end_code_point = end_cp,
                                  start_byte = start_b, end_byte = end_b\<rparr>] in
        if end_cp \<ge> int (length rs) then ret chunks'
        else
          let start' = (if safe then end_cp else end_cp - overlap_code_points cfg) in
          mbind (lift (go_index offsets start')) (\<lambda>start_b'.
          split_loop fuel text rs offsets cfg start' start_b' chunks')))))"

definition byte_offsets :: "string \<Rightarrow> int list" where
  "byte_offsets text = map int (rune_offsets text) @ [int (length text)]"

definition split_text :: "string \<Rightarrow> chunk_config \<Rightarrow> (ctx, text_chunk list) sm" where
  "split_text text cfg =
     mbind (lift (config_validate cfg)) (\<lambda>_.
     if text = [] then ret []
     else if \<not> valid_string text then throw (ErrOther ''text is not valid UTF-8'')
     else split_loop (rune_count text) text (runes text) (byte_offsets text) cfg 0 0 [])"

section \<open>The end of a chunk\<close>

definition config_ok :: "chunk_config \<Rightarrow> bool" where
  "config_ok c \<longleftrightarrow> 0 < target_code_points c \<and> target_code_points c \<le> max_code_points c
     \<and> 0 \<le> overlap_code_points c \<and> overlap_code_points c < max_code_points c"

lemma config_validate_iff: "config_validate c = Inr () \<longleftrightarrow> config_ok c"
  by (auto simp: config_validate_def config_ok_def)

lemma best_boundary_in:
  "best_boundary rs goal best d cps = best
    \<or> best_boundary rs goal best d cps \<in> set cps \<and> is_boundary rs (best_boundary rs goal best d cps)"
  by (induction rs goal best d cps rule: best_boundary.induct) (auto simp: Let_def)

text \<open>The chosen boundary is a nearest one.\<close>

lemma best_boundary_nearest:
  assumes "best = -1 \<and> d = max_int \<or> 0 \<le> best \<and> d = \<bar>best - goal\<bar>"
    and "\<forall>cp \<in> set cps. 0 \<le> cp \<and> \<bar>cp - goal\<bar> < max_int"
  shows "(0 \<le> best \<longrightarrow> 0 \<le> best_boundary rs goal best d cps
        \<and> \<bar>best_boundary rs goal best d cps - goal\<bar> \<le> \<bar>best - goal\<bar>)
    \<and> (\<forall>cp \<in> set cps. is_boundary rs cp \<longrightarrow> 0 \<le> best_boundary rs goal best d cps
        \<and> \<bar>best_boundary rs goal best d cps - goal\<bar> \<le> \<bar>cp - goal\<bar>)"
  using assms
proof (induction cps arbitrary: best d)
  case Nil
  then show ?case by simp
next
  case (Cons cp cps)
  have dist: "(if cp - goal < 0 then - (cp - goal) else cp - goal) = \<bar>cp - goal\<bar>"
    by simp
  have rest: "\<forall>cp \<in> set cps. 0 \<le> cp \<and> \<bar>cp - goal\<bar> < max_int" and cp: "0 \<le> cp" "\<bar>cp - goal\<bar> < max_int"
    using Cons.prems(2) by simp_all
  note keep = Cons.IH[OF Cons.prems(1) rest]
  note take = Cons.IH[of cp "\<bar>cp - goal\<bar>", OF _ rest]
  show ?case
  proof (cases "is_boundary rs cp \<and> \<bar>cp - goal\<bar> < d")
    case True
    then have "best_boundary rs goal best d (cp # cps) = best_boundary rs goal cp \<bar>cp - goal\<bar> cps"
      unfolding best_boundary.simps dist Let_def by simp
    then show ?thesis
      using take cp True Cons.prems(1) by fastforce
  next
    case False
    then have eq: "best_boundary rs goal best d (cp # cps) = best_boundary rs goal best d cps"
      unfolding best_boundary.simps dist Let_def by auto
    have "0 \<le> best \<and> \<bar>best - goal\<bar> \<le> \<bar>cp - goal\<bar>" if "is_boundary rs cp"
      using False that Cons.prems(1) cp(2) by auto
    then show ?thesis
      unfolding eq using keep by fastforce
  qed
qed

lemma byte_offsets_nth:
  assumes "valid_string text" "0 \<le> i" "i \<le> int (rune_count text)"
  shows "go_index (byte_offsets text) i = Inr (int (byte_offset (runes text) (nat i)))"
proof (cases "i = int (rune_count text)")
  case True
  have "byte_offset (runes text) (rune_count text) = length text"
    using encode_runes[OF assms(1)] by (simp add: byte_offset_length rune_count_def)
  then show ?thesis
    by (simp add: True byte_offsets_def nth_append)
next
  case False
  then have "nat i < rune_count text" using assms by simp
  then show ?thesis
    using assms rune_offsets_nth[OF assms(1), of "nat i"]
    by (simp add: go_index_def byte_offsets_def nth_append)
qed

definition end_ok :: "rune list \<Rightarrow> chunk_config \<Rightarrow> int \<Rightarrow> int \<Rightarrow> bool \<Rightarrow> bool" where
  "end_ok rs cfg s e safe \<longleftrightarrow> s < e \<and> e \<le> int (length rs) \<and> e - s \<le> max_code_points cfg
     \<and> (safe \<longrightarrow> e = int (length rs) \<or> is_boundary rs e)
     \<and> (\<not> safe \<longrightarrow> e = int (length rs) \<or> e = s + max_code_points cfg)"

lemma find_chunk_end_ok:
  assumes "config_ok cfg" "valid_string text" "0 \<le> s" "s < int (rune_count text)"
  shows "\<exists>e safe. find_chunk_end (runes text) (byte_offsets text) s cfg
      = Inr (e, int (byte_offset (runes text) (nat e)), safe) \<and> end_ok (runes text) cfg s e safe"
proof -
  let ?n = "int (length (runes text))"
  have n: "?n = int (rune_count text)" by (simp add: rune_count_def)
  have idx: "go_index (byte_offsets text) i = Inr (int (byte_offset (runes text) (nat i)))"
    if "0 \<le> i" "i \<le> ?n" for i
    using byte_offsets_nth[OF assms(2) that(1)] that(2) by (simp add: n)
  show ?thesis
  proof (cases "s + target_code_points cfg \<ge> ?n")
    case True
    then have "find_chunk_end (runes text) (byte_offsets text) s cfg
        = Inr (?n, int (byte_offset (runes text) (nat ?n)), True)"
      by (simp add: find_chunk_end_def Let_def idx)
    moreover have "end_ok (runes text) cfg s ?n True"
      using True assms(1,4) n by (auto simp: end_ok_def config_ok_def)
    ultimately show ?thesis by blast
  next
    case False
    define max_end where "max_end = (if s + max_code_points cfg > ?n then ?n else s + max_code_points cfg)"
    define low where "low = (if s + target_code_points cfg - overlap_code_points cfg < s + 1 then s + 1
      else s + target_code_points cfg - overlap_code_points cfg)"
    define best where "best = best_boundary (runes text) (s + target_code_points cfg) (-1) max_int [low..max_end]"
    have eq: "find_chunk_end (runes text) (byte_offsets text) s cfg =
        (if best \<ge> 0 then rbind (go_index (byte_offsets text) best) (\<lambda>b. Inr (best, b, True))
         else rbind (go_index (byte_offsets text) max_end) (\<lambda>b. Inr (max_end, b, False)))"
      using False by (simp add: find_chunk_end_def Let_def max_end_def low_def best_def)
    have range: "s < low" "s < max_end" "max_end \<le> ?n" "max_end \<le> s + max_code_points cfg"
      using assms(1,4) n by (auto simp: low_def max_end_def config_ok_def)
    show ?thesis
    proof (cases "best \<ge> 0")
      case True
      then have "best \<in> set [low..max_end]" "is_boundary (runes text) best"
        using best_boundary_in[of "runes text" "s + target_code_points cfg" "-1" max_int "[low..max_end]"]
        by (auto simp: best_def)
      then have "end_ok (runes text) cfg s best True" "best \<le> ?n"
        using range by (auto simp: end_ok_def)
      then show ?thesis
        using True by (intro exI[of _ best] exI[of _ True]) (simp add: eq idx)
    next
      case False
      have "end_ok (runes text) cfg s max_end False"
        using range by (auto simp: end_ok_def max_end_def)
      then show ?thesis
        using False range assms(3) by (intro exI[of _ max_end] exI[of _ False]) (simp add: eq idx)
    qed
  qed
qed

section \<open>The chunks\<close>

definition chunk_ok :: "string \<Rightarrow> chunk_config \<Rightarrow> text_chunk \<Rightarrow> bool" where
  "chunk_ok text cfg c \<longleftrightarrow>
     0 \<le> start_code_point c \<and> start_code_point c < end_code_point c
     \<and> end_code_point c \<le> int (rune_count text)
     \<and> end_code_point c - start_code_point c \<le> max_code_points cfg
     \<and> start_byte c = int (byte_offset (runes text) (nat (start_code_point c)))
     \<and> end_byte c = int (byte_offset (runes text) (nat (end_code_point c)))
     \<and> ch_text c = slice text (start_byte c) (end_byte c)"

text \<open>Two consecutive chunks: the next starts where the last ends when that is a boundary, or
  else repeats the overlap.\<close>

definition follows :: "string \<Rightarrow> chunk_config \<Rightarrow> text_chunk \<Rightarrow> text_chunk \<Rightarrow> bool" where
  "follows text cfg c d \<longleftrightarrow>
     start_code_point c < start_code_point d \<and>
     (start_code_point d = end_code_point c \<and> is_boundary (runes text) (end_code_point c)
      \<or> start_code_point d = end_code_point c - overlap_code_points cfg
        \<and> end_code_point c = start_code_point c + max_code_points cfg)"

fun chunks_from :: "string \<Rightarrow> chunk_config \<Rightarrow> int \<Rightarrow> text_chunk list \<Rightarrow> bool" where
  "chunks_from text cfg s [] = False"
| "chunks_from text cfg s [c] = (start_code_point c = s \<and> chunk_ok text cfg c
     \<and> end_code_point c = int (rune_count text))"
| "chunks_from text cfg s (c # d # cs) = (start_code_point c = s \<and> chunk_ok text cfg c
     \<and> follows text cfg c d \<and> chunks_from text cfg (start_code_point d) (d # cs))"

lemma polls_split_loop [ctx_polls, intro!]: "polls (split_loop fuel text rs offs cfg s b cs)"
  by (induction fuel arbitrary: s b cs)
    (auto intro!: polls_mbind simp: Let_def split: prod.split)

lemma polls_split_text [ctx_polls, intro!]: "polls (split_text text cfg)"
  by (auto simp: split_text_def intro!: polls_mbind)

lemma split_loop_ok:
  assumes "config_ok cfg" "valid_string text" "0 \<le> s" "s < int (rune_count text)"
    and "rune_count text \<le> fuel + nat s"
  shows "\<exists>cs. val (split_loop fuel text (runes text) (byte_offsets text) cfg s
      (int (byte_offset (runes text) (nat s))) acc) = Inr (acc @ cs) \<and> chunks_from text cfg s cs"
  using assms(3-5)
proof (induction fuel arbitrary: s acc)
  case 0
  then show ?case by simp
next
  case (Suc fuel)
  let ?off = "\<lambda>i. int (byte_offset (runes text) (nat i))"
  have n: "length (runes text) = rune_count text" by (simp add: rune_count_def)
  obtain e safe where e: "find_chunk_end (runes text) (byte_offsets text) s cfg = Inr (e, ?off e, safe)"
    "end_ok (runes text) cfg s e safe"
    using find_chunk_end_ok[OF assms(1,2) Suc.prems(1,2)] by blast
  then have range: "s < e" "e \<le> int (rune_count text)" "e - s \<le> max_code_points cfg"
    by (simp_all add: end_ok_def n)
  have "slice_ok text (?off s) (?off e)"
    using byte_offset_mono[of "nat s" "nat e" "runes text"] byte_offset_le[of "runes text" "nat e"] range
      encode_runes[OF assms(2)]
    by (simp add: slice_ok_def)
  then have sl: "go_slice text (?off s) (?off e) = Inr (slice text (?off s) (?off e))"
    by simp
  let ?c = "\<lparr>ch_text = slice text (?off s) (?off e), start_code_point = s, end_code_point = e,
             start_byte = ?off s, end_byte = ?off e\<rparr>"
  have c: "chunk_ok text cfg ?c"
    using range Suc.prems(1) by (simp add: chunk_ok_def)
  show ?case
  proof (cases "e \<ge> int (rune_count text)")
    case True
    have "val (split_loop (Suc fuel) text (runes text) (byte_offsets text) cfg s (?off s) acc) = Inr (acc @ [?c])"
      using Suc.prems(2) True by (simp add: val_mbind n e(1) sl Let_def val_if)
    moreover have "chunks_from text cfg s [?c]"
      using c True range by simp
    ultimately show ?thesis by blast
  next
    case False
    define s' where "s' = (if safe then e else e - overlap_code_points cfg)"
    have s': "s < s'" "s' < int (rune_count text)"
      using e(2) False range assms(1) by (auto simp: s'_def end_ok_def config_ok_def n)
    have idx: "go_index (byte_offsets text) s' = Inr (?off s')"
      using byte_offsets_nth[OF assms(2), of s'] s' Suc.prems(1) by simp
    obtain cs where cs: "val (split_loop fuel text (runes text) (byte_offsets text) cfg s' (?off s') (acc @ [?c]))
        = Inr ((acc @ [?c]) @ cs)" "chunks_from text cfg s' cs"
      using Suc.IH[of s' "acc @ [?c]"] s' Suc.prems by fastforce
    have "val (split_loop (Suc fuel) text (runes text) (byte_offsets text) cfg s (?off s) acc) = Inr (acc @ ?c # cs)"
      using Suc.prems(2) False cs(1) idx
      by (simp add: val_mbind n e(1) sl Let_def val_if s'_def[symmetric])
    moreover have "chunks_from text cfg s (?c # cs)"
    proof -
      obtain d ds where d: "cs = d # ds" "start_code_point d = s'"
        using cs(2) by (cases cs; cases "tl cs") auto
      have "follows text cfg ?c d"
        using s'(1) e(2) False by (auto simp: follows_def d s'_def end_ok_def n)
      then show ?thesis
        using c cs(2) by (simp add: d)
    qed
    ultimately show ?thesis by blast
  qed
qed

text \<open>What \<open>SplitText\<close> returns: a configuration error, an empty list for the empty text, an error
  for a text that is not UTF-8, or chunks from the first to the last code point.\<close>

lemma val_split_text:
  "val (split_text text cfg) =
     (case config_validate cfg of
        Inl e \<Rightarrow> Inl e
      | Inr _ \<Rightarrow>
          if text = [] then Inr []
          else if \<not> valid_string text then Inl (ErrOther ''text is not valid UTF-8'')
          else val (split_loop (rune_count text) text (runes text) (byte_offsets text) cfg 0 0 []))"
  by (simp add: split_text_def val_mbind val_if rbind_def split: sum.split)

lemma split_text_ok:
  assumes "config_ok cfg" "valid_string text" "text \<noteq> []"
  shows "\<exists>cs. val (split_text text cfg) = Inr cs \<and> chunks_from text cfg 0 cs"
proof -
  have "0 < rune_count text"
    using assms(3) rune_count_eq_0[of "text"] by (metis gr0I)
  then obtain cs where "val (split_loop (rune_count text) text (runes text) (byte_offsets text) cfg 0 0 []) = Inr cs"
    "chunks_from text cfg 0 cs"
    using split_loop_ok[OF assms(1,2), of 0 "rune_count text" "[]"] by auto
  then show ?thesis
    using assms(2,3) config_validate_iff[THEN iffD2, OF assms(1)] by (simp add: val_split_text)
qed

lemma chunks_from_all: "chunks_from text cfg s cs \<Longrightarrow> c \<in> set cs \<Longrightarrow> chunk_ok text cfg c"
  by (induction "text" cfg s cs rule: chunks_from.induct) auto

lemma chunks_cover:
  assumes "chunks_from text cfg s cs" "valid_string text" "config_ok cfg"
    and "int (byte_offset (runes text) (nat s)) \<le> i" "i < int (length text)"
  shows "\<exists>c \<in> set cs. start_byte c \<le> i \<and> i < end_byte c"
  using assms
proof (induction "text" cfg s cs rule: chunks_from.induct)
  case (1 u cfg s)
  then show ?case by simp
next
  case (2 u cfg s c)
  have "byte_offset (runes u) (rune_count u) = length u"
    using encode_runes[OF 2(2)] by (simp add: byte_offset_length rune_count_def)
  then show ?case
    using 2 by (auto simp: chunk_ok_def)
next
  case (3 u cfg s c d cs)
  show ?case
  proof (cases "i < end_byte c")
    case True
    then show ?thesis using 3(2,5) by (intro bexI[of _ c]) (auto simp: chunk_ok_def)
  next
    case False
    have "start_code_point d \<le> end_code_point c"
      using 3(2,4) by (auto simp: follows_def config_ok_def)
    then have "int (byte_offset (runes u) (nat (start_code_point d))) \<le> end_byte c"
      using 3(2) byte_offset_mono[of "nat (start_code_point d)" "nat (end_code_point c)" "runes u"]
      by (simp add: chunk_ok_def)
    then show ?thesis
      using 3(1)[OF _ 3(3,4)] 3(2,6) False by fastforce
  qed
qed

lemma chunk_slice:
  assumes "chunk_ok text cfg c" "valid_string text"
  shows "valid_string (ch_text c)" "slice_ok text (start_byte c) (end_byte c)" "start_byte c < end_byte c"
proof -
  have n: "length (runes text) = rune_count text" by (simp add: rune_count_def)
  have lt: "nat (start_code_point c) < nat (end_code_point c)" "nat (end_code_point c) \<le> rune_count text"
    using assms(1) by (auto simp: chunk_ok_def)
  show "valid_string (ch_text c)"
    using valid_slice_at_boundaries[OF assms(2), of "nat (start_code_point c)" "nat (end_code_point c)"]
      assms(1) lt by (simp add: chunk_ok_def)
  show less: "start_byte c < end_byte c"
    using byte_offset_strict[OF lt(1), of "runes text"] lt(2) n assms(1) by (simp add: chunk_ok_def)
  show "slice_ok text (start_byte c) (end_byte c)"
    using less assms(1) byte_offset_le[of "runes text" "nat (end_code_point c)"] encode_runes[OF assms(2)]
    by (simp add: slice_ok_def chunk_ok_def)
qed

end
