(* ===== verification/GoStrings.thy ===== *)
theory GoStrings
  imports Utf8
begin

text \<open>
  The parts of \<open>strings\<close>, \<open>strconv\<close> and \<open>unicode\<close> the rule engine uses.  \<open>unicode.IsSpace\<close> is
  written out; the tables behind \<open>unicode.ToLower\<close>, \<open>IsLetter\<close> and \<open>IsDigit\<close> are the record
  \<open>ucd\<close>, an argument of what uses them.  Functions on the runes of a string keep the bytes of
  each rune, as Go's substrings do.
\<close>

record ucd =
  to_lower :: "rune \<Rightarrow> rune"
  is_letter :: "rune \<Rightarrow> bool"
  is_digit :: "rune \<Rightarrow> bool"

definition is_space :: "rune \<Rightarrow> bool" where
  "is_space r \<longleftrightarrow> r \<in> {9, 10, 11, 12, 13, 32, 0x85, 0xA0, 0x1680, 0x2028, 0x2029, 0x202F, 0x205F, 0x3000}
     \<or> 0x2000 \<le> r \<and> r \<le> 0x200A"

text \<open>\<open>strings.ToLower\<close>.\<close>

definition lower_str :: "ucd \<Rightarrow> string \<Rightarrow> string" where
  "lower_str u s = encode_all (map (to_lower u) (runes s))"

text \<open>The runes of a string with their bytes.\<close>

function segments :: "string \<Rightarrow> (rune \<times> string) list" where
  "segments s = (if s = [] then []
     else (fst (decode_rune s), take (snd (decode_rune s)) s) # segments (drop (snd (decode_rune s)) s))"
  by pat_completeness auto
termination
proof (relation "measure length", simp)
  fix s :: string
  assume "s \<noteq> []"
  then show "(drop (snd (decode_rune s)) s, s) \<in> measure length"
    using decode_rune_width(1)[of s] by (cases s) auto
qed

declare segments.simps [simp del]

definition segs_text :: "(rune \<times> string) list \<Rightarrow> string" where
  "segs_text xs = concat (map snd xs)"

lemma segments_text: "segs_text (segments s) = s"
proof (induction s rule: segments.induct)
  case (1 s)
  then show ?case
    by (subst segments.simps) (simp add: segs_text_def)
qed

text \<open>\<open>strings.FieldsFunc\<close>, \<open>strings.Fields\<close>, \<open>strings.TrimFunc\<close>, \<open>strings.TrimSpace\<close>.\<close>

fun fields_segs :: "(rune \<Rightarrow> bool) \<Rightarrow> string \<Rightarrow> (rune \<times> string) list \<Rightarrow> string list" where
  "fields_segs p cur [] = (if cur = [] then [] else [cur])"
| "fields_segs p cur ((r, b) # xs) =
     (if p r then (if cur = [] then fields_segs p [] xs else cur # fields_segs p [] xs)
      else fields_segs p (cur @ b) xs)"

definition fields_func :: "(rune \<Rightarrow> bool) \<Rightarrow> string \<Rightarrow> string list" where
  "fields_func p s = fields_segs p [] (segments s)"

definition string_fields :: "string \<Rightarrow> string list" where
  "string_fields s = fields_func is_space s"

definition trim_func :: "(rune \<Rightarrow> bool) \<Rightarrow> string \<Rightarrow> string" where
  "trim_func p s =
     segs_text (rev (dropWhile (\<lambda>(r, b). p r) (rev (dropWhile (\<lambda>(r, b). p r) (segments s)))))"

definition trim_space :: "string \<Rightarrow> string" where
  "trim_space s = trim_func is_space s"

text \<open>\<open>strings.Split\<close> at one byte, \<open>strings.HasSuffix\<close>, \<open>strings.Join\<close>.\<close>

fun split_byte :: "char \<Rightarrow> string \<Rightarrow> string list" where
  "split_byte sep [] = [[]]"
| "split_byte sep (c # cs) =
     (if c = sep then [] # split_byte sep cs
      else case split_byte sep cs of [] \<Rightarrow> [[c]] | w # ws \<Rightarrow> (c # w) # ws)"

definition has_suffix :: "string \<Rightarrow> string \<Rightarrow> bool" where
  "has_suffix s p \<longleftrightarrow> length p \<le> length s \<and> drop (length s - length p) s = p"

fun join :: "string \<Rightarrow> string list \<Rightarrow> string" where
  "join sep [] = []"
| "join sep [w] = w"
| "join sep (w # v # ws) = w @ sep @ join sep (v # ws)"

text \<open>\<open>strconv.Atoi\<close>: an optional sign, digits, and the range of \<open>int64\<close>.\<close>

definition atoi :: "string \<Rightarrow> int option" where
  "atoi s =
     (case (case s of
              [] \<Rightarrow> (False, [])
            | c # cs \<Rightarrow> if c = CHR ''-'' then (True, cs) else if c = CHR ''+'' then (False, cs) else (False, s)) of
        (neg, ds) \<Rightarrow>
          if ds = [] \<or> \<not> list_all is_digit_char ds then None
          else if neg then (if int (read_nat ds) \<le> 2 ^ 63 then Some (- int (read_nat ds)) else None)
          else if int (read_nat ds) < 2 ^ 63 then Some (int (read_nat ds)) else None)"

text \<open>\<open>strconv.Atoi(string(b))\<close> of one byte: a byte of 128 or more becomes two bytes that are no
  digits.\<close>

definition atoi_byte :: "char \<Rightarrow> nat option" where
  "atoi_byte c = (if is_digit_char c then Some (of_char c - 48) else None)"

lemma atoi_byte_single: "atoi [c] = map_option int (atoi_byte c)"
proof (cases "is_digit_char c")
  case True
  then have "of_char c \<le> (57 :: nat)" "c \<noteq> CHR ''-''" "c \<noteq> CHR ''+''"
    by (auto simp: is_digit_char_def less_eq_char_def)
  then show ?thesis
    using True by (simp add: atoi_def atoi_byte_def read_nat_def)
next
  case False
  then show ?thesis by (simp add: atoi_def atoi_byte_def)
qed

lemma atoi_byte_less: "atoi_byte c = Some d \<Longrightarrow> d < 10"
  by (auto simp: atoi_byte_def is_digit_char_def less_eq_char_def split: if_splits)

lemma atoi_byte_inj: "atoi_byte c = Some d \<Longrightarrow> atoi_byte c' = Some d \<Longrightarrow> c = c'"
proof -
  assume a: "atoi_byte c = Some d" "atoi_byte c' = Some d"
  then have "of_char c - 48 = of_char c' - (48 :: nat)" "48 \<le> (of_char c :: nat)" "48 \<le> (of_char c' :: nat)"
    by (auto simp: atoi_byte_def is_digit_char_def less_eq_char_def split: if_splits)
  then show "c = c'"
    by (metis le_add_diff_inverse of_char_eq_iff)
qed

lemma atoi_byte_Some_iff: "(\<exists>d. atoi_byte c = Some d) \<longleftrightarrow> is_digit_char c"
  by (simp add: atoi_byte_def)

lemma fields_segs_nonempty: "w \<in> set (fields_segs p cur xs) \<Longrightarrow> w \<noteq> []"
  by (induction p cur xs rule: fields_segs.induct) (auto split: if_splits)

lemma join_split_byte: "join [sep] (split_byte sep s) = s"
proof (induction s)
  case Nil
  then show ?case by simp
next
  case (Cons c cs)
  have ne: "split_byte sep cs \<noteq> []"
    by (induction cs) (auto split: list.splits)
  then obtain w ws where w: "split_byte sep cs = w # ws"
    by (cases "split_byte sep cs") auto
  show ?case
    using Cons w by (cases ws) auto
qed

end
