(* ===== verification/Residual.thy ===== *)
theory Residual
  imports Plan GoStrings
begin

text \<open>
  \<open>internal/residual/residual.go\<close>: the text with the rule engine's findings blanked out, byte
  for byte, which is what the gate sees.  Blanking keeps the length, so offsets into the
  original are offsets into the residual; at rune boundaries it keeps UTF-8.
\<close>

text \<open>The inner loop \<open>for i := start; i < end; i++\<close>.\<close>

function blank :: "string \<Rightarrow> int \<Rightarrow> int \<Rightarrow> string" where
  "blank b i stop = (if i < stop then blank (b[nat i := CHR '' '']) (i + 1) stop else b)"
  by pat_completeness auto
termination
  by (relation "measure (\<lambda>(b, i, stop). nat (stop - i))") auto

declare blank.simps [simp del]

fun blank_spans :: "string \<Rightarrow> entity list \<Rightarrow> string" where
  "blank_spans b [] = b"
| "blank_spans b (s # ss) =
     (let start = (if ent_start s < 0 then 0 else ent_start s);
          stop = (if ent_end s > int (length b) then int (length b) else ent_end s) in
      if start \<ge> stop then blank_spans b ss
      else blank_spans (blank b start stop) ss)"

definition build :: "string \<Rightarrow> entity list \<Rightarrow> string" where
  "build original spans = (if length spans = 0 then original else blank_spans original spans)"

definition build_from_candidates :: "string \<Rightarrow> candidate_span list \<Rightarrow> string" where
  "build_from_candidates original spans =
     build original (map (\<lambda>s. \<lparr>ent_type = c_type s, ent_text = c_text s, ent_start = c_start s,
       ent_end = c_end s, ent_score = Fin 0, ent_reason = []\<rparr>) spans)"

definition masked :: "string \<Rightarrow> string \<Rightarrow> bool" where
  "masked original residual \<longleftrightarrow> original \<noteq> residual"

definition count_masked_bytes :: "string \<Rightarrow> string \<Rightarrow> nat" where
  "count_masked_bytes original residual =
     (if length original \<noteq> length residual then 0
      else length (filter (\<lambda>(a, b). a \<noteq> b) (zip original residual)))"

definition residual_trim :: "string \<Rightarrow> string" where
  "residual_trim s = trim_space s"

section \<open>Bytes\<close>

lemma length_blank [simp]: "length (blank b i stop) = length b"
  by (induction b i stop rule: blank.induct) (simp add: blank.simps)

lemma nth_blank:
  assumes "0 \<le> i" "stop \<le> int (length b)" "k < length b"
  shows "blank b i stop ! k = (if i \<le> int k \<and> int k < stop then CHR '' '' else b ! k)"
  using assms
proof (induction b i stop rule: blank.induct)
  case (1 b i stop)
  show ?case
  proof (cases "i < stop")
    case True
    then have "blank b i stop ! k = blank (b[nat i := CHR '' '']) (i + 1) stop ! k"
      by (subst blank.simps) simp
    also have "\<dots> = (if i + 1 \<le> int k \<and> int k < stop then CHR '' '' else b[nat i := CHR '' ''] ! k)"
      using 1(1)[OF True] 1(2-4) by simp
    finally show ?thesis
      using True 1(2-4) by (auto simp: nth_list_update)
  next
    case False
    then show ?thesis by (subst blank.simps) auto
  qed
qed

lemma length_blank_spans [simp]: "length (blank_spans b ss) = length b"
  by (induction b ss rule: blank_spans.induct) (simp_all add: Let_def)

lemma length_build [simp]: "length (build original spans) = length original"
  by (simp add: build_def)

definition covers :: "entity \<Rightarrow> nat \<Rightarrow> bool" where
  "covers s k \<longleftrightarrow> ent_start s \<le> int k \<and> int k < ent_end s"

lemma nth_blank_spans:
  assumes "k < length b"
  shows "blank_spans b ss ! k =
    (if \<exists>s \<in> set ss. covers s k then CHR '' '' else b ! k)"
  using assms
proof (induction b ss rule: blank_spans.induct)
  case (1 b)
  then show ?case by simp
next
  case (2 b s ss)
  define start where "start = (if ent_start s < 0 then 0 else ent_start s)"
  define stop where "stop = (if ent_end s > int (length b) then int (length b) else ent_end s)"
  have hit: "start \<le> int k \<and> int k < stop \<longleftrightarrow> covers s k"
    using 2(3) by (auto simp: start_def stop_def covers_def)
  show ?case
  proof (cases "start \<ge> stop")
    case True
    then have "\<not> covers s k"
      unfolding hit[symmetric] by simp
    then show ?thesis
      using 2(1)[OF start_def stop_def True 2(3)] True
      by (simp add: start_def[symmetric] stop_def[symmetric] Let_def)
  next
    case False
    have "blank b start stop ! k = (if covers s k then CHR '' '' else b ! k)"
      using 2(3) unfolding hit[symmetric] by (intro nth_blank) (auto simp: start_def stop_def)
    then show ?thesis
      using 2(2)[OF start_def stop_def False] 2(3) False
      by (simp add: start_def[symmetric] stop_def[symmetric] Let_def)
  qed
qed

lemma nth_build:
  "k < length original \<Longrightarrow> build original spans ! k =
    (if \<exists>s \<in> set spans. covers s k then CHR '' '' else original ! k)"
  by (simp add: build_def nth_blank_spans)

section \<open>UTF-8\<close>

text \<open>A position where no rune is in progress.\<close>

definition rune_start :: "string \<Rightarrow> int \<Rightarrow> bool" where
  "rune_start s i \<longleftrightarrow> 0 \<le> i \<and> i \<le> int (length s) \<and> (i < int (length s) \<longrightarrow> \<not> cont_byte (byte (s ! nat i)))"

lemma valid_cut:
  assumes "valid_string s" "rune_start s i"
  shows "valid_string (take (nat i) s)" "valid_string (drop (nat i) s)"
proof -
  have "valid_string (take (nat i) s) \<and> valid_string (drop (nat i) s)"
  proof (cases "i < int (length s)")
    case True
    then have i: "nat i < length s" "\<not> cont_byte (byte (s ! nat i))"
      using assms(2) by (auto simp: rune_start_def)
    then have "s = take (nat i) s @ s ! nat i # drop (Suc (nat i)) s"
      by (simp add: id_take_nth_drop)
    moreover have "drop (nat i) s = s ! nat i # drop (Suc (nat i)) s"
      using i(1) by (simp add: Cons_nth_drop_Suc)
    ultimately show ?thesis
      using valid_string_split[of "take (nat i) s" "s ! nat i" "drop (Suc (nat i)) s"] assms(1) i(2) by simp
  next
    case False
    then have "take (nat i) s = s" "drop (nat i) s = []"
      using assms(2) by (auto simp: rune_start_def)
    then show ?thesis using assms(1) by simp
  qed
  then show "valid_string (take (nat i) s)" "valid_string (drop (nat i) s)" by simp_all
qed

lemma valid_spaces: "valid_string (replicate n CHR '' '')"
proof -
  have "byte (CHR '' '') = 32"
    by (simp add: byte_def)
  then have "char_of (32 :: nat) = CHR '' ''"
    using char_of_byte[of "CHR '' ''"] by simp
  then have "encode_rune 32 = [CHR '' '']"
    by (simp add: encode_rune_def valid_rune_def encode_valid_def)
  then have "replicate n CHR '' '' = encode_all (replicate n 32)"
    by (induction n) (simp_all add: encode_all_def)
  moreover have "list_all valid_rune (replicate n 32)"
    by (simp add: list_all_iff valid_rune_def)
  ultimately show ?thesis
    using valid_encode_all by metis
qed

lemma blank_eq:
  assumes "0 \<le> i" "i \<le> stop" "stop \<le> int (length b)"
  shows "blank b i stop = take (nat i) b @ replicate (nat (stop - i)) CHR '' '' @ drop (nat stop) b"
proof (rule nth_equalityI)
  show "length (blank b i stop) = length (take (nat i) b @ replicate (nat (stop - i)) CHR '' '' @ drop (nat stop) b)"
    using assms by (simp add: min_def) linarith
  fix k assume "k < length (blank b i stop)"
  then have k: "k < length b" by simp
  show "blank b i stop ! k = (take (nat i) b @ replicate (nat (stop - i)) CHR '' '' @ drop (nat stop) b) ! k"
    using assms k by (auto simp: nth_blank nth_append min_def not_less) (simp_all add: nat_diff_distrib)
qed

lemma valid_blank:
  assumes "valid_string b" "rune_start b i" "rune_start b stop" "i \<le> stop"
  shows "valid_string (blank b i stop)"
  using valid_cut(1)[OF assms(1,2)] valid_cut(2)[OF assms(1,3)] valid_spaces assms
  by (simp add: blank_eq rune_start_def valid_string_append)

lemma rune_start_blank:
  assumes "rune_start b p" "0 \<le> i" "stop \<le> int (length b)"
  shows "rune_start (blank b i stop) p"
proof (cases "p < int (length b)")
  case True
  then have "nat p < length b" "0 \<le> p" using assms(1) by (auto simp: rune_start_def)
  moreover have "\<not> cont_byte (byte (CHR '' ''))"
    by (simp add: cont_byte_def byte_def)
  ultimately show ?thesis
    using assms True nth_blank[OF assms(2,3), of "nat p"] by (auto simp: rune_start_def)
next
  case False
  then show ?thesis using assms(1) by (simp add: rune_start_def)
qed

lemma valid_blank_spans:
  assumes "valid_string b" "\<forall>s \<in> set ss. rune_start b (ent_start s) \<and> rune_start b (ent_end s)"
  shows "valid_string (blank_spans b ss)"
  using assms
proof (induction ss arbitrary: b)
  case Nil
  then show ?case by simp
next
  case (Cons s ss)
  have s: "rune_start b (ent_start s)" "rune_start b (ent_end s)"
    using Cons.prems(2) by simp_all
  then have range: "0 \<le> ent_start s" "ent_end s \<le> int (length b)"
    by (simp_all add: rune_start_def)
  show ?case
  proof (cases "ent_start s \<ge> ent_end s")
    case True
    then show ?thesis using Cons range by simp
  next
    case False
    have "valid_string (blank b (ent_start s) (ent_end s))"
      using valid_blank[OF Cons.prems(1) s] False by simp
    moreover have "\<forall>s' \<in> set ss. rune_start (blank b (ent_start s) (ent_end s)) (ent_start s')
        \<and> rune_start (blank b (ent_start s) (ent_end s)) (ent_end s')"
      using Cons.prems(2) rune_start_blank range by simp
    ultimately show ?thesis
      using Cons.IH False range by simp
  qed
qed

text \<open>The ends of a valid span of a valid text are rune starts.\<close>

lemma rune_start_valid_drop:
  assumes "0 \<le> i" "i \<le> int (length s)" "valid_string (drop (nat i) s)"
  shows "rune_start s i"
proof (cases "i < int (length s)")
  case True
  then have "drop (nat i) s \<noteq> []" "hd (drop (nat i) s) = s ! nat i"
    using assms(1) by (simp_all add: hd_drop_conv_nth)
  then have "\<not> cont_byte (byte (s ! nat i))"
    using valid_string_hd[OF assms(3)] by simp
  then show ?thesis using assms by (simp add: rune_start_def)
qed (use assms in \<open>simp add: rune_start_def\<close>)

lemma span_rune_start:
  assumes "valid_string text" "span_ok text s e"
  shows "rune_start text s" "rune_start text e"
proof -
  have range: "0 \<le> s" "s < e" "e \<le> int (length text)" "valid_string (slice text s e)"
    using assms(2) by (simp_all add: span_ok_def)
  have ne: "slice text s e \<noteq> []"
    using slice_nonempty[of "text" s e] range by (simp add: slice_ok_def)
  have "hd (slice text s e) = text ! nat s"
    using range unfolding slice_def by (simp add: hd_take hd_drop_conv_nth)
  then show start: "rune_start text s"
    using valid_string_hd[OF range(4) ne] range by (simp add: rune_start_def)
  have "drop (nat s) text = slice text s e @ drop (nat e) text"
    using range unfolding slice_def
    by (metis append_take_drop_id drop_drop nat_0_le nat_diff_distrib le_add_diff_inverse2 less_imp_le nat_mono order_trans)
  then have "valid_string (drop (nat e) text)"
    using valid_cut(2)[OF assms(1) start] valid_string_append[OF range(4)] by simp
  then show "rune_start text e"
    using range by (intro rune_start_valid_drop) simp_all
qed

lemma valid_build:
  assumes "valid_string text" "\<forall>s \<in> set spans. span_ok text (ent_start s) (ent_end s)"
  shows "valid_string (build text spans)"
proof -
  have "\<forall>s \<in> set spans. rune_start text (ent_start s) \<and> rune_start text (ent_end s)"
    using assms(2) span_rune_start[OF assms(1)] by blast
  from valid_blank_spans[OF assms(1) this] show ?thesis
    using assms(1) by (simp add: build_def)
qed

end
