(* ===== verification/World.thy ===== *)
theory World
  imports Pii
begin

text \<open>
  The world a request runs in: its context, the clock (the readings \<open>time.Now\<close> will give, the
  next one first) and the shared store.  \<open>on_ctx\<close> and \<open>on_store\<close> lift computations on a part
  to the whole.
\<close>

record 's world =
  w_ctx :: ctx
  w_clock :: "nat \<Rightarrow> int"
  w_store :: 's

definition on_ctx :: "(ctx, 'a) sm \<Rightarrow> ('s world, 'a) sm" where
  "on_ctx m = (\<lambda>w. case m (w_ctx w) of (r, c) \<Rightarrow> (r, w\<lparr>w_ctx := c\<rparr>))"

definition on_store :: "('s, 'a) sm \<Rightarrow> ('s world, 'a) sm" where
  "on_store m = (\<lambda>w. case m (w_store w) of (r, s) \<Rightarrow> (r, w\<lparr>w_store := s\<rparr>))"

definition later :: "(nat \<Rightarrow> int) \<Rightarrow> nat \<Rightarrow> int" where
  "later c = (\<lambda>n. c (Suc n))"

definition time_now :: "('s world, int) sm" where
  "time_now = (\<lambda>w. (Inr (w_clock w 0), w\<lparr>w_clock := later (w_clock w)\<rparr>))"

text \<open>A context that is done answers every poll with its error.\<close>

definition is_done :: "ctx \<Rightarrow> bool" where
  "is_done c \<longleftrightarrow> live c = Some 0"

lemma poll_live: "live c = None \<Longrightarrow> poll c = (Inr (), c)"
  by (simp add: poll_def)

lemma poll_done: "is_done c \<Longrightarrow> poll c = (Inl (cause c), c)"
  by (simp add: poll_def is_done_def)

lemma poll_Inl: "poll c = (Inl e, c') \<Longrightarrow> is_done c' \<and> e = cause c' \<and> c' = c"
  by (auto simp: poll_def is_done_def split: option.splits nat.splits)

lemma on_ctx_apply: "m (w_ctx w) = (r, c) \<Longrightarrow> on_ctx m w = (r, w\<lparr>w_ctx := c\<rparr>)"
  by (simp add: on_ctx_def)

lemma on_ctx_polls:
  assumes "polls m" "live (w_ctx w) = None"
  shows "on_ctx m w = (val m, w)"
  using polls_live[OF assms] by (simp add: on_ctx_def)

lemma on_ctx_poll_live [sm_apply]: "live (w_ctx w) = None \<Longrightarrow> on_ctx poll w = (Inr (), w)"
  by (simp add: on_ctx_def poll_live)

lemma on_ctx_poll_done [sm_apply]: "is_done (w_ctx w) \<Longrightarrow> on_ctx poll w = (Inl (cause (w_ctx w)), w)"
  by (simp add: on_ctx_def poll_done)

lemma mbind_live_poll:
  "live (w_ctx w) = None \<Longrightarrow> mbind (on_ctx poll) f w = f () w"
  by (rule mbind_apply_Inr) (rule on_ctx_poll_live)

lemma mbind_done_poll:
  "is_done (w_ctx w) \<Longrightarrow> mbind (on_ctx poll) f w = (Inl (cause (w_ctx w)), w)"
  by (rule mbind_apply_Inl) (rule on_ctx_poll_done)

lemma mbind_time_now: "mbind time_now f w = f (w_clock w 0) (w\<lparr>w_clock := later (w_clock w)\<rparr>)"
  by (simp add: mbind_def time_now_def)

lemma mono_later: "mono c \<Longrightarrow> mono (later c)"
  by (simp add: mono_def later_def)

lemma later_ge: "mono c \<Longrightarrow> c 0 \<le> later c n"
  by (simp add: mono_def later_def)

end
