(* ===== verification/Store.thy ===== *)
theory Store
  imports World "HOL-Library.AList"
begin

text \<open>
  \<open>internal/store\<close>: the interface \<open>Store\<close> as the locale \<open>session_store\<close>, and \<open>memoryStore\<close>.  The
  Go map is an association list without duplicate keys.  The mutex makes every operation
  atomic; copies (\<open>cloneSession\<close>) are values.  A nil session pointer is \<open>None\<close>; the zero time of
  \<open>nextPurge\<close> is \<open>None\<close>, which lies before every reading of the clock.
\<close>

section \<open>The operations\<close>

record memory_store =
  max_sessions :: int
  sessions :: "(string \<times> session) list"
  next_purge :: "int option"

definition new_memory_store :: "int \<Rightarrow> memory_store" where
  "new_memory_store n = \<lparr>max_sessions = n, sessions = [], next_purge = None\<rparr>"

definition is_expired :: "session \<Rightarrow> int \<Rightarrow> bool" where
  "is_expired s now = (case expires_at s of None \<Rightarrow> False | Some e \<Rightarrow> \<not> now < e)"

definition second :: int where
  "second = 1000000000"

definition purge_expired :: "int \<Rightarrow> memory_store \<Rightarrow> memory_store" where
  "purge_expired now st = st\<lparr>sessions := filter (\<lambda>(i, s). \<not> is_expired s now) (sessions st)\<rparr>"

definition drop_session :: "string \<Rightarrow> memory_store \<Rightarrow> memory_store" where
  "drop_session pid st = st\<lparr>sessions := AList.delete pid (sessions st)\<rparr>"

definition save_session :: "session \<Rightarrow> memory_store \<Rightarrow> memory_store" where
  "save_session s st = st\<lparr>sessions := AList.update (payload_id s) s (sessions st)\<rparr>"

definition get_at :: "int \<Rightarrow> string \<Rightarrow> (memory_store, session) sm" where
  "get_at now pid = (\<lambda>st.
     case map_of (sessions st) pid of
       None \<Rightarrow> (Inl ErrSessionNotFound, st)
     | Some s \<Rightarrow>
         if is_expired s now then (Inl ErrSessionNotFound, drop_session pid st)
         else (Inr s, st))"

text \<open>The part of \<open>PutIfAbsent\<close> after the check for an existing session.\<close>

definition insert_at :: "int \<Rightarrow> session \<Rightarrow> (memory_store, bool) sm" where
  "insert_at now s = (\<lambda>st.
     let st = (if (case next_purge st of None \<Rightarrow> True | Some t \<Rightarrow> \<not> now < t)
                  \<or> int (length (sessions st)) \<ge> max_sessions st
               then (purge_expired now st)\<lparr>next_purge := Some (now + second)\<rparr>
               else st)
     in if int (length (sessions st)) \<ge> max_sessions st then (Inl ErrStoreUnavailable, st)
        else (Inr True, save_session s st))"

definition put_at :: "int \<Rightarrow> session \<Rightarrow> (memory_store, bool) sm" where
  "put_at now s = (\<lambda>st.
     case map_of (sessions st) (payload_id s) of
       Some existing \<Rightarrow>
         if \<not> is_expired existing now then (Inr False, st)
         else insert_at now s (drop_session (payload_id s) st)
     | None \<Rightarrow> insert_at now s st)"

definition update_at :: "int \<Rightarrow> session \<Rightarrow> (memory_store, unit) sm" where
  "update_at now s = (\<lambda>st.
     case map_of (sessions st) (payload_id s) of
       None \<Rightarrow> (Inl ErrSessionNotFound, st)
     | Some existing \<Rightarrow>
         if is_expired existing now then (Inl ErrSessionNotFound, drop_session (payload_id s) st)
         else (Inr (), save_session s st))"

definition mem_get :: "string \<Rightarrow> (memory_store world, session) sm" where
  "mem_get pid = mbind (on_ctx poll) (\<lambda>_. mbind time_now (\<lambda>now. on_store (get_at now pid)))"

definition mem_put_if_absent :: "session option \<Rightarrow> (memory_store world, bool) sm" where
  "mem_put_if_absent ptr =
     mbind (on_ctx poll) (\<lambda>_.
       (case ptr of
          None \<Rightarrow> throw ErrStoreUnavailable
        | Some s \<Rightarrow> mbind time_now (\<lambda>now. on_store (put_at now s))))"

definition mem_update :: "session option \<Rightarrow> (memory_store world, unit) sm" where
  "mem_update ptr =
     mbind (on_ctx poll) (\<lambda>_.
       (case ptr of
          None \<Rightarrow> throw ErrStoreUnavailable
        | Some s \<Rightarrow> mbind time_now (\<lambda>now. on_store (update_at now s))))"

definition mem_delete :: "string \<Rightarrow> (memory_store world, unit) sm" where
  "mem_delete pid =
     mbind (on_ctx poll) (\<lambda>_. on_store (\<lambda>st. (Inr (), drop_session pid st)))"

section \<open>The contract\<close>

text \<open>What a client sees of a store at time \<open>t\<close>: the sessions that have not expired.  Every
  operation either answers the error of a context that is done and changes nothing, or
  reads the clock once and acts on this view.\<close>

definition tick :: "'s world \<Rightarrow> 's \<Rightarrow> 's world" where
  "tick w st = w\<lparr>w_clock := later (w_clock w), w_store := st\<rparr>"

lemma tick_simps [simp]:
  "w_ctx (tick w st) = w_ctx w" "w_clock (tick w st) = later (w_clock w)" "w_store (tick w st) = st"
  by (simp_all add: tick_def)

definition lookup_result :: "session option \<Rightarrow> session res" where
  "lookup_result v = (case v of None \<Rightarrow> Inl ErrSessionNotFound | Some s \<Rightarrow> Inr s)"

definition stored :: "session \<Rightarrow> int \<Rightarrow> session option" where
  "stored s t = (if is_expired s t then None else Some s)"

locale session_store =
  fixes get :: "string \<Rightarrow> ('s world, session) sm"
    and put :: "session option \<Rightarrow> ('s world, bool) sm"
    and upd :: "session option \<Rightarrow> ('s world, unit) sm"
    and view :: "int \<Rightarrow> 's \<Rightarrow> string \<Rightarrow> session option"
    and inv :: "'s \<Rightarrow> bool"
  assumes get_done: "is_done (w_ctx w) \<Longrightarrow> get pid w = (Inl (cause (w_ctx w)), w)"
    and put_done: "is_done (w_ctx w) \<Longrightarrow> put p w = (Inl (cause (w_ctx w)), w)"
    and upd_done: "is_done (w_ctx w) \<Longrightarrow> upd p w = (Inl (cause (w_ctx w)), w)"
    and get_live: "live (w_ctx w) = None \<Longrightarrow> inv (w_store w) \<Longrightarrow>
      \<exists>st. get pid w = (lookup_result (view (w_clock w 0) (w_store w) pid), tick w st) \<and> inv st
        \<and> (\<forall>t \<ge> w_clock w 0. view t st = view t (w_store w))"
    and put_live: "live (w_ctx w) = None \<Longrightarrow> inv (w_store w) \<Longrightarrow>
      \<exists>r st. put (Some s) w = (r, tick w st) \<and> inv st
        \<and> (r = Inr True \<or> r = Inr False \<or> r = Inl ErrStoreUnavailable)
        \<and> (r = Inr False \<longleftrightarrow> view (w_clock w 0) (w_store w) (payload_id s) \<noteq> None)
        \<and> (\<forall>t \<ge> w_clock w 0. view t st =
             (if r = Inr True then (view t (w_store w))(payload_id s := stored s t) else view t (w_store w)))"
    and upd_live: "live (w_ctx w) = None \<Longrightarrow> inv (w_store w) \<Longrightarrow>
      \<exists>r st. upd (Some s) w = (r, tick w st) \<and> inv st
        \<and> (if view (w_clock w 0) (w_store w) (payload_id s) = None
           then r = Inl ErrSessionNotFound \<and> (\<forall>t \<ge> w_clock w 0. view t st = view t (w_store w))
           else r = Inr ()
             \<and> (\<forall>t \<ge> w_clock w 0. view t st = (view t (w_store w))(payload_id s := stored s t)))"
    and view_none: "t \<le> u \<Longrightarrow> view t st pid = None \<Longrightarrow> view u st pid = None"
begin

text \<open>A session that was put is found, unchanged, until it expires.\<close>

lemma get_after_put:
  assumes "live (w_ctx w) = None" "inv (w_store w)" "mono (w_clock w)"
    and "put (Some s) w = (Inr True, w')" "\<not> is_expired s (w_clock w' 0)"
  shows "fst (get (payload_id s) w') = Inr s"
proof -
  obtain st where st: "w' = tick w st" "inv st"
    "\<forall>t \<ge> w_clock w 0. view t st = (view t (w_store w))(payload_id s := stored s t)"
    using put_live[OF assms(1,2), of s] assms(4) by auto
  have "view (w_clock w' 0) (w_store w') (payload_id s) = Some s"
    using st later_ge[OF assms(3), of 0] assms(5) by (simp add: stored_def)
  then show ?thesis
    using get_live[of w' "payload_id s"] st assms(1) by (auto simp: lookup_result_def)
qed

text \<open>Of two attempts to put a session under one identifier the second one fails.\<close>

lemma put_once:
  assumes "live (w_ctx w) = None" "inv (w_store w)" "mono (w_clock w)"
    and "put (Some s) w = (Inr True, w')" "\<not> is_expired s (w_clock w' 0)"
    and "payload_id s' = payload_id s"
  shows "fst (put (Some s') w') = Inr False"
proof -
  obtain st where st: "w' = tick w st" "inv st"
    "\<forall>t \<ge> w_clock w 0. view t st = (view t (w_store w))(payload_id s := stored s t)"
    using put_live[OF assms(1,2), of s] assms(4) by auto
  have "view (w_clock w' 0) (w_store w') (payload_id s') \<noteq> None"
    using st later_ge[OF assms(3), of 0] assms(5,6) by (simp add: stored_def)
  then show ?thesis
    using put_live[of w' s'] st assms(1) by auto
qed

end

section \<open>The memory store keeps the contract\<close>

definition view_at :: "int \<Rightarrow> memory_store \<Rightarrow> string \<Rightarrow> session option" where
  "view_at t st pid =
     (case map_of (sessions st) pid of None \<Rightarrow> None | Some s \<Rightarrow> stored s t)"

definition store_inv :: "memory_store \<Rightarrow> bool" where
  "store_inv st \<longleftrightarrow> distinct (map fst (sessions st))
     \<and> (\<forall>(i, s) \<in> set (sessions st). payload_id s = i)
     \<and> int (length (sessions st)) \<le> max 0 (max_sessions st)"

lemma is_expired_mono: "is_expired s t \<Longrightarrow> t \<le> u \<Longrightarrow> is_expired s u"
  by (auto simp: is_expired_def split: option.splits)

lemma store_inv_new: "store_inv (new_memory_store n)"
  by (simp add: store_inv_def new_memory_store_def)

lemma view_new: "view_at t (new_memory_store n) = Map.empty"
  by (simp add: view_at_def new_memory_store_def fun_eq_iff)

lemma view_drop: "view_at t (drop_session pid st) = (view_at t st)(pid := None)"
  by (auto simp: view_at_def drop_session_def AList.delete_conv' fun_eq_iff)

lemma view_save: "view_at t (save_session s st) = (view_at t st)(payload_id s := stored s t)"
  by (auto simp: view_at_def save_session_def AList.update_conv' fun_eq_iff)

lemma map_of_filter_value:
  assumes "distinct (map fst xs)"
  shows "map_of (filter (\<lambda>(k, v). P v) xs) k =
    (case map_of xs k of None \<Rightarrow> None | Some v \<Rightarrow> if P v then Some v else None)"
  using assms
proof (induction xs)
  case Nil
  then show ?case by simp
next
  case (Cons x xs)
  obtain k' v where x: "x = (k', v)" by (cases x)
  have "map_of xs k' = None"
    using Cons.prems by (simp add: x map_of_eq_None_iff)
  then show ?case
    using Cons by (auto simp: x split: option.split)
qed

lemma view_purge:
  assumes "store_inv st" "now \<le> t"
  shows "view_at t (purge_expired now st) = view_at t st"
proof
  fix pid
  have "distinct (map fst (sessions st))" using assms(1) by (simp add: store_inv_def)
  then show "view_at t (purge_expired now st) pid = view_at t st pid"
    using is_expired_mono[OF _ assms(2)]
    by (auto simp: view_at_def purge_expired_def map_of_filter_value stored_def split: option.split)
qed

lemma store_inv_part:
  assumes "store_inv st" "distinct (map fst xs)" "set xs \<subseteq> set (sessions st)" "length xs \<le> length (sessions st)"
  shows "store_inv (st\<lparr>sessions := xs\<rparr>)"
proof -
  have "int (length xs) \<le> max 0 (max_sessions st)"
    using assms(1,4) unfolding store_inv_def by linarith
  then show ?thesis
    using assms unfolding store_inv_def by auto
qed

lemma store_inv_purge:
  assumes "store_inv st"
  shows "store_inv (purge_expired now st)"
  unfolding purge_expired_def
  by (rule store_inv_part[OF assms]) (use assms in \<open>simp_all add: store_inv_def distinct_map_filter\<close>)

lemma store_inv_next_purge [simp]: "store_inv (st\<lparr>next_purge := x\<rparr>) = store_inv st"
  by (simp add: store_inv_def)

lemma view_next_purge [simp]: "view_at t (st\<lparr>next_purge := x\<rparr>) = view_at t st"
  by (simp add: view_at_def fun_eq_iff)

lemma max_drop [simp]: "max_sessions (drop_session pid st) = max_sessions st"
  by (simp add: drop_session_def)

lemma store_inv_drop:
  assumes "store_inv st"
  shows "store_inv (drop_session pid st)"
  unfolding drop_session_def
  by (rule store_inv_part[OF assms])
    (use assms AList.distinct_delete in \<open>auto simp: store_inv_def AList.delete_eq\<close>)

lemma length_update_new: "k \<notin> fst ` set al \<Longrightarrow> length (AList.update k v al) = Suc (length al)"
  by (induction al) auto

lemma length_update_old: "k \<in> fst ` set al \<Longrightarrow> length (AList.update k v al) = length al"
  by (induction al) auto

lemma set_update_subset: "set (AList.update k v al) \<subseteq> insert (k, v) (set al)"
  by (induction al) auto

lemma store_inv_save:
  assumes "store_inv st"
    and "payload_id s \<in> fst ` set (sessions st) \<or> int (length (sessions st)) < max_sessions st"
  shows "store_inv (save_session s st)"
proof -
  let ?xs = "AList.update (payload_id s) s (sessions st)"
  have "distinct (map fst ?xs)"
    using assms(1) AList.distinct_update by (auto simp: store_inv_def)
  moreover have "\<forall>(i, x) \<in> set ?xs. payload_id x = i"
    using assms(1) set_update_subset[of "payload_id s" s "sessions st"] unfolding store_inv_def by auto
  moreover have "int (length ?xs) \<le> max 0 (max_sessions st)"
  proof (cases "payload_id s \<in> fst ` set (sessions st)")
    case True
    then show ?thesis using assms(1) by (simp add: store_inv_def length_update_old)
  next
    case False
    then show ?thesis using assms(2) by (simp add: length_update_new)
  qed
  ultimately show ?thesis
    by (simp add: store_inv_def save_session_def)
qed

text \<open>Insertion refuses a session only when the sessions that have not expired fill the store:
  the sweep put off to at most once a second never costs a slot.\<close>

definition live_count :: "int \<Rightarrow> memory_store \<Rightarrow> nat" where
  "live_count now st = length (filter (\<lambda>(i, s). \<not> is_expired s now) (sessions st))"

lemma live_count_le: "live_count now st \<le> length (sessions st)"
  by (simp add: live_count_def)

lemma insert_at_spec:
  assumes "store_inv st" "map_of (sessions st) (payload_id s) = None"
  shows "\<exists>st'. insert_at now s st =
      (if int (live_count now st) < max_sessions st then Inr True else Inl ErrStoreUnavailable, st')
    \<and> store_inv st'
    \<and> (\<forall>t \<ge> now. view_at t st' =
        (if int (live_count now st) < max_sessions st then (view_at t st)(payload_id s := stored s t)
         else view_at t st))"
proof -
  let ?sweep = "(case next_purge st of None \<Rightarrow> True | Some t \<Rightarrow> \<not> now < t)
                  \<or> int (length (sessions st)) \<ge> max_sessions st"
  define st1 where "st1 = (if ?sweep then (purge_expired now st)\<lparr>next_purge := Some (now + second)\<rparr> else st)"
  have inv: "store_inv st1"
    using assms(1) by (simp add: st1_def store_inv_purge)
  have view: "\<forall>t \<ge> now. view_at t st1 = view_at t st"
    using view_purge[OF assms(1)] by (simp add: st1_def)
  have max: "max_sessions st1 = max_sessions st"
    by (simp add: st1_def purge_expired_def)
  have count: "int (length (sessions st1)) \<ge> max_sessions st \<longleftrightarrow> \<not> int (live_count now st) < max_sessions st"
  proof (cases ?sweep)
    case True
    then have "length (sessions st1) = live_count now st"
      by (simp add: st1_def purge_expired_def live_count_def)
    then show ?thesis by linarith
  next
    case False
    then have "\<not> int (length (sessions st1)) \<ge> max_sessions st"
      by (simp add: st1_def)
    moreover have "int (live_count now st) < max_sessions st"
      using False live_count_le[of now st] by linarith
    ultimately show ?thesis by simp
  qed
  have eq: "insert_at now s st = (if int (length (sessions st1)) \<ge> max_sessions st then (Inl ErrStoreUnavailable, st1)
      else (Inr True, save_session s st1))"
    unfolding insert_at_def Let_def st1_def[symmetric] max ..
  show ?thesis
  proof (cases "int (live_count now st) < max_sessions st")
    case True
    then have "store_inv (save_session s st1)"
      using store_inv_save[OF inv] count max by simp
    then show ?thesis
      using True view count by (intro exI[of _ "save_session s st1"]) (simp add: eq view_save)
  next
    case False
    then show ?thesis
      using inv view count by (intro exI[of _ st1]) (simp add: eq)
  qed
qed

lemma live_count_drop:
  assumes "store_inv st" "map_of (sessions st) pid = Some old" "is_expired old now"
  shows "live_count now (drop_session pid st) = live_count now st"
proof -
  have "is_expired s now" if "(pid, s) \<in> set (sessions st)" for s
    using assms that unfolding store_inv_def by (metis map_of_is_SomeI option.inject)
  then have "filter (\<lambda>(i, s). \<not> is_expired s now) (sessions st) =
      filter (\<lambda>x. (\<lambda>(k', _). pid \<noteq> k') x \<and> (\<lambda>(i, s). \<not> is_expired s now) x) (sessions st)"
    by (intro filter_cong) auto
  then show ?thesis
    by (simp add: live_count_def drop_session_def AList.delete_eq)
qed

lemma put_at_spec:
  assumes "store_inv st"
  shows "\<exists>r st'. put_at now s st = (r, st') \<and> store_inv st'
    \<and> r = (if view_at now st (payload_id s) \<noteq> None then Inr False
           else if int (live_count now st) < max_sessions st then Inr True else Inl ErrStoreUnavailable)
    \<and> (\<forall>t \<ge> now. view_at t st' =
        (if r = Inr True then (view_at t st)(payload_id s := stored s t) else view_at t st))"
proof (cases "map_of (sessions st) (payload_id s)")
  case None
  then show ?thesis
    using insert_at_spec[OF assms None, of now] by (auto simp: put_at_def view_at_def)
next
  case (Some old)
  show ?thesis
  proof (cases "is_expired old now")
    case False
    then show ?thesis
      using Some assms by (simp add: put_at_def view_at_def stored_def)
  next
    case True
    let ?st = "drop_session (payload_id s) st"
    have none: "map_of (sessions ?st) (payload_id s) = None"
      by (simp add: drop_session_def AList.delete_conv')
    have view: "\<forall>t \<ge> now. view_at t ?st = view_at t st"
      using Some is_expired_mono[OF True]
      by (auto simp: view_drop fun_eq_iff view_at_def stored_def)
    have count: "live_count now ?st = live_count now st"
      using live_count_drop[OF assms Some True] .
    show ?thesis
      using insert_at_spec[OF store_inv_drop[OF assms] none, of now] view Some True
      by (auto simp: put_at_def view_at_def stored_def count)
  qed
qed

lemma update_at_spec:
  assumes "store_inv st"
  shows "\<exists>r st'. update_at now s st = (r, st') \<and> store_inv st'
    \<and> (if view_at now st (payload_id s) = None
       then r = Inl ErrSessionNotFound \<and> (\<forall>t \<ge> now. view_at t st' = view_at t st)
       else r = Inr () \<and> (\<forall>t \<ge> now. view_at t st' = (view_at t st)(payload_id s := stored s t)))"
proof (cases "map_of (sessions st) (payload_id s)")
  case None
  then show ?thesis
    using assms by (simp add: update_at_def view_at_def)
next
  case (Some old)
  show ?thesis
  proof (cases "is_expired old now")
    case True
    have "\<forall>t \<ge> now. view_at t (drop_session (payload_id s) st) = view_at t st"
      using Some is_expired_mono[OF True]
      by (auto simp: view_drop fun_eq_iff view_at_def stored_def)
    then show ?thesis
      using Some True store_inv_drop[OF assms] by (simp add: update_at_def view_at_def stored_def)
  next
    case False
    have "payload_id s \<in> fst ` set (sessions st)"
      using map_of_SomeD[OF Some] by force
    then have "store_inv (save_session s st)"
      by (intro store_inv_save[OF assms]) simp
    then show ?thesis
      using Some False view_save by (simp add: update_at_def view_at_def stored_def)
  qed
qed

lemma get_at_spec:
  assumes "store_inv st"
  shows "\<exists>st'. get_at now pid st = (lookup_result (view_at now st pid), st') \<and> store_inv st'
    \<and> (\<forall>t \<ge> now. view_at t st' = view_at t st)"
proof (cases "map_of (sessions st) pid")
  case None
  then show ?thesis
    using assms by (simp add: get_at_def view_at_def lookup_result_def)
next
  case (Some s)
  show ?thesis
  proof (cases "is_expired s now")
    case True
    have "\<forall>t \<ge> now. view_at t (drop_session pid st) = view_at t st"
      using Some is_expired_mono[OF True] by (auto simp: view_drop fun_eq_iff view_at_def stored_def)
    then show ?thesis
      using Some True store_inv_drop[OF assms]
      by (simp add: get_at_def view_at_def stored_def lookup_result_def)
  next
    case False
    then show ?thesis
      using Some assms by (simp add: get_at_def view_at_def stored_def lookup_result_def)
  qed
qed

lemma on_store_tick:
  "m (w_store w) = (r, st) \<Longrightarrow>
     on_store m (w\<lparr>w_clock := later (w_clock w)\<rparr>) = (r, tick w st)"
  by (simp add: on_store_def tick_def)

interpretation mem: session_store mem_get mem_put_if_absent mem_update view_at store_inv
proof
  fix w :: "memory_store world" and pid p s
  show "is_done (w_ctx w) \<Longrightarrow> mem_get pid w = (Inl (cause (w_ctx w)), w)"
    by (simp add: mem_get_def mbind_done_poll)
  show "is_done (w_ctx w) \<Longrightarrow> mem_put_if_absent p w = (Inl (cause (w_ctx w)), w)"
    by (simp add: mem_put_if_absent_def mbind_done_poll)
  show "is_done (w_ctx w) \<Longrightarrow> mem_update p w = (Inl (cause (w_ctx w)), w)"
    by (simp add: mem_update_def mbind_done_poll)
  show "view_at u st pid = None" if "t \<le> u" "view_at t st pid = None" for t u st
    using that is_expired_mono[of _ t u] by (auto simp: view_at_def stored_def split: option.splits if_splits)
  assume live: "live (w_ctx w) = None" and inv: "store_inv (w_store w)"
  obtain st where "get_at (w_clock w 0) pid (w_store w) = (lookup_result (view_at (w_clock w 0) (w_store w) pid), st)"
    "store_inv st" "\<forall>t \<ge> w_clock w 0. view_at t st = view_at t (w_store w)"
    using get_at_spec[OF inv] by blast
  then show "\<exists>st. mem_get pid w = (lookup_result (view_at (w_clock w 0) (w_store w) pid), tick w st) \<and> store_inv st
        \<and> (\<forall>t \<ge> w_clock w 0. view_at t st = view_at t (w_store w))"
    by (intro exI[of _ st]) (simp add: mem_get_def mbind_live_poll[OF live] mbind_time_now on_store_tick)
  obtain r st where "put_at (w_clock w 0) s (w_store w) = (r, st)" "store_inv st"
    "r = (if view_at (w_clock w 0) (w_store w) (payload_id s) \<noteq> None then Inr False
           else if int (live_count (w_clock w 0) (w_store w)) < max_sessions (w_store w) then Inr True
           else Inl ErrStoreUnavailable)"
    "\<forall>t \<ge> w_clock w 0. view_at t st =
        (if r = Inr True then (view_at t (w_store w))(payload_id s := stored s t) else view_at t (w_store w))"
    using put_at_spec[OF inv] by blast
  then show "\<exists>r st. mem_put_if_absent (Some s) w = (r, tick w st) \<and> store_inv st
        \<and> (r = Inr True \<or> r = Inr False \<or> r = Inl ErrStoreUnavailable)
        \<and> (r = Inr False \<longleftrightarrow> view_at (w_clock w 0) (w_store w) (payload_id s) \<noteq> None)
        \<and> (\<forall>t \<ge> w_clock w 0. view_at t st =
             (if r = Inr True then (view_at t (w_store w))(payload_id s := stored s t) else view_at t (w_store w)))"
    by (intro exI[of _ r] exI[of _ st])
      (simp add: mem_put_if_absent_def mbind_live_poll[OF live] mbind_time_now on_store_tick)
  obtain r st where "update_at (w_clock w 0) s (w_store w) = (r, st)" "store_inv st"
    "if view_at (w_clock w 0) (w_store w) (payload_id s) = None
     then r = Inl ErrSessionNotFound \<and> (\<forall>t \<ge> w_clock w 0. view_at t st = view_at t (w_store w))
     else r = Inr () \<and> (\<forall>t \<ge> w_clock w 0. view_at t st = (view_at t (w_store w))(payload_id s := stored s t))"
    using update_at_spec[OF inv] by blast
  then show "\<exists>r st. mem_update (Some s) w = (r, tick w st) \<and> store_inv st
        \<and> (if view_at (w_clock w 0) (w_store w) (payload_id s) = None
           then r = Inl ErrSessionNotFound \<and> (\<forall>t \<ge> w_clock w 0. view_at t st = view_at t (w_store w))
           else r = Inr ()
             \<and> (\<forall>t \<ge> w_clock w 0. view_at t st = (view_at t (w_store w))(payload_id s := stored s t)))"
    by (intro exI[of _ r] exI[of _ st])
      (simp add: mem_update_def mbind_live_poll[OF live] mbind_time_now on_store_tick)
qed

text \<open>The answer of an insertion, as a function of what a client sees and of the room left.\<close>

lemma mem_put_result:
  assumes "live (w_ctx w) = None" "store_inv (w_store w)"
  shows "fst (mem_put_if_absent (Some s) w) =
    (if view_at (w_clock w 0) (w_store w) (payload_id s) \<noteq> None then Inr False
     else if int (live_count (w_clock w 0) (w_store w)) < max_sessions (w_store w) then Inr True
     else Inl ErrStoreUnavailable)"
proof -
  obtain r st where "put_at (w_clock w 0) s (w_store w) = (r, st)"
    "r = (if view_at (w_clock w 0) (w_store w) (payload_id s) \<noteq> None then Inr False
          else if int (live_count (w_clock w 0) (w_store w)) < max_sessions (w_store w) then Inr True
          else Inl ErrStoreUnavailable)"
    using put_at_spec[OF assms(2)] by blast
  then show ?thesis
    by (simp add: mem_put_if_absent_def mbind_live_poll[OF assms(1)] mbind_time_now on_store_tick)
qed

end
