(* ===== verification/PolicyProvider.thy ===== *)
theory PolicyProvider
  imports World
begin

text \<open>
  \<open>internal/policy/provider.go\<close>: the policies of the consumers are fixed at start; copies are
  values.  An unknown consumer is rejected.
\<close>

type_synonym policies = "string \<Rightarrow> policy option"

definition new_static_provider :: "policies \<Rightarrow> policies" where
  "new_static_provider ps = (\<lambda>cid. case ps cid of None \<Rightarrow> None | Some pol \<Rightarrow> Some pol)"

definition policy_get :: "policies \<Rightarrow> string \<Rightarrow> ('s world, policy) sm" where
  "policy_get ps cid =
     mbind (on_ctx poll) (\<lambda>_.
       (case ps cid of
          None \<Rightarrow> throw ErrPolicyRejected
        | Some pol \<Rightarrow> ret pol))"

lemma new_static_provider_id [simp]: "new_static_provider ps = ps"
  by (auto simp: new_static_provider_def fun_eq_iff split: option.split)

lemma policy_get_live:
  "live (w_ctx w) = None \<Longrightarrow>
     policy_get ps cid w = (case ps cid of None \<Rightarrow> Inl ErrPolicyRejected | Some pol \<Rightarrow> Inr pol, w)"
  by (simp add: policy_get_def mbind_live_poll ret_apply throw_apply split: option.split)

end
