(* ===== verification/Processor.thy ===== *)
theory Processor
  imports Apply Store PolicyProvider
begin

text \<open>
  \<open>internal/processor/processor.go\<close>: one request is, by the state of the session of its payload
  identifier, the masking of a new text, the repetition of a masking, or a detokenization.
  The store's operations, the masker, the hash (\<open>sha256.Sum256\<close>) and the time to live are
  arguments, as the fields of the Go struct are.  A panic of the masker runs no further code
  of the handler.
\<close>

record process_request =
  payload :: string
  req_payload_id :: string
  consumer_id :: string
  req_mask_kinds :: "string list"
  req_mask_kinds_set :: bool

section \<open>Mask kinds\<close>

fun mask_kinds_loop :: "policy \<Rightarrow> (pii_kind \<Rightarrow> bool) \<Rightarrow> string list \<Rightarrow> (pii_kind \<Rightarrow> bool) res" where
  "mask_kinds_loop pol allowed [] = Inr allowed"
| "mask_kinds_loop pol allowed (k # ks) =
     (case kind_of_string k of
        None \<Rightarrow> Inl ErrInvalidMaskKind
      | Some kind \<Rightarrow>
          if \<not> allowed_kinds pol kind then Inl ErrPolicyRejected
          else mask_kinds_loop pol (allowed(kind := True)) ks)"

definition apply_mask_kinds :: "policy \<Rightarrow> string list \<Rightarrow> policy res" where
  "apply_mask_kinds pol kinds =
     rbind (mask_kinds_loop pol (\<lambda>_. False) kinds) (\<lambda>allowed. Inr (pol\<lparr>allowed_kinds := allowed\<rparr>))"

fun canonical_loop :: "(string \<Rightarrow> bool) \<Rightarrow> string list \<Rightarrow> string list \<Rightarrow> string list" where
  "canonical_loop seen uniq [] = uniq"
| "canonical_loop seen uniq (k # ks) =
     (if seen k then canonical_loop seen uniq ks
      else canonical_loop (seen(k := True)) (uniq @ [k]) ks)"

definition canonical_mask_kinds :: "string list \<Rightarrow> string list" where
  "canonical_mask_kinds kinds = go_sort (<) (canonical_loop (\<lambda>_. False) [] kinds)"

definition mask_kinds_match :: "session \<Rightarrow> process_request \<Rightarrow> bool" where
  "mask_kinds_match s req =
     (if mask_kinds_set s \<noteq> req_mask_kinds_set req then False
      else if \<not> mask_kinds_set s then True
      else
        let cur = canonical_mask_kinds (req_mask_kinds req) in
        if length (mask_kinds s) \<noteq> length cur then False
        else list_all (\<lambda>i. mask_kinds s ! i = cur ! i) [0..<length cur])"

section \<open>An existing session\<close>

text \<open>The loop with \<open>break\<close> that looks for a known token.\<close>

fun known_token :: "string \<Rightarrow> token_mapping list \<Rightarrow> bool" where
  "known_token s [] = False"
| "known_token s (m # ms) = (if m_token m \<noteq> [] \<and> contains s (m_token m) then True else known_token s ms)"

definition handle_existing ::
  "(string \<Rightarrow> nat list) \<Rightarrow> process_request \<Rightarrow> session \<Rightarrow> policy \<Rightarrow> (ctx, string) sm" where
  "handle_existing hash req s pol =
     (case status s of
        PROCESSING \<Rightarrow> throw ErrProcessingInProgress
      | FAILED \<Rightarrow> throw ErrDetectorUnavailable
      | READY \<Rightarrow>
          if hash (payload req) = payload_hash s then
            (if \<not> mask_kinds_match s req then throw ErrPayloadIDConflict
             else mbind (apply_replacements (payload req) (map replacement_of (mappings s)))
               (\<lambda>(masked, _). ret masked))
          else
            (if known_token (payload req) (mappings s) \<and> \<not> detokenization_allowed pol
             then throw ErrDemaskingDisabled
             else mbind (detokenize (payload req) (mappings s)) (\<lambda>detokenized.
               if detokenized = payload req then throw ErrPayloadIDConflict
               else ret detokenized)))"

section \<open>A request\<close>

type_synonym masker = "string \<Rightarrow> policy \<Rightarrow> (ctx, string \<times> token_mapping list) sm"

definition new_session :: "(string \<Rightarrow> nat list) \<Rightarrow> int \<Rightarrow> process_request \<Rightarrow> int \<Rightarrow> session" where
  "new_session hash ttl req now =
     \<lparr>payload_id = req_payload_id req, payload_hash = hash (payload req), mappings = [],
      status = PROCESSING, created_at = now, expires_at = Some (now + ttl),
      mask_kinds_set = req_mask_kinds_set req,
      mask_kinds = canonical_mask_kinds (req_mask_kinds req)\<rparr>"

text \<open>\<open>store.Get\<close> with the error \<open>ErrSessionNotFound\<close> turned into the absence of a session.\<close>

definition find_session :: "(string \<Rightarrow> ('s world, session) sm) \<Rightarrow> string \<Rightarrow> ('s world, session option) sm" where
  "find_session get pid = (\<lambda>w.
     case get pid w of
       (Inr s, w') \<Rightarrow> (Inr (Some s), w')
     | (Inl e, w') \<Rightarrow> (if e = ErrSessionNotFound then Inr None else Inl e, w'))"

definition mask_new ::
  "(session option \<Rightarrow> ('s world, unit) sm) \<Rightarrow> masker \<Rightarrow> process_request \<Rightarrow> policy \<Rightarrow> session
    \<Rightarrow> ('s world, string) sm"
where
  "mask_new upd mask_fn req pol s = (\<lambda>w.
     case on_ctx (mask_fn (payload req) pol) w of
       (Inl e, w') \<Rightarrow>
         if e = Panic then (Inl e, w')
         else (case upd (Some (s\<lparr>status := FAILED\<rparr>)) w' of (_, w'') \<Rightarrow> (Inl e, w''))
     | (Inr (masked, ms), w') \<Rightarrow>
         mbind (upd (Some (s\<lparr>mappings := ms, status := READY\<rparr>))) (\<lambda>_. ret masked) w')"

definition process ::
  "(string \<Rightarrow> ('s world, session) sm) \<Rightarrow> (session option \<Rightarrow> ('s world, bool) sm)
    \<Rightarrow> (session option \<Rightarrow> ('s world, unit) sm) \<Rightarrow> policies \<Rightarrow> masker \<Rightarrow> (string \<Rightarrow> nat list) \<Rightarrow> int
    \<Rightarrow> process_request \<Rightarrow> ('s world, string) sm"
where
  "process get put upd policies mask_fn hash ttl req =
     mbind (on_ctx poll) (\<lambda>_.
     mbind (policy_get policies (consumer_id req)) (\<lambda>base.
     mbind (lift (if req_mask_kinds_set req then apply_mask_kinds base (req_mask_kinds req) else Inr base)) (\<lambda>pol.
     mbind (find_session get (req_payload_id req)) (\<lambda>found.
     case found of
       Some s \<Rightarrow> on_ctx (handle_existing hash req s pol)
     | None \<Rightarrow>
         mbind time_now (\<lambda>now.
         let s = new_session hash ttl req now in
         mbind (put (Some s)) (\<lambda>added.
         if \<not> added then throw ErrProcessingInProgress
         else mask_new upd mask_fn req pol s))))))"

section \<open>Properties of the mask kinds\<close>

lemma mask_kinds_loop_ok:
  assumes "\<forall>k \<in> set ks. \<exists>kind. k = kind_name kind \<and> allowed_kinds pol kind"
  shows "\<exists>allowed'. mask_kinds_loop pol allowed ks = Inr allowed'"
  using assms by (induction ks arbitrary: allowed) fastforce+

lemma mask_kinds_loop_Inr:
  assumes "mask_kinds_loop pol allowed ks = Inr allowed'"
  shows "allowed' = (\<lambda>kind. allowed kind \<or> kind_name kind \<in> set ks)"
    and "\<forall>k \<in> set ks. \<exists>kind. k = kind_name kind \<and> allowed_kinds pol kind"
  using assms
  by (induction ks arbitrary: allowed)
    (auto split: option.splits if_splits simp: kind_of_string_Some fun_eq_iff kind_name_inj)

lemma mask_kinds_loop_Inl:
  "mask_kinds_loop pol allowed ks = Inl e \<Longrightarrow> e = ErrInvalidMaskKind \<or> e = ErrPolicyRejected"
  by (induction ks arbitrary: allowed) (auto split: option.splits if_splits)

interpretation strings: strict_total "\<lambda>_. True" "(<) :: string \<Rightarrow> string \<Rightarrow> bool"
  by unfold_locales auto

lemma canonical_loop_spec:
  assumes "\<forall>k. seen k \<longleftrightarrow> k \<in> set uniq" "distinct uniq"
  shows "distinct (canonical_loop seen uniq ks) \<and> set (canonical_loop seen uniq ks) = set uniq \<union> set ks"
  using assms
proof (induction ks arbitrary: seen uniq)
  case Nil
  then show ?case by simp
next
  case (Cons k ks)
  show ?case
  proof (cases "seen k")
    case True
    then show ?thesis using Cons.IH[OF Cons.prems] Cons.prems(1) by auto
  next
    case False
    have d: "distinct (uniq @ [k])"
      using False Cons.prems by simp
    have s: "\<forall>x. (seen(k := True)) x \<longleftrightarrow> x \<in> set (uniq @ [k])"
      using Cons.prems(1) by simp
    show ?thesis
      using Cons.IH[OF s d] False by (simp del: fun_upd_apply)
  qed
qed

lemma canonical_loop_start:
  "distinct (canonical_loop (\<lambda>_. False) [] ks)"
  "set (canonical_loop (\<lambda>_. False) [] ks) = set ks"
proof -
  have "\<forall>k. (\<lambda>_. False) k \<longleftrightarrow> k \<in> set []" "distinct []"
    by simp_all
  from canonical_loop_spec[OF this, of ks]
  show "distinct (canonical_loop (\<lambda>_. False) [] ks)"
    "set (canonical_loop (\<lambda>_. False) [] ks) = set ks"
    by simp_all
qed

lemma canonical_set: "set (canonical_mask_kinds ks) = set ks"
  by (simp add: canonical_mask_kinds_def canonical_loop_start)

lemma canonical_eq_iff: "canonical_mask_kinds ks = canonical_mask_kinds ks' \<longleftrightarrow> set ks = set ks'"
proof
  assume "set ks = set ks'"
  then have "mset (canonical_loop (\<lambda>_. False) [] ks) = mset (canonical_loop (\<lambda>_. False) [] ks')"
    using set_eq_iff_mset_eq_distinct[OF canonical_loop_start(1) canonical_loop_start(1)]
    by (simp add: canonical_loop_start(2))
  then show "canonical_mask_kinds ks = canonical_mask_kinds ks'"
    unfolding canonical_mask_kinds_def by (intro strings.go_sort_perm) simp_all
qed (metis canonical_set)

lemma mask_kinds_match_iff:
  "mask_kinds_match s req \<longleftrightarrow> mask_kinds_set s = req_mask_kinds_set req
     \<and> (mask_kinds_set s \<longrightarrow> mask_kinds s = canonical_mask_kinds (req_mask_kinds req))"
  unfolding mask_kinds_match_def Let_def list_all_iff
  by (auto simp: list_eq_iff_nth_eq[of "mask_kinds s"])

text \<open>A repeated request matches the session of the first one exactly when it names the same
  set of kinds.\<close>

lemma mask_kinds_match_new:
  "mask_kinds_match (new_session hash ttl req now) req' \<longleftrightarrow>
     req_mask_kinds_set req = req_mask_kinds_set req'
     \<and> (req_mask_kinds_set req \<longrightarrow> set (req_mask_kinds req) = set (req_mask_kinds req'))"
  unfolding mask_kinds_match_iff new_session_def session.simps canonical_eq_iff by blast

section \<open>Requests over any store that keeps the contract\<close>

text \<open>The policy a request runs under: the consumer's, narrowed by the request.\<close>

definition policy_of :: "policies \<Rightarrow> process_request \<Rightarrow> policy res" where
  "policy_of ps req =
     (case ps (consumer_id req) of
        None \<Rightarrow> Inl ErrPolicyRejected
      | Some base \<Rightarrow> (if req_mask_kinds_set req then apply_mask_kinds base (req_mask_kinds req) else Inr base))"

context session_store
begin

text \<open>A world in which a request is not cancelled and the clock does not go back.\<close>

definition calm :: "'s world \<Rightarrow> bool" where
  "calm w \<longleftrightarrow> live (w_ctx w) = None \<and> inv (w_store w) \<and> mono (w_clock w)"

lemma calm_tick: "calm w \<Longrightarrow> inv st \<Longrightarrow> calm (tick w st)"
  by (simp add: calm_def mono_later)

lemma find_session_live:
  assumes "calm w"
  shows "\<exists>st. find_session get pid w = (Inr (view (w_clock w 0) (w_store w) pid), tick w st)
    \<and> calm (tick w st) \<and> (\<forall>t \<ge> w_clock w 0. view t st = view t (w_store w))"
proof -
  obtain st where st: "get pid w = (lookup_result (view (w_clock w 0) (w_store w) pid), tick w st)"
    "inv st" "\<forall>t \<ge> w_clock w 0. view t st = view t (w_store w)"
    using get_live[of w pid] assms by (auto simp: calm_def)
  have "find_session get pid w = (Inr (view (w_clock w 0) (w_store w) pid), tick w st)"
    by (simp add: find_session_def st(1) lookup_result_def split: option.split)
  then show ?thesis
    using st(2,3) calm_tick[OF assms] by blast
qed

text \<open>The decision a request takes, once the policy is known.\<close>

definition route :: "masker \<Rightarrow> (string \<Rightarrow> nat list) \<Rightarrow> int \<Rightarrow> process_request \<Rightarrow> policy \<Rightarrow> session option \<Rightarrow> ('s world, string) sm" where
  "route mask_fn hash ttl req pol found =
     (case found of
       Some s \<Rightarrow> on_ctx (handle_existing hash req s pol)
     | None \<Rightarrow>
         mbind time_now (\<lambda>now.
         let s = new_session hash ttl req now in
         mbind (put (Some s)) (\<lambda>added.
         if \<not> added then throw ErrProcessingInProgress
         else mask_new upd mask_fn req pol s)))"

lemma process_live:
  assumes "calm w"
  shows "process get put upd ps mask_fn hash ttl req w =
    (case policy_of ps req of
       Inl e \<Rightarrow> (Inl e, w)
     | Inr pol \<Rightarrow> mbind (find_session get (req_payload_id req)) (route mask_fn hash ttl req pol) w)"
proof -
  have live: "live (w_ctx w) = None" using assms by (simp add: calm_def)
  show ?thesis
  proof (cases "ps (consumer_id req)")
    case None
    then have "policy_get ps (consumer_id req) w = (Inl ErrPolicyRejected, w)"
      by (simp add: policy_get_live[OF live])
    then show ?thesis
      using None by (simp add: process_def mbind_live_poll[OF live] mbind_apply_Inl policy_of_def)
  next
    case (Some base)
    then have get: "policy_get ps (consumer_id req) w = (Inr base, w)"
      by (simp add: policy_get_live[OF live])
    let ?r = "if req_mask_kinds_set req then apply_mask_kinds base (req_mask_kinds req) else Inr base"
    have pol: "policy_of ps req = ?r" by (simp add: policy_of_def Some)
    show ?thesis
    proof (cases ?r)
      case (Inl e)
      then have "lift ?r w = (Inl e, w)" by (simp add: lift_apply)
      then show ?thesis
        unfolding process_def mbind_live_poll[OF live] mbind_apply_Inr[of "policy_get _ _", OF get] pol Inl
        by (simp add: mbind_apply_Inl)
    next
      case (Inr pol')
      then have "lift ?r w = (Inr pol', w)" by (simp add: lift_apply)
      then show ?thesis
        unfolding process_def mbind_live_poll[OF live] mbind_apply_Inr[of "policy_get _ _", OF get] pol Inr
        by (simp add: mbind_apply_Inr route_def[abs_def])
    qed
  qed
qed

lemma polls_handle_existing: "polls (handle_existing hash req s pol)"
  by (auto simp: handle_existing_def split: session_status.split prod.split intro!: polls_mbind)

text \<open>A request for a session that exists answers from the session and leaves the store alone.\<close>

lemma process_existing:
  assumes "calm w" "policy_of ps req = Inr pol"
    and "view (w_clock w 0) (w_store w) (req_payload_id req) = Some s"
  shows "\<exists>st. process get put upd ps mask_fn hash ttl req w = (val (handle_existing hash req s pol), tick w st)
    \<and> calm (tick w st) \<and> (\<forall>t \<ge> w_clock w 0. view t st = view t (w_store w))"
proof -
  obtain st where st: "find_session get (req_payload_id req) w = (Inr (Some s), tick w st)"
    "calm (tick w st)" "\<forall>t \<ge> w_clock w 0. view t st = view t (w_store w)"
    using find_session_live[OF assms(1), of "req_payload_id req"] assms(3) by auto
  have "process get put upd ps mask_fn hash ttl req w = route mask_fn hash ttl req pol (Some s) (tick w st)"
    unfolding process_live[OF assms(1)] assms(2) using st(1) by (simp add: mbind_apply_Inr)
  also have "\<dots> = (val (handle_existing hash req s pol), tick w st)"
  proof -
    have "live (w_ctx (tick w st)) = None" using st(2) by (simp add: calm_def)
    from on_ctx_polls[OF polls_handle_existing this] show ?thesis by (simp add: route_def)
  qed
  finally show ?thesis using st(2,3) by blast
qed

text \<open>A request for which there is no session.\<close>

lemma process_new:
  assumes "calm w" "policy_of ps req = Inr pol"
    and "view (w_clock w 0) (w_store w) (req_payload_id req) = None"
  shows "\<exists>w1. process get put upd ps mask_fn hash ttl req w =
      mbind (put (Some (new_session hash ttl req (w_clock w (Suc 0))))) (\<lambda>added.
        if \<not> added then throw ErrProcessingInProgress
        else mask_new upd mask_fn req pol (new_session hash ttl req (w_clock w (Suc 0)))) w1
    \<and> calm w1 \<and> w_ctx w1 = w_ctx w \<and> w_clock w1 = later (later (w_clock w))
    \<and> (\<forall>t \<ge> w_clock w 0. view t (w_store w1) = view t (w_store w))"
proof -
  obtain st where st: "find_session get (req_payload_id req) w = (Inr None, tick w st)"
    "calm (tick w st)" "\<forall>t \<ge> w_clock w 0. view t st = view t (w_store w)"
    using find_session_live[OF assms(1), of "req_payload_id req"] assms(3) by auto
  have "process get put upd ps mask_fn hash ttl req w = route mask_fn hash ttl req pol None (tick w st)"
    unfolding process_live[OF assms(1)] assms(2) using st(1) by (simp add: mbind_apply_Inr)
  also have "\<dots> = mbind (put (Some (new_session hash ttl req (w_clock w (Suc 0))))) (\<lambda>added.
        if \<not> added then throw ErrProcessingInProgress
        else mask_new upd mask_fn req pol (new_session hash ttl req (w_clock w (Suc 0)))) (tick (tick w st) st)"
  proof -
    have eq: "(tick w st)\<lparr>w_clock := later (w_clock (tick w st))\<rparr> = tick (tick w st) st"
      by (simp add: tick_def)
    have "w_clock (tick w st) 0 = w_clock w (Suc 0)"
      by (simp add: later_def)
    then show ?thesis
      by (simp only: route_def mbind_time_now Let_def eq option.case)
  qed
  finally show ?thesis
    using st(2,3) calm_tick[OF st(2), of st]
    by (intro exI[of _ "tick (tick w st) st"]) (simp add: calm_def)
qed

text \<open>Putting the new session: refused, or stored as being processed.\<close>

lemma process_put:
  assumes "calm w" "policy_of ps req = Inr pol"
    and "view (w_clock w 0) (w_store w) (req_payload_id req) = None"
    and "fst (process get put upd ps mask_fn hash ttl req w) \<noteq> Inl ErrStoreUnavailable"
  shows "\<exists>w2. process get put upd ps mask_fn hash ttl req w =
      mask_new upd mask_fn req pol (new_session hash ttl req (w_clock w (Suc 0))) w2
    \<and> calm w2 \<and> w_ctx w2 = w_ctx w \<and> w_clock w2 = (\<lambda>n. w_clock w (n + 3))
    \<and> (\<forall>t \<ge> w_clock w 2. view t (w_store w2) = (view t (w_store w))
         (req_payload_id req := stored (new_session hash ttl req (w_clock w (Suc 0))) t))"
proof -
  let ?s = "new_session hash ttl req (w_clock w (Suc 0))"
  obtain w1 where w1: "process get put upd ps mask_fn hash ttl req w =
      mbind (put (Some ?s)) (\<lambda>added. if \<not> added then throw ErrProcessingInProgress
        else mask_new upd mask_fn req pol ?s) w1"
    "calm w1" "w_ctx w1 = w_ctx w" "w_clock w1 = later (later (w_clock w))"
    "\<forall>t \<ge> w_clock w 0. view t (w_store w1) = view t (w_store w)"
    using process_new[OF assms(1-3)] by blast
  have mono: "mono (w_clock w)" using assms(1) by (simp add: calm_def)
  have le: "w_clock w 0 \<le> w_clock w 2"
    using mono by (simp add: mono_def)
  have time: "w_clock w1 0 = w_clock w 2"
    by (simp add: w1(4) later_def numeral_2_eq_2)
  have pid: "payload_id ?s = req_payload_id req"
    by (simp add: new_session_def)
  obtain r st where put: "put (Some ?s) w1 = (r, tick w1 st)" "inv st"
    "r = Inr True \<or> r = Inr False \<or> r = Inl ErrStoreUnavailable"
    "r = Inr False \<longleftrightarrow> view (w_clock w1 0) (w_store w1) (payload_id ?s) \<noteq> None"
    "\<forall>t \<ge> w_clock w1 0. view t st = (if r = Inr True
        then (view t (w_store w1))(payload_id ?s := stored ?s t) else view t (w_store w1))"
    using put_live[of w1 ?s] w1(2) by (auto simp: calm_def)
  have "r \<noteq> Inl ErrStoreUnavailable"
    using assms(4) put(1) unfolding w1(1) by (auto simp: mbind_def)
  moreover have "r \<noteq> Inr False"
    using put(4) w1(5) le assms(3) view_none[OF _ assms(3)] unfolding time pid by simp
  ultimately have r: "r = Inr True" using put(3) by blast
  have "process get put upd ps mask_fn hash ttl req w = mask_new upd mask_fn req pol ?s (tick w1 st)"
    unfolding w1(1) using put(1) r by (simp add: mbind_apply_Inr)
  moreover have "w_clock (tick w1 st) = (\<lambda>n. w_clock w (n + 3))"
    by (simp add: w1(4) later_def eval_nat_numeral)
  moreover have "view t st = (view t (w_store w))(req_payload_id req := stored ?s t)" if "t \<ge> w_clock w 2" for t
    using that put(5) w1(5) le r unfolding time pid by simp
  ultimately show ?thesis
    using calm_tick[OF w1(2) put(2)] w1(3) by (intro exI[of _ "tick w1 st"]) simp
qed

text \<open>When masking fails and the context is still live, the session is kept as failed; when the
  context is done, the update does not happen and the session stays in processing.\<close>

lemma process_mask_fails:
  assumes "calm w" "policy_of ps req = Inr pol"
    and "view (w_clock w 0) (w_store w) (req_payload_id req) = None"
    and "fst (process get put upd ps mask_fn hash ttl req w) \<noteq> Inl ErrStoreUnavailable"
    and "mask_fn (payload req) pol (w_ctx w) = (Inl e, c)" "e \<noteq> Panic"
    and "0 < ttl" "w_clock w 3 < w_clock w (Suc 0) + ttl"
  shows "is_done c \<Longrightarrow> \<exists>w'. process get put upd ps mask_fn hash ttl req w = (Inl e, w')
      \<and> (\<forall>t \<ge> w_clock w 2. view t (w_store w') = (view t (w_store w))
           (req_payload_id req := stored (new_session hash ttl req (w_clock w (Suc 0))) t))"
    and "live c = None \<Longrightarrow> \<exists>w'. process get put upd ps mask_fn hash ttl req w = (Inl e, w')
      \<and> (\<forall>t \<ge> w_clock w 3. view t (w_store w') = (view t (w_store w))
           (req_payload_id req := stored ((new_session hash ttl req (w_clock w (Suc 0)))\<lparr>status := FAILED\<rparr>) t))"
proof -
  let ?s = "new_session hash ttl req (w_clock w (Suc 0))"
  let ?f = "?s\<lparr>status := FAILED\<rparr>"
  obtain w2 where w2: "process get put upd ps mask_fn hash ttl req w = mask_new upd mask_fn req pol ?s w2"
    "calm w2" "w_ctx w2 = w_ctx w" "w_clock w2 = (\<lambda>n. w_clock w (n + 3))"
    "\<forall>t \<ge> w_clock w 2. view t (w_store w2) = (view t (w_store w))(req_payload_id req := stored ?s t)"
    using process_put[OF assms(1-4)] by blast
  let ?w3 = "w2\<lparr>w_ctx := c\<rparr>"
  have m: "on_ctx (mask_fn (payload req) pol) w2 = (Inl e, ?w3)"
    using assms(5) w2(3) by (simp add: on_ctx_def)
  show "\<exists>w'. process get put upd ps mask_fn hash ttl req w = (Inl e, w')
      \<and> (\<forall>t \<ge> w_clock w 2. view t (w_store w') = (view t (w_store w))(req_payload_id req := stored ?s t))"
    if dn: "is_done c"
  proof -
    have "upd (Some ?f) ?w3 = (Inl (cause c), ?w3)"
      using upd_done[of ?w3] dn by simp
    then have "process get put upd ps mask_fn hash ttl req w = (Inl e, ?w3)"
      using assms(6) by (simp add: w2(1) mask_new_def m)
    then show ?thesis using w2(5) by simp
  qed
  show "\<exists>w'. process get put upd ps mask_fn hash ttl req w = (Inl e, w')
      \<and> (\<forall>t \<ge> w_clock w 3. view t (w_store w') = (view t (w_store w))(req_payload_id req := stored ?f t))"
    if lv: "live c = None"
  proof -
    have mono: "mono (w_clock w)" using assms(1) by (simp add: calm_def)
    have le: "w_clock w 2 \<le> w_clock w 3" using mono by (simp add: mono_def)
    have pid: "payload_id ?f = req_payload_id req" by (simp add: new_session_def)
    have time: "w_clock ?w3 0 = w_clock w 3" by (simp add: w2(4))
    have now: "view (w_clock w 3) (w_store ?w3) (req_payload_id req) = Some ?s"
      using w2(5) le assms(8) by (simp add: stored_def is_expired_def new_session_def)
    obtain r st where u: "upd (Some ?f) ?w3 = (r, tick ?w3 st)"
      "\<forall>t \<ge> w_clock w 3. view t st = (view t (w_store ?w3))(req_payload_id req := stored ?f t)"
      using upd_live[of ?w3 ?f] lv w2(2) now unfolding time pid calm_def by auto
    then have "process get put upd ps mask_fn hash ttl req w = (Inl e, tick ?w3 st)"
      using assms(6) by (simp add: w2(1) mask_new_def m)
    moreover have "view t st = (view t (w_store w))(req_payload_id req := stored ?f t)" if "t \<ge> w_clock w 3" for t
      using u(2) w2(5) le that by auto
    ultimately show ?thesis by simp
  qed
qed

end

section \<open>The contract of a masker\<close>

text \<open>Besides polling its context a masker only computes: its result is what
  \<open>ApplyReplacements\<close> makes of replacements whose tokens have the token format.\<close>

locale processing = session_store get put upd view inv
  for get :: "string \<Rightarrow> ('s world, session) sm"
    and put :: "session option \<Rightarrow> ('s world, bool) sm"
    and upd :: "session option \<Rightarrow> ('s world, unit) sm"
    and view :: "int \<Rightarrow> 's \<Rightarrow> string \<Rightarrow> session option"
    and inv :: "'s \<Rightarrow> bool" +
  fixes mask_fn :: masker
  assumes mask_polls: "polls (mask_fn txt pol)"
    and mask_applies: "val (mask_fn txt pol) = Inr (masked, ms) \<Longrightarrow>
      \<exists>rs. val (apply_replacements txt rs) = Inr (masked, ms)
        \<and> (\<forall>r \<in> set rs. \<exists>k n. r_token r = token_of k n)"
begin

text \<open>The first request with an identifier stores the session, masks, and stores the mappings.\<close>

lemma process_masks:
  assumes "calm w" "policy_of ps req = Inr pol"
    and "view (w_clock w 0) (w_store w) (req_payload_id req) = None"
    and "process get put upd ps mask_fn hash ttl req w = (Inr masked, w')"
  obtains ms s where "val (mask_fn (payload req) pol) = Inr (masked, ms)"
    "s = (new_session hash ttl req (w_clock w (Suc 0)))\<lparr>mappings := ms, status := READY\<rparr>"
    "calm w'" "w_clock w' = (\<lambda>n. w_clock w (n + 4))"
    "\<forall>t \<ge> w_clock w 3. view t (w_store w') = (view t (w_store w))(req_payload_id req := stored s t)"
proof -
  let ?s = "new_session hash ttl req (w_clock w (Suc 0))"
  have "fst (process get put upd ps mask_fn hash ttl req w) \<noteq> Inl ErrStoreUnavailable"
    using assms(4) by simp
  then obtain w2 where w2: "process get put upd ps mask_fn hash ttl req w = mask_new upd mask_fn req pol ?s w2"
    "calm w2" "w_clock w2 = (\<lambda>n. w_clock w (n + 3))"
    "\<forall>t \<ge> w_clock w 2. view t (w_store w2) = (view t (w_store w))(req_payload_id req := stored ?s t)"
    using process_put[OF assms(1-3)] by blast
  have "live (w_ctx w2) = None" using w2(2) by (simp add: calm_def)
  from on_ctx_polls[OF mask_polls this]
  have m: "on_ctx (mask_fn (payload req) pol) w2 = (val (mask_fn (payload req) pol), w2)" .
  have res: "mask_new upd mask_fn req pol ?s w2 = (Inr masked, w')"
    using assms(4) w2(1) by simp
  obtain ms masked' where val: "val (mask_fn (payload req) pol) = Inr (masked', ms)"
  proof (cases "val (mask_fn (payload req) pol)")
    case (Inl e)
    then show ?thesis
      using res by (simp add: mask_new_def m split: prod.splits if_splits)
  qed (use that in force)
  let ?r = "?s\<lparr>mappings := ms, status := READY\<rparr>"
  have upd: "mbind (upd (Some ?r)) (\<lambda>_. ret masked') w2 = (Inr masked, w')"
    using res unfolding mask_new_def m val by simp
  obtain r st where u: "upd (Some ?r) w2 = (r, tick w2 st)" "inv st"
    "if view (w_clock w2 0) (w_store w2) (payload_id ?r) = None
     then r = Inl ErrSessionNotFound \<and> (\<forall>t \<ge> w_clock w2 0. view t st = view t (w_store w2))
     else r = Inr ()
       \<and> (\<forall>t \<ge> w_clock w2 0. view t st = (view t (w_store w2))(payload_id ?r := stored ?r t))"
    using upd_live[of w2 ?r] w2(2) by (auto simp: calm_def)
  have "r = Inr () \<and> masked' = masked \<and> w' = tick w2 st"
    using upd u(1,3) by (auto elim!: mbind_InrE simp: ret_apply split: if_splits)
  moreover have pid: "payload_id ?r = req_payload_id req"
    by (simp add: new_session_def)
  moreover have time: "w_clock w2 0 = w_clock w 3"
    by (simp add: w2(3))
  moreover have "mono (w_clock w)" using assms(1) by (simp add: calm_def)
  then have "w_clock w 2 \<le> w_clock w 3" by (simp add: mono_def)
  ultimately have "\<forall>t \<ge> w_clock w 3. view t (w_store w') = (view t (w_store w))(req_payload_id req := stored ?r t)"
    using u(3) w2(4) by (auto split: if_splits)
  moreover have "w_clock w' = (\<lambda>n. w_clock w (n + 4))" "calm w'"
    using \<open>r = Inr () \<and> masked' = masked \<and> w' = tick w2 st\<close> calm_tick[OF w2(2) u(2)]
    by (simp_all add: w2(3) later_def eval_nat_numeral)
  ultimately show thesis
    using that val \<open>r = Inr () \<and> masked' = masked \<and> w' = tick w2 st\<close> by blast
qed

text \<open>What the session of a masking answers: the same masked text for the same request, and the
  original text for the masked one.\<close>

lemma existing_repeats:
  assumes "val (mask_fn (payload req) pol) = Inr (masked, ms)" "status s = READY" "mappings s = ms"
    and "payload_hash s = hash (payload req)" "mask_kinds_match s req"
  shows "val (handle_existing hash req s pol') = Inr masked"
proof -
  obtain rs where "val (apply_replacements (payload req) rs) = Inr (masked, ms)"
    using mask_applies[OF assms(1)] by blast
  from val_apply_again[OF this] show ?thesis
    using assms(2-5) by (simp add: handle_existing_def val_mbind polls_apply_replacements)
qed

lemma existing_restores:
  assumes "val (mask_fn txt pol) = Inr (masked, ms)" "status s = READY" "mappings s = ms"
    and "payload req = masked" "masked \<noteq> txt" "\<not> has_token txt"
    and "payload_hash s \<noteq> hash masked" "detokenization_allowed pol'"
  shows "val (handle_existing hash req s pol') = Inr txt"
proof -
  obtain rs where "val (apply_replacements txt rs) = Inr (masked, ms)"
    "\<forall>r \<in> set rs. \<exists>k n. r_token r = token_of k n"
    using mask_applies[OF assms(1)] by blast
  from val_detok_masked[OF this(1) assms(6) this(2)] show ?thesis
    using assms by (simp add: handle_existing_def val_mbind polls_detokenize)
qed

lemma ready_view:
  assumes "s = (new_session hash ttl req (w_clock w (Suc 0)))\<lparr>mappings := ms, status := READY\<rparr>"
    and "\<forall>t \<ge> w_clock w 3. view t (w_store w') = (view t (w_store w))(req_payload_id req := stored s t)"
    and "mono (w_clock w)" "w_clock w' = (\<lambda>n. w_clock w (n + 4))" "w_clock w 4 < w_clock w (Suc 0) + ttl"
  shows "view (w_clock w' 0) (w_store w') (req_payload_id req) = Some s"
proof -
  have "w_clock w 3 \<le> w_clock w 4" using assms(3) by (simp add: mono_def)
  then show ?thesis
    using assms by (simp add: stored_def is_expired_def new_session_def)
qed

text \<open>A request, and a second one for the same identifier before the session expires.\<close>

lemma process_twice:
  assumes "calm w" "policy_of ps req = Inr pol" "policy_of ps req' = Inr pol'"
    and "view (w_clock w 0) (w_store w) (req_payload_id req) = None"
    and "process get put upd ps mask_fn hash ttl req w = (Inr masked, w')"
    and "w_clock w 4 < w_clock w (Suc 0) + ttl" "req_payload_id req' = req_payload_id req"
  obtains ms s where "val (mask_fn (payload req) pol) = Inr (masked, ms)"
    "s = (new_session hash ttl req (w_clock w (Suc 0)))\<lparr>mappings := ms, status := READY\<rparr>"
    "fst (process get put upd ps mask_fn hash ttl req' w') = val (handle_existing hash req' s pol')"
proof -
  obtain ms s where s: "val (mask_fn (payload req) pol) = Inr (masked, ms)"
    "s = (new_session hash ttl req (w_clock w (Suc 0)))\<lparr>mappings := ms, status := READY\<rparr>"
    "calm w'" "w_clock w' = (\<lambda>n. w_clock w (n + 4))"
    "\<forall>t \<ge> w_clock w 3. view t (w_store w') = (view t (w_store w))(req_payload_id req := stored s t)"
    using process_masks[OF assms(1,2,4,5)] .
  have "mono (w_clock w)" using assms(1) by (simp add: calm_def)
  from ready_view[OF s(2,5) this s(4) assms(6)]
  have "view (w_clock w' 0) (w_store w') (req_payload_id req') = Some s"
    by (simp add: assms(7))
  from process_existing[OF s(3) assms(3) this, of mask_fn hash ttl]
  have "fst (process get put upd ps mask_fn hash ttl req' w') = val (handle_existing hash req' s pol')"
    by auto
  then show thesis using that s(1,2) by blast
qed

lemma process_retry:
  assumes "calm w" "policy_of ps req = Inr pol" "policy_of ps req' = Inr pol'"
    and "view (w_clock w 0) (w_store w) (req_payload_id req) = None"
    and "process get put upd ps mask_fn hash ttl req w = (Inr masked, w')"
    and "w_clock w 4 < w_clock w (Suc 0) + ttl" "req_payload_id req' = req_payload_id req"
    and "payload req' = payload req" "req_mask_kinds_set req' = req_mask_kinds_set req"
    and "set (req_mask_kinds req') = set (req_mask_kinds req)"
  shows "fst (process get put upd ps mask_fn hash ttl req' w') = Inr masked"
proof -
  obtain ms s where s: "val (mask_fn (payload req) pol) = Inr (masked, ms)"
    "s = (new_session hash ttl req (w_clock w (Suc 0)))\<lparr>mappings := ms, status := READY\<rparr>"
    "fst (process get put upd ps mask_fn hash ttl req' w') = val (handle_existing hash req' s pol')"
    using process_twice[OF assms(1-7)] .
  have "mask_kinds_match (new_session hash ttl req (w_clock w (Suc 0))) req'"
    using assms(9,10) by (simp add: mask_kinds_match_new)
  then have "mask_kinds_match s req'"
    by (simp add: s(2) mask_kinds_match_iff)
  then show ?thesis
    using existing_repeats[of req' pol masked ms s hash pol'] s assms(8)
    by (simp add: new_session_def)
qed

lemma process_restore:
  assumes "calm w" "policy_of ps req = Inr pol" "policy_of ps req' = Inr pol'"
    and "view (w_clock w 0) (w_store w) (req_payload_id req) = None"
    and "process get put upd ps mask_fn hash ttl req w = (Inr masked, w')"
    and "w_clock w 4 < w_clock w (Suc 0) + ttl" "req_payload_id req' = req_payload_id req"
    and "payload req' = masked" "masked \<noteq> payload req" "\<not> has_token (payload req)"
    and "hash masked \<noteq> hash (payload req)" "detokenization_allowed pol'"
  shows "fst (process get put upd ps mask_fn hash ttl req' w') = Inr (payload req)"
proof -
  obtain ms s where s: "val (mask_fn (payload req) pol) = Inr (masked, ms)"
    "s = (new_session hash ttl req (w_clock w (Suc 0)))\<lparr>mappings := ms, status := READY\<rparr>"
    "fst (process get put upd ps mask_fn hash ttl req' w') = val (handle_existing hash req' s pol')"
    using process_twice[OF assms(1-7)] .
  then show ?thesis
    using existing_restores[of "payload req" pol masked ms s req' hash pol'] assms(8-12)
    by (simp add: new_session_def)
qed

end

end
