(* ===== verification/Masking.thy ===== *)
theory Masking
  imports Merge Chunker Residual Processor
begin

text \<open>
  \<open>internal/masking\<close> and \<open>internal/cascade/cascade.go\<close>: the two maskers.  The rule masker applies
  the rule engine's plan; the cascade masker runs the rule engine on the whole text, the
  extractor on the chunks in parallel, combines both plans and applies the result.  What the
  rule engine finds (\<open>analyze\<close>, \<open>detect\<close>) and what the extractor answers for a pair of texts
  (\<open>respond\<close>) are arguments; both observe the context before they answer.

  The workers of \<open>Mask\<close> take the jobs from a channel and finish them in any order; the first
  error wins and cancels the rest.  \<open>sched\<close> is that order, as the list of the job indices by
  completion; the theorems hold for every arrangement.
\<close>

section \<open>Entities to replacements\<close>

fun map_entity_type :: "etype \<Rightarrow> pii_kind option" where
  "map_entity_type FULL_NAME = Some PIIKindFullName"
| "map_entity_type BIRTH_DATE = Some PIIKindDate"
| "map_entity_type PASSPORT_ISSUE_DATE = Some PIIKindDate"
| "map_entity_type BIRTH_PLACE = Some PIIKindBirthPlace"
| "map_entity_type PASSPORT = Some PIIKindPassport"
| "map_entity_type CITIZENSHIP = Some PIIKindCitizenship"
| "map_entity_type PASSPORT_ISSUER = Some PIIKindPassportIssuer"
| "map_entity_type DEPARTMENT_CODE = Some PIIKindPassportDivision"
| "map_entity_type DRIVER_LICENSE = Some PIIKindDriverLicense"
| "map_entity_type ADDRESS = Some PIIKindAddress"
| "map_entity_type CITY = Some PIIKindCity"
| "map_entity_type STREET = Some PIIKindStreet"
| "map_entity_type HOUSE = Some PIIKindHouse"
| "map_entity_type APARTMENT = Some PIIKindApartment"
| "map_entity_type POSTAL_CODE = Some PIIKindPostalCode"
| "map_entity_type COUNTRY = Some PIIKindCountry"
| "map_entity_type REGION = Some PIIKindRegion"
| "map_entity_type DISTRICT = Some PIIKindDistrict"
| "map_entity_type EMAIL = Some PIIKindEmail"
| "map_entity_type PHONE = Some PIIKindPhone"
| "map_entity_type INN = Some PIIKindINN"
| "map_entity_type CARD_NUMBER = Some PIIKindBankCard"
| "map_entity_type CVV = Some PIIKindCVV"
| "map_entity_type PIN = Some PIIKindPIN"
| "map_entity_type CARDHOLDER_NAME = Some PIIKindCardHolderName"

text \<open>The three guards both conversions make on an entity of a text.\<close>

definition check_entity :: "string \<Rightarrow> entity \<Rightarrow> unit res" where
  "check_entity text en =
     (if ent_start en < 0 \<or> ent_end en > int (length text) \<or> ent_start en \<ge> ent_end en then Inl ErrInvalidSpan
      else if \<not> valid_string (slice text (ent_start en) (ent_end en)) then Inl ErrInvalidSpan
      else if slice text (ent_start en) (ent_end en) \<noteq> ent_text en then Inl ErrInvalidSpan
      else Inr ())"

fun rule_entities_to_pii :: "string \<Rightarrow> entity list \<Rightarrow> pii_entity list res" where
  "rule_entities_to_pii text [] = Inr []"
| "rule_entities_to_pii text (en # ens) =
     (case map_entity_type (ent_type en) of
        None \<Rightarrow> Inl (ErrOther ''unknown entity type'')
      | Some kind \<Rightarrow>
          rbind (check_entity text en) (\<lambda>_.
          rbind (rule_entities_to_pii text ens) (\<lambda>out.
          Inr (\<lparr>e_kind = kind, e_start = ent_start en, e_end = ent_end en, e_conf = ent_score en,
                e_source = SourceReg\<rparr> # out))))"

record chunk_job =
  job_chunk :: text_chunk
  job_original :: string
  job_gate :: string

fun chunk_entities :: "chunk_job \<Rightarrow> entity list \<Rightarrow> pii_entity list res" where
  "chunk_entities job [] = Inr []"
| "chunk_entities job (en # ens) =
     (case map_entity_type (ent_type en) of
        None \<Rightarrow> Inl (ErrOther ''unknown entity type'')
      | Some kind \<Rightarrow>
          rbind (check_entity (job_original job) en) (\<lambda>_.
          rbind (chunk_entities job ens) (\<lambda>out.
          Inr (\<lparr>e_kind = kind, e_start = start_byte (job_chunk job) + ent_start en,
                e_end = start_byte (job_chunk job) + ent_end en, e_conf = ent_score en,
                e_source = SourceML\<rparr> # out))))"

section \<open>The cascade\<close>

type_synonym extractor = "(string \<Rightarrow> string \<Rightarrow> entity list res) option"

definition analyze_rules :: "(string \<Rightarrow> entity list) \<Rightarrow> string \<Rightarrow> entity list \<times> string" where
  "analyze_rules analyze text =
     (let rule_entities = analyze text in (rule_entities, build text rule_entities))"

definition detect_chunk :: "extractor \<Rightarrow> string \<Rightarrow> string \<Rightarrow> (ctx, entity list) sm" where
  "detect_chunk expensive original gate =
     mbind poll (\<lambda>_.
       (case expensive of
          None \<Rightarrow> throw (ErrOther ''expensive extractor unavailable'')
        | Some respond \<Rightarrow> mbind poll (\<lambda>_. lift (respond original gate))))"

definition process_chunk :: "extractor \<Rightarrow> chunk_job \<Rightarrow> (ctx, pii_entity list) sm" where
  "process_chunk expensive job =
     mbind (detect_chunk expensive (job_original job) (job_gate job)) (\<lambda>entities.
       lift (chunk_entities job entities))"

fun make_jobs :: "string \<Rightarrow> string \<Rightarrow> text_chunk list \<Rightarrow> chunk_job list res" where
  "make_jobs text residual [] = Inr []"
| "make_jobs text residual (c # cs) =
     rbind (go_slice text (start_byte c) (end_byte c)) (\<lambda>original.
     rbind (go_slice residual (start_byte c) (end_byte c)) (\<lambda>gate.
     rbind (make_jobs text residual cs) (\<lambda>jobs.
     Inr (\<lparr>job_chunk = c, job_original = original, job_gate = gate\<rparr> # jobs))))"

fun run_jobs ::
  "extractor \<Rightarrow> chunk_job list \<Rightarrow> pii_entity list list \<Rightarrow> nat list \<Rightarrow> (ctx, pii_entity list list) sm" where
  "run_jobs expensive jobs results [] = ret results"
| "run_jobs expensive jobs results (i # is) =
     mbind (process_chunk expensive (jobs ! i)) (\<lambda>entities.
       run_jobs expensive jobs (results[i := entities]) is)"

definition run_chunks ::
  "extractor \<Rightarrow> (nat \<Rightarrow> nat list) \<Rightarrow> string \<Rightarrow> string \<Rightarrow> text_chunk list \<Rightarrow> (ctx, pii_entity list) sm" where
  "run_chunks expensive sched text residual chunks =
     mbind (lift (make_jobs text residual chunks)) (\<lambda>jobs.
     mbind (run_jobs expensive jobs (replicate (length chunks) []) (sched (length chunks))) (\<lambda>results.
     mbind poll (\<lambda>_. ret (concat results))))"

definition cascade_mask ::
  "(string \<Rightarrow> entity list) \<Rightarrow> extractor \<Rightarrow> chunk_config \<Rightarrow> (nat \<Rightarrow> nat list) \<Rightarrow> masker" where
  "cascade_mask analyze expensive cfg sched text pol =
     mbind poll (\<lambda>_.
     case analyze_rules analyze text of (rule_entities, residual) \<Rightarrow>
     mbind (lift (rule_entities_to_pii text rule_entities)) (\<lambda>backend_entities.
     mbind (split_text text cfg) (\<lambda>chunks.
     mbind (if length chunks > 0 then run_chunks expensive sched text residual chunks else ret []) (\<lambda>ml_entities.
     mbind (build_replacement_plan text ml_entities pol) (\<lambda>ml_plan.
     mbind (build_replacement_plan text backend_entities pol) (\<lambda>backend_plan.
     mbind (combine_plans text ml_plan backend_plan pol) (\<lambda>combined.
     apply_replacements text combined)))))))"

definition rule_mask :: "(string \<Rightarrow> pii_entity list res) \<Rightarrow> masker" where
  "rule_mask detect text pol =
     mbind poll (\<lambda>_.
     mbind (mbind poll (\<lambda>_. lift (detect text))) (\<lambda>entities.
     mbind (build_replacement_plan text entities pol) (\<lambda>plan.
     apply_replacements text plan)))"

section \<open>Polling\<close>

lemma polls_detect_chunk [ctx_polls, intro!]: "polls (detect_chunk ext t g)"
  by (auto simp: detect_chunk_def intro!: polls_mbind split: option.split)

lemma polls_process_chunk [ctx_polls, intro!]: "polls (process_chunk ext job)"
  by (auto simp: process_chunk_def intro!: polls_mbind)

lemma polls_run_jobs [ctx_polls, intro!]: "polls (run_jobs ext jobs rs is)"
  by (induction "is" arbitrary: rs) (auto intro!: polls_mbind)

lemma polls_run_chunks [ctx_polls, intro!]: "polls (run_chunks ext sched t r cs)"
  by (auto simp: run_chunks_def intro!: polls_mbind)

lemma polls_cascade_mask [ctx_polls, intro!]: "polls (cascade_mask analyze ext cfg sched t pol)"
  by (auto simp: cascade_mask_def intro!: polls_mbind split: prod.split)

lemma polls_rule_mask [ctx_polls, intro!]: "polls (rule_mask detect t pol)"
  by (auto simp: rule_mask_def intro!: polls_mbind)

section \<open>Both maskers apply a plan of fresh tokens\<close>

definition extracted ::
  "extractor \<Rightarrow> (nat \<Rightarrow> nat list) \<Rightarrow> string \<Rightarrow> string \<Rightarrow> text_chunk list \<Rightarrow> pii_entity list res" where
  "extracted ext sched text residual chunks =
     (if length chunks > 0 then val (run_chunks ext sched text residual chunks) else Inr [])"

lemma val_cascade_mask:
  "val (cascade_mask analyze ext cfg sched text pol) =
     rbind (rule_entities_to_pii text (analyze text)) (\<lambda>be.
     rbind (val (split_text text cfg)) (\<lambda>chunks.
     rbind (extracted ext sched text (build text (analyze text)) chunks) (\<lambda>me.
     rbind (val (build_replacement_plan text me pol)) (\<lambda>mp.
     rbind (val (build_replacement_plan text be pol)) (\<lambda>bp.
     rbind (val (combine_plans text mp bp pol)) (\<lambda>plan.
     val (apply_replacements text plan)))))))"
  by (simp add: cascade_mask_def analyze_rules_def Let_def val_mbind extracted_def val_if
      polls_split_text polls_run_chunks polls_if polls_build_replacement_plan polls_combine_plans cong: if_cong)

lemma val_rule_mask:
  "val (rule_mask detect text pol) =
     rbind (detect text) (\<lambda>es.
     rbind (val (build_replacement_plan text es pol)) (\<lambda>plan. val (apply_replacements text plan)))"
  by (simp add: rule_mask_def val_mbind polls_mbind polls_build_replacement_plan)

lemma tokens_fresh_form: "tokens_fresh text rs \<Longrightarrow> \<forall>r \<in> set rs. \<exists>k n. r_token r = token_of k n"
  unfolding tokens_fresh_def by blast

lemma combine_plans_fresh:
  "val (combine_plans text mp bp pol) = Inr plan \<Longrightarrow> tokens_fresh text plan"
  using combined_plan_spec(3)[of "text" "mp @ bp" pol]
  by (auto simp: val_combine_plans split: if_splits)

lemma build_plan_fresh:
  "val (build_replacement_plan text es pol) = Inr plan \<Longrightarrow> tokens_fresh text plan"
  using plan_of_tokens by (auto simp: val_build_replacement_plan split: if_splits)

lemma cascade_mask_applies:
  assumes "val (cascade_mask analyze ext cfg sched text pol) = Inr (m, ms)"
  shows "\<exists>rs. val (apply_replacements text rs) = Inr (m, ms) \<and> tokens_fresh text rs"
  using assms combine_plans_fresh unfolding val_cascade_mask by (auto simp: rbind_Inr_iff)

lemma rule_mask_applies:
  assumes "val (rule_mask detect text pol) = Inr (m, ms)"
  shows "\<exists>rs. val (apply_replacements text rs) = Inr (m, ms) \<and> tokens_fresh text rs"
  using assms build_plan_fresh unfolding val_rule_mask by (auto simp: rbind_Inr_iff)

text \<open>So requests over the memory store with either masker have the properties of \<open>processing\<close>.\<close>

interpretation cascade: processing mem_get mem_put_if_absent mem_update view_at store_inv
  "cascade_mask analyze ext cfg sched" for analyze ext cfg sched
proof
  show "polls (cascade_mask analyze ext cfg sched t pol)" for t pol
    by (rule polls_cascade_mask)
  show "\<exists>rs. val (apply_replacements t rs) = Inr (m, ms) \<and> (\<forall>r\<in>set rs. \<exists>k n. r_token r = token_of k n)"
    if "val (cascade_mask analyze ext cfg sched t pol) = Inr (m, ms)" for t pol m ms
    using cascade_mask_applies[OF that] tokens_fresh_form by blast
qed

interpretation rules: processing mem_get mem_put_if_absent mem_update view_at store_inv
  "rule_mask detect" for detect
proof
  show "polls (rule_mask detect t pol)" for t pol
    by (rule polls_rule_mask)
  show "\<exists>rs. val (apply_replacements t rs) = Inr (m, ms) \<and> (\<forall>r\<in>set rs. \<exists>k n. r_token r = token_of k n)"
    if "val (rule_mask detect t pol) = Inr (m, ms)" for t pol m ms
    using rule_mask_applies[OF that] tokens_fresh_form by blast
qed

section \<open>What the cascade finds\<close>

definition entity_fits :: "string \<Rightarrow> entity \<Rightarrow> bool" where
  "entity_fits text en \<longleftrightarrow> span_ok text (ent_start en) (ent_end en)
     \<and> ent_text en = slice text (ent_start en) (ent_end en)"

lemma check_entity_iff: "check_entity text en = (if entity_fits text en then Inr () else Inl ErrInvalidSpan)"
  by (auto simp: check_entity_def entity_fits_def span_ok_def)

lemma map_entity_type_total: "\<exists>k. map_entity_type t = Some k"
  by (cases t) simp_all

definition pii_of :: "int \<Rightarrow> source \<Rightarrow> entity \<Rightarrow> pii_entity" where
  "pii_of base src en = \<lparr>e_kind = the (map_entity_type (ent_type en)), e_start = base + ent_start en,
     e_end = base + ent_end en, e_conf = ent_score en, e_source = src\<rparr>"

lemma rule_entities_eq:
  "rule_entities_to_pii text ens =
     (if list_all (entity_fits text) ens then Inr (map (pii_of 0 SourceReg) ens) else Inl ErrInvalidSpan)"
proof (induction ens)
  case Nil
  then show ?case by simp
next
  case (Cons en ens)
  obtain k where "map_entity_type (ent_type en) = Some k"
    using map_entity_type_total by blast
  then show ?case
    by (simp add: Cons check_entity_iff pii_of_def)
qed

lemma chunk_entities_eq:
  "chunk_entities job ens =
     (if list_all (entity_fits (job_original job)) ens
      then Inr (map (pii_of (start_byte (job_chunk job)) SourceML) ens) else Inl ErrInvalidSpan)"
proof (induction ens)
  case Nil
  then show ?case by simp
next
  case (Cons en ens)
  obtain k where "map_entity_type (ent_type en) = Some k"
    using map_entity_type_total by blast
  then show ?case
    by (simp add: Cons check_entity_iff pii_of_def)
qed

text \<open>The jobs of valid chunks: no slice panics.\<close>

definition job_of :: "string \<Rightarrow> string \<Rightarrow> text_chunk \<Rightarrow> chunk_job" where
  "job_of text residual c = \<lparr>job_chunk = c, job_original = slice text (start_byte c) (end_byte c),
     job_gate = slice residual (start_byte c) (end_byte c)\<rparr>"

lemma make_jobs_ok:
  assumes "valid_string text" "length residual = length text" "\<forall>c \<in> set cs. chunk_ok text cfg c"
  shows "make_jobs text residual cs = Inr (map (job_of text residual) cs)"
  using assms(3)
proof (induction cs)
  case Nil
  then show ?case by simp
next
  case (Cons c cs)
  have "slice_ok text (start_byte c) (end_byte c)"
    using chunk_slice(2)[OF _ assms(1), of cfg c] Cons.prems by simp
  moreover from this have "slice_ok residual (start_byte c) (end_byte c)"
    by (simp add: slice_ok_def assms(2))
  ultimately show ?case
    using Cons by (simp add: job_of_def)
qed

text \<open>The answers for one chunk, and the order of the workers.  When every chunk succeeds the
  results stand in chunk order whatever the order of completion; otherwise the error is the
  one of the first failing chunk in the order of completion.\<close>

definition chunk_outcome :: "extractor \<Rightarrow> chunk_job \<Rightarrow> pii_entity list res" where
  "chunk_outcome expensive job =
     (case expensive of
        None \<Rightarrow> Inl (ErrOther ''expensive extractor unavailable'')
      | Some respond \<Rightarrow> rbind (respond (job_original job) (job_gate job)) (chunk_entities job))"

lemma val_process_chunk: "val (process_chunk ext job) = chunk_outcome ext job"
  by (simp add: process_chunk_def detect_chunk_def chunk_outcome_def val_mbind polls_mbind
      val_case_option polls_case_option split: option.split)

lemma run_jobs_ok:
  assumes "\<forall>i \<in> set is. chunk_outcome ext (jobs ! i) = Inr (f i) \<and> i < length rs"
  shows "\<exists>rs'. val (run_jobs ext jobs rs is) = Inr rs' \<and> length rs' = length rs
    \<and> (\<forall>i < length rs. rs' ! i = (if i \<in> set is then f i else rs ! i))"
  using assms
proof (induction "is" arbitrary: rs)
  case Nil
  then show ?case by simp
next
  case (Cons i "is")
  have i: "chunk_outcome ext (jobs ! i) = Inr (f i)" "i < length rs"
    using Cons.prems by simp_all
  have "\<forall>j \<in> set is. chunk_outcome ext (jobs ! j) = Inr (f j) \<and> j < length (rs[i := f i])"
    using Cons.prems by simp
  then obtain rs' where rs': "val (run_jobs ext jobs (rs[i := f i]) is) = Inr rs'" "length rs' = length rs"
    "\<forall>j < length rs. rs' ! j = (if j \<in> set is then f j else rs[i := f i] ! j)"
    using Cons.IH[of "rs[i := f i]"] by auto
  have "val (run_jobs ext jobs rs (i # is)) = Inr rs'"
    by (simp add: val_mbind val_process_chunk i(1) rs'(1) polls_process_chunk)
  then show ?case
    using rs'(2,3) i(2) by (intro exI[of _ rs']) (auto simp: nth_list_update)
qed

lemma run_jobs_error:
  assumes "val (run_jobs ext jobs rs is) = Inl e"
  shows "\<exists>i \<in> set is. chunk_outcome ext (jobs ! i) = Inl e"
  using assms
  by (induction "is" arbitrary: rs)
    (auto simp: val_mbind polls_process_chunk val_process_chunk rbind_Inl_iff)

definition arrangement :: "(nat \<Rightarrow> nat list) \<Rightarrow> bool" where
  "arrangement sched \<longleftrightarrow> (\<forall>n. set (sched n) = {..<n})"

lemma run_chunks_ok:
  assumes "valid_string text" "length residual = length text" "\<forall>c \<in> set cs. chunk_ok text cfg c"
    and "arrangement sched"
    and "\<forall>c \<in> set cs. chunk_outcome ext (job_of text residual c) = Inr (g c)"
  shows "val (run_chunks ext sched text residual cs) = Inr (concat (map g cs))"
proof -
  let ?jobs = "map (job_of text residual) cs"
  let ?f = "\<lambda>i. g (cs ! i)"
  have idx: "set (sched (length cs)) = {..<length cs}"
    using assms(4) by (simp add: arrangement_def)
  have "\<forall>i \<in> set (sched (length cs)). chunk_outcome ext (?jobs ! i) = Inr (?f i)
      \<and> i < length (replicate (length cs) [])"
    using assms(5) idx by simp
  then obtain rs where rs: "val (run_jobs ext ?jobs (replicate (length cs) []) (sched (length cs))) = Inr rs"
    "length rs = length cs" "\<forall>i < length cs. rs ! i = ?f i"
    using run_jobs_ok[of "sched (length cs)" ext ?jobs ?f "replicate (length cs) []"] idx by auto
  have "rs = map g cs"
    using rs(2,3) by (intro nth_equalityI) simp_all
  then show ?thesis
    using make_jobs_ok[OF assms(1-3)] rs(1)
    by (simp add: run_chunks_def val_mbind polls_run_jobs)
qed

section \<open>The masking of the cascade succeeds and covers what was found\<close>

lemma slice_slice:
  assumes "slice_ok s a b" "0 \<le> c" "c \<le> d" "d \<le> b - a"
  shows "slice (slice s a b) c d = slice s (a + c) (a + d)"
proof -
  have "nat (b - a) - nat c = nat (b - a - c)" "nat (a + c) = nat c + nat a" "nat (d - c) \<le> nat (b - a - c)"
    using assms by (auto simp: slice_ok_def nat_diff_distrib nat_add_distrib)
  then show ?thesis
    by (simp add: slice_def drop_take min_def add.commute)
qed

lemma entity_fits_chunk:
  assumes "chunk_ok text cfg c" "valid_string text" "entity_fits (slice text (start_byte c) (end_byte c)) en"
  shows "span_ok text (start_byte c + ent_start en) (start_byte c + ent_end en)"
proof -
  have c: "slice_ok text (start_byte c) (end_byte c)"
    using chunk_slice(2)[OF assms(1,2)] .
  have e: "0 \<le> ent_start en" "ent_start en < ent_end en" "ent_end en \<le> end_byte c - start_byte c"
    "valid_string (slice (slice text (start_byte c) (end_byte c)) (ent_start en) (ent_end en))"
    using assms(3) c length_slice[OF c] by (auto simp: entity_fits_def span_ok_def slice_ok_def)
  then show ?thesis
    using slice_slice[OF c, of "ent_start en" "ent_end en"] c by (auto simp: span_ok_def slice_ok_def)
qed

abbreviation e_span :: "pii_entity \<Rightarrow> int set" where
  "e_span e \<equiv> {e_start e..<e_end e}"

text \<open>The bytes of the entities a policy accepts.\<close>

definition accepted_bytes :: "policy \<Rightarrow> pii_entity list \<Rightarrow> int set" where
  "accepted_bytes pol es = (\<Union>e \<in> {e \<in> set es. accepts pol (e_kind e) (e_conf e)}. e_span e)"

lemma build_plan_ok:
  assumes "\<forall>e \<in> set es. entity_ok text e"
  obtains plan where "val (build_replacement_plan text es pol) = Inr plan" "list_all (repl_ok text) plan"
    "bytes_of (accepted pol plan) = accepted_bytes pol es"
proof -
  let ?plan = "plan_of text pol (new_allocator text) (go_sort entity_before es)"
  have "val (build_replacement_plan text es pol) = Inr ?plan"
    using assms by (simp add: val_build_replacement_plan list_all_iff)
  moreover have "list_all (repl_ok text) ?plan"
    using plan_of_in assms by (fastforce simp: list_all_iff repl_ok_def repl_of_entity_def entity_ok_def)
  moreover have "bytes_of (accepted pol ?plan) = accepted_bytes pol es"
  proof
    show "bytes_of (accepted pol ?plan) \<subseteq> accepted_bytes pol es"
    proof
      fix i assume "i \<in> bytes_of (accepted pol ?plan)"
      then obtain r where r: "r \<in> set ?plan" "i \<in> span_of r"
        unfolding bytes_of_def accepted_def by auto
      obtain e tok where "e \<in> set es" "r = repl_of_entity text e tok" "accepts pol (e_kind e) (e_conf e)"
        using plan_of_in[OF r(1)] by auto
      then show "i \<in> accepted_bytes pol es"
        using r(2) by (auto simp: accepted_bytes_def repl_of_entity_def)
    qed
    show "accepted_bytes pol es \<subseteq> bytes_of (accepted pol ?plan)"
    proof
      fix i assume "i \<in> accepted_bytes pol es"
      then obtain e where e: "e \<in> set es" "accepts pol (e_kind e) (e_conf e)" "i \<in> e_span e"
        unfolding accepted_bytes_def by auto
      obtain tok where "repl_of_entity text e tok \<in> set ?plan"
        using plan_of_has[of e "go_sort entity_before es" pol "text"] e by auto
      then have "repl_of_entity text e tok \<in> set (accepted pol ?plan)"
        using e(2) by (simp add: accepted_def repl_of_entity_def)
      moreover have "i \<in> span_of (repl_of_entity text e tok)"
        using e(3) by (simp add: repl_of_entity_def)
      ultimately show "i \<in> bytes_of (accepted pol ?plan)"
        unfolding bytes_of_def by blast
    qed
  qed
  ultimately show thesis by (rule that)
qed

definition mapped_bytes :: "token_mapping list \<Rightarrow> int set" where
  "mapped_bytes ms = (\<Union>m \<in> set ms. {m_start m..<m_end m})"

lemma mapped_bytes_of: "mapped_bytes (map mapping_of rs) = bytes_of rs"
  by (auto simp: mapped_bytes_def bytes_of_def mapping_of_def)

lemma accepted_append: "accepted pol (xs @ ys) = accepted pol xs @ accepted pol ys"
  by (simp add: accepted_def)

text \<open>Combining the plans of two lists of valid entities and applying the result.\<close>

lemma combine_and_apply:
  assumes "\<forall>e \<in> set me. entity_ok text e" "\<forall>e \<in> set be. entity_ok text e"
  shows "\<exists>m ms.
    rbind (val (build_replacement_plan text me pol)) (\<lambda>mp.
    rbind (val (build_replacement_plan text be pol)) (\<lambda>bp.
    rbind (val (combine_plans text mp bp pol)) (\<lambda>plan.
    val (apply_replacements text plan)))) = Inr (m, ms)
    \<and> mapped_bytes ms = accepted_bytes pol me \<union> accepted_bytes pol be"
proof -
  obtain mp where mp: "val (build_replacement_plan text me pol) = Inr mp" "list_all (repl_ok text) mp"
    "bytes_of (accepted pol mp) = accepted_bytes pol me"
    using build_plan_ok[OF assms(1)] .
  obtain bp where bp: "val (build_replacement_plan text be pol) = Inr bp" "list_all (repl_ok text) bp"
    "bytes_of (accepted pol bp) = accepted_bytes pol be"
    using build_plan_ok[OF assms(2)] .
  have ok: "list_all (repl_ok text) (mp @ bp)"
    using mp(2) bp(2) by simp
  let ?plan = "combined_plan text pol (mp @ bp)"
  note spec = combined_plan_spec[OF ok, of pol]
  have "val (apply_replacements text ?plan)
      = Inr (splice text 0 ?plan (int (length text)), map mapping_of ?plan)"
    using val_apply_chain[OF spec(1)] tokens_fresh_consistent[OF spec(3)] by simp
  moreover have "mapped_bytes (map mapping_of ?plan) = accepted_bytes pol me \<union> accepted_bytes pol be"
    by (simp add: mapped_bytes_of spec(2) accepted_append mp(3) bp(3))
  ultimately show ?thesis
    using mp(1) bp(1) ok by (simp add: val_combine_plans del: list_all_append)
qed

text \<open>The entities of one chunk, with the offsets they have in the text.\<close>

definition chunk_found :: "(string \<Rightarrow> string \<Rightarrow> entity list res) \<Rightarrow> string \<Rightarrow> string \<Rightarrow> text_chunk \<Rightarrow> pii_entity list" where
  "chunk_found respond text residual c =
     (case respond (slice text (start_byte c) (end_byte c)) (slice residual (start_byte c) (end_byte c)) of
        Inl e \<Rightarrow> []
      | Inr ens \<Rightarrow> map (pii_of (start_byte c) SourceML) ens)"

lemma cascade_mask_covers:
  assumes "config_ok cfg" "valid_string text" "arrangement sched"
    and "\<forall>en \<in> set (analyze text). entity_fits text en"
    and "\<forall>original gate. valid_string original \<and> original \<noteq> [] \<and> length gate = length original \<longrightarrow>
      (\<exists>ens. respond original gate = Inr ens \<and> (\<forall>en \<in> set ens. entity_fits original en))"
  shows "\<exists>cs m ms. val (split_text text cfg) = Inr cs
    \<and> val (cascade_mask analyze (Some respond) cfg sched text pol) = Inr (m, ms)
    \<and> mapped_bytes ms = accepted_bytes pol (map (pii_of 0 SourceReg) (analyze text))
        \<union> accepted_bytes pol (concat (map (chunk_found respond text (build text (analyze text))) cs))"
proof -
  let ?res = "build text (analyze text)"
  let ?be = "map (pii_of 0 SourceReg) (analyze text)"
  obtain cs where cs: "val (split_text text cfg) = Inr cs" "\<forall>c \<in> set cs. chunk_ok text cfg c"
  proof (cases "text = []")
    case True
    have "val (split_text text cfg) = Inr []"
      using True config_validate_iff[THEN iffD2, OF assms(1)] by (simp add: val_split_text)
    then show ?thesis using that[of "[]"] by simp
  next
    case False
    then obtain cs where "val (split_text text cfg) = Inr cs" "chunks_from text cfg 0 cs"
      using split_text_ok[OF assms(1,2)] by blast
    then show ?thesis
      using that[of cs] chunks_from_all by blast
  qed
  let ?g = "chunk_found respond text ?res"
  have found: "chunk_outcome (Some respond) (job_of text ?res c) = Inr (?g c)
      \<and> (\<forall>e \<in> set (?g c). entity_ok text e)" if c: "c \<in> set cs" for c
  proof -
    let ?o = "slice text (start_byte c) (end_byte c)" and ?gt = "slice ?res (start_byte c) (end_byte c)"
    have ok: "slice_ok text (start_byte c) (end_byte c)" "slice_ok ?res (start_byte c) (end_byte c)"
      using chunk_slice(2)[OF _ assms(2)] cs(2) c by (auto simp: slice_ok_def)
    have "chunk_ok text cfg c" using cs(2) c by simp
    note ch = chunk_slice[OF this assms(2)]
    have "valid_string ?o" "length ?o = length ?gt" "?o \<noteq> []"
      using ch(1) \<open>chunk_ok text cfg c\<close> ch(3) length_slice[OF ok(1)] length_slice[OF ok(2)]
      by (auto simp: chunk_ok_def)
    then obtain ens where ens: "respond ?o ?gt = Inr ens" "\<forall>en \<in> set ens. entity_fits ?o en"
      using assms(5) by metis
    have "entity_ok text (pii_of (start_byte c) SourceML en)" if "en \<in> set ens" for en
    proof -
      have "chunk_ok text cfg c" "entity_fits ?o en"
        using cs(2) c ens(2) that by simp_all
      from entity_fits_chunk[OF this(1) assms(2) this(2)] show ?thesis
        by (simp add: entity_ok_def pii_of_def)
    qed
    then show ?thesis
      using ens by (simp add: chunk_outcome_def job_of_def chunk_entities_eq list_all_iff chunk_found_def)
  qed
  have ml: "extracted (Some respond) sched text ?res cs = Inr (concat (map ?g cs))"
    using run_chunks_ok[OF assms(2) _ cs(2) assms(3), of ?res "Some respond" ?g] found
    by (simp add: extracted_def)
  have be: "rule_entities_to_pii text (analyze text) = Inr ?be" "\<forall>e \<in> set ?be. entity_ok text e"
    using assms(4) by (simp_all add: rule_entities_eq list_all_iff entity_ok_def pii_of_def entity_fits_def)
  have "\<forall>e \<in> set (concat (map ?g cs)). entity_ok text e"
    using found by auto
  from combine_and_apply[OF this be(2), of pol] show ?thesis
    using cs(1) by (auto simp: val_cascade_mask be(1) ml Un_commute)
qed

section \<open>No panic\<close>

text \<open>\<open>orderly r\<close>: a result or an ordinary error, no panic and no endless loop.\<close>

definition orderly :: "'a res \<Rightarrow> bool" where
  "orderly r \<longleftrightarrow> r \<noteq> Inl Panic \<and> r \<noteq> Inl Diverge"

lemma orderly_rbind: "orderly r \<Longrightarrow> (\<And>x. r = Inr x \<Longrightarrow> orderly (f x)) \<Longrightarrow> orderly (rbind r f)"
  by (cases r) (auto simp: orderly_def)

lemma orderly_simps [simp]: "orderly (Inr x)" "orderly (Inl ErrInvalidSpan)" "orderly (Inl (ErrOther s))"
  by (simp_all add: orderly_def)

lemma split_text_cases:
  "orderly (val (split_text text cfg))
    \<and> (\<forall>cs. val (split_text text cfg) = Inr cs \<longrightarrow> valid_string text \<and> (\<forall>c \<in> set cs. chunk_ok text cfg c))"
proof (cases "config_ok cfg \<and> valid_string text \<and> text \<noteq> []")
  case True
  then obtain cs where "val (split_text text cfg) = Inr cs" "chunks_from text cfg 0 cs"
    using split_text_ok by blast
  then show ?thesis
    using True chunks_from_all by simp
next
  case False
  show ?thesis
  proof (cases "config_validate cfg")
    case (Inl e)
    then show ?thesis
      by (auto simp: val_split_text config_validate_def split: if_splits)
  next
    case (Inr u)
    then have "config_ok cfg" using config_validate_iff[of cfg] by simp
    then show ?thesis using False Inr by (auto simp: val_split_text)
  qed
qed

lemma chunk_outcome_orderly:
  assumes "\<And>original gate. orderly (respond original gate)"
  shows "orderly (chunk_outcome (Some respond) job)"
  using assms by (auto simp: chunk_outcome_def chunk_entities_eq intro!: orderly_rbind)

lemma run_chunks_orderly:
  assumes "valid_string text" "length residual = length text" "\<forall>c \<in> set cs. chunk_ok text cfg c"
    and "\<And>original gate. orderly (respond original gate)"
  shows "orderly (val (run_chunks (Some respond) sched text residual cs))"
proof -
  have "orderly (val (run_jobs (Some respond) jobs rs is))" for jobs rs "is"
  proof (cases "val (run_jobs (Some respond) jobs rs is)")
    case (Inl e)
    then obtain i where "chunk_outcome (Some respond) (jobs ! i) = Inl e"
      using run_jobs_error by blast
    then show ?thesis
      using chunk_outcome_orderly[of respond, OF assms(4), where job = "jobs ! i"] Inl by (simp add: orderly_def)
  qed simp
  then show ?thesis
    using make_jobs_ok[OF assms(1-3)]
    by (auto simp: run_chunks_def val_mbind polls_run_jobs intro!: orderly_rbind)
qed

lemma cascade_mask_orderly:
  assumes "\<And>original gate. orderly (respond original gate)"
  shows "orderly (val (cascade_mask analyze (Some respond) cfg sched text pol))"
  unfolding val_cascade_mask
proof (intro orderly_rbind)
  show "orderly (rule_entities_to_pii text (analyze text))"
    by (simp add: rule_entities_eq)
  show "orderly (val (split_text text cfg))"
    using split_text_cases by blast
  show "orderly (extracted (Some respond) sched text (build text (analyze text)) cs)"
    if "val (split_text text cfg) = Inr cs" for cs
  proof -
    have "valid_string text" "\<forall>c \<in> set cs. chunk_ok text cfg c"
      using split_text_cases[of "text" cfg] that by blast+
    from run_chunks_orderly[OF this(1) _ this(2) assms] show ?thesis
      by (simp add: extracted_def)
  qed
qed (simp_all add: val_build_replacement_plan val_combine_plans val_apply_replacements Let_def)

end
