(* ===== verification/MlClient.thy ===== *)
theory MlClient
  imports Allocator
begin

text \<open>
  \<open>internal/ml/types.go\<close> and \<open>internal/ml/grpc_client.go\<close>: the requests and answers of the ML
  service and the validation of what comes back over gRPC.  The messages of the wire are those
  of \<open>gen/ml/v1\<close>: an enumeration is the number that was sent (an unknown one is possible), a
  pointer is an option.  The transport is an argument.  \<open>from_grpc_response\<close> accepts an answer
  exactly when \<open>response_ok\<close> holds, and then every item of the request has one result.
\<close>

section \<open>The types\<close>

record request_item =
  chunk_id :: string
  item_text :: string
  gate_text :: string

record batch_request =
  batch_id :: string
  offset_unit :: string
  items :: "request_item list"

record ml_entity =
  ml_type :: string
  ml_start :: int
  ml_end :: int
  ml_conf :: f64

record chunk_result =
  cr_chunk_id :: string
  cr_entities :: "ml_entity list"
  cr_error :: string

record batch_response =
  resp_batch_id :: string
  model_version :: string
  resp_offset_unit :: string
  results :: "chunk_result list"

definition unicode_code_points :: string where
  "unicode_code_points = ''unicode_code_points''"

section \<open>The wire\<close>

definition enum_name :: "string list \<Rightarrow> int \<Rightarrow> string option" where
  "enum_name names n = (if 0 \<le> n \<and> n < int (length names) then Some (names ! nat n) else None)"

definition entity_type_names :: "string list" where
  "entity_type_names =
    [''ENTITY_TYPE_UNSPECIFIED'', ''ENTITY_TYPE_FULL_NAME'', ''ENTITY_TYPE_FIRST_NAME'',
     ''ENTITY_TYPE_LAST_NAME'', ''ENTITY_TYPE_PATRONYMIC'', ''ENTITY_TYPE_ADDRESS'', ''ENTITY_TYPE_CITY'',
     ''ENTITY_TYPE_STREET'', ''ENTITY_TYPE_HOUSE'', ''ENTITY_TYPE_APARTMENT'', ''ENTITY_TYPE_PLACE_OF_BIRTH'',
     ''ENTITY_TYPE_CITIZENSHIP'', ''ENTITY_TYPE_PASSPORT_ISSUER'', ''ENTITY_TYPE_CARDHOLDER_NAME'',
     ''ENTITY_TYPE_EMAIL'', ''ENTITY_TYPE_PHONE'', ''ENTITY_TYPE_INN'', ''ENTITY_TYPE_CARD'',
     ''ENTITY_TYPE_PASSPORT'', ''ENTITY_TYPE_DEPARTMENT_CODE'', ''ENTITY_TYPE_DATE'',
     ''ENTITY_TYPE_DRIVER_LICENSE'', ''ENTITY_TYPE_CVV'', ''ENTITY_TYPE_PIN'', ''ENTITY_TYPE_POSTAL_CODE'',
     ''ENTITY_TYPE_COUNTRY'', ''ENTITY_TYPE_REGION'', ''ENTITY_TYPE_DISTRICT'', ''ENTITY_TYPE_DATE_OF_BIRTH'',
     ''ENTITY_TYPE_PASSPORT_ISSUE_DATE'']"

definition error_code_names :: "string list" where
  "error_code_names =
    [''CHUNK_ERROR_CODE_UNSPECIFIED'', ''CHUNK_ERROR_CODE_NONE'', ''CHUNK_ERROR_CODE_INVALID_TEXT'',
     ''CHUNK_ERROR_CODE_TOO_LARGE'', ''CHUNK_ERROR_CODE_MODEL_ERROR'']"

record wire_entity =
  w_type :: int
  w_start :: int
  w_end :: int
  w_conf :: f64

record wire_result =
  wr_chunk_id :: string
  wr_entities :: "wire_entity option list"
  wr_error :: int

record wire_response =
  wp_batch_id :: string
  wp_model :: string
  wp_unit :: int
  wp_results :: "wire_result option list"

record wire_chunk =
  wc_chunk_id :: string
  wc_text :: string

record wire_chunk2 =
  wc2_chunk_id :: string
  wc2_original :: string
  wc2_gate :: "string option"

record 'c wire_request =
  wq_batch_id :: string
  wq_unit :: int
  wq_chunks :: "'c list"

text \<open>The code of a gRPC status.\<close>

datatype rpc_code = ResourceExhausted | Unavailable | DeadlineExceeded | OtherCode string

type_synonym 'c rpc = "'c wire_request \<Rightarrow> rpc_code + wire_response option"

section \<open>The client\<close>

definition to_offset_unit :: "string \<Rightarrow> int res" where
  "to_offset_unit u = (if u = unicode_code_points then Inr 1 else Inl ErrInvalidMLResponse)"

text \<open>\<open>strings.TrimPrefix\<close> and \<open>strings.ToLower\<close> on the ASCII names of the enumerations.\<close>

definition trim_prefix :: "string \<Rightarrow> string \<Rightarrow> string" where
  "trim_prefix p s = (if has_prefix s p then drop (length p) s else s)"

definition entity_type_text :: "string \<Rightarrow> string" where
  "entity_type_text name = map lower_char (trim_prefix ''ENTITY_TYPE_'' name)"

fun entities_loop :: "int \<Rightarrow> ml_entity list \<Rightarrow> wire_entity option list \<Rightarrow> ml_entity list res" where
  "entities_loop text_len out [] = Inr out"
| "entities_loop text_len out (None # es) = Inl ErrInvalidMLResponse"
| "entities_loop text_len out (Some e # es) =
     (if w_type e = 0 then Inl ErrInvalidMLResponse
      else case enum_name entity_type_names (w_type e) of
        None \<Rightarrow> Inl ErrInvalidMLResponse
      | Some name \<Rightarrow>
          if f_neq (w_conf e) (w_conf e) then Inl ErrInvalidMLResponse
          else if f_lt (w_conf e) (Fin 0) \<or> f_lt (Fin 1) (w_conf e) then Inl ErrInvalidMLResponse
          else if w_start e < 0 \<or> w_end e \<le> w_start e \<or> w_end e > text_len then Inl ErrInvalidMLResponse
          else entities_loop text_len
            (out @ [\<lparr>ml_type = entity_type_text name, ml_start = w_start e, ml_end = w_end e,
                     ml_conf = w_conf e\<rparr>]) es)"

definition chunk_lengths :: "request_item list \<Rightarrow> string \<Rightarrow> int option" where
  "chunk_lengths its = foldl (\<lambda>m it. m(chunk_id it \<mapsto> int (rune_count (item_text it)))) Map.empty its"

fun results_loop ::
  "(string \<Rightarrow> int option) \<Rightarrow> (string \<Rightarrow> bool) \<Rightarrow> chunk_result list \<Rightarrow> wire_result option list
    \<Rightarrow> (chunk_result list \<times> (string \<Rightarrow> bool)) res"
where
  "results_loop lens seen out [] = Inr (out, seen)"
| "results_loop lens seen out (None # rs) = Inl ErrInvalidMLResponse"
| "results_loop lens seen out (Some r # rs) =
     (if seen (wr_chunk_id r) then Inl ErrInvalidMLResponse
      else case lens (wr_chunk_id r) of
        None \<Rightarrow> Inl ErrInvalidMLResponse
      | Some text_len \<Rightarrow>
          if wr_error r = 0 then Inl ErrInvalidMLResponse
          else (case enum_name error_code_names (wr_error r) of
              None \<Rightarrow> Inl ErrInvalidMLResponse
            | Some name \<Rightarrow>
                if wr_error r \<noteq> 1 then
                  (if length (wr_entities r) \<noteq> 0 then Inl ErrInvalidMLResponse
                   else results_loop lens (seen(wr_chunk_id r := True))
                     (out @ [\<lparr>cr_chunk_id = wr_chunk_id r, cr_entities = [],
                              cr_error = trim_prefix ''CHUNK_ERROR_CODE_'' name\<rparr>]) rs)
                else
                  rbind (entities_loop text_len [] (wr_entities r)) (\<lambda>es.
                    results_loop lens (seen(wr_chunk_id r := True))
                      (out @ [\<lparr>cr_chunk_id = wr_chunk_id r, cr_entities = es, cr_error = []\<rparr>]) rs)))"

definition from_grpc_response :: "batch_request \<Rightarrow> wire_response option \<Rightarrow> batch_response res" where
  "from_grpc_response req ptr =
     (case ptr of
        None \<Rightarrow> Inl ErrInvalidMLResponse
      | Some resp \<Rightarrow>
          if wp_batch_id resp \<noteq> batch_id req then Inl ErrInvalidMLResponse
          else if wp_model resp = [] then Inl ErrInvalidMLResponse
          else if wp_unit resp \<noteq> 1 then Inl ErrInvalidMLResponse
          else if length (wp_results resp) \<noteq> length (items req) then Inl ErrInvalidMLResponse
          else rbind (results_loop (chunk_lengths (items req)) (\<lambda>_. False) [] (wp_results resp)) (\<lambda>(out, seen).
            if \<not> list_all (\<lambda>it. seen (chunk_id it)) (items req) then Inl ErrInvalidMLResponse
            else Inr \<lparr>resp_batch_id = wp_batch_id resp, model_version = wp_model resp,
                      resp_offset_unit = unicode_code_points, results = out\<rparr>))"

definition rpc_error :: "rpc_code \<Rightarrow> err" where
  "rpc_error code =
     (case code of
        ResourceExhausted \<Rightarrow> ErrOther ''resource exhausted''
      | Unavailable \<Rightarrow> ErrOther ''unavailable''
      | DeadlineExceeded \<Rightarrow> ErrOther ''deadline exceeded''
      | OtherCode c \<Rightarrow> ErrOther c)"

definition process_batch_v1 :: "wire_chunk rpc \<Rightarrow> batch_request \<Rightarrow> batch_response res" where
  "process_batch_v1 call req =
     rbind (to_offset_unit (offset_unit req)) (\<lambda>u.
     case call \<lparr>wq_batch_id = batch_id req, wq_unit = u,
                wq_chunks = map (\<lambda>it. \<lparr>wc_chunk_id = chunk_id it, wc_text = item_text it\<rparr>) (items req)\<rparr> of
       Inl code \<Rightarrow> Inl (rpc_error code)
     | Inr resp \<Rightarrow> from_grpc_response req resp)"

text \<open>\<open>errors.Join(contract.ErrUnavailable, err)\<close> is \<open>ErrUnavailable\<close> for \<open>errors.Is\<close>.\<close>

definition process_batch_v2 :: "wire_chunk2 rpc \<Rightarrow> batch_request \<Rightarrow> batch_response res" where
  "process_batch_v2 call req =
     rbind (to_offset_unit (offset_unit req)) (\<lambda>u.
     case call \<lparr>wq_batch_id = batch_id req, wq_unit = u,
                wq_chunks = map (\<lambda>it. \<lparr>wc2_chunk_id = chunk_id it, wc2_original = item_text it,
                                      wc2_gate = Some (gate_text it)\<rparr>) (items req)\<rparr> of
       Inl code \<Rightarrow>
         (case code of
            ResourceExhausted \<Rightarrow> Inl ErrUnavailable
          | Unavailable \<Rightarrow> Inl ErrUnavailable
          | DeadlineExceeded \<Rightarrow> Inl ErrDeadlineExceeded
          | OtherCode c \<Rightarrow> Inl (rpc_error code))
     | Inr resp \<Rightarrow> from_grpc_response req resp)"

section \<open>Which answers are accepted\<close>

definition wire_entity_ok :: "int \<Rightarrow> wire_entity \<Rightarrow> bool" where
  "wire_entity_ok n e \<longleftrightarrow> 0 < w_type e \<and> w_type e < int (length entity_type_names)
     \<and> w_conf e \<noteq> NaN \<and> \<not> f_lt (w_conf e) (Fin 0) \<and> \<not> f_lt (Fin 1) (w_conf e)
     \<and> 0 \<le> w_start e \<and> w_start e < w_end e \<and> w_end e \<le> n"

definition ml_entity_of :: "wire_entity \<Rightarrow> ml_entity" where
  "ml_entity_of e = \<lparr>ml_type = entity_type_text (entity_type_names ! nat (w_type e)),
     ml_start = w_start e, ml_end = w_end e, ml_conf = w_conf e\<rparr>"

lemma entities_loop_eq:
  "entities_loop n out es =
     (if list_all (\<lambda>p. case p of None \<Rightarrow> False | Some e \<Rightarrow> wire_entity_ok n e) es
      then Inr (out @ map (\<lambda>p. ml_entity_of (the p)) es) else Inl ErrInvalidMLResponse)"
proof (induction n out es rule: entities_loop.induct)
  case (3 n out e es)
  show ?case
  proof (cases "wire_entity_ok n e")
    case True
    then show ?thesis
      using 3 by (auto simp: wire_entity_ok_def enum_name_def f_neq_self ml_entity_of_def)
  next
    case False
    then show ?thesis
      by (auto simp: wire_entity_ok_def enum_name_def f_neq_self)
  qed
qed simp_all

definition wire_result_ok :: "(string \<Rightarrow> int option) \<Rightarrow> wire_result \<Rightarrow> bool" where
  "wire_result_ok lens r \<longleftrightarrow>
     (case lens (wr_chunk_id r) of
        None \<Rightarrow> False
      | Some n \<Rightarrow> 0 < wr_error r \<and> wr_error r < int (length error_code_names)
          \<and> (if wr_error r = 1
             then list_all (\<lambda>p. case p of None \<Rightarrow> False | Some e \<Rightarrow> wire_entity_ok n e) (wr_entities r)
             else wr_entities r = []))"

definition chunk_result_of :: "wire_result \<Rightarrow> chunk_result" where
  "chunk_result_of r = \<lparr>cr_chunk_id = wr_chunk_id r, cr_entities = map (\<lambda>p. ml_entity_of (the p)) (wr_entities r),
     cr_error = (if wr_error r = 1 then [] else trim_prefix ''CHUNK_ERROR_CODE_'' (error_code_names ! nat (wr_error r)))\<rparr>"

lemma results_loop_eq:
  "results_loop lens seen out rs =
     (if (\<forall>p \<in> set rs. p \<noteq> None \<and> wire_result_ok lens (the p) \<and> \<not> seen (wr_chunk_id (the p)))
         \<and> distinct (map (\<lambda>p. wr_chunk_id (the p)) rs)
      then Inr (out @ map (\<lambda>p. chunk_result_of (the p)) rs,
                \<lambda>i. seen i \<or> i \<in> (\<lambda>p. wr_chunk_id (the p)) ` set rs)
      else Inl ErrInvalidMLResponse)"
proof (induction rs arbitrary: seen out)
  case Nil
  then show ?case by simp
next
  case (Cons p rs)
  show ?case
  proof (cases p)
    case None
    then show ?thesis by simp
  next
    case (Some r)
    let ?seen = "seen(wr_chunk_id r := True)"
    show ?thesis
    proof (cases "\<not> seen (wr_chunk_id r) \<and> wire_result_ok lens r")
      case False
      then have "results_loop lens seen out (Some r # rs) = Inl ErrInvalidMLResponse"
        by (auto simp: wire_result_ok_def enum_name_def entities_loop_eq split: option.splits if_splits)
      then show ?thesis using False Some by auto
    next
      case True
      then obtain n where n: "lens (wr_chunk_id r) = Some n"
        by (auto simp: wire_result_ok_def split: option.splits)
      have step: "results_loop lens seen out (Some r # rs)
          = results_loop lens ?seen (out @ [chunk_result_of r]) rs"
        using True n
        by (auto simp: wire_result_ok_def enum_name_def entities_loop_eq chunk_result_of_def)
      have fresh: "(\<forall>p \<in> set rs. p \<noteq> None \<and> wire_result_ok lens (the p) \<and> \<not> ?seen (wr_chunk_id (the p)))
          \<longleftrightarrow> (\<forall>p \<in> set rs. p \<noteq> None \<and> wire_result_ok lens (the p) \<and> \<not> seen (wr_chunk_id (the p)))
            \<and> wr_chunk_id r \<notin> (\<lambda>p. wr_chunk_id (the p)) ` set rs"
        by (auto simp: image_iff eq_commute)
      show ?thesis
        unfolding Some step Cons.IH fresh using True by (auto simp: fun_eq_iff)
    qed
  qed
qed

lemma chunk_lengths_dom: "dom (chunk_lengths its) = chunk_id ` set its"
proof -
  have "dom (foldl (\<lambda>m it. m(chunk_id it \<mapsto> int (rune_count (item_text it)))) m its) = dom m \<union> chunk_id ` set its"
    for m
    by (induction its arbitrary: m) auto
  then show ?thesis
    by (simp add: chunk_lengths_def)
qed

lemma chunk_lengths_Some:
  assumes "distinct (map chunk_id its)" "it \<in> set its"
  shows "chunk_lengths its (chunk_id it) = Some (int (rune_count (item_text it)))"
proof -
  have other: "foldl (\<lambda>m it. m(chunk_id it \<mapsto> int (rune_count (item_text it)))) m its i = m i"
    if "i \<notin> chunk_id ` set its" for m i its
    using that by (induction its arbitrary: m) auto
  have "foldl (\<lambda>m it. m(chunk_id it \<mapsto> int (rune_count (item_text it)))) m its (chunk_id it)
      = Some (int (rune_count (item_text it)))" for m
    using assms by (induction its arbitrary: m) (auto simp: other)
  then show ?thesis
    by (simp add: chunk_lengths_def)
qed

text \<open>The contract of an answer.\<close>

definition response_ok :: "batch_request \<Rightarrow> wire_response \<Rightarrow> bool" where
  "response_ok req resp \<longleftrightarrow>
     wp_batch_id resp = batch_id req \<and> wp_model resp \<noteq> [] \<and> wp_unit resp = 1
     \<and> length (wp_results resp) = length (items req)
     \<and> (\<forall>p \<in> set (wp_results resp). p \<noteq> None \<and> wire_result_ok (chunk_lengths (items req)) (the p))
     \<and> distinct (map (\<lambda>p. wr_chunk_id (the p)) (wp_results resp))
     \<and> chunk_id ` set (items req) \<subseteq> (\<lambda>p. wr_chunk_id (the p)) ` set (wp_results resp)"

lemma from_grpc_response_eq:
  "from_grpc_response req (Some resp) =
     (if response_ok req resp
      then Inr \<lparr>resp_batch_id = wp_batch_id resp, model_version = wp_model resp,
                resp_offset_unit = unicode_code_points,
                results = map (\<lambda>p. chunk_result_of (the p)) (wp_results resp)\<rparr>
      else Inl ErrInvalidMLResponse)"
  by (auto simp: from_grpc_response_def response_ok_def results_loop_eq list_all_iff)

lemma from_grpc_response_error: "from_grpc_response req p = Inl e \<Longrightarrow> e = ErrInvalidMLResponse"
  by (cases p) (auto simp: from_grpc_response_def from_grpc_response_eq[unfolded from_grpc_response_def, simplified]
      split: if_splits)

lemma wire_result_ok_known: "wire_result_ok lens r \<Longrightarrow> wr_chunk_id r \<in> dom lens"
  by (auto simp: wire_result_ok_def split: option.splits)

text \<open>As many results as items, no identifier twice, and every item answered: so the items have
  different identifiers and each has exactly one result.\<close>

lemma response_ids:
  assumes "response_ok req resp"
  shows "distinct (map chunk_id (items req))"
    and "mset (map (\<lambda>p. wr_chunk_id (the p)) (wp_results resp)) = mset (map chunk_id (items req))"
proof -
  let ?ids = "map (\<lambda>p. wr_chunk_id (the p)) (wp_results resp)" and ?its = "map chunk_id (items req)"
  have d: "distinct ?ids" and len: "length ?ids = length ?its"
    using assms by (simp_all add: response_ok_def)
  have "set ?ids \<subseteq> set ?its"
    using assms wire_result_ok_known unfolding response_ok_def
    by (fastforce simp: chunk_lengths_dom[symmetric])
  moreover have "set ?its \<subseteq> set ?ids"
    using assms by (simp add: response_ok_def)
  ultimately have s: "set ?ids = set ?its" by simp
  then have "card (set ?its) = length ?its"
    using distinct_card[OF d] len by simp
  then show d': "distinct ?its"
    by (rule card_distinct)
  show "mset ?ids = mset ?its"
    using s d d' by (metis set_eq_iff_mset_eq_distinct)
qed

definition ml_entity_ok :: "string \<Rightarrow> ml_entity \<Rightarrow> bool" where
  "ml_entity_ok text e \<longleftrightarrow> ml_type e \<in> entity_type_text ` set (tl entity_type_names)
     \<and> 0 \<le> ml_start e \<and> ml_start e < ml_end e \<and> ml_end e \<le> int (rune_count text)
     \<and> f_le (Fin 0) (ml_conf e) \<and> f_le (ml_conf e) (Fin 1)"

lemma f_conf_range: "w \<noteq> NaN \<Longrightarrow> \<not> f_lt w (Fin 0) \<Longrightarrow> \<not> f_lt (Fin 1) w \<Longrightarrow> f_le (Fin 0) w \<and> f_le w (Fin 1)"
  by (simp add: f_le_iff)

lemma ml_entity_of_ok:
  assumes "wire_entity_ok (int (rune_count text)) e"
  shows "ml_entity_ok text (ml_entity_of e)"
proof -
  have t: "0 < nat (w_type e)" "nat (w_type e) < length entity_type_names"
    using assms by (auto simp: wire_entity_ok_def)
  then have "entity_type_names ! nat (w_type e) \<in> set (tl entity_type_names)"
    by (metis Suc_pred' length_tl less_diff_conv nth_mem nth_tl Suc_eq_plus1)
  then show ?thesis
    using assms f_conf_range[of "w_conf e"]
    by (auto simp: ml_entity_ok_def ml_entity_of_def wire_entity_ok_def)
qed

lemma accepted_result_ok:
  assumes "response_ok req resp" "it \<in> set (items req)"
  obtains r where "Some r \<in> set (wp_results resp)" "wr_chunk_id r = chunk_id it"
    "cr_error (chunk_result_of r) = [] \<or> cr_entities (chunk_result_of r) = []"
    "\<forall>e \<in> set (cr_entities (chunk_result_of r)). ml_entity_ok (item_text it) e"
proof -
  have "chunk_id it \<in> (\<lambda>p. wr_chunk_id (the p)) ` set (wp_results resp)"
    using assms unfolding response_ok_def by blast
  then obtain p where p: "p \<in> set (wp_results resp)" "wr_chunk_id (the p) = chunk_id it"
    by auto
  have ok: "p \<noteq> None" "wire_result_ok (chunk_lengths (items req)) (the p)"
    using assms(1) p(1) unfolding response_ok_def by auto
  then obtain r where r: "p = Some r" by auto
  have "chunk_lengths (items req) (wr_chunk_id r) = Some (int (rune_count (item_text it)))"
    using chunk_lengths_Some[OF response_ids(1)[OF assms(1)] assms(2)] p(2) r by simp
  then have w: "if wr_error r = 1
      then list_all (\<lambda>p. case p of None \<Rightarrow> False | Some e \<Rightarrow> wire_entity_ok (int (rune_count (item_text it))) e) (wr_entities r)
      else wr_entities r = []"
    using ok(2) r by (simp add: wire_result_ok_def)
  have "ml_entity_ok (item_text it) e" if "e \<in> set (cr_entities (chunk_result_of r))" for e
  proof -
    from that obtain q where q: "q \<in> set (wr_entities r)" "e = ml_entity_of (the q)"
      by (auto simp: chunk_result_of_def)
    then have "q \<noteq> None \<and> wire_entity_ok (int (rune_count (item_text it))) (the q)"
      using w by (auto simp: list_all_iff split: if_splits option.splits)
    then show ?thesis
      using ml_entity_of_ok q(2) by simp
  qed
  moreover have "cr_error (chunk_result_of r) = [] \<or> cr_entities (chunk_result_of r) = []"
    using w by (auto simp: chunk_result_of_def split: if_splits)
  ultimately show thesis
    using that[of r] p r by simp
qed

end
