(* ===== verification/Batching.thy ===== *)
theory Batching
  imports MlClient
begin

text \<open>
  \<open>internal/ml/batch.go\<close>, \<open>queue.go\<close>, \<open>collector.go\<close> and \<open>batcher.go\<close>: the queue of jobs, the
  collection of jobs into batches, and the distribution of the answers.  The straight-line parts
  are functions; what goroutines, channels and timers make of them is the step relation
  \<open>batcher_step\<close>, one step for each case of a \<open>select\<close>.  Its invariants say that no job is lost
  or answered twice, and that no batch is over its limits.
\<close>

section \<open>Configuration\<close>

text \<open>Durations are nanoseconds.\<close>

record batch_config =
  max_items :: int
  max_batch_code_points :: int
  max_wait :: int
  queue_capacity :: int
  workers_n :: int
  rpc_timeout :: int

definition default_batch_config :: batch_config where
  "default_batch_config = \<lparr>max_items = 32, max_batch_code_points = 11200, max_wait = 5 * 1000000,
     queue_capacity = 1024, workers_n = 4, rpc_timeout = 2 * 1000000000\<rparr>"

definition batch_config_validate :: "batch_config \<Rightarrow> unit res" where
  "batch_config_validate c =
     (if max_items c \<le> 0 then Inl (ErrOther ''max items must be > 0'')
      else if max_batch_code_points c \<le> 0 then Inl (ErrOther ''max code points must be > 0'')
      else if max_wait c \<le> 0 then Inl (ErrOther ''max wait must be > 0'')
      else if queue_capacity c \<le> 0 then Inl (ErrOther ''queue capacity must be > 0'')
      else if workers_n c \<le> 0 then Inl (ErrOther ''workers must be > 0'')
      else if rpc_timeout c \<le> 0 then Inl (ErrOther ''rpc timeout must be > 0'')
      else Inr ())"

definition code_points :: "string \<Rightarrow> int" where
  "code_points s = int (rune_count s)"

section \<open>TakeBatch\<close>

fun take_loop ::
  "batch_config \<Rightarrow> nat \<Rightarrow> request_item list \<Rightarrow> int \<Rightarrow> request_item list \<Rightarrow> (ctx, request_item list) sm"
where
  "take_loop cfg i selected used [] = ret selected"
| "take_loop cfg i selected used (it # its) =
     mbind poll (\<lambda>_.
       let size = code_points (item_text it) in
       if i = 0 \<and> size > max_batch_code_points cfg then throw ErrPayloadTooLarge
       else if int (length selected) \<ge> max_items cfg \<or> used + size > max_batch_code_points cfg then ret selected
       else take_loop cfg (Suc i) (selected @ [it]) (used + size) its)"

definition take_batch ::
  "request_item list \<Rightarrow> batch_config \<Rightarrow> (ctx, request_item list \<times> request_item list) sm" where
  "take_batch its cfg =
     mbind (lift (batch_config_validate cfg)) (\<lambda>_.
     if length its = 0 then ret ([], [])
     else mbind (take_loop cfg 0 [] 0 its) (\<lambda>selected. ret (selected, drop (length selected) its)))"

section \<open>Jobs and the queue\<close>

text \<open>A job stands for its result channel, which is the number \<open>jid\<close>; the errors of the jobs'
  contexts are a function of that number.\<close>

record job =
  jid :: nat
  job_item :: request_item

datatype reply = Reply chunk_result | Failure err

definition job_size :: "job \<Rightarrow> int" where
  "job_size j = code_points (item_text (job_item j))"

definition new_item_queue :: "int \<Rightarrow> (int \<times> job list) res" where
  "new_item_queue capacity =
     (if capacity \<le> 0 then Inl (ErrOther ''queue capacity must be > 0'') else Inr (capacity, []))"

definition enqueue :: "int \<Rightarrow> job list \<Rightarrow> job \<Rightarrow> job list res" where
  "enqueue capacity q j =
     (if int (length q) < capacity then Inr (q @ [j]) else Inl ErrDetectorUnavailable)"

section \<open>The collector\<close>

datatype phase = Seeking | Gathering "job list" int | Sending "job list" | Stopped

text \<open>The head of the collecting loop.\<close>

definition gather :: "batch_config \<Rightarrow> job list \<Rightarrow> int \<Rightarrow> phase" where
  "gather cfg batch used =
     (if int (length batch) < max_items cfg then Gathering batch used else Sending batch)"

text \<open>What happens to the job taken first, and to a job taken while collecting: the next phase,
  the job kept for the next batch, and the answers sent.\<close>

definition first_job ::
  "batch_config \<Rightarrow> (nat \<Rightarrow> err option) \<Rightarrow> job \<Rightarrow> phase \<times> (job \<times> reply) list" where
  "first_job cfg gone j =
     (case gone (jid j) of
        Some e \<Rightarrow> (Seeking, [(j, Failure e)])
      | None \<Rightarrow>
          if job_size j > max_batch_code_points cfg then (Seeking, [(j, Failure ErrPayloadTooLarge)])
          else if job_size j \<ge> max_batch_code_points cfg then (Sending [j], [])
          else (gather cfg [j] (job_size j), []))"

definition gather_job ::
  "batch_config \<Rightarrow> (nat \<Rightarrow> err option) \<Rightarrow> job list \<Rightarrow> int \<Rightarrow> job \<Rightarrow> phase \<times> job option \<times> (job \<times> reply) list"
where
  "gather_job cfg gone batch used j =
     (case gone (jid j) of
        Some e \<Rightarrow> (Gathering batch used, None, [(j, Failure e)])
      | None \<Rightarrow>
          let size = job_size j in
          if size > max_batch_code_points cfg then (Gathering batch used, None, [(j, Failure ErrPayloadTooLarge)])
          else if used + size > max_batch_code_points cfg then (Sending batch, Some j, [])
          else if used + size \<ge> max_batch_code_points cfg then (Sending (batch @ [j]), None, [])
          else (gather cfg (batch @ [j]) (used + size), None, []))"

definition fail_batch :: "job list \<Rightarrow> err \<Rightarrow> (job \<times> reply) list" where
  "fail_batch batch e = map (\<lambda>j. (j, Failure e)) batch"

section \<open>The batcher\<close>

text \<open>\<open>fmt.Sprintf("batch-%d", n)\<close> and the transport identifier of the i-th job.\<close>

definition batch_name :: "nat \<Rightarrow> string" where
  "batch_name n = ''batch-'' @ show_nat n"

definition transport_id :: "nat \<Rightarrow> nat \<Rightarrow> string" where
  "transport_id n i = batch_name n @ ''-'' @ show_nat i"

definition batch_request_of :: "nat \<Rightarrow> job list \<Rightarrow> batch_request" where
  "batch_request_of n batch = \<lparr>batch_id = batch_name n, offset_unit = unicode_code_points,
     items = map (\<lambda>(i, j). \<lparr>chunk_id = transport_id n i, item_text = item_text (job_item j),
                           gate_text = gate_text (job_item j)\<rparr>) (enumerate 0 batch)\<rparr>"

definition by_chunk :: "chunk_result list \<Rightarrow> string \<Rightarrow> chunk_result option" where
  "by_chunk rs = foldl (\<lambda>m r. m(cr_chunk_id r \<mapsto> r)) Map.empty rs"

definition reply_for :: "(string \<Rightarrow> chunk_result option) \<Rightarrow> nat \<Rightarrow> nat \<times> job \<Rightarrow> job \<times> reply" where
  "reply_for m n = (\<lambda>(i, j).
     (j, case m (transport_id n i) of
           None \<Rightarrow> Failure ErrDetectorUnavailable
         | Some r \<Rightarrow>
             if cr_error r \<noteq> [] then Failure ErrDetectorUnavailable
             else Reply (r\<lparr>cr_chunk_id := chunk_id (job_item j)\<rparr>)))"

text \<open>\<open>processBatch\<close>, given what the client answers to the request.\<close>

definition deliver :: "nat \<Rightarrow> job list \<Rightarrow> batch_response res \<Rightarrow> (job \<times> reply) list" where
  "deliver n batch resp =
     (case resp of
        Inl e \<Rightarrow> fail_batch batch e
      | Inr r \<Rightarrow> map (reply_for (by_chunk (results r)) n) (enumerate 0 batch))"

definition process_batch :: "(batch_request \<Rightarrow> batch_response res) \<Rightarrow> nat \<Rightarrow> job list \<Rightarrow> (job \<times> reply) list" where
  "process_batch call n batch = deliver n batch (call (batch_request_of n batch))"

record worker =
  phase :: phase
  pending :: "job option"

record batcher =
  b_queue :: "job list"
  b_closed :: bool
  b_gone :: "nat \<Rightarrow> err option"
  b_workers :: "worker list"
  b_seq :: nat
  b_accepted :: "job list"
  b_answers :: "(job \<times> reply) list"

definition new_batcher :: "batch_config \<Rightarrow> batcher res" where
  "new_batcher cfg =
     rbind (batch_config_validate cfg) (\<lambda>_.
     rbind (new_item_queue (queue_capacity cfg)) (\<lambda>(_, q).
     Inr \<lparr>b_queue = q, b_closed = False, b_gone = (\<lambda>_. None),
          b_workers = replicate (nat (workers_n cfg)) \<lparr>phase = Seeking, pending = None\<rparr>,
          b_seq = 0, b_accepted = [], b_answers = []\<rparr>))"

text \<open>\<open>Process\<close> up to its \<open>select\<close>: the guards and the queue.\<close>

definition submit :: "batch_config \<Rightarrow> batcher \<Rightarrow> job \<Rightarrow> batcher res" where
  "submit cfg b j =
     (case b_gone b (jid j) of
        Some e \<Rightarrow> Inl e
      | None \<Rightarrow>
          if b_closed b then Inl ErrDetectorUnavailable
          else if chunk_id (job_item j) = [] then Inl (ErrOther ''chunk id must not be empty'')
          else if \<not> valid_string (item_text (job_item j)) then Inl (ErrOther ''text is not valid UTF-8'')
          else rbind (enqueue (queue_capacity cfg) (b_queue b) j) (\<lambda>q.
            Inr (b\<lparr>b_queue := q, b_accepted := b_accepted b @ [j]\<rparr>)))"

text \<open>The three cases of the \<open>select\<close> of \<open>Process\<close>.\<close>

datatype wake = ByResult reply | ByContext err | ByClose

fun process_return :: "wake \<Rightarrow> chunk_result res" where
  "process_return (ByResult (Reply r)) = Inr r"
| "process_return (ByResult (Failure e)) = Inl e"
| "process_return (ByContext e) = Inl e"
| "process_return ByClose = Inl ErrDetectorUnavailable"

abbreviation set_worker :: "batcher \<Rightarrow> nat \<Rightarrow> worker \<Rightarrow> batcher" where
  "set_worker b i w \<equiv> b\<lparr>b_workers := (b_workers b)[i := w]\<rparr>"

abbreviation answer :: "(job \<times> reply) list \<Rightarrow> batcher \<Rightarrow> batcher" where
  "answer as b \<equiv> b\<lparr>b_answers := b_answers b @ as\<rparr>"

text \<open>The interleaved steps of the callers, the workers and the clock.  A check of a context and
  the \<open>select\<close> behind it are two instructions, so a worker may take a job although the batcher was
  closed in between.\<close>

inductive batcher_step :: "batch_config \<Rightarrow> batcher \<Rightarrow> batcher \<Rightarrow> bool" for cfg where
  Submit: "jid j \<notin> jid ` set (b_accepted b) \<Longrightarrow> submit cfg b j = Inr b' \<Longrightarrow> batcher_step cfg b b'"
| Cancel: "b_gone b n = None \<Longrightarrow> batcher_step cfg b (b\<lparr>b_gone := (b_gone b)(n \<mapsto> e)\<rparr>)"
| Close: "batcher_step cfg b (b\<lparr>b_closed := True\<rparr>)"
| TakePending:
    "i < length (b_workers b) \<Longrightarrow> b_workers b ! i = \<lparr>phase = Seeking, pending = Some j\<rparr> \<Longrightarrow>
     first_job cfg (b_gone b) j = (ph, as) \<Longrightarrow>
     batcher_step cfg b (answer as (set_worker b i \<lparr>phase = ph, pending = None\<rparr>))"
| TakeFirst:
    "i < length (b_workers b) \<Longrightarrow> b_workers b ! i = \<lparr>phase = Seeking, pending = None\<rparr> \<Longrightarrow>
     b_queue b = j # q \<Longrightarrow> first_job cfg (b_gone b) j = (ph, as) \<Longrightarrow>
     batcher_step cfg b (answer as (set_worker (b\<lparr>b_queue := q\<rparr>) i \<lparr>phase = ph, pending = None\<rparr>))"
| StopSeeking:
    "i < length (b_workers b) \<Longrightarrow> b_workers b ! i = \<lparr>phase = Seeking, pending = p\<rparr> \<Longrightarrow> b_closed b \<Longrightarrow>
     batcher_step cfg b (set_worker b i \<lparr>phase = Stopped, pending = p\<rparr>)"
| TakeMore:
    "i < length (b_workers b) \<Longrightarrow> b_workers b ! i = \<lparr>phase = Gathering batch used, pending = None\<rparr> \<Longrightarrow>
     b_queue b = j # q \<Longrightarrow> gather_job cfg (b_gone b) batch used j = (ph, p, as) \<Longrightarrow>
     batcher_step cfg b (answer as (set_worker (b\<lparr>b_queue := q\<rparr>) i \<lparr>phase = ph, pending = p\<rparr>))"
| Timer:
    "i < length (b_workers b) \<Longrightarrow> b_workers b ! i = \<lparr>phase = Gathering batch used, pending = p\<rparr> \<Longrightarrow>
     batcher_step cfg b (set_worker b i \<lparr>phase = Sending batch, pending = p\<rparr>)"
| StopGathering:
    "i < length (b_workers b) \<Longrightarrow> b_workers b ! i = \<lparr>phase = Gathering batch used, pending = p\<rparr> \<Longrightarrow>
     b_closed b \<Longrightarrow>
     batcher_step cfg b (answer (fail_batch batch ErrCanceled) (set_worker b i \<lparr>phase = Stopped, pending = p\<rparr>))"
| Send:
    "i < length (b_workers b) \<Longrightarrow> b_workers b ! i = \<lparr>phase = Sending batch, pending = p\<rparr> \<Longrightarrow>
     batcher_step cfg b (answer (deliver (Suc (b_seq b)) batch resp)
       ((set_worker b i \<lparr>phase = Seeking, pending = p\<rparr>)\<lparr>b_seq := Suc (b_seq b)\<rparr>))"

inductive batcher_reachable :: "batch_config \<Rightarrow> batcher \<Rightarrow> bool" for cfg where
  Start: "new_batcher cfg = Inr b \<Longrightarrow> batcher_reachable cfg b"
| Step: "batcher_reachable cfg b \<Longrightarrow> batcher_step cfg b b' \<Longrightarrow> batcher_reachable cfg b'"

section \<open>TakeBatch takes a maximal prefix\<close>

definition sizes :: "request_item list \<Rightarrow> int" where
  "sizes its = sum_list (map (\<lambda>it. code_points (item_text it)) its)"

lemma sizes_simps [simp]: "sizes [] = 0" "sizes (it # its) = code_points (item_text it) + sizes its"
  "sizes (xs @ ys) = sizes xs + sizes ys"
  by (simp_all add: sizes_def)

lemma code_points_nonneg [simp]: "0 \<le> code_points s"
  by (simp add: code_points_def)

lemma polls_take_loop [ctx_polls, intro!]: "polls (take_loop cfg i sel u its)"
  by (induction its arbitrary: i sel u) (auto simp: Let_def intro!: polls_mbind)

text \<open>The limits a batch keeps, and what stops it from growing.\<close>

definition in_limits :: "batch_config \<Rightarrow> request_item list \<Rightarrow> bool" where
  "in_limits cfg its \<longleftrightarrow> int (length its) \<le> max_items cfg \<and> sizes its \<le> max_batch_code_points cfg"

definition full_before :: "batch_config \<Rightarrow> request_item list \<Rightarrow> request_item list \<Rightarrow> bool" where
  "full_before cfg sel rest \<longleftrightarrow>
     (case rest of [] \<Rightarrow> True | it # _ \<Rightarrow> \<not> in_limits cfg (sel @ [it]))"

lemma val_take_loop:
  assumes "0 < i" "in_limits cfg sel" "u = sizes sel"
  shows "\<exists>more. val (take_loop cfg i sel u its) = Inr (sel @ more) \<and> in_limits cfg (sel @ more)
    \<and> its = more @ drop (length more) its \<and> full_before cfg (sel @ more) (drop (length more) its)"
  using assms
proof (induction its arbitrary: i sel u)
  case Nil
  then show ?case by (simp add: full_before_def)
next
  case (Cons it its)
  let ?n = "code_points (item_text it)"
  show ?case
  proof (cases "int (length sel) \<ge> max_items cfg \<or> u + ?n > max_batch_code_points cfg")
    case True
    then have "val (take_loop cfg i sel u (it # its)) = Inr sel"
      using Cons.prems by (simp add: val_mbind Let_def)
    moreover have "full_before cfg sel (it # its)"
      using True Cons.prems by (auto simp: full_before_def in_limits_def)
    ultimately show ?thesis
      using Cons.prems by (intro exI[of _ "[]"]) simp
  next
    case False
    then have step: "val (take_loop cfg i sel u (it # its)) = val (take_loop cfg (Suc i) (sel @ [it]) (u + ?n) its)"
      using Cons.prems by (simp add: val_mbind Let_def)
    have "in_limits cfg (sel @ [it])" "u + ?n = sizes (sel @ [it])"
      using False Cons.prems by (auto simp: in_limits_def)
    from Cons.IH[of "Suc i", OF _ this] obtain more where
      "val (take_loop cfg (Suc i) (sel @ [it]) (u + ?n) its) = Inr ((sel @ [it]) @ more)"
      "in_limits cfg ((sel @ [it]) @ more)" "its = more @ drop (length more) its"
      "full_before cfg ((sel @ [it]) @ more) (drop (length more) its)"
      by auto
    then show ?thesis
      unfolding step by (intro exI[of _ "it # more"]) simp
  qed
qed

definition batch_config_ok :: "batch_config \<Rightarrow> bool" where
  "batch_config_ok c \<longleftrightarrow> 0 < max_items c \<and> 0 < max_batch_code_points c \<and> 0 < max_wait c
     \<and> 0 < queue_capacity c \<and> 0 < workers_n c \<and> 0 < rpc_timeout c"

lemma batch_config_validate_iff: "batch_config_validate c = Inr () \<longleftrightarrow> batch_config_ok c"
  by (auto simp: batch_config_validate_def batch_config_ok_def)

lemma take_batch_spec:
  assumes "batch_config_ok cfg" "its \<noteq> []"
  shows "if code_points (item_text (hd its)) > max_batch_code_points cfg
    then val (take_batch its cfg) = Inl ErrPayloadTooLarge
    else \<exists>sel rest. val (take_batch its cfg) = Inr (sel, rest) \<and> its = sel @ rest \<and> sel \<noteq> []
      \<and> in_limits cfg sel \<and> full_before cfg sel rest"
proof -
  obtain it its' where its: "its = it # its'"
    using assms(2) by (cases its) auto
  have cfg: "batch_config_validate cfg = Inr ()" "0 < max_items cfg"
    using assms(1) batch_config_validate_iff by (auto simp: batch_config_ok_def)
  let ?n = "code_points (item_text it)"
  show ?thesis
  proof (cases "?n > max_batch_code_points cfg")
    case True
    then show ?thesis
      using cfg by (simp add: its take_batch_def val_mbind polls_mbind polls_take_loop Let_def)
  next
    case False
    then have w: "in_limits cfg [it]"
      using cfg by (simp add: in_limits_def)
    from val_take_loop[OF _ w, of "Suc 0" ?n its'] obtain more where
      "val (take_loop cfg (Suc 0) [it] ?n its') = Inr (it # more)" "in_limits cfg (it # more)"
      "its' = more @ drop (length more) its'" "full_before cfg (it # more) (drop (length more) its')"
      by auto
    then show ?thesis
      using False cfg
      by (intro if_not_P[THEN iffD2] exI[of _ "it # more"] exI[of _ "drop (length more) its'"])
        (simp_all add: its take_batch_def val_mbind polls_mbind polls_take_loop Let_def)
  qed
qed

section \<open>The invariant of the batcher\<close>

definition batch_of :: "phase \<Rightarrow> job list" where
  "batch_of ph = (case ph of Gathering batch _ \<Rightarrow> batch | Sending batch \<Rightarrow> batch | _ \<Rightarrow> [])"

definition held :: "worker \<Rightarrow> job list" where
  "held w = (case pending w of None \<Rightarrow> [] | Some j \<Rightarrow> [j]) @ batch_of (phase w)"

definition batch_within :: "batch_config \<Rightarrow> job list \<Rightarrow> bool" where
  "batch_within cfg batch \<longleftrightarrow> batch \<noteq> [] \<and> in_limits cfg (map job_item batch)"

definition worker_ok :: "batch_config \<Rightarrow> worker \<Rightarrow> bool" where
  "worker_ok cfg w \<longleftrightarrow>
     (case phase w of
        Gathering batch used \<Rightarrow> batch_within cfg batch \<and> used = sizes (map job_item batch) \<and> pending w = None
          \<and> int (length batch) < max_items cfg
      | Sending batch \<Rightarrow> batch_within cfg batch
      | _ \<Rightarrow> True)"

text \<open>Every accepted job is in the queue, with one worker, or answered; the jobs have different
  channels; queue and batches keep their limits.\<close>

definition batcher_inv :: "batch_config \<Rightarrow> batcher \<Rightarrow> bool" where
  "batcher_inv cfg b \<longleftrightarrow>
     distinct (map jid (b_accepted b))
     \<and> mset (b_accepted b) = mset (b_queue b) + mset (concat (map held (b_workers b))) + mset (map fst (b_answers b))
     \<and> int (length (b_queue b)) \<le> queue_capacity cfg
     \<and> list_all (worker_ok cfg) (b_workers b)"

lemma held_update:
  assumes "i < length ws"
  shows "mset (concat (map held (ws[i := w]))) + mset (held (ws ! i))
    = mset (concat (map held ws)) + mset (held w)"
proof -
  have "mset (concat (map held ws)) = mset (concat (map held (take i ws))) + mset (held (ws ! i))
      + mset (concat (map held (drop (Suc i) ws)))"
    by (subst id_take_nth_drop[OF assms]) simp
  then show ?thesis
    using assms by (simp add: upd_conv_take_nth_drop)
qed

text \<open>A step of one worker keeps the invariant when the jobs it held before, with those it took from
  the queue, are those it holds afterwards and those it answered.\<close>

lemma inv_worker_step:
  assumes inv: "batcher_inv cfg b" and i: "i < length (b_workers b)" "worker_ok cfg w"
    and q: "b_queue b = popped @ q"
    and jobs: "mset (held (b_workers b ! i)) + mset popped = mset (held w) + mset (map fst as)"
  shows "batcher_inv cfg (b\<lparr>b_queue := q, b_workers := (b_workers b)[i := w], b_seq := n,
      b_answers := b_answers b @ as\<rparr>)"
proof -
  let ?ws = "b_workers b"
  note u = held_update[OF i(1), of w]
  have "mset (b_accepted b) + mset (held (?ws ! i))
      = mset popped + mset q + (mset (concat (map held ?ws)) + mset (held (?ws ! i))) + mset (map fst (b_answers b))"
    using inv q by (simp add: batcher_inv_def)
  also have "\<dots> = mset q + (mset (concat (map held ?ws)) + mset (held w)) + mset (map fst (b_answers b)) + mset (map fst as)"
    using jobs by (simp add: ac_simps)
  also have "\<dots> = mset q + mset (concat (map held (?ws[i := w]))) + mset (map fst (b_answers b)) + mset (map fst as)
      + mset (held (?ws ! i))"
    using u by (simp add: ac_simps)
  finally have "mset (b_accepted b) = mset q + mset (concat (map held (?ws[i := w])))
      + mset (map fst (b_answers b @ as))"
    by simp
  moreover have "list_all (worker_ok cfg) (?ws[i := w])"
    using inv i(2) set_update_subset_insert[of ?ws i w] by (auto simp: batcher_inv_def list_all_iff)
  moreover have "int (length q) \<le> queue_capacity cfg"
    using inv q by (simp add: batcher_inv_def)
  ultimately show ?thesis
    using inv by (simp add: batcher_inv_def)
qed

lemma gather_ok:
  assumes "batch_within cfg batch" "used = sizes (map job_item batch)"
  shows "worker_ok cfg \<lparr>phase = gather cfg batch used, pending = None\<rparr>"
    and "batch_of (gather cfg batch used) = batch"
  using assms by (auto simp: gather_def worker_ok_def batch_of_def)

lemma first_job_ok:
  assumes "first_job cfg gone j = (ph, as)" "0 < max_items cfg"
  shows "worker_ok cfg \<lparr>phase = ph, pending = None\<rparr>"
    and "mset (held \<lparr>phase = ph, pending = None\<rparr>) + mset (map fst as) = {#j#}"
proof -
  have w: "batch_within cfg [j]" if "job_size j \<le> max_batch_code_points cfg"
    using that assms(2) by (simp add: batch_within_def in_limits_def job_size_def)
  show "worker_ok cfg \<lparr>phase = ph, pending = None\<rparr>"
    using assms(1) w gather_ok(1)[of cfg "[j]" "job_size j"]
    by (auto simp: first_job_def worker_ok_def job_size_def split: option.splits if_splits)
  show "mset (held \<lparr>phase = ph, pending = None\<rparr>) + mset (map fst as) = {#j#}"
    using assms(1)
    by (auto simp: first_job_def held_def batch_of_def gather_def split: option.splits if_splits)
qed

lemma gather_job_ok:
  assumes "gather_job cfg gone batch used j = (ph, p, as)"
    and "worker_ok cfg \<lparr>phase = Gathering batch used, pending = None\<rparr>"
  shows "worker_ok cfg \<lparr>phase = ph, pending = p\<rparr>"
    and "mset (held \<lparr>phase = ph, pending = p\<rparr>) + mset (map fst as) = mset batch + {#j#}"
proof -
  have b: "batch_within cfg batch" "used = sizes (map job_item batch)" "int (length batch) < max_items cfg"
    using assms(2) by (simp_all add: worker_ok_def)
  have w: "batch_within cfg (batch @ [j])" if "used + job_size j \<le> max_batch_code_points cfg"
    using that b by (simp add: batch_within_def in_limits_def job_size_def)
  have u: "used + job_size j = sizes (map job_item (batch @ [j]))"
    using b(2) by (simp add: job_size_def)
  show "worker_ok cfg \<lparr>phase = ph, pending = p\<rparr>"
    using assms(1,2) b(1) w gather_ok(1)[of cfg "batch @ [j]" "used + job_size j", OF _ u]
    by (auto simp: gather_job_def worker_ok_def Let_def split: option.splits if_splits)
  show "mset (held \<lparr>phase = ph, pending = p\<rparr>) + mset (map fst as) = mset batch + {#j#}"
    using assms(1)
    by (auto simp: gather_job_def held_def batch_of_def gather_def Let_def split: option.splits if_splits)
qed

lemma fst_fail_batch [simp]: "map fst (fail_batch batch e) = batch"
  by (simp add: fail_batch_def comp_def)

lemma fst_deliver [simp]: "map fst (deliver n batch resp) = batch"
proof -
  have "map (fst \<circ> reply_for m n) (enumerate 0 batch) = map snd (enumerate 0 batch)" for m
    by (rule map_cong) (auto simp: reply_for_def)
  then show ?thesis
    by (cases resp) (simp_all add: deliver_def map_snd_enumerate)
qed

lemma new_batcher_inv: "new_batcher cfg = Inr b \<Longrightarrow> batcher_inv cfg b"
  by (auto simp: new_batcher_def new_item_queue_def batch_config_validate_def batcher_inv_def
      held_def batch_of_def worker_ok_def list_all_iff rbind_Inr_iff split: if_splits)

lemma new_batcher_config: "new_batcher cfg = Inr b \<Longrightarrow> batch_config_ok cfg"
  using batch_config_validate_iff[of cfg] by (cases "batch_config_validate cfg") (simp_all add: new_batcher_def)

lemma submit_inv:
  assumes "batcher_inv cfg b" "submit cfg b j = Inr b'" "jid j \<notin> jid ` set (b_accepted b)"
  shows "batcher_inv cfg b'"
  using assms
  by (auto simp: submit_def batcher_inv_def enqueue_def rbind_Inr_iff split: option.splits if_splits)

lemma batcher_step_inv:
  assumes "batcher_step cfg b b'" "batcher_inv cfg b" "0 < max_items cfg"
  shows "batcher_inv cfg b'"
  using assms
proof (induction rule: batcher_step.induct)
  case (Submit j b b')
  then show ?case using submit_inv by blast
next
  case (Cancel b n e)
  then show ?case by (simp add: batcher_inv_def)
next
  case (Close b)
  then show ?case by (simp add: batcher_inv_def)
next
  case (TakePending i b j ph as)
  note f = first_job_ok[OF TakePending.hyps(3) TakePending.prems(2)]
  show ?case
    using inv_worker_step[OF TakePending.prems(1) TakePending.hyps(1) f(1), of "[]" "b_queue b" as "b_seq b"]
      f(2) TakePending.hyps(2)
    by (simp add: held_def[of "\<lparr>phase = Seeking, pending = Some j\<rparr>"] batch_of_def)
next
  case (TakeFirst i b j q ph as)
  note f = first_job_ok[OF TakeFirst.hyps(4) TakeFirst.prems(2)]
  show ?case
    using inv_worker_step[OF TakeFirst.prems(1) TakeFirst.hyps(1) f(1), of "[j]" q as "b_seq b"]
      f(2) TakeFirst.hyps(2,3)
    by (simp add: held_def[of "\<lparr>phase = Seeking, pending = None\<rparr>"] batch_of_def)
next
  case (StopSeeking i b p)
  have "worker_ok cfg \<lparr>phase = Stopped, pending = p\<rparr>"
    by (simp add: worker_ok_def)
  from inv_worker_step[OF StopSeeking.prems(1) StopSeeking.hyps(1) this, of "[]" "b_queue b" "[]" "b_seq b"]
  show ?case
    using StopSeeking.hyps(2) by (simp add: held_def batch_of_def)
next
  case (TakeMore i b batch used j q ph p as)
  have w: "worker_ok cfg \<lparr>phase = Gathering batch used, pending = None\<rparr>"
    using TakeMore.prems(1) TakeMore.hyps(1,2) by (metis batcher_inv_def list_all_length)
  note g = gather_job_ok[OF TakeMore.hyps(4) w]
  show ?case
    using inv_worker_step[OF TakeMore.prems(1) TakeMore.hyps(1) g(1), of "[j]" q as "b_seq b"]
      g(2) TakeMore.hyps(2,3)
    by (simp add: held_def[of "\<lparr>phase = Gathering batch used, pending = None\<rparr>"] batch_of_def[of "Gathering batch used"])
next
  case (Timer i b batch used p)
  have "worker_ok cfg \<lparr>phase = Gathering batch used, pending = p\<rparr>"
    using Timer.prems(1) Timer.hyps(1,2) by (metis batcher_inv_def list_all_length)
  then have "worker_ok cfg \<lparr>phase = Sending batch, pending = p\<rparr>"
    by (simp add: worker_ok_def)
  from inv_worker_step[OF Timer.prems(1) Timer.hyps(1) this, of "[]" "b_queue b" "[]" "b_seq b"]
  show ?case
    using Timer.hyps(2) by (simp add: held_def batch_of_def)
next
  case (StopGathering i b batch used p)
  have "worker_ok cfg \<lparr>phase = Stopped, pending = p\<rparr>"
    by (simp add: worker_ok_def)
  from inv_worker_step[OF StopGathering.prems(1) StopGathering.hyps(1) this, of "[]" "b_queue b"
      "fail_batch batch ErrCanceled" "b_seq b"]
  show ?case
    using StopGathering.hyps(2) by (simp add: held_def batch_of_def)
next
  case (Send i b batch p resp)
  have "worker_ok cfg \<lparr>phase = Seeking, pending = p\<rparr>"
    by (simp add: worker_ok_def)
  from inv_worker_step[OF Send.prems(1) Send.hyps(1) this, of "[]" "b_queue b"
      "deliver (Suc (b_seq b)) batch resp" "Suc (b_seq b)"]
  show ?case
    using Send.hyps(2) by (simp add: held_def batch_of_def)
qed

lemma batcher_reachable_inv:
  "batcher_reachable cfg b \<Longrightarrow> batcher_inv cfg b \<and> batch_config_ok cfg"
proof (induction rule: batcher_reachable.induct)
  case (Start b)
  then show ?case using new_batcher_inv new_batcher_config by blast
next
  case (Step b b')
  then show ?case using batcher_step_inv by (simp add: batch_config_ok_def)
qed

text \<open>What the invariant means to a caller: at most one answer on each result channel, and only to
  jobs that were accepted.\<close>

lemma inv_answers:
  assumes "batcher_inv cfg b"
  shows "distinct (map (jid \<circ> fst) (b_answers b))" and "fst ` set (b_answers b) \<subseteq> set (b_accepted b)"
proof -
  let ?all = "b_queue b @ concat (map held (b_workers b)) @ map fst (b_answers b)"
  have all: "mset (b_accepted b) = mset ?all"
    using assms by (simp add: batcher_inv_def)
  then have "mset (map jid (b_accepted b)) = mset (map jid ?all)"
    by (simp only: mset_map)
  then have "distinct (map jid ?all)"
    using assms mset_eq_imp_distinct_iff by (metis batcher_inv_def)
  then show "distinct (map (jid \<circ> fst) (b_answers b))"
    by simp
  show "fst ` set (b_answers b) \<subseteq> set (b_accepted b)"
    using mset_eq_setD[OF all] by auto
qed

section \<open>The answers of a batch\<close>

lemma transport_id_inj: "transport_id n i = transport_id n k \<longleftrightarrow> i = k"
  by (simp add: transport_id_def show_nat_inj)

lemma by_chunk_distinct:
  assumes "distinct (map cr_chunk_id rs)" "r \<in> set rs"
  shows "by_chunk rs (cr_chunk_id r) = Some r"
proof -
  have other: "foldl (\<lambda>m r. m(cr_chunk_id r \<mapsto> r)) m rs i = m i" if "i \<notin> cr_chunk_id ` set rs" for m i rs
    using that by (induction rs arbitrary: m) auto
  have "foldl (\<lambda>m r. m(cr_chunk_id r \<mapsto> r)) m rs (cr_chunk_id r) = Some r" for m
    using assms by (induction rs arbitrary: m) (auto simp: other)
  then show ?thesis
    by (simp add: by_chunk_def)
qed

lemma items_nth:
  assumes "i < length batch"
  shows "\<lparr>chunk_id = transport_id n i, item_text = item_text (job_item (batch ! i)),
      gate_text = gate_text (job_item (batch ! i))\<rparr> \<in> set (items (batch_request_of n batch))"
proof -
  have "(i, batch ! i) \<in> set (enumerate 0 batch)"
    using assms by (simp add: in_set_enumerate_eq)
  then show ?thesis
    by (simp add: batch_request_of_def rev_image_eqI)
qed

text \<open>Each caller gets the answer to its own text, under its own chunk identifier, whatever the order
  in which the service lists the results and whatever identifiers other callers use.\<close>

lemma deliver_own_result:
  assumes "response_ok (batch_request_of n batch) resp" "i < length batch"
  shows "\<exists>r. Some r \<in> set (wp_results resp) \<and> wr_chunk_id r = transport_id n i
    \<and> deliver n batch (from_grpc_response (batch_request_of n batch) (Some resp)) ! i =
      (batch ! i, if cr_error (chunk_result_of r) \<noteq> [] then Failure ErrDetectorUnavailable
                  else Reply ((chunk_result_of r)\<lparr>cr_chunk_id := chunk_id (job_item (batch ! i))\<rparr>))
    \<and> (\<forall>e \<in> set (cr_entities (chunk_result_of r)). ml_entity_ok (item_text (job_item (batch ! i))) e)"
proof -
  let ?rs = "map (\<lambda>p. chunk_result_of (the p)) (wp_results resp)"
  obtain r where r: "Some r \<in> set (wp_results resp)" "wr_chunk_id r = transport_id n i"
    "\<forall>e \<in> set (cr_entities (chunk_result_of r)). ml_entity_ok (item_text (job_item (batch ! i))) e"
    using accepted_result_ok[OF assms(1) items_nth[OF assms(2)]] by auto
  have ids: "map cr_chunk_id ?rs = map (\<lambda>p. wr_chunk_id (the p)) (wp_results resp)"
    by (simp add: chunk_result_of_def)
  have d: "distinct (map cr_chunk_id ?rs)"
    unfolding ids using assms(1) by (simp add: response_ok_def)
  have "chunk_result_of r \<in> set ?rs"
    using r(1) by force
  from by_chunk_distinct[OF d this] have b: "by_chunk ?rs (transport_id n i) = Some (chunk_result_of r)"
    using r(2) by (simp add: chunk_result_of_def)
  have "deliver n batch (from_grpc_response (batch_request_of n batch) (Some resp)) ! i =
      reply_for (by_chunk ?rs) n (i, batch ! i)"
    using assms by (simp add: from_grpc_response_eq deliver_def nth_enumerate_eq)
  then show ?thesis
    using r b by (intro exI[of _ r]) (simp add: reply_for_def)
qed

end
