(* ===== verification/Extractor.thy ===== *)
theory Extractor
  imports Masking Batching
begin

text \<open>
  \<open>internal/ml/extractor.go\<close>: the adapter that turns the answer of the ML service for one chunk,
  whose spans count code points, into entities with byte offsets.  The batcher's answer to an
  item is an argument.  For a valid text and a validated answer the adapter always succeeds and
  its entities fit the text, which is what the cascade assumes of its extractor.
\<close>

fun sum_offsets :: "int \<Rightarrow> rune list \<Rightarrow> int list" where
  "sum_offsets off [] = []"
| "sum_offsets off (r # rs) = off # sum_offsets (off + rune_len r) rs"

definition build_byte_offsets :: "string \<Rightarrow> int list" where
  "build_byte_offsets text = sum_offsets 0 (runes text) @ [int (length text)]"

definition ml_types :: "(string \<times> etype) list" where
  "ml_types =
    [(''full_name'', FULL_NAME), (''first_name'', FULL_NAME), (''last_name'', FULL_NAME),
     (''patronymic'', FULL_NAME), (''address'', ADDRESS), (''city'', CITY), (''street'', STREET),
     (''house'', HOUSE), (''apartment'', APARTMENT), (''postal_code'', POSTAL_CODE),
     (''postcode'', POSTAL_CODE), (''country'', COUNTRY), (''region'', REGION), (''district'', DISTRICT),
     (''place_of_birth'', BIRTH_PLACE), (''citizenship'', CITIZENSHIP),
     (''passport_issuer'', PASSPORT_ISSUER), (''cardholder_name'', CARDHOLDER_NAME), (''email'', EMAIL),
     (''phone'', PHONE), (''inn'', INN), (''passport'', PASSPORT), (''department_code'', DEPARTMENT_CODE),
     (''driver_license'', DRIVER_LICENSE), (''cvv'', CVV), (''pin'', PIN), (''card'', CARD_NUMBER),
     (''date'', BIRTH_DATE), (''date_of_birth'', BIRTH_DATE), (''passport_issue_date'', PASSPORT_ISSUE_DATE)]"

definition map_ml_type :: "string \<Rightarrow> etype option" where
  "map_ml_type t = map_of ml_types t"

fun extract_loop :: "string \<Rightarrow> int list \<Rightarrow> rune list \<Rightarrow> entity list \<Rightarrow> ml_entity list \<Rightarrow> entity list res" where
  "extract_loop original offsets rs out [] = Inr out"
| "extract_loop original offsets rs out (me # mes) =
     (case map_ml_type (ml_type me) of
        None \<Rightarrow> Inl ErrInvalidMLResponse
      | Some typ \<Rightarrow>
          if ml_start me < 0 \<or> ml_end me > int (length rs) \<or> ml_start me \<ge> ml_end me
          then Inl ErrInvalidMLResponse
          else
            rbind (go_index offsets (ml_start me)) (\<lambda>start_b.
            rbind (go_index offsets (ml_end me)) (\<lambda>end_b.
            rbind (go_slice original start_b end_b) (\<lambda>piece.
            extract_loop original offsets rs
              (out @ [\<lparr>ent_type = typ, ent_text = piece, ent_start = start_b, ent_end = end_b,
                       ent_score = ml_conf me, ent_reason = ''ml''\<rparr>]) mes))))"

text \<open>\<open>n\<close> is the number the extractor's counter gives the call.\<close>

definition ml_detect :: "(request_item \<Rightarrow> chunk_result res) \<Rightarrow> nat \<Rightarrow> string \<Rightarrow> string \<Rightarrow> entity list res" where
  "ml_detect process_item n original gate =
     (if original = [] then Inr []
      else
        rbind (process_item \<lparr>chunk_id = ''chunk-'' @ show_nat n, item_text = original, gate_text = gate\<rparr>)
          (\<lambda>result. extract_loop original (build_byte_offsets original) (runes original) []
             (cr_entities result)))"

section \<open>Offsets\<close>

lemma rune_len_encode: "valid_rune r \<Longrightarrow> rune_len r = int (length (encode_rune r))"
  by (auto simp: rune_len_def valid_rune_def encode_rune_def encode_valid_def)

lemma sum_offsets_nth:
  assumes "list_all valid_rune rs" "i < length rs"
  shows "sum_offsets off rs ! i = off + int (byte_offset rs i)"
  using assms
proof (induction rs arbitrary: off i)
  case Nil
  then show ?case by simp
next
  case (Cons r rs)
  then show ?case
    by (cases i) (simp_all add: byte_offset_def rune_len_encode)
qed

lemma length_sum_offsets [simp]: "length (sum_offsets off rs) = length rs"
  by (induction rs arbitrary: off) simp_all

text \<open>On a valid text the table gives the byte offset of every rune boundary.\<close>

lemma build_byte_offsets_index:
  assumes "valid_string s" "0 \<le> i" "i \<le> int (length (runes s))"
  shows "go_index (build_byte_offsets s) i = Inr (int (byte_offset (runes s) (nat i)))"
proof (cases "nat i < length (runes s)")
  case True
  then show ?thesis
    using assms sum_offsets_nth[OF runes_valid[OF assms(1)] True, of 0]
    by (simp add: go_index_def build_byte_offsets_def nth_append)
next
  case False
  then have "nat i = length (runes s)"
    using assms by simp
  then show ?thesis
    using assms encode_runes[OF assms(1)]
    by (simp add: go_index_def build_byte_offsets_def nth_append byte_offset_length)
qed

section \<open>Entities\<close>

text \<open>Every type a validated answer can carry is known.\<close>

lemma ml_type_known:
  assumes "ml_entity_ok text e"
  shows "map_ml_type (ml_type e) \<noteq> None"
proof -
  have "list_all (\<lambda>n. map_ml_type (entity_type_text n) \<noteq> None) (tl entity_type_names)"
    by code_simp
  then show ?thesis
    using assms by (auto simp: ml_entity_ok_def list_all_iff)
qed

definition byte_span :: "string \<Rightarrow> ml_entity \<Rightarrow> int \<times> int" where
  "byte_span s e = (int (byte_offset (runes s) (nat (ml_start e))), int (byte_offset (runes s) (nat (ml_end e))))"

definition entity_of_ml :: "string \<Rightarrow> ml_entity \<Rightarrow> entity" where
  "entity_of_ml s e = (case byte_span s e of (a, b) \<Rightarrow>
     \<lparr>ent_type = the (map_ml_type (ml_type e)), ent_text = slice s a b, ent_start = a, ent_end = b,
      ent_score = ml_conf e, ent_reason = ''ml''\<rparr>)"

lemma byte_span_ok:
  assumes "valid_string s" "ml_entity_ok s e" "byte_span s e = (a, b)"
  shows "span_ok s a b"
proof -
  have i: "nat (ml_start e) < nat (ml_end e)" "nat (ml_end e) \<le> length (runes s)"
    using assms(2) by (auto simp: ml_entity_ok_def rune_count_def)
  have "b \<le> int (length s)"
    using byte_offset_le[of "runes s" "nat (ml_end e)"] encode_runes[OF assms(1)] assms(3)
    by (auto simp: byte_span_def)
  then show ?thesis
    using byte_offset_strict[OF i] valid_slice_at_boundaries[OF assms(1), of "nat (ml_start e)" "nat (ml_end e)"]
      i(1) assms(3)
    by (auto simp: byte_span_def span_ok_def)
qed

lemma entity_of_ml_fits:
  assumes "valid_string s" "ml_entity_ok s e"
  shows "entity_fits s (entity_of_ml s e)"
  using byte_span_ok[OF assms] by (cases "byte_span s e") (simp add: entity_fits_def entity_of_ml_def)

text \<open>The text of an entity is the text of the code points it names.\<close>

lemma entity_of_ml_runes:
  assumes "valid_string s" "ml_entity_ok s e"
  shows "runes (ent_text (entity_of_ml s e)) = drop (nat (ml_start e)) (take (nat (ml_end e)) (runes s))"
proof -
  have "list_all valid_rune (drop (nat (ml_start e)) (take (nat (ml_end e)) (runes s)))"
    using runes_valid[OF assms(1)] by (auto simp: list_all_iff dest: in_set_dropD in_set_takeD)
  moreover have "nat (ml_start e) \<le> nat (ml_end e)"
    using assms(2) by (auto simp: ml_entity_ok_def)
  ultimately show ?thesis
    using slice_at_boundaries[OF assms(1)] runes_encode_all
    by (simp add: entity_of_ml_def byte_span_def)
qed

lemma extract_loop_ok:
  assumes "valid_string s" "\<forall>e \<in> set mes. ml_entity_ok s e"
  shows "extract_loop s (build_byte_offsets s) (runes s) out mes = Inr (out @ map (entity_of_ml s) mes)"
  using assms(2)
proof (induction mes arbitrary: out)
  case Nil
  then show ?case by simp
next
  case (Cons e mes)
  then have e: "ml_entity_ok s e" by simp
  have r: "0 \<le> ml_start e" "ml_start e < ml_end e" "ml_end e \<le> int (length (runes s))"
    using e by (simp_all add: ml_entity_ok_def rune_count_def)
  obtain a b where ab: "byte_span s e = (a, b)" by force
  have go: "go_index (build_byte_offsets s) (ml_start e) = Inr a" "go_index (build_byte_offsets s) (ml_end e) = Inr b"
    using build_byte_offsets_index[OF assms(1)] r ab by (simp_all add: byte_span_def)
  have "slice_ok s a b"
    using byte_span_ok[OF assms(1) e ab] by (simp add: span_ok_slice)
  then show ?case
    using Cons ml_type_known[OF e] r go ab by (auto simp: entity_of_ml_def)
qed

lemma ml_detect_ok:
  assumes "valid_string s" "s \<noteq> []"
    and "process_item \<lparr>chunk_id = ''chunk-'' @ show_nat n, item_text = s, gate_text = gate\<rparr> = Inr r"
    and "\<forall>e \<in> set (cr_entities r). ml_entity_ok s e"
  shows "ml_detect process_item n s gate = Inr (map (entity_of_ml s) (cr_entities r))"
  using extract_loop_ok[OF assms(1,4), of "[]"] assms(2,3) by (simp add: ml_detect_def)

end
