(* ===== verification/Validator.thy ===== *)
theory Validator
  imports GoStrings
begin

text \<open>
  \<open>internal/recognizer/validator.go\<close> and the calendar checks of \<open>date.go\<close>: the control digits of
  the tax number (INN), the Luhn check of a card number, and the validity of dates.  The digit
  loops run over the characters; a character that is no digit is the error of \<open>strconv.Atoi\<close>.
\<close>

section \<open>Checksums\<close>

fun all_same_digits :: "string \<Rightarrow> bool" where
  "all_same_digits [] = False"
| "all_same_digits (c # cs) = list_all (\<lambda>d. d = c) cs"

text \<open>The loop \<open>sum += d * weights[i]\<close>.\<close>

fun weighted_sum :: "nat \<Rightarrow> string \<Rightarrow> nat list \<Rightarrow> nat option" where
  "weighted_sum acc (c # cs) (w # ws) =
     (case atoi_byte c of None \<Rightarrow> None | Some d \<Rightarrow> weighted_sum (acc + d * w) cs ws)"
| "weighted_sum acc _ _ = Some acc"

definition weights10 :: "nat list" where
  "weights10 = [2, 4, 10, 3, 5, 9, 4, 6, 8]"

definition weights11 :: "nat list" where
  "weights11 = [7, 2, 4, 10, 3, 5, 9, 4, 6, 8]"

definition weights12 :: "nat list" where
  "weights12 = [3, 7, 2, 4, 10, 3, 5, 9, 4, 6, 8]"

definition inn10 :: "string \<Rightarrow> bool" where
  "inn10 s =
     (if length s \<noteq> 10 \<or> all_same_digits s then False
      else case weighted_sum 0 (take 9 s) weights10 of
        None \<Rightarrow> False
      | Some n \<Rightarrow> (case atoi_byte (s ! 9) of None \<Rightarrow> False | Some d \<Rightarrow> n mod 11 mod 10 = d))"

text \<open>The errors of the last two conversions are ignored: the digit is 0 then.\<close>

definition inn12 :: "string \<Rightarrow> bool" where
  "inn12 s =
     (if length s \<noteq> 12 \<or> all_same_digits s then False
      else case weighted_sum 0 (take 10 s) weights11 of
        None \<Rightarrow> False
      | Some n1 \<Rightarrow>
          (case weighted_sum 0 (take 11 s) weights12 of
             None \<Rightarrow> False
           | Some n2 \<Rightarrow>
               n1 mod 11 mod 10 = (case atoi_byte (s ! 10) of None \<Rightarrow> 0 | Some d \<Rightarrow> d)
               \<and> n2 mod 11 mod 10 = (case atoi_byte (s ! 11) of None \<Rightarrow> 0 | Some d \<Rightarrow> d)))"

fun luhn_loop :: "bool \<Rightarrow> nat \<Rightarrow> string \<Rightarrow> bool" where
  "luhn_loop dbl acc [] = (acc mod 10 = 0)"
| "luhn_loop dbl acc (c # cs) =
     (case atoi_byte c of
        None \<Rightarrow> False
      | Some d0 \<Rightarrow>
          let d1 = (if dbl then d0 * 2 else d0);
              d = (if dbl \<and> d1 > 9 then d1 - 9 else d1) in
          luhn_loop (\<not> dbl) (acc + d) cs)"

definition luhn :: "string \<Rightarrow> bool" where
  "luhn s = (if length s < 2 \<or> all_same_digits s then False else luhn_loop False 0 (rev s))"

section \<open>Dates\<close>

definition is_leap_year :: "int \<Rightarrow> bool" where
  "is_leap_year year \<longleftrightarrow> year mod 4 = 0 \<and> (year mod 100 \<noteq> 0 \<or> year mod 400 = 0)"

text \<open>The common end of \<open>validDate\<close> and \<open>validISODate\<close>.\<close>

definition valid_day :: "int \<Rightarrow> int \<Rightarrow> int \<Rightarrow> bool" where
  "valid_day day month year =
     (if month < 1 \<or> month > 12 \<or> year < 1900 \<or> year > 2100 then False
      else
        let days = [31, 28, 31, 30, 31, 30, 31, 31, 30, 31, 30, 31] :: int list;
            days' = (if month = 2 \<and> is_leap_year year then days[1 := 29] else days) in
        day \<ge> 1 \<and> day \<le> days' ! nat (month - 1))"

definition valid_date :: "string \<Rightarrow> bool" where
  "valid_date s =
     (let parts = fields_func (\<lambda>r. r = 46 \<or> r = 47 \<or> r = 45) s in
      if length parts \<noteq> 3 then False
      else case (atoi (parts ! 0), atoi (parts ! 1), atoi (parts ! 2)) of
        (Some day, Some month, Some year) \<Rightarrow> valid_day day month year
      | _ \<Rightarrow> False)"

definition valid_iso_date :: "string \<Rightarrow> bool" where
  "valid_iso_date s =
     (let parts = split_byte CHR ''-'' s in
      if length parts \<noteq> 3 then False
      else case (atoi (parts ! 0), atoi (parts ! 1), atoi (parts ! 2)) of
        (Some year, Some month, Some day) \<Rightarrow> valid_day day month year
      | _ \<Rightarrow> False)"

fun overlaps_any :: "int \<Rightarrow> int \<Rightarrow> (int \<times> int) list \<Rightarrow> bool" where
  "overlaps_any start stop [] = False"
| "overlaps_any start stop (s # ss) =
     (if start < snd s \<and> fst s < stop then True else overlaps_any start stop ss)"

section \<open>The Luhn sum\<close>

text \<open>What a digit adds, doubled or not.\<close>

definition luhn_digit :: "bool \<Rightarrow> nat \<Rightarrow> nat" where
  "luhn_digit dbl d = (if dbl then (if d * 2 > 9 then d * 2 - 9 else d * 2) else d)"

fun luhn_sum :: "bool \<Rightarrow> string \<Rightarrow> nat" where
  "luhn_sum dbl [] = 0"
| "luhn_sum dbl (c # cs) = luhn_digit dbl (the (atoi_byte c)) + luhn_sum (\<not> dbl) cs"

lemma luhn_loop_eq:
  "luhn_loop dbl acc cs \<longleftrightarrow> list_all is_digit_char cs \<and> (acc + luhn_sum dbl cs) mod 10 = 0"
  by (induction cs arbitrary: dbl acc)
    (auto simp: atoi_byte_def luhn_digit_def Let_def add.assoc split: option.splits)

lemma luhn_digit_inj:
  assumes "d < 10" "e < 10" "luhn_digit dbl d mod 10 = luhn_digit dbl e mod 10"
  shows "d = e"
proof -
  have "d \<in> {0, 1, 2, 3, 4, 5, 6, 7, 8, 9}" "e \<in> {0, 1, 2, 3, 4, 5, 6, 7, 8, 9}"
    using assms(1,2) by auto
  then show ?thesis
    using assms(3) by (cases dbl) (auto simp: luhn_digit_def)
qed

definition parity :: "bool \<Rightarrow> nat \<Rightarrow> bool" where
  "parity dbl i = (if even i then dbl else \<not> dbl)"

lemma parity_Suc: "parity dbl (Suc i) = parity (\<not> dbl) i"
  by (auto simp: parity_def)

text \<open>Changing one digit changes the sum by the difference of what the two digits add.\<close>

lemma luhn_sum_update:
  assumes "i < length cs"
  shows "luhn_sum dbl (cs[i := c]) + luhn_digit (parity dbl i) (the (atoi_byte (cs ! i)))
    = luhn_sum dbl cs + luhn_digit (parity dbl i) (the (atoi_byte c))"
  using assms
proof (induction cs arbitrary: dbl i)
  case Nil
  then show ?case by simp
next
  case (Cons x cs)
  show ?case
  proof (cases i)
    case 0
    then show ?thesis by (simp add: parity_def)
  next
    case (Suc j)
    then show ?thesis
      using Cons.IH[of j "\<not> dbl"] Cons.prems by (simp add: parity_Suc)
  qed
qed

lemma luhn_iff:
  "luhn s \<longleftrightarrow> 2 \<le> length s \<and> \<not> all_same_digits s \<and> list_all is_digit_char s
     \<and> luhn_sum False (rev s) mod 10 = 0"
  by (auto simp: luhn_def luhn_loop_eq)

lemma mod10_shift: "a + x = b + y \<Longrightarrow> a mod 10 = 0 \<Longrightarrow> b mod 10 = 0 \<Longrightarrow> x mod 10 = y mod (10 :: nat)"
  by (metis add.left_neutral mod_add_left_eq)

text \<open>One wrong digit is always found.\<close>

lemma luhn_detects_one:
  assumes "luhn s" "i < length s" "is_digit_char c" "c \<noteq> s ! i"
  shows "\<not> luhn (s[i := c])"
proof
  assume l: "luhn (s[i := c])"
  let ?k = "length s - Suc i"
  have k: "?k < length (rev s)" "rev s ! ?k = s ! i" "rev (s[i := c]) = (rev s)[?k := c]"
    using assms(2) by (simp_all add: rev_nth rev_update)
  have dig: "is_digit_char (s ! i)"
    using assms(1,2) by (simp add: luhn_iff list_all_length)
  obtain d e where d: "atoi_byte (s ! i) = Some d" and e: "atoi_byte c = Some e"
    using dig assms(3) by (auto simp: atoi_byte_def)
  let ?p = "parity False ?k"
  have "luhn_sum False (rev (s[i := c])) + luhn_digit ?p d = luhn_sum False (rev s) + luhn_digit ?p e"
    using luhn_sum_update[OF k(1), of False c] unfolding k(2,3) d e option.sel .
  moreover have "luhn_sum False (rev (s[i := c])) mod 10 = 0" "luhn_sum False (rev s) mod 10 = 0"
    using l assms(1) by (simp_all add: luhn_iff)
  ultimately have "luhn_digit ?p d mod 10 = luhn_digit ?p e mod 10"
    by (rule mod10_shift)
  then have "d = e"
    using luhn_digit_inj atoi_byte_less[OF d] atoi_byte_less[OF e] by blast
  then show False
    using atoi_byte_inj[OF d] e assms(4) by metis
qed

text \<open>The digits before the control digit fix it.\<close>

lemma inn10_control:
  assumes "inn10 (p @ [c])" "inn10 (p @ [d])"
  shows "c = d"
proof -
  have len: "length p = 9"
    using assms(1) by (auto simp: inn10_def split: if_splits)
  then obtain n x y where "weighted_sum 0 p weights10 = Some n" "atoi_byte c = Some x" "atoi_byte d = Some y"
    "n mod 11 mod 10 = x" "n mod 11 mod 10 = y"
    using assms by (auto simp: inn10_def nth_append split: if_splits option.splits)
  then show ?thesis
    using atoi_byte_inj by metis
qed

section \<open>Days\<close>

definition month_days :: "int \<Rightarrow> int \<Rightarrow> int" where
  "month_days month year =
     (if month = 2 then (if is_leap_year year then 29 else 28)
      else if month \<in> {4, 6, 9, 11} then 30 else 31)"

lemma valid_day_iff:
  "valid_day day month year \<longleftrightarrow>
     1900 \<le> year \<and> year \<le> 2100 \<and> 1 \<le> month \<and> month \<le> 12 \<and> 1 \<le> day \<and> day \<le> month_days month year"
proof (cases "1 \<le> month \<and> month \<le> 12")
  case True
  then have "month \<in> {1, 2, 3, 4, 5, 6, 7, 8, 9, 10, 11, 12}"
    unfolding insert_iff empty_iff by presburger
  then show ?thesis
    by (auto simp: valid_day_def month_days_def Let_def)
next
  case False
  then show ?thesis by (auto simp: valid_day_def)
qed

text \<open>A year of two digits is below 1900: the date it ends is never valid.\<close>

lemma read_nat_bound: "list_all is_digit_char ds \<Longrightarrow> read_nat ds < 10 ^ length ds"
proof (induction ds rule: rev_induct)
  case Nil
  then show ?case by (simp add: read_nat_def)
next
  case (snoc c ds)
  then have "of_char c - 48 \<le> (9 :: nat)"
    by (auto simp: is_digit_char_def less_eq_char_def)
  then show ?case
    using snoc by (simp add: read_nat_def)
qed

lemma atoi_short:
  assumes "atoi s = Some n" "length s \<le> 2"
  shows "n < 100"
proof -
  have "int (read_nat ds) < 100" if "list_all is_digit_char ds" "length ds \<le> 2" for ds
  proof -
    have "read_nat ds < 10 ^ 2"
      using read_nat_bound[OF that(1)] that(2) by (meson less_le_trans one_le_numeral power_increasing)
    then show ?thesis by simp
  qed
  then show ?thesis
    using assms by (auto simp: atoi_def split: list.splits if_splits prod.splits)
qed

lemma two_digit_year_invalid:
  assumes "fields_func (\<lambda>r. r = 46 \<or> r = 47 \<or> r = 45) s = [d, m, y]" "length y \<le> 2"
  shows "\<not> valid_date s"
proof
  assume "valid_date s"
  then obtain year day month where "atoi y = Some year" "valid_day day month year"
    using assms(1) by (auto simp: valid_date_def Let_def split: option.splits)
  then show False
    using atoi_short[OF _ assms(2)] by (fastforce simp: valid_day_iff)
qed

end
