(* ===== verification/Normalize.thy ===== *)
theory Normalize
  imports GoStrings
begin

text \<open>
  \<open>internal/normalize/normalize.go\<close>: the lower-cased view of a text with dashes unified and runs
  of white space collapsed, its offset tables, and the maps between normalized runes, normalized
  bytes and original bytes.  The two binary searches are \<open>lower_bound\<close>.
\<close>

record norm_text =
  original :: string
  normalized :: string
  orig_offsets :: "nat list"
  orig_ends :: "nat list"
  norm_byte_offsets :: "nat list"

definition is_dash :: "rune \<Rightarrow> bool" where
  "is_dash r \<longleftrightarrow> r \<in> {45, 0x2010, 0x2011, 0x2012, 0x2013, 0x2014, 0x2015, 0x2212, 0xFE58, 0xFE63, 0xFF0D, 0xAD}"

definition written_rune :: "ucd \<Rightarrow> rune \<Rightarrow> rune" where
  "written_rune u r = (if is_dash r then 45 else if is_space r then 32 else to_lower u r)"

text \<open>The loop over the runes: what is written, the original offset and end, and the offset in the
  normalized text, for each rune that is kept.\<close>

fun norm_loop :: "ucd \<Rightarrow> nat \<Rightarrow> nat \<Rightarrow> bool \<Rightarrow> rune list \<Rightarrow> (rune \<times> nat \<times> nat \<times> nat) list" where
  "norm_loop u byte_off norm_off prev_space [] = []"
| "norm_loop u byte_off norm_off prev_space (r # rs) =
     (let rlen = length (encode_rune r) in
      if \<not> is_dash r \<and> is_space r \<and> prev_space
      then norm_loop u (byte_off + rlen) norm_off prev_space rs
      else
        let w = written_rune u r in
        (w, byte_off, byte_off + rlen, norm_off)
        # norm_loop u (byte_off + rlen) (norm_off + length (encode_rune w)) (is_space r) rs)"

definition norm_new :: "ucd \<Rightarrow> string \<Rightarrow> norm_text" where
  "norm_new u s =
     (let xs = norm_loop u 0 0 False (runes s) in
      \<lparr>original = s,
       normalized = encode_all (map fst xs),
       orig_offsets = map (\<lambda>(w, a, b, n). a) xs,
       orig_ends = map (\<lambda>(w, a, b, n). b) xs,
       norm_byte_offsets = map (\<lambda>(w, a, b, n). n) xs\<rparr>)"

definition map_span :: "norm_text \<Rightarrow> int \<Rightarrow> int \<Rightarrow> int \<times> int" where
  "map_span t norm_start norm_end =
     (let n = int (length (orig_offsets t));
          i = (if norm_start < 0 then 0 else norm_start);
          j = (if norm_end > n then n else norm_end) in
      if n = 0 then (0, 0)
      else if i \<ge> n then (int (length (original t)), int (length (original t)))
      else (int (orig_offsets t ! nat i),
            if 0 < j \<and> j \<le> int (length (orig_ends t)) then int (orig_ends t ! nat (j - 1))
            else int (length (original t))))"

definition original_slice :: "norm_text \<Rightarrow> int \<Rightarrow> int \<Rightarrow> string res" where
  "original_slice t norm_start norm_end =
     (case map_span t norm_start norm_end of (s, e) \<Rightarrow> go_slice (original t) s e)"

definition norm_len :: "norm_text \<Rightarrow> nat" where
  "norm_len t = length (orig_offsets t)"

function lower_bound :: "nat list \<Rightarrow> int \<Rightarrow> nat \<Rightarrow> nat \<Rightarrow> nat" where
  "lower_bound xs x lo hi =
     (if lo < hi then
        let mid = (lo + hi) div 2 in
        if int (xs ! mid) < x then lower_bound xs x (mid + 1) hi else lower_bound xs x lo mid
      else lo)"
  by pat_completeness auto
termination
  by (relation "measure (\<lambda>(xs, x, lo, hi). hi - lo)") auto

declare lower_bound.simps [simp del]

definition byte_to_rune :: "norm_text \<Rightarrow> int \<Rightarrow> nat" where
  "byte_to_rune t byte_off =
     (if norm_byte_offsets t = [] then 0
      else lower_bound (norm_byte_offsets t) byte_off 0 (length (norm_byte_offsets t)))"

definition rune_to_byte :: "norm_text \<Rightarrow> int \<Rightarrow> nat" where
  "rune_to_byte t rune_idx =
     (if rune_idx < 0 then 0
      else if rune_idx \<ge> int (length (norm_byte_offsets t)) then length (normalized t)
      else norm_byte_offsets t ! nat rune_idx)"

definition original_to_norm :: "norm_text \<Rightarrow> int \<Rightarrow> nat" where
  "original_to_norm t orig_offset = lower_bound (orig_offsets t) orig_offset 0 (length (orig_offsets t))"

section \<open>The binary search\<close>

lemma lower_bound_spec:
  assumes "sorted xs" "lo \<le> hi" "hi \<le> length xs"
  shows "lo \<le> lower_bound xs x lo hi \<and> lower_bound xs x lo hi \<le> hi
    \<and> (\<forall>i. lo \<le> i \<longrightarrow> i < lower_bound xs x lo hi \<longrightarrow> int (xs ! i) < x)
    \<and> (\<forall>i. lower_bound xs x lo hi \<le> i \<longrightarrow> i < hi \<longrightarrow> x \<le> int (xs ! i))"
  using assms
proof (induction xs x lo hi rule: lower_bound.induct)
  case (1 xs x lo hi)
  show ?case
  proof (cases "lo < hi")
    case False
    then have "lower_bound xs x lo hi = lo"
      by (subst lower_bound.simps) simp
    then show ?thesis
      using False "1.prems" by simp
  next
    case True
    define mid where "mid = (lo + hi) div 2"
    have mid: "lo \<le> mid" "mid < hi"
      using True by (auto simp: mid_def)
    have le: "xs ! i \<le> xs ! j" if "i \<le> j" "j < hi" for i j
      using sorted_nth_mono[OF "1.prems"(1) that(1)] that(2) "1.prems"(3) by simp
    show ?thesis
    proof (cases "int (xs ! mid) < x")
      case b: True
      have "lower_bound xs x lo hi = lower_bound xs x (mid + 1) hi"
        using True b by (subst lower_bound.simps) (simp add: mid_def[symmetric])
      moreover have low: "int (xs ! i) < x" if "i < mid + 1" for i
        using le[of i mid] that mid(2) b by simp
      moreover note "1.IH"(1)[OF True mid_def b "1.prems"(1)]
      ultimately show ?thesis
        using mid "1.prems"(3) by (auto simp: linorder_not_less) (meson linorder_not_less low)
    next
      case b: False
      have "lower_bound xs x lo hi = lower_bound xs x lo mid"
        using True b by (subst lower_bound.simps) (simp add: mid_def[symmetric])
      moreover have high: "x \<le> int (xs ! i)" if "mid \<le> i" "i < hi" for i
        using le[of mid i] that b by simp
      moreover note "1.IH"(2)[OF True mid_def b "1.prems"(1)]
      ultimately show ?thesis
        using mid "1.prems"(3) by (auto simp: linorder_not_less)
    qed
  qed
qed

section \<open>The positions that are kept\<close>

definition keeps :: "rune list \<Rightarrow> nat \<Rightarrow> bool" where
  "keeps rs x \<longleftrightarrow> \<not> is_space (rs ! x) \<or> x = 0 \<or> \<not> is_space (rs ! (x - 1))"

definition kept :: "rune list \<Rightarrow> nat list" where
  "kept rs = filter (keeps rs) [0..<length rs]"

lemma dash_is_no_space: "is_dash r \<Longrightarrow> \<not> is_space r"
  by (auto simp: is_dash_def is_space_def)

lemma norm_loop_eq:
  assumes "p \<longleftrightarrow> pre \<noteq> [] \<and> is_space (last pre)"
  shows "map (\<lambda>(w, a, b, n). (w, a, b)) (norm_loop u (length (encode_all pre)) no p rs)
    = map (\<lambda>x. (written_rune u ((pre @ rs) ! x), byte_offset (pre @ rs) x, byte_offset (pre @ rs) (Suc x)))
        (filter (keeps (pre @ rs)) [length pre..<length (pre @ rs)])"
  using assms
proof (induction rs arbitrary: pre no p)
  case Nil
  then show ?case by simp
next
  case (Cons r rs)
  have upt: "[length pre..<length (pre @ r # rs)] = length pre # [length (pre @ [r])..<length ((pre @ [r]) @ rs)]"
    by (simp add: upt_conv_Cons del: upt_Suc)
  have keep: "keeps (pre @ r # rs) (length pre) \<longleftrightarrow> \<not> (is_space r \<and> p)"
    using Cons.prems by (cases pre rule: rev_cases) (auto simp: keeps_def nth_append)
  have off: "byte_offset (pre @ r # rs) (length pre) = length (encode_all pre)"
    "byte_offset (pre @ r # rs) (Suc (length pre)) = length (encode_all pre) + length (encode_rune r)"
    by (simp_all add: byte_offset_def)
  note IH = Cons.IH[of "is_space r" "pre @ [r]"]
  show ?case
    using IH keep off dash_is_no_space[of r] unfolding upt
    by (auto simp: Let_def)
qed

lemma norm_loop_offsets:
  "map (\<lambda>(w, a, b, n). n) (norm_loop u bo no p rs)
    = offsets_from no (map (\<lambda>x. length (encode_rune (fst x))) (norm_loop u bo no p rs))"
  by (induction u bo no p rs rule: norm_loop.induct) (simp_all add: Let_def)

definition written :: "ucd \<Rightarrow> rune list \<Rightarrow> rune list" where
  "written u rs = map (\<lambda>x. written_rune u (rs ! x)) (kept rs)"

lemma norm_new_fields:
  "original (norm_new u s) = s"
  "normalized (norm_new u s) = encode_all (written u (runes s))"
  "orig_offsets (norm_new u s) = map (byte_offset (runes s)) (kept (runes s))"
  "orig_ends (norm_new u s) = map (\<lambda>x. byte_offset (runes s) (Suc x)) (kept (runes s))"
  "norm_byte_offsets (norm_new u s) = map (byte_offset (written u (runes s))) [0..<length (kept (runes s))]"
proof -
  let ?xs = "norm_loop u 0 0 False (runes s)"
  have eq: "map (\<lambda>(w, a, b, n). (w, a, b)) ?xs = map (\<lambda>x. (written_rune u (runes s ! x),
      byte_offset (runes s) x, byte_offset (runes s) (Suc x))) (kept (runes s))"
    using norm_loop_eq[of False "[]" u 0 "runes s"] by (simp add: kept_def)
  have w: "map fst ?xs = written u (runes s)"
    using arg_cong[OF eq, of "map fst"] by (simp add: written_def comp_def split_def)
  have len: "length ?xs = length (kept (runes s))"
    using arg_cong[OF eq, of length] by simp
  show "original (norm_new u s) = s" "normalized (norm_new u s) = encode_all (written u (runes s))"
    using w by (simp_all add: norm_new_def Let_def)
  show "orig_offsets (norm_new u s) = map (byte_offset (runes s)) (kept (runes s))"
    using arg_cong[OF eq, of "map (fst \<circ> snd)"] by (simp add: norm_new_def Let_def comp_def split_def)
  show "orig_ends (norm_new u s) = map (\<lambda>x. byte_offset (runes s) (Suc x)) (kept (runes s))"
    using arg_cong[OF eq, of "map (snd \<circ> snd)"] by (simp add: norm_new_def Let_def comp_def split_def)
  have "norm_byte_offsets (norm_new u s) = offsets_from 0 (map (length \<circ> encode_rune) (written u (runes s)))"
    using norm_loop_offsets[of u 0 0 False "runes s"]
    by (simp add: norm_new_def Let_def comp_def flip: w)
  also have "\<dots> = map (byte_offset (written u (runes s))) [0..<length (kept (runes s))]"
    by (rule nth_equalityI)
      (simp_all add: nth_offsets_from byte_offset_def encode_all_def length_concat take_map comp_def written_def)
  finally show "norm_byte_offsets (norm_new u s) = map (byte_offset (written u (runes s))) [0..<length (kept (runes s))]" .
qed

lemma norm_len_eq: "norm_len (norm_new u s) = length (kept (runes s))"
  by (simp add: norm_len_def norm_new_fields)

lemma kept_less: "i < length (kept rs) \<Longrightarrow> kept rs ! i < length rs"
  using nth_mem[of i "kept rs"] by (auto simp: kept_def)

section \<open>Spans\<close>

lemma upt_split: "a \<le> b \<Longrightarrow> b \<le> c \<Longrightarrow> [a..<c] = [a..<b] @ [b..<c]"
  by (metis le_add_diff_inverse upt_add_eq_append)

lemma map_span_eq:
  assumes "i < j" "j \<le> norm_len (norm_new u s)"
  shows "map_span (norm_new u s) (int i) (int j) =
    (int (byte_offset (runes s) (kept (runes s) ! i)), int (byte_offset (runes s) (Suc (kept (runes s) ! (j - 1)))))"
proof -
  have "j - 1 < length (kept (runes s))" "i < length (kept (runes s))"
    using assms by (auto simp: norm_len_eq)
  moreover have "nat (int j - 1) = j - 1"
    using assms by simp
  ultimately show ?thesis
    using assms by (auto simp: map_span_def norm_new_fields norm_len_def Let_def)
qed

lemma filter_upt_nth:
  assumes "P a" "a < n"
  shows "filter P [0..<n] ! length (filter P [0..<a]) = a" "length (filter P [0..<a]) < length (filter P [0..<n])"
proof -
  have "[0..<n] = [0..<a] @ a # [Suc a..<n]"
    using assms(2) upt_split[of 0 a n] by (simp add: upt_conv_Cons del: upt_Suc)
  then have eq: "filter P [0..<n] = filter P [0..<a] @ a # filter P [Suc a..<n]"
    using assms(1) by simp
  show "filter P [0..<n] ! length (filter P [0..<a]) = a"
    unfolding eq by simp
  show "length (filter P [0..<a]) < length (filter P [0..<n])"
    unfolding eq by simp
qed

lemma filter_upt_index:
  assumes "i < length (filter P [0..<n])"
  shows "length (filter P [0..<filter P [0..<n] ! i]) = i"
proof -
  let ?ks = "filter P [0..<n]"
  have "P (?ks ! i)" "?ks ! i < n"
    using nth_mem[OF assms] by auto
  then have "?ks ! length (filter P [0..<?ks ! i]) = ?ks ! i" "length (filter P [0..<?ks ! i]) < length ?ks"
    by (rule filter_upt_nth)+
  then show ?thesis
    using assms by (simp add: nth_eq_iff_index_eq)
qed

lemma filter_upt_slice:
  assumes "i < j" "j \<le> length (filter P [0..<n])"
  shows "filter P [filter P [0..<n] ! i..<Suc (filter P [0..<n] ! (j - 1))] = drop i (take j (filter P [0..<n]))"
proof -
  let ?ks = "filter P [0..<n]"
  let ?a = "?ks ! i" and ?c = "?ks ! (j - 1)"
  have len: "i < length ?ks" "j - 1 < length ?ks"
    using assms by auto
  have c: "P ?c" "?c < n"
    using nth_mem[OF len(2)] by auto
  have "sorted ?ks"
    by (simp add: sorted_wrt_filter)
  then have ac: "?a \<le> ?c"
    using assms len by (auto intro: sorted_nth_mono)
  have "[0..<n] = [0..<Suc ?c] @ [Suc ?c..<n]"
    using c(2) by (intro upt_split) auto
  then have "?ks = filter P [0..<Suc ?c] @ filter P [Suc ?c..<n]"
    by (metis filter_append)
  moreover have "length (filter P [0..<Suc ?c]) = j"
    using filter_upt_index[OF len(2)] assms(1) c(1) by simp
  ultimately have tk: "take j ?ks = filter P [0..<Suc ?c]"
    by (metis append_eq_conv_conj)
  have "[0..<Suc ?c] = [0..<?a] @ [?a..<Suc ?c]"
    using ac by (intro upt_split) auto
  then have "filter P [0..<Suc ?c] = filter P [0..<?a] @ filter P [?a..<Suc ?c]"
    by (metis filter_append)
  then show ?thesis
    unfolding tk using filter_upt_index[OF len(1)] by simp
qed

lemma kept_segment:
  assumes "i < j" "j \<le> length (kept rs)"
    and "a = kept rs ! i" "b = Suc (kept rs ! (j - 1))"
  shows "map (\<lambda>x. x + a) (kept (drop a (take b rs))) = drop i (take j (kept rs))"
proof -
  let ?seg = "drop a (take b rs)"
  have "j - 1 < length (kept rs)"
    using assms(1,2) by simp
  then have b: "b \<le> length rs"
    using kept_less[of "j - 1" rs] assms(4) by simp
  have "keeps rs a"
    using nth_mem[of i "kept rs"] assms by (auto simp: kept_def)
  then have "keeps ?seg x = keeps rs (x + a)" if "x < b - a" for x
    using that b by (cases x) (auto simp: keeps_def add.commute)
  then have "filter (keeps ?seg) [0..<b - a] = filter (\<lambda>x. keeps rs (x + a)) [0..<b - a]"
    by (intro filter_cong) auto
  moreover have "length ?seg = b - a"
    using b by simp
  ultimately have "map (\<lambda>x. x + a) (kept ?seg) = filter (keeps rs) (map (\<lambda>x. x + a) [0..<b - a])"
    unfolding kept_def by (simp only: filter_map comp_def)
  also have "map (\<lambda>x. x + a) [0..<b - a] = [a..<b]"
    by (rule nth_equalityI) auto
  also have "filter (keeps rs) [a..<b] = drop i (take j (kept rs))"
    using filter_upt_slice[of i j "keeps rs" "length rs"] assms by (simp add: kept_def)
  finally show ?thesis .
qed

lemma slice_encode_all:
  assumes "i \<le> j"
  shows "slice (encode_all rs) (int (byte_offset rs i)) (int (byte_offset rs j)) = encode_all (drop i (take j rs))"
proof -
  have tj: "take j rs = take i rs @ drop i (take j rs)"
    using assms by (metis append_take_drop_id min.absorb1 take_take)
  have "encode_all rs = encode_all (take i rs) @ encode_all (drop i (take j rs)) @ encode_all (drop j rs)"
    using tj by (metis append.assoc append_take_drop_id encode_all_simps(3))
  moreover have "int (byte_offset rs j) =
      int (length (encode_all (take i rs))) + int (length (encode_all (drop i (take j rs))))"
    unfolding byte_offset_def by (subst tj) simp
  ultimately show ?thesis
    using slice_mid[of "encode_all (take i rs)" "encode_all (drop i (take j rs))"]
    by (metis byte_offset_def)
qed

text \<open>The original text a normalized span is mapped to normalizes to the text of the span.\<close>

lemma map_span_normalizes:
  assumes "valid_string s" "i < j" "j \<le> norm_len (norm_new u s)"
    and "map_span (norm_new u s) (int i) (int j) = (a, b)"
  shows "slice_ok s a b \<and> valid_string (slice s a b)
    \<and> normalized (norm_new u (slice s a b))
      = slice (normalized (norm_new u s)) (int (rune_to_byte (norm_new u s) (int i))) (int (rune_to_byte (norm_new u s) (int j)))"
proof -
  define rs where "rs = runes s"
  define x where "x = kept rs ! i"
  define y where "y = Suc (kept rs ! (j - 1))"
  have j: "j \<le> length (kept rs)"
    using assms(3) by (simp add: norm_len_eq rs_def)
  have ab: "a = int (byte_offset rs x)" "b = int (byte_offset rs y)"
    using assms(4) map_span_eq[OF assms(2,3)] by (simp_all add: rs_def x_def y_def)
  have "sorted (kept rs)"
    by (simp add: kept_def sorted_wrt_filter)
  then have xy: "x \<le> y"
    using assms(2) j by (auto simp: x_def y_def intro!: le_SucI sorted_nth_mono)
  have seg: "slice s a b = encode_all (drop x (take y rs))"
    unfolding ab rs_def by (rule slice_at_boundaries[OF assms(1) xy])
  have vseg: "list_all valid_rune (drop x (take y rs))"
    using runes_valid[OF assms(1)] by (auto simp: rs_def list_all_iff dest: in_set_dropD in_set_takeD)
  have runes_seg: "runes (slice s a b) = drop x (take y rs)"
    unfolding seg by (rule runes_encode_all[OF vseg])
  have "written u (drop x (take y rs)) = drop i (take j (written u rs))"
  proof -
    have ks: "map (\<lambda>z. z + x) (kept (drop x (take y rs))) = drop i (take j (kept rs))"
      by (rule kept_segment[OF assms(2) j x_def y_def])
    have "written u (drop x (take y rs)) = map (\<lambda>z. written_rune u (rs ! (z + x))) (kept (drop x (take y rs)))"
      unfolding written_def
    proof (rule map_cong[OF refl])
      fix z assume "z \<in> set (kept (drop x (take y rs)))"
      then have z: "x + z < length (take y rs)"
        by (auto simp: kept_def)
      then have "drop x (take y rs) ! z = rs ! (z + x)"
        by (simp add: nth_drop add.commute)
      then show "written_rune u (drop x (take y rs) ! z) = written_rune u (rs ! (z + x))"
        by simp
    qed
    also have "\<dots> = map (\<lambda>z. written_rune u (rs ! z)) (map (\<lambda>z. z + x) (kept (drop x (take y rs))))"
      by simp
    finally show ?thesis
      unfolding ks by (simp add: written_def take_map drop_map)
  qed
  then have norm: "written u (runes (slice s a b)) = drop i (take j (written u rs))"
    by (simp only: runes_seg)
  have off: "rune_to_byte (norm_new u s) (int k) = byte_offset (written u rs) k" if "k \<le> length (kept rs)" for k
    using that by (auto simp: rune_to_byte_def norm_new_fields written_def byte_offset_def rs_def)
  have "slice_ok s a b"
    using byte_offset_mono[OF xy, of rs] byte_offset_le[of rs y] encode_runes[OF assms(1)]
    by (simp add: ab slice_ok_def rs_def)
  moreover have "valid_string (slice s a b)"
    unfolding seg by (rule valid_encode_all[OF vseg])
  ultimately show ?thesis
    using slice_encode_all[of i j "written u rs"] assms(2) j off[of i] off[of j]
    by (simp add: rs_def[symmetric] norm norm_new_fields(2))
qed

text \<open>A span of the normalized text is never empty in the original.\<close>

lemma map_span_nonempty:
  assumes "i < j" "j \<le> norm_len (norm_new u s)"
  shows "fst (map_span (norm_new u s) (int i) (int j)) < snd (map_span (norm_new u s) (int i) (int j))"
proof -
  let ?rs = "runes s"
  have j: "j \<le> length (kept ?rs)"
    using assms(2) by (simp add: norm_len_eq)
  have jl: "j - 1 < length (kept ?rs)"
    using assms(1) j by simp
  have "sorted (kept ?rs)"
    by (simp add: kept_def sorted_wrt_filter)
  then have "kept ?rs ! i \<le> kept ?rs ! (j - 1)"
    using assms(1) j by (auto intro: sorted_nth_mono)
  then have "byte_offset ?rs (kept ?rs ! i) < byte_offset ?rs (Suc (kept ?rs ! (j - 1)))"
    using kept_less[of "j - 1" ?rs] jl by (intro byte_offset_strict) auto
  then show ?thesis
    unfolding map_span_eq[OF assms] by simp
qed

text \<open>Going from a rune to its byte and back is the identity.\<close>

lemma byte_to_rune_of_rune:
  assumes "i < norm_len (norm_new u s)"
  shows "byte_to_rune (norm_new u s) (int (rune_to_byte (norm_new u s) (int i))) = i"
proof -
  let ?n = "length (kept (runes s))" and ?w = "written u (runes s)"
  let ?xs = "map (byte_offset ?w) [0..<?n]"
  have i: "i < ?n"
    using assms by (simp add: norm_len_eq)
  have lw: "length ?w = ?n"
    by (simp add: written_def)
  have srt: "sorted ?xs"
    by (auto simp: sorted_iff_nth_mono intro: byte_offset_mono)
  define k where "k = lower_bound ?xs (int (byte_offset ?w i)) 0 ?n"
  have k: "k \<le> ?n" "\<And>m. m < k \<Longrightarrow> byte_offset ?w m < byte_offset ?w i"
    "\<And>m. k \<le> m \<Longrightarrow> m < ?n \<Longrightarrow> byte_offset ?w i \<le> byte_offset ?w m"
    using lower_bound_spec[OF srt, of 0 ?n "int (byte_offset ?w i)"] by (auto simp: k_def)
  have "\<not> i < k"
    using k(2)[of i] by auto
  moreover have "\<not> k < i"
    using k(3)[of k] byte_offset_strict[of k i ?w] i lw by fastforce
  ultimately have "k = i" by simp
  then show ?thesis
    using i by (auto simp: byte_to_rune_def rune_to_byte_def norm_new_fields k_def)
qed

end
