(* ===== verification/Recognizer.thy ===== *)
theory Recognizer
  imports Pii Normalize
begin

text \<open>
  \<open>internal/recognizer/recognizer.go\<close>: the interface of a recognizer, the registry, and what every
  recognizer does at its end: map a span back to the original text and emit a candidate.  A slice
  of the original out of range is a panic.  The contract of a recognizer, that on a valid text it
  returns candidates that lie in the text and carry its bytes, is the locale \<open>rule_recognizer\<close>.
\<close>

type_synonym recognizer = "norm_text \<Rightarrow> candidate_span list res"

definition emit :: "etype \<Rightarrow> f64 \<Rightarrow> esource list \<Rightarrow> string \<Rightarrow> norm_text \<Rightarrow> int \<times> int \<Rightarrow> candidate_span res" where
  "emit typ score sources reason t sp =
     rbind (go_slice (original t) (fst sp) (snd sp)) (\<lambda>s.
       Inr \<lparr>c_type = typ, c_text = s, c_start = fst sp, c_end = snd sp, c_score = score,
            c_sources = sources, c_reason = reason, c_contextual = False\<rparr>)"

fun collect :: "('a \<Rightarrow> 'b res) \<Rightarrow> 'a list \<Rightarrow> 'b list res" where
  "collect f [] = Inr []"
| "collect f (x # xs) = rbind (f x) (\<lambda>y. rbind (collect f xs) (\<lambda>ys. Inr (y # ys)))"

definition registry_add :: "recognizer list \<Rightarrow> recognizer \<Rightarrow> recognizer list" where
  "registry_add reg rec = reg @ [rec]"

fun registry_recognize :: "recognizer list \<Rightarrow> recognizer" where
  "registry_recognize [] t = Inr []"
| "registry_recognize (rec # reg) t =
     rbind (rec t) (\<lambda>xs. rbind (registry_recognize reg t) (\<lambda>ys. Inr (xs @ ys)))"

section \<open>The contract\<close>

text \<open>
  What the tables of \<open>unicode\<close> are relied on for: lower case of a code point is a code point, and
  ASCII characters other than the capitals and the small Russian letters are their own lower case.
\<close>

definition caseless :: "rune \<Rightarrow> bool" where
  "caseless r \<longleftrightarrow> r < 65 \<or> 90 < r \<and> r < 128 \<or> 0x430 \<le> r \<and> r \<le> 0x44F \<or> r = 0x451"

definition ucd_ok :: "ucd \<Rightarrow> bool" where
  "ucd_ok u \<longleftrightarrow> (\<forall>r. valid_rune r \<longrightarrow> valid_rune (to_lower u r)) \<and> (\<forall>r. caseless r \<longrightarrow> to_lower u r = r)"

definition candidate_ok :: "string \<Rightarrow> candidate_span \<Rightarrow> bool" where
  "candidate_ok s c \<longleftrightarrow> slice_ok s (c_start c) (c_end c) \<and> c_start c < c_end c
     \<and> c_text c = slice s (c_start c) (c_end c) \<and> valid_string (c_text c) \<and> c_score c \<noteq> NaN \<and> c_score c \<noteq> PosInf"

lemma valid_written: "ucd_ok u \<Longrightarrow> list_all valid_rune rs \<Longrightarrow> list_all valid_rune (written u rs)"
proof -
  assume u: "ucd_ok u" and rs: "list_all valid_rune rs"
  have "valid_rune (written_rune u (rs ! x))" if "x \<in> set (kept rs)" for x
  proof -
    have "x < length rs"
      using that by (auto simp: kept_def)
    then have "valid_rune (rs ! x)"
      using rs by (simp add: list_all_length)
    then show ?thesis
      using u by (auto simp: written_rune_def ucd_ok_def valid_rune_def)
  qed
  then show ?thesis
    by (simp add: written_def list_all_iff)
qed

lemma runes_normalized:
  assumes "ucd_ok u" "valid_string s"
  shows "runes (normalized (norm_new u s)) = written u (runes s)" "valid_string (normalized (norm_new u s))"
    "length (runes (normalized (norm_new u s))) = norm_len (norm_new u s)"
proof -
  have v: "list_all valid_rune (written u (runes s))"
    using assms valid_written runes_valid by blast
  then show "runes (normalized (norm_new u s)) = written u (runes s)" "valid_string (normalized (norm_new u s))"
    by (simp_all add: norm_new_fields runes_encode_all valid_encode_all)
  then show "length (runes (normalized (norm_new u s))) = norm_len (norm_new u s)"
    by (simp add: norm_len_eq written_def)
qed

text \<open>Emitting a nonempty span of the normalized text never panics, and the candidate fits.\<close>

lemma emit_ok:
  assumes "valid_string s" "i < j" "j \<le> norm_len (norm_new u s)" "score \<noteq> NaN" "score \<noteq> PosInf"
  obtains c where "emit typ score sources reason (norm_new u s) (map_span (norm_new u s) (int i) (int j)) = Inr c"
    "candidate_ok s c" "c_type c = typ" "c_score c = score"
    "normalized (norm_new u (c_text c)) =
       slice (normalized (norm_new u s)) (int (rune_to_byte (norm_new u s) (int i))) (int (rune_to_byte (norm_new u s) (int j)))"
    "c_start c = fst (map_span (norm_new u s) (int i) (int j))" "c_end c = snd (map_span (norm_new u s) (int i) (int j))"
proof -
  obtain a b where ab: "map_span (norm_new u s) (int i) (int j) = (a, b)"
    by fastforce
  note n = map_span_normalizes[OF assms(1-3) ab]
  have "a < b"
    using map_span_nonempty[OF assms(2,3)] ab by simp
  let ?c = "\<lparr>c_type = typ, c_text = slice s a b, c_start = a, c_end = b, c_score = score,
    c_sources = sources, c_reason = reason, c_contextual = False\<rparr>"
  show ?thesis
  proof (rule that[of ?c])
    show "emit typ score sources reason (norm_new u s) (map_span (norm_new u s) (int i) (int j)) = Inr ?c"
      using n by (simp add: emit_def ab norm_new_fields(1))
    show "candidate_ok s ?c"
      using n \<open>a < b\<close> assms(4,5) by (simp add: candidate_ok_def)
  qed (use n ab in simp_all)
qed

lemma collect_ok:
  assumes "\<And>x. x \<in> set xs \<Longrightarrow> \<exists>y. f x = Inr y \<and> P x y"
  shows "\<exists>ys. collect f xs = Inr ys \<and> list_all2 P xs ys"
  using assms
proof (induction xs)
  case Nil
  then show ?case by simp
next
  case (Cons x xs)
  obtain y where "f x = Inr y" "P x y"
    using Cons.prems[of x] by auto
  moreover obtain ys where "collect f xs = Inr ys" "list_all2 P xs ys"
    using Cons.IH Cons.prems by auto
  ultimately show ?case by simp
qed

lemma list_all2_right: "list_all2 P xs ys \<Longrightarrow> y \<in> set ys \<Longrightarrow> \<exists>x \<in> set xs. P x y"
  by (metis in_set_conv_nth list_all2_conv_all_nth)

text \<open>The tables on ASCII and the Russian letters.\<close>

definition russian_ucd :: ucd where
  "russian_ucd = \<lparr>
     to_lower = (\<lambda>r. if 65 \<le> r \<and> r \<le> 90 \<or> 0x410 \<le> r \<and> r \<le> 0x42F then r + 32 else if r = 0x401 then 0x451 else r),
     is_letter = (\<lambda>r. 65 \<le> r \<and> r \<le> 90 \<or> 97 \<le> r \<and> r \<le> 122 \<or> 0x410 \<le> r \<and> r \<le> 0x44F \<or> r \<in> {0x401, 0x451}),
     is_digit = (\<lambda>r. 48 \<le> r \<and> r \<le> 57)\<rparr>"

lemma russian_ucd_ok: "ucd_ok russian_ucd"
  by (auto simp: ucd_ok_def russian_ucd_def caseless_def valid_rune_def)

text \<open>The recognizers keep the contract whatever the tables are, as long as they are right.\<close>

locale tables =
  fixes u :: ucd
  assumes tables_ok: "ucd_ok u"

interpretation russian: tables russian_ucd
  by unfold_locales (rule russian_ucd_ok)

locale rule_recognizer =
  fixes u :: ucd and rec :: recognizer and ty :: etype
  assumes recognizes: "valid_string s \<Longrightarrow>
    \<exists>cs. rec (norm_new u s) = Inr cs \<and> (\<forall>c \<in> set cs. candidate_ok s c \<and> c_type c = ty)"
begin

lemma never_panics: "valid_string s \<Longrightarrow> rec (norm_new u s) \<noteq> Inl e"
  using recognizes by fastforce

lemma fits: "valid_string s \<Longrightarrow> rec (norm_new u s) = Inr cs \<Longrightarrow> c \<in> set cs \<Longrightarrow> candidate_ok s c \<and> c_type c = ty"
  using recognizes by fastforce

end

lemma registry_ok:
  assumes "\<And>rec. rec \<in> set reg \<Longrightarrow> \<exists>cs. rec t = Inr cs \<and> (\<forall>c \<in> set cs. P c)"
  shows "\<exists>cs. registry_recognize reg t = Inr cs \<and> (\<forall>c \<in> set cs. P c)"
  using assms
proof (induction reg)
  case Nil
  then show ?case by simp
next
  case (Cons r reg)
  obtain xs where "r t = Inr xs" "\<forall>c \<in> set xs. P c"
    using Cons.prems[of r] by auto
  moreover obtain ys where "registry_recognize reg t = Inr ys" "\<forall>c \<in> set ys. P c"
    using Cons.IH Cons.prems by auto
  ultimately show ?case by auto
qed

lemma registry_add_recognizes:
  "registry_recognize (registry_add reg r) t =
     rbind (registry_recognize reg t) (\<lambda>xs. rbind (r t) (\<lambda>ys. Inr (xs @ ys)))"
proof (induction reg)
  case Nil
  show ?case by (cases "r t") (simp_all add: registry_add_def)
next
  case (Cons q reg)
  show ?case
    by (cases "q t"; cases "registry_recognize reg t"; cases "r t")
      (use Cons.IH in \<open>simp_all add: registry_add_def\<close>)
qed

text \<open>Positions of bytes: the rune at or after a byte.\<close>

lemma norm_byte_offsets_eq:
  "norm_byte_offsets (norm_new u s) = map (byte_offset (written u (runes s))) [0..<norm_len (norm_new u s)]"
  by (simp add: norm_new_fields norm_len_eq)

lemma byte_to_rune_boundary:
  assumes "i \<le> norm_len (norm_new u s)"
  shows "byte_to_rune (norm_new u s) (int (byte_offset (written u (runes s)) i)) = i"
proof -
  let ?n = "norm_len (norm_new u s)" and ?w = "written u (runes s)"
  let ?xs = "map (byte_offset ?w) [0..<?n]"
  have lw: "length ?w = ?n"
    by (simp add: norm_len_eq written_def)
  have srt: "sorted ?xs"
    by (auto simp: sorted_iff_nth_mono intro: byte_offset_mono)
  define k where "k = lower_bound ?xs (int (byte_offset ?w i)) 0 ?n"
  have k: "k \<le> ?n" "\<And>m. m < k \<Longrightarrow> byte_offset ?w m < byte_offset ?w i"
    "\<And>m. k \<le> m \<Longrightarrow> m < ?n \<Longrightarrow> byte_offset ?w i \<le> byte_offset ?w m"
    using lower_bound_spec[OF srt, of 0 ?n "int (byte_offset ?w i)"] by (auto simp: k_def)
  have "\<not> i < k"
    using k(2)[of i] by auto
  moreover have "\<not> k < i"
    using k(3)[of k] byte_offset_strict[of k i ?w] assms lw by fastforce
  ultimately have "k = i" by simp
  then show ?thesis
    using assms by (cases "?n = 0") (auto simp: byte_to_rune_def norm_byte_offsets_eq k_def)
qed

lemma byte_to_rune_bounds:
  assumes "b1 = int (byte_offset (written u (runes s)) i)" "i < norm_len (norm_new u s)" "b1 < b2"
  shows "byte_to_rune (norm_new u s) b1 = i"
    and "i < byte_to_rune (norm_new u s) b2" "byte_to_rune (norm_new u s) b2 \<le> norm_len (norm_new u s)"
proof -
  let ?n = "norm_len (norm_new u s)" and ?w = "written u (runes s)"
  let ?xs = "map (byte_offset ?w) [0..<?n]"
  have srt: "sorted ?xs"
    by (auto simp: sorted_iff_nth_mono intro: byte_offset_mono)
  have spec: "lower_bound ?xs b 0 ?n \<le> ?n"
    "\<And>m. lower_bound ?xs b 0 ?n \<le> m \<Longrightarrow> m < ?n \<Longrightarrow> b \<le> int (byte_offset ?w m)" for b
    using lower_bound_spec[OF srt, of 0 ?n b] by auto
  have eq: "byte_to_rune (norm_new u s) b = lower_bound ?xs b 0 ?n" for b
    using assms(2) by (auto simp: byte_to_rune_def norm_byte_offsets_eq)
  show "byte_to_rune (norm_new u s) b2 \<le> ?n"
    unfolding eq by (rule spec(1))
  show "i < byte_to_rune (norm_new u s) b2"
    unfolding eq using spec(2)[of b2 i] assms by fastforce
  show "byte_to_rune (norm_new u s) b1 = i"
    using byte_to_rune_boundary[of i u s] assms(1,2) by simp
qed

end
