(* ===== verification/Dict.thy ===== *)
theory Dict
  imports GoStrings
begin

text \<open>
  \<open>internal/dict/dict.go\<close>: case-insensitive sets of words.  The map with empty values is a set.
  The order of \<open>Words\<close> is the iteration order of a Go map, so it is any list of the set's
  elements without repetition.

  Source literals in Russian are written in the seven-bit Russian code (KOI-7): the letters
  \<open>@A..Z[..]^_\<close> stand for the Cyrillic letters of that code, \<open>#\<close> for the letter U+0451, \<open>~\<close> for
  U+044D and \<open>$\<close> for the rouble sign; every other character stands for itself.  \<open>ru\<close> gives the
  UTF-8 bytes.
\<close>

definition koi7 :: "rune list" where
  "koi7 =
    [0x44E, 0x430, 0x431, 0x446, 0x434, 0x435, 0x444, 0x433, 0x445, 0x438, 0x439, 0x43A, 0x43B, 0x43C, 0x43D, 0x43E,
     0x43F, 0x44F, 0x440, 0x441, 0x442, 0x443, 0x436, 0x432, 0x44C, 0x44B, 0x437, 0x448, 0x44D, 0x449, 0x447, 0x44A]"

definition ru_char :: "char \<Rightarrow> rune" where
  "ru_char c =
     (if 64 \<le> byte c \<and> byte c \<le> 95 then koi7 ! (byte c - 64)
      else if c = CHR ''#'' then 0x451
      else if c = CHR ''~'' then 0x44D
      else if c = CHR ''$'' then 0x20BD
      else byte c)"

definition ru :: "string \<Rightarrow> string" where
  "ru s = encode_all (map ru_char s)"

section \<open>Dictionaries\<close>

type_synonym dict = "string set"

definition dict_new :: "ucd \<Rightarrow> string list \<Rightarrow> dict" where
  "dict_new u ws = set (map (lower_str u) ws)"

definition dict_contains :: "ucd \<Rightarrow> dict \<Rightarrow> string \<Rightarrow> bool" where
  "dict_contains u d w \<longleftrightarrow> lower_str u w \<in> d"

definition dict_merge :: "dict \<Rightarrow> dict \<Rightarrow> dict" where
  "dict_merge d other = d \<union> other"

definition dict_size :: "dict \<Rightarrow> nat" where
  "dict_size d = card d"

definition dict_words :: "dict \<Rightarrow> string list \<Rightarrow> bool" where
  "dict_words d ws \<longleftrightarrow> distinct ws \<and> set ws = d"

lemma dict_words_length: "dict_words d ws \<Longrightarrow> length ws = dict_size d"
  by (auto simp: dict_words_def dict_size_def distinct_card)

lemma dict_contains_new:
  "dict_contains u (dict_new u ws) w \<longleftrightarrow> (\<exists>v \<in> set ws. lower_str u v = lower_str u w)"
  by (auto simp: dict_contains_def dict_new_def image_iff eq_commute)

lemma dict_contains_merge:
  "dict_contains u (dict_merge d e) w \<longleftrightarrow> dict_contains u d w \<or> dict_contains u e w"
  by (auto simp: dict_contains_def dict_merge_def)

lemma dict_size_merge:
  "finite d \<Longrightarrow> finite e \<Longrightarrow> dict_size (dict_merge d e) \<le> dict_size d + dict_size e"
  by (simp add: dict_size_def dict_merge_def card_Un_le)

end
