(* ===== verification/DictData.thy ===== *)
theory DictData
  imports Dict
begin

text \<open>
  The word lists of \<open>internal/dict/dict.go\<close>, in the source's order and lines, written in the
  seven-bit Russian code of \<open>Dict\<close>.  The longest list is declared in two halves.
\<close>

definition first_names :: "string list" where
  "first_names = map ru
    [''ALEKSANDR'', ''ALEKSEJ'', ''ANDREJ'', ''ANNA'', ''ANTON'', ''ART#M'', ''ARTEM'',
     ''BORIS'', ''WADIM'', ''WALENTINA'', ''WALERIJ'', ''WASILIJ'', ''WERA'', ''WIKTOR'',
     ''WIKTORIQ'', ''WLADIMIR'', ''WLADISLAW'', ''WQ^ESLAW'', ''GALINA'', ''GEORGIJ'',
     ''GRIGORIJ'', ''DANIIL'', ''DANIL'', ''DENIS'', ''DMITRIJ'', ''EWGENIJ'', ''EKATERINA'',
     ''ELENA'', ''ELIZAWETA'', ''IWAN'', ''IGORX'', ''ILXQ'', ''INNA'', ''IRINA'', ''KIRILL'',
     ''KONSTANTIN'', ''KSENIQ'', ''LARISA'', ''LEW'', ''LEONID'', ''L@DMILA'', ''MAKSIM'',
     ''MARINA'', ''MARIQ'', ''MIHAIL'', ''NADEVDA'', ''NATALXQ'', ''NIKOLAJ'', ''NINA'',
     ''OLEG'', ''OLXGA'', ''PAWEL'', ''P#TR'', ''PETR'', ''RAISA'', ''ROMAN'', ''SWETLANA'',
     ''SERGEJ'', ''STANISLAW'', ''STEPAN'', ''TAMARA'', ''TATXQNA'', ''TIMOFEJ'', ''F#DOR'',
     ''FEDOR'', ''@LIQ'', ''@RIJ'', ''QKOW'', ''QROSLAW'']"

definition last_names :: "string list" where
  "last_names = map ru
    [''ABRAMOW'', ''AWDEEW'', ''ALEKSANDROW'', ''ALEKSEEW'', ''ANDREEW'', ''ANISIMOW'',
     ''ANTONOW'', ''ARTEMXEW'', ''ARHIPOW'', ''AFANASXEW'', ''BARANOW'', ''BELOW'',
     ''BELQEW'', ''BOGDANOW'', ''BOLDYREW'', ''BORODIN'', ''BYKOW'', ''WASILXEW'',
     ''WESELOW'', ''WINOGRADOW'', ''WOLKOW'', ''WOROBXEW'', ''WORONCOW'', ''GAWRILOW'',
     ''GERASIMOW'', ''GOLUBEW'', ''GON^AROW'', ''GORBUNOW'', ''GORDEEW'', ''GRIGORXEW'',
     ''DANILOW'', ''DENISOW'', ''DMITRIEW'', ''DOROFEEW'', ''DROZDOW'', ''EGOROW'',
     ''ER[OW'', ''EFIMOW'', ''VDANOW'', ''VUKOW'', ''ZAJCEW'', ''ZAHAROW'', ''ZWEREW'',
     ''ZOLOTOW'', ''IWANOW'', ''IGNATXEW'', ''ILXIN'', ''KABANOW'', ''KAZAKOW'',
     ''KALA[NIKOW'', ''KALININ'', ''KAPUSTIN'', ''KARPOW'', ''KISELEW'', ''KNQZEW'',
     ''KOWALEW'', ''KOZLOW'', ''KOLESNIKOW'', ''KOLOBOW'', ''KOMAROW'', ''KOROLEW'',
     ''KO[ELEW'', ''KUZNECOW'', ''KUZXMIN'', ''KULIKOW'', ''LEBEDEW'', ''LEONOW'',
     ''LIHA^EW'', ''LOBANOW'', ''LOGINOW'', ''LUKIN'', ''MAKAROW'', ''MAKSIMOW'',
     ''MALXCEW'', ''MARKOW'', ''MARTYNOW'', ''MASLOW'', ''MATWEEW'', ''MEDWEDEW'',
     ''MELXNIKOW'', ''MERKULOW'', ''MIRONOW'', ''MIHAJLOW'', ''MOL^ANOW'', ''MOROZOW'',
     ''NAZAROW'', ''NIKITIN'', ''NIKOLAEW'', ''NIKONOW'', ''NOWIKOW'', ''NOSOW'',
     ''ORLOW'', ''OSIPOW'', ''PAWLOW'', ''PANOW'', ''PETROW'', ''PETUHOW'', ''PLOTNIKOW'',
     ''POKROWSKIJ'', ''POLQKOW'', ''POPOW'', ''POTAPOW'', ''PROHOROW'', ''RODIONOW'',
     ''ROVKOW'', ''ROMANOW'', ''RYBAKOW'', ''SAWELXEW'', ''SAWIN'', ''SAFONOW'',
     ''SEMENOW'', ''SERGEEW'', ''SIDOROW'', ''SMIRNOW'', ''SOBOLEW'', ''SOKOLOW'',
     ''SOLOWXEW'', ''SOROKIN'', ''STEPANOW'', ''SUWOROW'', ''TARASOW'', ''TITOW'',
     ''TIHONOW'', ''TRETXQKOW'', ''TROFIMOW'', ''UWAROW'', ''FEDOROW'', ''FILATOW'',
     ''FILIPPOW'', ''FOMIN'', ''FROLOW'', ''HARITONOW'', ''CWETKOW'', ''^ERNOW'',
     ''^ERNY[EW'', ''[AROW'', ''[ESTAKOW'', ''[IRQEW'', '']UKIN'', ''@DIN'', ''QKOWLEW'',
     ''QKU[EW'']"

definition countries :: "string list" where
  "countries = map ru
    [''ROSSIQ'', ''ROSSIJSKAQ FEDERACIQ'', ''RF'', ''SSSR'', ''UKRAINA'', ''BELARUSX'',
     ''RESPUBLIKA BELARUSX'', ''RESPUBLIKI BELARUSX'', ''BELORUSSIQ'', ''KAZAHSTAN'',
     ''RESPUBLIKA KAZAHSTAN'', ''RESPUBLIKI KAZAHSTAN'', ''UZBEKISTAN'', ''TADVIKISTAN'',
     ''KIRGIZIQ'', ''KYRGYZSTAN'', ''TURKMENISTAN'', ''AZERBAJDVAN'', ''ARMENIQ'',
     ''RESPUBLIKA ARMENIQ'', ''RESPUBLIKI ARMENIQ'', ''GRUZIQ'', ''MOLDOWA'', ''MOLDAWIQ'',
     ''LITWA'', ''LATWIQ'', ''~STONIQ'', ''POLX[A'', ''RESPUBLIKA POLX[A'', ''RESPUBLIKI POLX[A'',
     ''GERMANIQ'', ''FRANCIQ'', ''ITALIQ'', ''ISPANIQ'', ''PORTUGALIQ'', ''WELIKOBRITANIQ'',
     ''S[A'', ''SOEDINENNYE [TATY'', ''SOEDIN#NNYE [TATY'', ''KANADA'', ''KITAJ'',
     ''KITAJSKAQ NARODNAQ RESPUBLIKA'', ''QPONIQ'', ''INDIQ'', ''BRAZILIQ'', ''ARGENTINA'',
     ''MEKSIKA'', ''TURCIQ'', ''IZRAILX'', ''EGIPET'', ''FINLQNDIQ'', ''[WECIQ'', ''NORWEGIQ'',
     ''DANIQ'', ''NIDERLANDY'', ''BELXGIQ'', ''[WEJCARIQ'', ''AWSTRIQ'', ''^EHIQ'', ''SLOWAKIQ'',
     ''WENGRIQ'', ''RUMYNIQ'', ''BOLGARIQ'', ''SERBIQ'', ''HORWATIQ'', ''GRECIQ'',
     ''KIPR'', ''MALXTA'', ''L@KSEMBURG'', ''IRLANDIQ'', ''ISLANDIQ'', ''AWSTRALIQ'',
     ''NOWAQ ZELANDIQ'', ''@VNAQ KOREQ'', ''SEWERNAQ KOREQ'', ''WXETNAM'', ''TAILAND'',
     ''INDONEZIQ'', ''MALAJZIQ'', ''SINGAPUR'', ''FILIPPINY'', ''PAKISTAN'',
     ''AFGANISTAN'', ''IRAN'', ''IRAK'', ''SIRIQ'', ''SAUDOWSKAQ ARAWIQ'', ''OA~'',
     ''KATAR'', ''KUWEJT'', ''BAHREJN'', ''OMAN'', ''IORDANIQ'', ''LIWAN'',
     ''MONGOLIQ'', ''NEPAL'', ''[RI-LANKA'', ''BANGLADE['', ''MXQNMA'', ''KAMBODVA'',
     ''LAOS'', ''KUBA'', ''WENESU~LA'', ''KOLUMBIQ'', ''PERU'', ''^ILI'', ''URUGWAJ'',
     ''PARAGWAJ'', ''BOLIWIQ'', ''~KWADOR'', ''PANAMA'', ''KOSTA-RIKA'', ''GWATEMALA'',
     ''GONDURAS'', ''NIKARAGUA'', ''SALXWADOR'', ''DOMINIKANA'', ''GAITI'', ''QMAJKA'',
     ''TRINIDAD'', ''BAGAMY'', ''BARBADOS'', ''@AR'', ''@VNAQ AFRIKA'', ''NIGERIQ'',
     ''KENIQ'', ''~FIOPIQ'', ''TANZANIQ'', ''UGANDA'', ''GANA'', ''SENEGAL'', ''MAROKKO'',
     ''ALVIR'', ''TUNIS'', ''LIWIQ'', ''SUDAN'', ''ANGOLA'', ''MOZAMBIK'', ''ZAMBIQ'',
     ''ZIMBABWE'', ''BOTSWANA'', ''NAMIBIQ'', ''MADAGASKAR'', ''MAWRIKIJ'']"

definition citizenship_keywords :: "string list" where
  "citizenship_keywords = map ru
    [''GRAVDANSTWO'', ''GRAVDANIN'', ''GRAVDANKA'', ''GRAVDANINOM'', ''GRAVDANKOJ'',
     ''PODDANSTWO'', ''NACIONALXNOSTX'']"

definition birth_place_keywords :: "string list" where
  "birth_place_keywords = map ru
    [''MESTO ROVDENIQ'', ''RODILSQ'', ''RODILASX'', ''RODILSQ W'', ''RODILASX W'',
     ''MESTO ROVDENIQ:'', ''UROVENEC'', ''UROVENKA'', ''RODOM IZ'']"

definition birth_date_keywords :: "string list" where
  "birth_date_keywords = map ru
    [''DATA ROVDENIQ'', ''RODILSQ'', ''RODILASX'', ''DENX ROVDENIQ'', ''GOD ROVDENIQ'',
     ''DATA ROVDENIQ:'', ''RODILSQ '', ''RODILASX '']"

definition issue_date_keywords :: "string list" where
  "issue_date_keywords = map ru
    [''DATA WYDA^I'', ''WYDAN'', ''WYDANO'', ''PASPORT WYDAN'', ''DATA WYDA^I:'',
     ''WYDAN '', ''WYDANO '']"

definition passport_issuer_keywords :: "string list" where
  "passport_issuer_keywords = map ru
    [''WYDAN'', ''WYDANO'', ''ORGAN'', ''ORGANOM'', ''KEM WYDAN'', ''KEM WYDAN:'',
     ''WYDAW[IJ'', ''WYDAW[IJ DOKUMENT'', ''OTDELOM'', ''UPRAWLENIEM'', ''OTDELENIEM'']"

definition department_code_keywords :: "string list" where
  "department_code_keywords = map ru
    [''KOD PODRAZDELENIQ'', ''KOD PODRAZDELENIQ:'', ''PODRAZDELENIE'', ''KOD'',
     ''PASPORT'', ''PASPORTA'', ''OTDEL'', ''OTDELENIE'', ''UPRAWLENIE'', ''OWM'',
     ''OMWD'', ''UMWD'', ''MWD'']"

definition full_name_keywords :: "string list" where
  "full_name_keywords = map ru
    [''FIO'', ''F.I.O'', ''F. I. O'', ''KLIENT'', ''ZAQWITELX'', ''DERVATELX'',
     ''ZA#M]IK'', ''ZAEM]IK'', ''PORU^ITELX'', ''SOTRUDNIK'', ''RABOTNIK'', ''PACIENT'',
     ''STUDENT'', ''ABONENT'', ''POLXZOWATELX'', ''WLADELEC'', ''PREDSTAWITELX'',
     ''GRAVDANIN'', ''GRAVDANKA'', ''IMQ'', ''FAMILIQ'', ''OT^ESTWO'', ''POLNOE IMQ'',
     ''POLNOE IMQ:'', ''IMQ:'', ''FAMILIQ:'', ''OT^ESTWO:'', ''F.I.O.:'', ''FIO:'',
     ''DANNYE KLIENTA'', ''DANNYE ZAQWITELQ'', ''DANNYE DERVATELQ'']"

definition cardholder_keywords :: "string list" where
  "cardholder_keywords = map ru
    [''cardholder'', ''card holder'', ''DERVATELX KARTY'', ''NA KARTE UKAZANO'',
     ''NA KARTE'', ''IMQ NA KARTE'', ''IMQ NA KARTE:'', ''cardholder name'',
     ''cardholder:'', ''DERVATELX KARTY:'', ''NA KARTE UKAZANO:'', ''DERVATELX'',
     ''DERVATELX:'']"

definition bank_context_keywords :: "string list" where
  "bank_context_keywords = map ru
    [''KARTA'', ''KARTY'', ''KARTE'', ''KARTU'', ''BANK'', ''BANKA'', ''BANKOWSKAQ'',
     ''BANKOWSKOJ'', ''PLATEVNAQ'', ''PLAT#VNAQ'', ''PLATEVNOJ'', ''PLAT#VNOJ'',
     ''cvv'', ''cvc'', ''cvv2'', ''cvc2'', ''PIN'', ''PIN-KOD'', ''PIN KOD'', ''pin'',
     ''pin-KOD'', ''pin KOD'', ''KOD'', ''KOD DOSTUPA'', ''KOD PODTWERVDENIQ'',
     ''S^ET'', ''S^#T'', ''S^ETA'', ''S^#TA'', ''OPLATA'', ''OPLATY'', ''PLATEV'',
     ''PLAT#V'', ''PLATEVA'', ''PLAT#VA'', ''PEREWOD'', ''PEREWODA'', ''REKWIZITY'',
     ''REKWIZITY KARTY'', ''NOMER KARTY'', ''NOMER S^ETA'', ''NOMER S^#TA'',
     ''SROK DEJSTWIQ'', ''DEJSTWUET DO'', ''valid'', ''expiry'', ''expiration'',
     ''BANKOMAT'', ''TERMINAL'', ''INTERNET-BANK'', ''INTERNET BANK'', ''MOBILXNYJ BANK'']"

definition address_keywords :: "string list" where
  "address_keywords = map ru
    [''ADRES'', ''ADRES:'', ''ADRES PROVIWANIQ'', ''ADRES REGISTRACII'',
     ''ADRES REGISTRACII:'', ''ADRES PROVIWANIQ:'', ''MESTO VITELXSTWA'',
     ''MESTO VITELXSTWA:'', ''MESTO REGISTRACII'', ''MESTO REGISTRACII:'',
     ''PROVIWAET'', ''PROVIWAET PO ADRESU'', ''ZAREGISTRIROWAN'', ''ZAREGISTRIROWANA'',
     ''ZAREGISTRIROWAN PO ADRESU'', ''ZAREGISTRIROWANA PO ADRESU'', ''PROPISAN'',
     ''PROPISANA'', ''PROPISAN PO ADRESU'', ''PROPISANA PO ADRESU'',
     ''MESTONAHOVDENIE'', ''MESTONAHOVDENIE:'', ''ZAREGISTRIROWAN:'',
     ''ZAREGISTRIROWANA:'', ''PROVIWAET:'']"

definition address_structure_keywords :: "string list" where
  "address_structure_keywords = map ru
    [''GOROD'', ''G.'', ''G '', ''ULICA'', ''UL.'', ''UL '', ''PROSPEKT'', ''PR-T'', ''PR.'',
     ''PEREULOK'', ''PER.'', ''PER '', ''BULXWAR'', ''B-R'', ''[OSSE'', ''[.'', ''NABEREVNAQ'',
     ''NAB.'', ''PLO]ADX'', ''PL.'', ''DOM'', ''D.'', ''D '', ''KORPUS'', ''KORP.'', ''K.'',
     ''STROENIE'', ''STR.'', ''KWARTIRA'', ''KW.'', ''KW '', ''OFIS'', ''OF.'', ''OBLASTX'',
     ''OBL.'', ''OBL '', ''KRAJ'', ''RESPUBLIKA'', ''RAJON'', ''R-N'', ''POSELOK'',
     ''POS#LOK'', ''POS.'', ''DEREWNQ'', ''DER.'', ''SELO'', ''S.'', ''MIKRORAJON'',
     ''MKR.'', ''INDEKS'', ''PO^TOWYJ INDEKS'', ''INDEKS:'', ''PO^TOWYJ INDEKS:'']"

definition passport_context_keywords :: "string list" where
  "passport_context_keywords = map ru
    [''PASPORT'', ''PASPORTA'', ''PASPORTE'', ''PASPORTOM'', ''PASPORT RF'',
     ''PASPORT GRAVDANINA'', ''UDOSTOWERENIE'', ''DOKUMENT'', ''DOKUMENTA'',
     ''DOKUMENTE'', ''SERIQ'', ''NOMER PASPORTA'', ''SERIQ PASPORTA'',
     ''PASPORTNYE DANNYE'', ''PASPORTNYE DANNYE:'', ''DANNYE PASPORTA'',
     ''SERIQ I NOMER'', ''SERIQ I NOMER PASPORTA'']"

definition driver_license_keywords :: "string list" where
  "driver_license_keywords = map ru
    [''WODITELXSKOE UDOSTOWERENIE'', ''WODITELXSKIE PRAWA'', ''PRAWA'',
     ''WODITELXSKOE UDOSTOWERENIE:'', ''WODITELXSKIE PRAWA:'', ''PRAWA:'',
     ''UDOSTOWERENIE WODITELQ'', ''W/U'', ''W U'', ''WODITELXSKOE'',
     ''WU'', ''WU:'', ''WODITELXSKOE UDOSTOWERENIE:'']"

definition inn_keywords :: "string list" where
  "inn_keywords = map ru
    [''INN'', ''INN:'', ''IIN'', ''IDENTIFIKACIONNYJ NOMER NALOGOPLATELX]IKA'',
     ''IDENTIFIKACIONNYJ NOMER NALOGOPLATELX]IKA:'', ''NALOGOWYJ NOMER'',
     ''NALOGOWYJ NOMER:'', ''INN FIZI^ESKOGO LICA'', ''INN FIZI^ESKOGO LICA:'']"

definition phone_keywords :: "string list" where
  "phone_keywords = map ru
    [''TELEFON'', ''TELEFON:'', ''TEL.'', ''TEL '', ''MOBILXNYJ'', ''MOBILXNYJ TELEFON'',
     ''MOBILXNYJ TELEFON:'', ''NOMER TELEFONA'', ''NOMER TELEFONA:'', ''SOTOWYJ'',
     ''SOTOWYJ TELEFON'', ''SOTOWYJ TELEFON:'', ''KONTAKTNYJ TELEFON'',
     ''KONTAKTNYJ TELEFON:'', ''ZWONITX'', ''POZWONITX'', ''POZWONITE'',
     ''SWQVITESX'', ''SWQZATXSQ'', ''whatsapp'', ''telegram'', ''viber'']"

definition email_keywords :: "string list" where
  "email_keywords = map ru
    [''email'', ''e-mail'', ''~LEKTRONNAQ PO^TA'', ''~LEKTRONNAQ PO^TA:'',
     ''PO^TA'', ''PO^TA:'', ''email:'', ''e-mail:'', ''~L. PO^TA'', ''~L. PO^TA:'',
     ''~LEKTRONNYJ ADRES'', ''~LEKTRONNYJ ADRES:'', ''ADRES ~LEKTRONNOJ PO^TY'',
     ''ADRES ~LEKTRONNOJ PO^TY:'']"

definition card_number_keywords :: "string list" where
  "card_number_keywords = map ru
    [''NOMER KARTY'', ''NOMER KARTY:'', ''NOMER BANKOWSKOJ KARTY'',
     ''NOMER BANKOWSKOJ KARTY:'', ''KARTA'', ''KARTY'', ''KARTE'', ''KARTU'',
     ''BANKOWSKAQ KARTA'', ''BANKOWSKOJ KARTY'', ''PLATEVNAQ KARTA'',
     ''PLAT#VNAQ KARTA'', ''PLATEVNOJ KARTY'', ''PLAT#VNOJ KARTY'', ''S^ET'',
     ''S^#T'', ''S^ETA'', ''S^#TA'', ''REKWIZITY KARTY'', ''REKWIZITY KARTY:'',
     ''NOMER S^ETA'', ''NOMER S^#TA'', ''NOMER S^ETA:'', ''NOMER S^#TA:'']"

definition cvv_keywords :: "string list" where
  "cvv_keywords = map ru
    [''cvv'', ''cvc'', ''cvv2'', ''cvc2'', ''KOD BEZOPASNOSTI'', ''KOD BEZOPASNOSTI:'',
     ''ZA]ITNYJ KOD'', ''ZA]ITNYJ KOD:'', ''KOD S OBRATNOJ STORONY'',
     ''KOD S OBRATNOJ STORONY:'', ''TREHZNA^NYJ KOD'', ''TR#HZNA^NYJ KOD'',
     ''TREHZNA^NYJ KOD:'', ''TR#HZNA^NYJ KOD:'', ''KOD NA OBOROTE'',
     ''KOD NA OBOROTE:'', ''security code'', ''verification code'']"

definition pin_keywords :: "string list" where
  "pin_keywords = map ru
    [''PIN'', ''PIN-KOD'', ''PIN KOD'', ''PIN-KOD:'', ''PIN KOD:'', ''PIN:'',
     ''pin'', ''pin-KOD'', ''pin KOD'', ''pin:'', ''pin-KOD:'', ''pin KOD:'',
     ''PAROLX OT KARTY'', ''PAROLX OT KARTY:'',
     ''PIN-KOD KARTY'', ''PIN-KOD KARTY:'', ''PIN KARTY'', ''PIN KARTY:'']"

definition order_number_keywords :: "string list" where
  "order_number_keywords = map ru
    [''ZAKAZ'', ''ZAKAZA'', ''ZAKAZU'', ''NOMER ZAKAZA'', ''NOMER ZAKAZA:'',
     ''ZAQWKA'', ''ZAQWKI'', ''NOMER ZAQWKI'', ''NOMER ZAQWKI:'', ''TREK-NOMER'',
     ''TREK NOMER'', ''TREK-NOMER:'', ''TREK NOMER:'', ''NOMER NAKLADNOJ'',
     ''NOMER NAKLADNOJ:'', ''ARTIKUL'', ''ARTIKUL:'', ''NOMER DOGOWORA'',
     ''NOMER DOGOWORA:'', ''DOGOWOR'', ''DOGOWORA'', ''S^ET-FAKTURA'',
     ''S^ET-FAKTURA:'', ''S^#T-FAKTURA'', ''S^#T-FAKTURA:'', ''KWITANCIQ'',
     ''KWITANCII'', ''NOMER KWITANCII'', ''NOMER KWITANCII:'']"

definition auditorium_keywords :: "string list" where
  "auditorium_keywords = map ru
    [''AUDITORIQ'', ''AUDITORIQ:'', ''KABINET'', ''KABINET:'', ''KOMNATA'', ''KOMNATA:'',
     ''OFIS'', ''OFIS:'', ''POME]ENIE'', ''POME]ENIE:'', ''AUD.'', ''AUD '']"

definition order_article_keywords :: "string list" where
  "order_article_keywords = map ru
    [''ZAKAZ'', ''ZAKAZA'', ''ZAKAZU'', ''NOMER ZAKAZA'', ''NOMER ZAKAZA:'',
     ''ZAQWKA'', ''ZAQWKI'', ''NOMER ZAQWKI'', ''NOMER ZAQWKI:'', ''ARTIKUL'',
     ''ARTIKUL:'', ''ARTIKULA'', ''NOMER ARTIKULA'', ''NOMER ARTIKULA:'',
     ''TREK-NOMER'', ''TREK NOMER'', ''TREK-NOMER:'', ''TREK NOMER:'',
     ''NOMER NAKLADNOJ'', ''NOMER NAKLADNOJ:'', ''NOMER DOGOWORA'',
     ''NOMER DOGOWORA:'', ''DOGOWOR'', ''DOGOWORA'', ''S^ET-FAKTURA'',
     ''S^ET-FAKTURA:'', ''S^#T-FAKTURA'', ''S^#T-FAKTURA:'', ''KWITANCIQ'',
     ''KWITANCII'', ''NOMER KWITANCII'', ''NOMER KWITANCII:'', ''PARTIQ'',
     ''PARTII'', ''NOMER PARTII'', ''NOMER PARTII:'', ''SERIJNYJ NOMER'',
     ''SERIJNYJ NOMER:'', ''SERIJNYJ'', ''SERIJNOGO'']"

definition metro_transport_keywords :: "string list" where
  "metro_transport_keywords = map ru
    [''METRO'', ''METROPOLITEN'', ''TRANSPORTNAQ KARTA'', ''TRANSPORTNOJ KARTY'',
     ''PROEZDNOJ'', ''PROEZDNOGO'', ''PROEZDNAQ'', ''PROEZDNOJ BILET'',
     ''KARTA METRO'', ''KARTY METRO'', ''TROJKA'', ''STRELKA'', ''PODOROVNIK'',
     ''TRANSPORTNAQ'', ''TRANSPORTNOJ'', ''PROEZD'']"

definition loyalty_card_keywords :: "string list" where
  "loyalty_card_keywords = map ru
    [''LOQLXNOSTI'', ''LOQLXNOSTX'', ''DISKONTNAQ'', ''DISKONTNOJ'', ''SKIDO^NAQ'',
     ''SKIDO^NOJ'', ''BONUSNAQ'', ''BONUSNOJ'', ''NAKOPITELXNAQ'', ''NAKOPITELXNOJ'',
     ''KARTA LOQLXNOSTI'', ''KARTY LOQLXNOSTI'', ''DISKONTNAQ KARTA'',
     ''DISKONTNOJ KARTY'', ''SKIDO^NAQ KARTA'', ''SKIDO^NOJ KARTY'',
     ''BONUSNAQ KARTA'', ''BONUSNOJ KARTY'', ''PODARO^NAQ KARTA'',
     ''PODARO^NOJ KARTY'', ''KLUBNAQ KARTA'', ''KLUBNOJ KARTY'']"

definition non_bank_cvv_keywords :: "string list" where
  "non_bank_cvv_keywords = map ru
    [''ZAMKA'', ''ZAMOK'', ''DOMOFON'', ''DOMOFONA'', ''KODOWYJ ZAMOK'',
     ''KODOWOGO ZAMKA'', ''SEJF'', ''SEJFA'', ''[KAF^IK'', ''[KAF^IKA'',
     ''KAMERA HRANENIQ'', ''KAMERY HRANENIQ'', ''Q^EJKA'', ''Q^EJKI'',
     ''KOD OT ZAMKA'', ''KOD OT DOMOFONA'', ''KOD OT SEJFA'']"

definition non_bank_pin_keywords :: "string list" where
  "non_bank_pin_keywords = map ru
    [''TELEFONA'', ''TELEFON'', ''SIM-KARTA'', ''SIM-KARTY'', ''SIM KARTA'',
     ''SIM KARTY'', ''sim-KARTA'', ''sim-KARTY'', ''OT TELEFONA'', ''OT SIM-KARTY'',
     ''OT SIM KARTY'', ''KOD OT TELEFONA'', ''PIN OT TELEFONA'',
     ''PIN-KOD OT TELEFONA'', ''PIN OT SIM-KARTY'', ''PIN-KOD OT SIM-KARTY'',
     ''ROUTER'', ''ROUTERA'', ''wi-fi'', ''wifi'', ''wi-fi ROUTER'', ''wi-fi ROUTERA'',
     ''OT ROUTERA'', ''PIN OT ROUTERA'', ''PIN-KOD OT ROUTERA'']"

definition bank_branch_keywords :: "string list" where
  "bank_branch_keywords = map ru
    [''OTDELENIE BANKA'', ''OTDELENIQ BANKA'', ''OFIS BANKA'', ''OFISA BANKA'',
     ''FILIAL BANKA'', ''FILIALA BANKA'', ''BANK NAHODITSQ'', ''BANK RASPOLOVEN'',
     ''OTDELENIE SBERBANKA'', ''OTDELENIE WTB'', ''OTDELENIE ALXFA-BANKA'',
     ''OTDELENIE ALXFA BANKA'', ''BANKOMAT'', ''BANKOMATA'', ''TERMINAL OPLATY'',
     ''TERMINALA OPLATY'', ''PUNKT WYDA^I'', ''PUNKTA WYDA^I'', ''MAGAZIN NAHODITSQ'',
     ''MAGAZIN RASPOLOVEN'', ''OFIS KOMPANII'', ''OFISA KOMPANII'']"

definition public_contact_keywords :: "string list" where
  "public_contact_keywords = map ru
    [''SLUVBA PODDERVKI'', ''SLUVBY PODDERVKI'', ''PODDERVKA'', ''PODDERVKI'',
     ''GORQ^AQ LINIQ'', ''GORQ^EJ LINII'', ''KOLL-CENTR'', ''KOLL-CENTRA'',
     ''call-CENTR'', ''call-CENTRA'', ''call center'', ''SPRAWO^NAQ'', ''SPRAWO^NOJ'',
     ''INFORMACIONNAQ LINIQ'', ''INFORMACIONNOJ LINII'', ''KONTAKTNYJ CENTR'',
     ''KONTAKTNOGO CENTRA'', ''OFICIALXNYJ SAJT'', ''OFICIALXNOGO SAJTA'',
     ''NA SAJTE'', ''NA NA[EM SAJTE'', ''NA[ SAJT'', ''NA[ TELEFON'',
     ''NA[ email'', ''NA[A PO^TA'', ''NA[A ~LEKTRONNAQ PO^TA'', ''DLQ SWQZI'',
     ''DLQ OBRA]ENIJ'', ''OBRA]AJTESX'', ''POZWONITE NAM'', ''NAPI[ITE NAM'',
     ''TELEFON DOWERIQ'', ''TELEFONA DOWERIQ'', ''EDINYJ NOMER'', ''EDINOGO NOMERA'',
     ''BESPLATNYJ NOMER'', ''BESPLATNOGO NOMERA'', ''8-800'', ''8800'', ''8 800'',
     ''TEHPODDERVKA'', ''TEHPODDERVKI'', ''TEHNI^ESKAQ PODDERVKA'',
     ''TEHNI^ESKOJ PODDERVKI'', ''KLIENTSKAQ PODDERVKA'', ''KLIENTSKOJ PODDERVKI'',
     ''OFIS'', ''OFISA'', ''OFIS KOMPANII'', ''OFISA KOMPANII'', ''KOMPANII'',
     ''KOMPANIQ'', ''ORGANIZACII'', ''ORGANIZACIQ'', ''FIRMY'', ''FIRMA'',
     ''TELEFON OFISA'', ''TELEFON KOMPANII'', ''TELEFON ORGANIZACII'',
     ''email KOMPANII'', ''email ORGANIZACII'', ''PO^TA KOMPANII'',
     ''PO^TA ORGANIZACII'', ''KONTAKTY KOMPANII'', ''KONTAKTY ORGANIZACII'',
     ''OTDEL PRODAV'', ''OTDELA PRODAV'', ''OTDEL KADROW'', ''OTDELA KADROW'',
     ''OTDEL PODDERVKI'', ''OTDELA PODDERVKI'', ''BUHGALTERIQ'', ''BUHGALTERII'',
     ''PRI#MNAQ'', ''PRIEMNAQ'', ''PRI#MNOJ'', ''PRIEMNOJ'', ''SEKRETARX'',
     ''SEKRETARQ'', ''MENEDVER'', ''MENEDVERA'', ''MENEDVER PO PRODAVAM'',
     ''MENEDVERA PO PRODAVAM'']"

definition public_place_keywords :: "string list" where
  "public_place_keywords = map ru
    [''RESTORAN'', ''RESTORANA'', ''KAFE'', ''MAGAZIN'', ''MAGAZINA'', ''SUPERMARKET'',
     ''SUPERMARKETA'', ''APTEKA'', ''APTEKI'', ''SALON'', ''SALONA'', ''PARIKMAHERSKAQ'',
     ''PARIKMAHERSKOJ'', ''FITNES-KLUB'', ''FITNES-KLUBA'', ''SPORTZAL'', ''SPORTZALA'',
     ''KINOTEATR'', ''KINOTEATRA'', ''TEATR'', ''TEATRA'', ''MUZEJ'', ''MUZEQ'',
     ''BIBLIOTEKA'', ''BIBLIOTEKI'', ''[KOLA'', ''[KOLY'', ''UNIWERSITET'',
     ''UNIWERSITETA'', ''INSTITUT'', ''INSTITUTA'', ''BOLXNICA'', ''BOLXNICY'',
     ''POLIKLINIKA'', ''POLIKLINIKI'', ''KLINIKA'', ''KLINIKI'', ''OTELX'', ''OTELQ'',
     ''GOSTINICA'', ''GOSTINICY'', ''BANK'', ''BANKA'', ''OTDELENIE BANKA'',
     ''OTDELENIQ BANKA'', ''OFIS BANKA'', ''OFISA BANKA'', ''FILIAL'', ''FILIALA'',
     ''OFIS'', ''OFISA'', ''OFIS KOMPANII'', ''OFISA KOMPANII'',
     ''PREDSTAWITELXSTWO'', ''PREDSTAWITELXSTWA'', ''SKLAD'', ''SKLADA'',
     ''PROIZWODSTWO'', ''PROIZWODSTWA'', ''ZAWOD'', ''ZAWODA'', ''FABRIKA'', ''FABRIKI'',
     ''CENTR'', ''CENTRA'', ''TORGOWYJ CENTR'', ''TORGOWOGO CENTRA'', ''TC'',
     ''A~ROPORT'', ''A~ROPORTA'', ''WOKZAL'', ''WOKZALA'', ''STANCIQ'', ''STANCII'',
     ''METRO'', ''PARK'', ''PARKA'', ''PLO]ADX'', ''PLO]ADI'', ''ULICA'', ''ULICY'',
     ''PROSPEKT'', ''PROSPEKTA'', ''NAHODITSQ'', ''RASPOLOVEN'', ''RASPOLOVENA'',
     ''RASPOLOVENO'', ''NAHODITSQ PO ADRESU'', ''RASPOLOVEN PO ADRESU'',
     ''RASPOLOVENA PO ADRESU'', ''RASPOLOVENO PO ADRESU'']"

definition known_person_context_keywords :: "string list" where
  "known_person_context_keywords = map ru
    [''PO~T'', ''PO~TA'', ''PISATELX'', ''PISATELQ'', ''KOMPOZITOR'', ''KOMPOZITORA'',
     ''HUDOVNIK'', ''HUDOVNIKA'', ''U^#NYJ'', ''U^ENYJ'', ''U^#NOGO'', ''U^ENOGO'',
     ''KLASSIK'', ''KLASSIKA'', ''WELIKIJ'', ''WELIKOGO'', ''WELIKAQ'', ''WELIKOJ'',
     ''IZWESTNYJ'', ''IZWESTNOGO'', ''IZWESTNAQ'', ''IZWESTNOJ'', ''ZNAMENITYJ'',
     ''ZNAMENITOGO'', ''ZNAMENITAQ'', ''ZNAMENITOJ'', ''ISTORI^ESKAQ LI^NOSTX'',
     ''ISTORI^ESKIJ DEQTELX'', ''ISTORI^ESKOGO DEQTELQ'', ''GENIJ'', ''GENIQ'',
     ''PROIZWEDENIE'', ''PROIZWEDENIQ'', ''ROMAN'', ''ROMANA'', ''STIHOTWORENIE'',
     ''STIHOTWORENIQ'', ''PO~MA'', ''PO~MY'', ''RASSKAZ'', ''RASSKAZA'', ''POWESTX'',
     ''POWESTI'', ''KNIGA'', ''KNIGI'', ''NAPISAL'', ''NAPISALA'', ''NAPISAL ROMAN'',
     ''NAPISAL PO~MU'', ''NAPISAL STIHOTWORENIE'', ''AWTOR'', ''AWTORA'',
     ''LITERATURA'', ''LITERATURY'', ''ISTORIQ'', ''ISTORII'', ''BIOGRAFIQ'',
     ''BIOGRAFII'', ''VIL W'', ''VIL W xix'', ''VIL W xviii'', ''VIL W xvii'',
     ''UMER W'', ''UMER W GODU'',
     ''KOSMONAWT'', ''KOSMONAWTA'', ''ASTRONAWT'', ''ASTRONAWTA'', ''FIZIK'',
     ''FIZIKA'', ''HIMIK'', ''HIMIKA'', ''BIOLOG'', ''BIOLOGA'', ''MATEMATIK'',
     ''MATEMATIKA'', ''FILOSOF'', ''FILOSOFA'', ''ISTORIK'', ''ISTORIKA'',
     ''~KONOMIST'', ''~KONOMISTA'', ''POLITIK'', ''POLITIKA'', ''DIPLOMAT'',
     ''DIPLOMATA'', ''POLKOWODEC'', ''POLKOWODCA'', ''WOENA^ALXNIK'',
     ''WOENA^ALXNIKA'', ''FLOTOWODEC'', ''FLOTOWODCA'', ''MAR[AL'', ''MAR[ALA'',
     ''GENERAL'', ''GENERALA'', ''ADMIRAL'', ''ADMIRALA'', ''PREZIDENT'',
     ''PREZIDENTA'', ''PREMXER-MINISTR'', ''PREMXER-MINISTRA'', ''MINISTR'',
     ''MINISTRA'', ''DEPUTAT'', ''DEPUTATA'', ''SENATOR'', ''SENATORA'', ''M~R'',
     ''M~RA'', ''GUBERNATOR'', ''GUBERNATORA'', ''CARX'', ''CARQ'', ''IMPERATOR'',
     ''IMPERATORA'', ''KOROLX'', ''KOROLQ'', ''KOROLEWA'', ''KOROLEWY'', ''KNQZX'',
     ''KNQZQ'', ''REWOL@CIONER'', ''REWOL@CIONERA'', ''DEKABRIST'', ''DEKABRISTA'',
     ''BOLX[EWIK'', ''BOLX[EWIKA'', ''DISSIDENT'', ''DISSIDENTA'', ''PRAWOZA]ITNIK'',
     ''PRAWOZA]ITNIKA'', ''AKT#R'', ''AKTERA'', ''AKTER'', ''AKTERA'', ''AKTRISA'',
     ''AKTRISY'', ''REVISS#R'', ''REVISSERA'', ''REVISSER'', ''REVISSERA'', ''PEWEC'',
     ''PEWCA'', ''PEWICA'', ''PEWICY'', ''MUZYKANT'', ''MUZYKANTA'', ''PIANIST'',
     ''PIANISTA'', ''SKRIPA^'', ''SKRIPA^A'', ''DIRIV#R'', ''DIRIVERA'', ''DIRIVER'',
     ''DIRIVERA'', ''SKULXPTOR'', ''SKULXPTORA'', ''ARHITEKTOR'', ''ARHITEKTORA'',
     ''SPORTSMEN'', ''SPORTSMENA'', ''FUTBOLIST'', ''FUTBOLISTA'', ''HOKKEIST'',
     ''HOKKEISTA'', ''BOKS#R'', ''BOKSERA'', ''BOKSER'', ''BOKSERA'', ''[AHMATIST'',
     ''[AHMATISTA'', ''GROSSMEJSTER'', ''GROSSMEJSTERA'', ''BOREC'', ''BORCA'',
     ''BOEC'', ''BOJCA'', ''ALXPINIST'', ''ALXPINISTA'', ''PUTE[ESTWENNIK'',
     ''PUTE[ESTWENNIKA'', ''ISSLEDOWATELX'', ''ISSLEDOWATELQ'', ''IZOBRETATELX'',
     ''IZOBRETATELQ'', ''U^#NYJ'', ''U^ENYJ'', ''U^#NOGO'', ''U^ENOGO'', ''AKADEMIK'',
     ''AKADEMIKA'', ''PROFESSOR'', ''PROFESSORA'', ''DOKTOR NAUK'', ''DOKTORA NAUK'',
     ''LAUREAT'', ''LAUREATA'', ''^EMPION'', ''^EMPIONA'', ''OLIMPIJSKIJ ^EMPION'',
     ''OLIMPIJSKOGO ^EMPIONA'', ''GEROJ'', ''GEROQ'', ''GEROINQ'', ''GEROINI'',
     ''PROROK'', ''PROROKA'', ''OSNOWATELX'', ''OSNOWATELQ'', ''SOZDATELX'',
     ''SOZDATELQ'', ''MYSLITELX'', ''MYSLITELQ'', ''GUMANIST'', ''GUMANISTA'',
     ''PROSWETITELX'', ''PROSWETITELQ'', ''REFORMATOR'', ''REFORMATORA'',
     ''PERWOPROHODEC'', ''PERWOPROHODCA'', ''PERWOPE^ATNIK'', ''PERWOPE^ATNIKA'',
     ''PERWOOTKRYWATELX'', ''PERWOOTKRYWATELQ'', ''PIONER'', ''PIONERA'',
     ''NOWATOR'', ''NOWATORA'', ''~NCIKLOPEDIST'', ''~NCIKLOPEDISTA'', ''POLIGLOT'',
     ''POLIGLOTA'', ''~RUDIT'', ''~RUDITA'', ''INTELLEKTUAL'', ''INTELLEKTUALA'',
     ''GENIJ'', ''GENIQ'', ''WUNDERKIND'', ''WUNDERKINDA'', ''SAMORODOK'',
     ''SAMORODKA'', ''FENOMEN'', ''FENOMENA'', ''LEGENDA'', ''LEGENDY'', ''IKONA'',
     ''IKONY'', ''SIMWOL'', ''SIMWOLA'', ''OLICETWORENIE'', ''OLICETWORENIQ'',
     ''WOPLO]ENIE'', ''WOPLO]ENIQ'', ''GORDOSTX'', ''GORDOSTI'', ''SLAWA'', ''SLAWY'',
     ''^ESTX'', ''^ESTI'', ''DOSTOQNIE'', ''DOSTOQNIQ'', ''NASLEDIE'', ''NASLEDIQ'',
     ''KLASSIK'', ''KLASSIKA'', ''OSNOWOPOLOVNIK'', ''OSNOWOPOLOVNIKA'',
     ''GOSUDARSTWENNYJ DEQTELX'', ''GOSUDARSTWENNOGO DEQTELQ'',
     ''POLITI^ESKIJ DEQTELX'', ''POLITI^ESKOGO DEQTELQ'',
     ''OB]ESTWENNYJ DEQTELX'', ''OB]ESTWENNOGO DEQTELQ'',
     ''ISTORI^ESKAQ LI^NOSTX'', ''ISTORI^ESKOJ LI^NOSTI'',
     ''ISTORI^ESKIJ DEQTELX'', ''ISTORI^ESKOGO DEQTELQ'',
     ''LEGENDARNAQ LI^NOSTX'', ''LEGENDARNOJ LI^NOSTI'',
     ''NACIONALXNOE DOSTOQNIE'', ''NACIONALXNOGO DOSTOQNIQ'',
     ''NACIONALXNAQ GORDOSTX'', ''NACIONALXNOJ GORDOSTI'',
     ''SOLNCE RUSSKOJ PO~ZII'', ''NA[E WS#'', ''NA[E WSE'']"

definition known_person_names_1 :: "string list" where
  "known_person_names_1 = map ru
    [''ALEKSANDR SERGEEWI^ PU[KIN'', ''PU[KIN ALEKSANDR SERGEEWI^'',
     ''LEW NIKOLAEWI^ TOLSTOJ'', ''TOLSTOJ LEW NIKOLAEWI^'',
     ''F#DOR MIHAJLOWI^ DOSTOEWSKIJ'', ''FEDOR MIHAJLOWI^ DOSTOEWSKIJ'',
     ''DOSTOEWSKIJ F#DOR MIHAJLOWI^'', ''DOSTOEWSKIJ FEDOR MIHAJLOWI^'',
     ''ANTON PAWLOWI^ ^EHOW'', ''^EHOW ANTON PAWLOWI^'',
     ''MIHAIL @RXEWI^ LERMONTOW'', ''LERMONTOW MIHAIL @RXEWI^'',
     ''NIKOLAJ WASILXEWI^ GOGOLX'', ''GOGOLX NIKOLAJ WASILXEWI^'',
     ''IWAN SERGEEWI^ TURGENEW'', ''TURGENEW IWAN SERGEEWI^'',
     ''SERGEJ ALEKSANDROWI^ ESENIN'', ''ESENIN SERGEJ ALEKSANDROWI^'',
     ''WLADIMIR WLADIMIROWI^ PUTIN'', ''PUTIN WLADIMIR WLADIMIROWI^'',
     ''DMITRIJ ANATOLXEWI^ MEDWEDEW'', ''MEDWEDEW DMITRIJ ANATOLXEWI^'',
     ''MIHAIL SERGEEWI^ GORBA^EW'', ''GORBA^EW MIHAIL SERGEEWI^'',
     ''BORIS NIKOLAEWI^ ELXCIN'', ''ELXCIN BORIS NIKOLAEWI^'',
     ''IOSIF WISSARIONOWI^ STALIN'', ''STALIN IOSIF WISSARIONOWI^'',
     ''WLADIMIR ILXI^ LENIN'', ''LENIN WLADIMIR ILXI^'',
     ''@RIJ ALEKSEEWI^ GAGARIN'', ''GAGARIN @RIJ ALEKSEEWI^'',
     ''P#TR ILXI^ ^AJKOWSKIJ'', ''PETR ILXI^ ^AJKOWSKIJ'',
     ''^AJKOWSKIJ P#TR ILXI^'', ''^AJKOWSKIJ PETR ILXI^'',
     ''DMITRIJ IWANOWI^ MENDELEEW'', ''MENDELEEW DMITRIJ IWANOWI^'',
     ''ALXBERT ~JN[TEJN'', ''~JN[TEJN ALXBERT'',
     ''ISAAK NX@TON'', ''NX@TON ISAAK'',
     ''NAPOLEON BONAPART'', ''BONAPART NAPOLEON'',
     ''ADOLXF GITLER'', ''GITLER ADOLXF'',
     ''IOSIF STALIN'', ''STALIN IOSIF'',
     ''WLADIMIR LENIN'', ''LENIN WLADIMIR'',
     ''KARL MARKS'', ''MARKS KARL'',
     ''FRIDRIH ~NGELXS'', ''~NGELXS FRIDRIH'',
     ''ZIGMUND FREJD'', ''FREJD ZIGMUND'',
     ''KARL @NG'', ''@NG KARL'',
     ''MARK TWEN'', ''TWEN MARK'',
     ''~RNEST HEMINGU~J'', ''HEMINGU~J ~RNEST'',
     ''FRANC KAFKA'', ''KAFKA FRANC'',
     ''DVORDV ORU~LL'', ''ORU~LL DVORDV'',
     ''UILXQM [EKSPIR'', ''[EKSPIR UILXQM'',
     ''DANTE ALIGXERI'', ''ALIGXERI DANTE'',
     ''LEONARDO DA WIN^I'', ''DA WIN^I LEONARDO'',
     ''PABLO PIKASSO'', ''PIKASSO PABLO'',
     ''WINSENT WAN GOG'', ''WAN GOG WINSENT'',
     ''WOLXFGANG AMADEJ MOCART'', ''MOCART WOLXFGANG AMADEJ'',
     ''L@DWIG WAN BETHOWEN'', ''BETHOWEN L@DWIG WAN'',
     ''IOGANN SEBASTXQN BAH'', ''BAH IOGANN SEBASTXQN'',
     ''FREDERIK [OPEN'', ''[OPEN FREDERIK'',
     ''P#TR ^AJKOWSKIJ'', ''PETR ^AJKOWSKIJ'',
     ''SERGEJ RAHMANINOW'', ''RAHMANINOW SERGEJ'',
     ''IGORX STRAWINSKIJ'', ''STRAWINSKIJ IGORX'',
     ''DMITRIJ [OSTAKOWI^'', ''[OSTAKOWI^ DMITRIJ'',
     ''ALEKSANDR BLOK'', ''BLOK ALEKSANDR'',
     ''ANNA AHMATOWA'', ''AHMATOWA ANNA'',
     ''MARINA CWETAEWA'', ''CWETAEWA MARINA'',
     ''BORIS PASTERNAK'', ''PASTERNAK BORIS'',
     ''WLADIMIR MAQKOWSKIJ'', ''MAQKOWSKIJ WLADIMIR'',
     ''SERGEJ ESENIN'', ''ESENIN SERGEJ'',
     ''MIHAIL BULGAKOW'', ''BULGAKOW MIHAIL'',
     ''ALEKSANDR SOLVENICYN'', ''SOLVENICYN ALEKSANDR'',
     ''IWAN BUNIN'', ''BUNIN IWAN'',
     ''NIKOLAJ GOGOLX'', ''GOGOLX NIKOLAJ'',
     ''F#DOR DOSTOEWSKIJ'', ''DOSTOEWSKIJ F#DOR'',
     ''LEW TOLSTOJ'', ''TOLSTOJ LEW'',
     ''ANTON ^EHOW'', ''^EHOW ANTON'',
     ''IWAN TURGENEW'', ''TURGENEW IWAN'',
     ''ALEKSANDR PU[KIN'', ''PU[KIN ALEKSANDR'',
     ''MIHAIL LERMONTOW'', ''LERMONTOW MIHAIL'',
     ''NIKOLAJ NEKRASOW'', ''NEKRASOW NIKOLAJ'',
     ''AFANASIJ FET'', ''FET AFANASIJ'',
     ''F#DOR T@T^EW'', ''T@T^EW F#DOR'',
     ''ALEKSANDR GRIBOEDOW'', ''GRIBOEDOW ALEKSANDR'',
     ''NIKOLAJ KARAMZIN'', ''KARAMZIN NIKOLAJ'',
     ''WASILIJ VUKOWSKIJ'', ''VUKOWSKIJ WASILIJ'',
     ''KONSTANTIN PAUSTOWSKIJ'', ''PAUSTOWSKIJ KONSTANTIN'',
     ''MAKSIM GORXKIJ'', ''GORXKIJ MAKSIM'',
     ''ALEKSEJ TOLSTOJ'', ''TOLSTOJ ALEKSEJ'',
     ''ARKADIJ GAJDAR'', ''GAJDAR ARKADIJ'',
     ''KORNEJ ^UKOWSKIJ'', ''^UKOWSKIJ KORNEJ'',
     ''SAMUIL MAR[AK'', ''MAR[AK SAMUIL'',
     ''ALEKSANDR GRIN'', ''GRIN ALEKSANDR'',
     ''WALENTIN KATAEW'', ''KATAEW WALENTIN'',
     ''@RIJ OLE[A'', ''OLE[A @RIJ'',
     ''ILXQ ILXF'', ''ILXF ILXQ'',
     ''EWGENIJ PETROW'', ''PETROW EWGENIJ'',
     ''MIHAIL ZO]ENKO'', ''ZO]ENKO MIHAIL'',
     ''ANDREJ PLATONOW'', ''PLATONOW ANDREJ'',
     ''WASILIJ [UK[IN'', ''[UK[IN WASILIJ'',
     ''WIKTOR ASTAFXEW'', ''ASTAFXEW WIKTOR'',
     ''WALENTIN RASPUTIN'', ''RASPUTIN WALENTIN'',
     ''WASILX BYKOW'', ''BYKOW WASILX'',
     ''KONSTANTIN SIMONOW'', ''SIMONOW KONSTANTIN'',
     ''ALEKSANDR TWARDOWSKIJ'', ''TWARDOWSKIJ ALEKSANDR'',
     ''BULAT OKUDVAWA'', ''OKULVAWA BULAT'',
     ''WLADIMIR WYSOCKIJ'', ''WYSOCKIJ WLADIMIR'',
     ''@RIJ WIZBOR'', ''WIZBOR @RIJ'',
     ''ANDREJ SAHAROW'', ''SAHAROW ANDREJ'',
     ''SERGEJ KOROLEW'', ''KOROLEW SERGEJ'',
     ''KONSTANTIN CIOLKOWSKIJ'', ''CIOLKOWSKIJ KONSTANTIN'',
     ''IWAN PAWLOW'', ''PAWLOW IWAN'',
     ''ILXQ ME^NIKOW'', ''ME^NIKOW ILXQ'',
     ''NIKOLAJ PIROGOW'', ''PIROGOW NIKOLAJ'',
     ''IWAN SE^ENOW'', ''SE^ENOW IWAN'',
     ''ALEKSANDR POPOW'', ''POPOW ALEKSANDR'',
     ''NIKOLA TESLA'', ''TESLA NIKOLA'',
     ''TOMAS ~DISON'', ''~DISON TOMAS'',
     ''MARIQ K@RI'', ''K@RI MARIQ'',
     ''NILXS BOR'', ''BOR NILXS'',
     ''MAKS PLANK'', ''PLANK MAKS'',
     ''~RWIN [REDINGER'', ''[REDINGER ~RWIN'',
     ''WERNER GEJZENBERG'', ''GEJZENBERG WERNER'',
     ''~NRIKO FERMI'', ''FERMI ~NRIKO'',
     ''RI^ARD FAJNMAN'', ''FAJNMAN RI^ARD'',
     ''STIWEN HOKING'', ''HOKING STIWEN'',
     ''KARL SAGAN'', ''SAGAN KARL'',
     ''GALILEO GALILEJ'', ''GALILEJ GALILEO'',
     ''IOGANN KEPLER'', ''KEPLER IOGANN'',
     ''NIKOLAJ KOPERNIK'', ''KOPERNIK NIKOLAJ'',
     ''ARISTOTELX'', ''PLATON'', ''SOKRAT'', ''PIFAGOR'', ''EWKLID'', ''ARHIMED'',
     ''GIPPOKRAT'', ''GERODOT'', ''SOFOKL'', ''~WRIPID'', ''~SHIL'',
     ''WERGILIJ'', ''OWIDIJ'', ''GORACIJ'', ''CICERON'', ''SENEKA'', ''MARK AWRELIJ'',
     ''KONFUCIJ'', ''LAO-CZY'', ''BUDDA'', ''MUHAMMED'', ''IISUS'', ''MOISEJ'',
     ''AWRAAM'', ''DAWID'', ''SOLOMON'', ''ALEKSANDR MAKEDONSKIJ'', ''MAKEDONSKIJ ALEKSANDR'',
     ''@LIJ CEZARX'', ''CEZARX @LIJ'', ''AWGUST'', ''NERON'', ''KONSTANTIN WELIKIJ'',
     ''ATAT@RK'', ''MAO CZ~DUN'', ''CZ~DUN MAO'', ''D~N SQOPIN'',
     ''SQOPIN D~N'', ''KIM IR SEN'', ''IR SEN KIM'', ''FIDELX KASTRO'', ''KASTRO FIDELX'',
     ''^E GEWARA'', ''GEWARA ^E'', ''~RNESTO ^E GEWARA'', ''GEWARA ~RNESTO ^E'',
     ''UINSTON ^ER^ILLX'', ''^ER^ILLX UINSTON'', ''FRANKLIN RUZWELXT'', ''RUZWELXT FRANKLIN'',
     ''TEODOR RUZWELXT'', ''RUZWELXT TEODOR'', ''DVON KENNEDI'', ''KENNEDI DVON'',
     ''AWRAAM LINKOLXN'', ''LINKOLXN AWRAAM'', ''DVORDV WA[INGTON'', ''WA[INGTON DVORDV'',
     ''TOMAS DVEFFERSON'', ''DVEFFERSON TOMAS'', ''BENDVAMIN FRANKLIN'', ''FRANKLIN BENDVAMIN'']"

definition known_person_names_2 :: "string list" where
  "known_person_names_2 = map ru
    [''MARTIN L@TER KING'', ''L@TER KING MARTIN'', ''NELXSON MANDELA'', ''MANDELA NELXSON'',
     ''MAHATMA GANDI'', ''GANDI MAHATMA'', ''DVAWAHARLAL NERU'', ''NERU DVAWAHARLAL'',
     ''INDIRA GANDI'', ''GANDI INDIRA'', ''GAMALX NASER'', ''NASER GAMALX'',
     ''SADDAM HUSEJN'', ''HUSEJN SADDAM'', ''MUAMMAR KADDAFI'', ''KADDAFI MUAMMAR'',
     ''UGO ^AWES'', ''^AWES UGO'', ''~WO MORALES'', ''MORALES ~WO'',
     ''DIEGO MARADONA'', ''MARADONA DIEGO'', ''PELE'', ''LIONELX MESSI'', ''MESSI LIONELX'',
     ''KRI[TIANU RONALDU'', ''RONALDU KRI[TIANU'', ''ZINEDIN ZIDAN'', ''ZIDAN ZINEDIN'',
     ''MI[ELX PLATINI'', ''PLATINI MI[ELX'', ''JOHAN KROJF'', ''KROJF JOHAN'',
     ''FRANC BEKKENBAU~R'', ''BEKKENBAU~R FRANC'', ''LEW Q[IN'', ''Q[IN LEW'',
     ''~DUARD STRELXCOW'', ''STRELXCOW ~DUARD'', ''WALERIJ HARLAMOW'', ''HARLAMOW WALERIJ'',
     ''WLADISLAW TRETXQK'', ''TRETXQK WLADISLAW'', ''LARISA LATYNINA'', ''LATYNINA LARISA'',
     ''IRINA RODNINA'', ''RODNINA IRINA'', ''L@DMILA PAHOMOWA'', ''PAHOMOWA L@DMILA'',
     ''ALEKSANDR KARELIN'', ''KARELIN ALEKSANDR'', ''NIKOLAJ WALUEW'', ''WALUEW NIKOLAJ'',
     ''F#DOR EMeLXQNENKO'', ''EMELXQNENKO F#DOR'', ''HABIB NURMAGOMEDOW'', ''NURMAGOMEDOW HABIB'',
     ''KONOR MAKGREGOR'', ''MAKGREGOR KONOR'', ''MAJK TAJSON'', ''TAJSON MAJK'',
     ''MUHAMMED ALI'', ''ALI MUHAMMED'', ''DVO FREJZER'', ''FREJZER DVO'',
     ''DVORDV FORMAN'', ''FORMAN DVORDV'', ''~WANDER HOLLIFILD'', ''HOLLIFILD ~WANDER'',
     ''LENNOKS LX@IS'', ''LX@IS LENNOKS'', ''WITALIJ KLI^KO'', ''KLI^KO WITALIJ'',
     ''WLADIMIR KLI^KO'', ''KLI^KO WLADIMIR'', ''OLEG MASKAEW'', ''MASKAEW OLEG'',
     ''RUSLAN ^AGAEW'', ''^AGAEW RUSLAN'', ''SERGEJ KOWALEW'', ''KOWALEW SERGEJ'',
     ''ARTUR BETERBIEW'', ''BETERBIEW ARTUR'', ''DMITRIJ BIWOL'', ''BIWOL DMITRIJ'',
     ''ALEKSANDR USYK'', ''USYK ALEKSANDR'', ''WASILIJ LOMA^ENKO'', ''LOMA^ENKO WASILIJ'',
     ''OLEG TAKTAROW'', ''TAKTAROW OLEG'', ''F#DOR KON@HOW'', ''KON@HOW F#DOR'',
     ''@RIJ SENKEWI^'', ''SENKEWI^ @RIJ'', ''VAK-IW KUSTO'', ''KUSTO VAK-IW'',
     ''TUR HEJERDAL'', ''HEJERDAL TUR'', ''ROALXD AMUNDSEN'', ''AMUNDSEN ROALXD'',
     ''ROBERT SKOTT'', ''SKOTT ROBERT'', ''~RNEST [EKLTON'', ''[EKLTON ~RNEST'',
     ''~DMUND HILARI'', ''HILARI ~DMUND'', ''TENCING NORGEJ'', ''NORGEJ TENCING'',
     ''REJNHOLXD MESSNER'', ''MESSNER REJNHOLXD'', ''KILIAN VORNET'', ''VORNET KILIAN'',
     ''ALEKSANDR ABDULOW'', ''ABDULOW ALEKSANDR'', ''OLEG QNKOWSKIJ'', ''QNKOWSKIJ OLEG'',
     ''INNOKENTIJ SMOKTUNOWSKIJ'', ''SMOKTUNOWSKIJ INNOKENTIJ'', ''EWGENIJ LEONOW'', ''LEONOW EWGENIJ'',
     ''ANDREJ MIRONOW'', ''MIRONOW ANDREJ'', ''@RIJ NIKULIN'', ''NIKULIN @RIJ'',
     ''ARKADIJ RAJKIN'', ''RAJKIN ARKADIJ'', ''MIHAIL VWANECKIJ'', ''VWANECKIJ MIHAIL'',
     ''GRIGORIJ GORIN'', ''GORIN GRIGORIJ'', ''~LXDAR RQZANOW'', ''RQZANOW ~LXDAR'',
     ''LEONID GAJDAJ'', ''GAJDAJ LEONID'', ''GEORGIJ DANELIQ'', ''DANELIQ GEORGIJ'',
     ''NIKITA MIHALKOW'', ''MIHALKOW NIKITA'', ''ANDREJ KON^ALOWSKIJ'', ''KON^ALOWSKIJ ANDREJ'',
     ''ALEKSEJ BATALOW'', ''BATALOW ALEKSEJ'', ''WQ^ESLAW TIHONOW'', ''TIHONOW WQ^ESLAW'',
     ''WASILIJ LANOWOJ'', ''LANOWOJ WASILIJ'', ''MIHAIL ULXQNOW'', ''ULXQNOW MIHAIL'',
     ''OLEG TABAKOW'', ''TABAKOW OLEG'', ''KONSTANTIN HABENSKIJ'', ''HABENSKIJ KONSTANTIN'',
     ''EWGENIJ MIRONOW'', ''MIRONOW EWGENIJ'', ''SERGEJ BEZRUKOW'', ''BEZRUKOW SERGEJ'',
     ''WLADIMIR MA[KOW'', ''MA[KOW WLADIMIR'', ''ALEKSEJ SEREBRQKOW'', ''SEREBRQKOW ALEKSEJ'',
     ''GRIGORIJ LEPS'', ''LEPS GRIGORIJ'', ''FILIPP KIRKOROW'', ''KIRKOROW FILIPP'',
     ''ALLA PUGA^EWA'', ''PUGA^EWA ALLA'', ''SOFIQ ROTARU'', ''ROTARU SOFIQ'',
     ''WALERIJ LEONTXEW'', ''LEONTXEW WALERIJ'', ''IOSIF KOBZON'', ''KOBZON IOSIF'',
     ''LEW LE]ENKO'', ''LE]ENKO LEW'', ''MUSLIM MAGOMAEW'', ''MAGOMAEW MUSLIM'',
     ''@RIJ ANTONOW'', ''ANTONOW @RIJ'', ''WIKTOR COJ'', ''COJ WIKTOR'',
     ''IGORX TALXKOW'', ''TALXKOW IGORX'', ''ALEKSANDR ROZENBAUM'', ''ROZENBAUM ALEKSANDR'',
     ''MIHAIL [UFUTINSKIJ'', ''[UFUTINSKIJ MIHAIL'', ''STAS MIHAJLOW'', ''MIHAJLOW STAS'',
     ''NIKOLAJ BASKOW'', ''BASKOW NIKOLAJ'', ''DIMA BILAN'', ''BILAN DIMA'',
     ''SERGEJ LAZAREW'', ''LAZAREW SERGEJ'', ''POLINA GAGARINA'', ''GAGARINA POLINA'',
     ''ZEMFIRA'', ''DIANA ARBENINA'', ''ARBENINA DIANA'', ''@RIJ [EW^UK'', ''[EW^UK @RIJ'',
     ''KONSTANTIN KIN^EW'', ''KIN^EW KONSTANTIN'', ''WQ^ESLAW BUTUSOW'', ''BUTUSOW WQ^ESLAW'',
     ''WALERIJ KIPELOW'', ''KIPELOW WALERIJ'', ''ANDREJ MAKAREWI^'', ''MAKAREWI^ ANDREJ'',
     ''BORIS GREBEN]IKOW'', ''GREBEN]IKOW BORIS'', ''WIKTOR PELEWIN'', ''PELEWIN WIKTOR'',
     ''ZAHAR PRILEPIN'', ''PRILEPIN ZAHAR'', ''BORIS AKUNIN'', ''AKUNIN BORIS'',
     ''L@DMILA ULICKAQ'', ''ULICKAQ L@DMILA'', ''TATXQNA TOLSTAQ'', ''TOLSTAQ TATXQNA'',
     ''DVOAN ROULING'', ''ROULING DVOAN'', ''DVORDV MARTIN'', ''MARTIN DVORDV'',
     ''DVON TOLKIN'', ''TOLKIN DVON'', ''KLAJW LX@IS'', ''LX@IS KLAJW'',
     ''ASTRID LINDGREN'', ''LINDGREN ASTRID'', ''TUWE QNSSON'', ''QNSSON TUWE'',
     ''HANS KRISTIAN ANDERSEN'', ''ANDERSEN HANS KRISTIAN'', ''BRATXQ GRIMM'', ''GRIMM BRATXQ'',
     ''[ARLX PERRO'', ''PERRO [ARLX'', ''ALEKSANDR D@MA'', ''D@MA ALEKSANDR'',
     ''WIKTOR G@GO'', ''G@GO WIKTOR'', ''~MILX ZOLQ'', ''ZOLQ ~MILX'',
     ''GI DE MOPASSAN'', ''MOPASSAN GI DE'', ''PROSPER MERIME'', ''MERIME PROSPER'',
     ''STENDALX'', ''BALXZAK'', ''ONORE DE BALXZAK'', ''BALXZAK ONORE DE'',
     ''FLOBER'', ''G@STAW FLOBER'', ''FLOBER G@STAW'', ''MARSELX PRUST'', ''PRUST MARSELX'',
     ''ALXBER KAM@'', ''KAM@ ALXBER'', ''VAN-POLX SARTR'', ''SARTR VAN-POLX'',
     ''SIMONA DE BOWUAR'', ''BOWUAR SIMONA DE'', ''MI[ELX FUKO'', ''FUKO MI[ELX'',
     ''VAK DERRIDA'', ''DERRIDA VAK'', ''ROLAN BART'', ''BART ROLAN'',
     ''[ARLX DE GOLLX'', ''DE GOLLX [ARLX'', ''NAPOLEON'', ''L@DOWIK xiv'', ''L@DOWIK xvi'',
     ''MARIQ ANTUANETTA'', ''ANTUANETTA MARIQ'', ''VANNA D'ARK'', ''D'ARK VANNA'',
     ''KARL WELIKIJ'', ''WELIKIJ KARL'', ''FRIDRIH ii'', ''FRIDRIH WELIKIJ'',
     ''EKATERINA ii'', ''EKATERINA WELIKAQ'', ''P#TR i'', ''PETR i'', ''P#TR WELIKIJ'', ''PETR WELIKIJ'',
     ''IWAN GROZNYJ'', ''GROZNYJ IWAN'', ''IWAN iv'', ''BORIS GODUNOW'', ''GODUNOW BORIS'',
     ''MIHAIL ROMANOW'', ''ROMANOW MIHAIL'', ''ALEKSEJ MIHAJLOWI^'', ''MIHAJLOWI^ ALEKSEJ'',
     ''P#TR iii'', ''PETR iii'', ''EKATERINA i'', ''ANNA IOANNOWNA'', ''IOANNOWNA ANNA'',
     ''ELIZAWETA PETROWNA'', ''PETROWNA ELIZAWETA'', ''PAWEL i'', ''ALEKSANDR i'',
     ''NIKOLAJ i'', ''ALEKSANDR ii'', ''ALEKSANDR iii'', ''NIKOLAJ ii'', ''NIKOLAJ ii ROMANOW'',
     ''GRIGORIJ RASPUTIN'', ''RASPUTIN GRIGORIJ'', ''SERGEJ WITTE'', ''WITTE SERGEJ'',
     ''P#TR STOLYPIN'', ''STOLYPIN P#TR'', ''STOLYPIN PETR'', ''ALEKSANDR KERENSKIJ'', ''KERENSKIJ ALEKSANDR'',
     ''LEW TROCKIJ'', ''TROCKIJ LEW'', ''GRIGORIJ ZINOWXEW'', ''ZINOWXEW GRIGORIJ'',
     ''NIKOLAJ BUHARIN'', ''BUHARIN NIKOLAJ'', ''KLIMENT WORO[ILOW'', ''WORO[ILOW KLIMENT'',
     ''SEM#N BUD#NNYJ'', ''BUD#NNYJ SEM#N'', ''BUDENNYJ SEMEN'', ''MIHAIL TUHA^EWSKIJ'', ''TUHA^EWSKIJ MIHAIL'',
     ''GEORGIJ VUKOW'', ''VUKOW GEORGIJ'', ''KONSTANTIN ROKOSSOWSKIJ'', ''ROKOSSOWSKIJ KONSTANTIN'',
     ''IWAN KONEW'', ''KONEW IWAN'', ''ALEKSANDR WASILEWSKIJ'', ''WASILEWSKIJ ALEKSANDR'',
     ''NIKOLAJ WATUTIN'', ''WATUTIN NIKOLAJ'', ''RODION MALINOWSKIJ'', ''MALINOWSKIJ RODION'',
     ''KIRILL MERECKOW'', ''MERECKOW KIRILL'', ''LEONID GOWOROW'', ''GOWOROW LEONID'',
     ''PAWEL BATOW'', ''BATOW PAWEL'', ''WASILIJ ^UJKOW'', ''^UJKOW WASILIJ'',
     ''IWAN BAGRAMQN'', ''BAGRAMQN IWAN'', ''ANDREJ ER#MENKO'', ''ER#MENKO ANDREJ'',
     ''IWAN ^ERNQHOWSKIJ'', ''^ERNQHOWSKIJ IWAN'', ''ALEKSEJ ANTONOW'', ''ANTONOW ALEKSEJ'',
     ''SERGEJ [TEMENKO'', ''[TEMENKO SERGEJ'', ''ALEKSANDR NOWIKOW'', ''NOWIKOW ALEKSANDR'',
     ''PAWEL RY^AGOW'', ''RY^AGOW PAWEL'', ''ALEKSANDR GOLOWANOW'', ''GOLOWANOW ALEKSANDR'',
     ''NIKOLAJ GASTELLO'', ''GASTELLO NIKOLAJ'', ''ALEKSANDR MATROSOW'', ''MATROSOW ALEKSANDR'',
     ''ZOQ KOSMODEMXQNSKAQ'', ''KOSMODEMXQNSKAQ ZOQ'', ''LIZA ^AJKINA'', ''^AJKINA LIZA'',
     ''OLEG KO[EWOJ'', ''KO[EWOJ OLEG'', ''ULXQNA GROMOWA'', ''GROMOWA ULXQNA'',
     ''L@BOWX [EWCOWA'', ''[EWCOWA L@BOWX'', ''IWAN ZEMNUHOW'', ''ZEMNUHOW IWAN'',
     ''SERGEJ T@LENIN'', ''T@LENIN SERGEJ'', ''WLADIMIR RAKOW'', ''RAKOW WLADIMIR'',
     ''ALEKSANDR GERCEN'', ''GERCEN ALEKSANDR'', ''NIKOLAJ ^ERNY[EWSKIJ'', ''^ERNY[EWSKIJ NIKOLAJ'',
     ''WISSARION BELINSKIJ'', ''BELINSKIJ WISSARION'', ''NIKOLAJ DOBROL@BOW'', ''DOBROL@BOW NIKOLAJ'',
     ''DMITRIJ PISAREW'', ''PISAREW DMITRIJ'', ''MIHAIL BAKUNIN'', ''BAKUNIN MIHAIL'',
     ''P#TR KROPOTKIN'', ''KROPOTKIN P#TR'', ''KROPOTKIN PETR'', ''GEORGIJ PLEHANOW'', ''PLEHANOW GEORGIJ'',
     ''WLADIMIR ULXQNOW'', ''ULXQNOW WLADIMIR'', ''NADEVDA KRUPSKAQ'', ''KRUPSKAQ NADEVDA'',
     ''INESSA ARMAND'', ''ARMAND INESSA'', ''FELIKS DZERVINSKIJ'', ''DZERVINSKIJ FELIKS'',
     ''WQ^ESLAW MENVINSKIJ'', ''MENVINSKIJ WQ^ESLAW'', ''GENRIH QGODA'', ''QGODA GENRIH'',
     ''NIKOLAJ EVOW'', ''EVOW NIKOLAJ'', ''LAWRENTIJ BERIQ'', ''BERIQ LAWRENTIJ'',
     ''SERGEJ KIROW'', ''KIROW SERGEJ'', ''WALERIAN KUJBY[EW'', ''KUJBY[EW WALERIAN'',
     ''GRIGORIJ ORDVONIKIDZE'', ''ORDVONIKIDZE GRIGORIJ'', ''MIHAIL KALININ'', ''KALININ MIHAIL'',
     ''ALEKSEJ RYKOW'', ''RYKOW ALEKSEJ'', ''MIHAIL TOMSKIJ'', ''TOMSKIJ MIHAIL'',
     ''ANDREJ VDANOW'', ''VDANOW ANDREJ'', ''ALEKSANDR ]ERBAKOW'', '']ERBAKOW ALEKSANDR'',
     ''GEORGIJ MALENKOW'', ''MALENKOW GEORGIJ'', ''WQ^ESLAW MOLOTOW'', ''MOLOTOW WQ^ESLAW'',
     ''LAZARX KAGANOWI^'', ''KAGANOWI^ LAZARX'', ''ANASTAS MIKOQN'', ''MIKOQN ANASTAS'',
     ''NIKOLAJ WOZNESENSKIJ'', ''WOZNESENSKIJ NIKOLAJ'', ''ALEKSEJ KOSYGIN'', ''KOSYGIN ALEKSEJ'',
     ''ANDREJ GROMYKO'', ''GROMYKO ANDREJ'', ''KONSTANTIN ^ERNENKO'', ''^ERNENKO KONSTANTIN'',
     ''@RIJ ANDROPOW'', ''ANDROPOW @RIJ'', ''LEONID BREVNEW'', ''BREVNEW LEONID'',
     ''NIKITA HRU]#W'', ''HRU]#W NIKITA'', ''HRU]EW NIKITA'', ''MIHAIL GORBA^EW'', ''GORBA^EW MIHAIL'',
     ''BORIS ELXCIN'', ''ELXCIN BORIS'', ''WLADIMIR PUTIN'', ''PUTIN WLADIMIR'',
     ''DMITRIJ MEDWEDEW'', ''MEDWEDEW DMITRIJ'', ''SERGEJ LAWROW'', ''LAWROW SERGEJ'',
     ''SERGEJ [OJGU'', ''[OJGU SERGEJ'', ''SERGEJ NARY[KIN'', ''NARY[KIN SERGEJ'',
     ''WQ^ESLAW WOLODIN'', ''WOLODIN WQ^ESLAW'', ''WALENTINA MATWIENKO'', ''MATWIENKO WALENTINA'',
     ''GERMAN GREF'', ''GREF GERMAN'', ''~LXWIRA NABIULLINA'', ''NABIULLINA ~LXWIRA'',
     ''ALEKSEJ KUDRIN'', ''KUDRIN ALEKSEJ'', ''ANTON SILUANOW'', ''SILUANOW ANTON'',
     ''MAKSIM ORE[KIN'', ''ORE[KIN MAKSIM'', ''ANDREJ BELOUSOW'', ''BELOUSOW ANDREJ'',
     ''TATXQNA GOLIKOWA'', ''GOLIKOWA TATXQNA'', ''OLXGA GOLODEC'', ''GOLODEC OLXGA'',
     ''DMITRIJ ROGOZIN'', ''ROGOZIN DMITRIJ'', ''SERGEJ SOBQNIN'', ''SOBQNIN SERGEJ'',
     ''ALEKSANDR BEGLOW'', ''BEGLOW ALEKSANDR'', ''RUSTAM MINNIHANOW'', ''MINNIHANOW RUSTAM'',
     ''RAMZAN KADYROW'', ''KADYROW RAMZAN'', ''SERGEJ AKS#NOW'', ''AKS#NOW SERGEJ'',
     ''AKSENOW SERGEJ'', ''MIHAIL RAZWOVAEW'', ''RAZWOVAEW MIHAIL'', ''ANDREJ WOROBX#W'', ''WOROBX#W ANDREJ'',
     ''WOROBXEW ANDREJ'']"

definition known_person_names :: "string list" where
  "known_person_names = known_person_names_1 @ known_person_names_2"


end
