(* ===== verification/Scorer.thy ===== *)
theory Scorer
  imports Recognizer DictData
begin

text \<open>
  \<open>internal/context/context.go\<close>: the score of a candidate is raised or lowered by keywords in the
  normalized text around it, and a candidate may change its type.  \<open>Words\<close> of a dictionary come in
  no order; whether any of them occurs does not depend on it.
\<close>

definition window :: nat where
  "window = 20"

definition keyword_boost :: f64 where
  "keyword_boost = f_round (7 / 20)"

definition keyword_suppress :: f64 where
  "keyword_suppress = f_round (3 / 5)"

definition contains_any :: "string \<Rightarrow> dict \<Rightarrow> bool" where
  "contains_any s d \<longleftrightarrow> (\<exists>w \<in> d. sublist w s)"

definition score_context :: "norm_text \<Rightarrow> int \<Rightarrow> int \<Rightarrow> string res" where
  "score_context t start stop =
     (let ns = original_to_norm t start;
          ne = original_to_norm t stop;
          lo = ns - window;
          hi = min (ne + window) (norm_len t) in
      go_slice (normalized t) (int (rune_to_byte t (int lo))) (int (rune_to_byte t (int hi))))"

definition preceding :: "norm_text \<Rightarrow> int \<Rightarrow> nat \<Rightarrow> string res" where
  "preceding t start n =
     (let ns = original_to_norm t start; lo = ns - n in
      go_slice (normalized t) (int (rune_to_byte t (int lo))) (int (rune_to_byte t (int ns))))"

text \<open>The texts a span is judged by: around it, and the 25, 40 and 60 runes before it.\<close>

record context_texts =
  around :: string
  pre25 :: string
  pre40 :: string
  pre60 :: string

definition context_texts_of :: "ucd \<Rightarrow> norm_text \<Rightarrow> candidate_span \<Rightarrow> context_texts res" where
  "context_texts_of u t c =
     rbind (score_context t (c_start c) (c_end c)) (\<lambda>a.
     rbind (preceding t (c_start c) 25) (\<lambda>p25.
     rbind (preceding t (c_start c) 40) (\<lambda>p40.
     rbind (preceding t (c_start c) 60) (\<lambda>p60.
       Inr \<lparr>around = lower_str u a, pre25 = p25, pre40 = p40, pre60 = p60\<rparr>))))"

text \<open>The first switch: the type after scoring and whether the keywords of the type were found.\<close>

definition positive_context :: "ucd \<Rightarrow> context_texts \<Rightarrow> etype \<Rightarrow> etype \<times> bool" where
  "positive_context u x ty =
     (let any = (\<lambda>s words. contains_any s (dict_new u words)) in
      case ty of
        BIRTH_DATE \<Rightarrow>
          if any (pre25 x) issue_date_keywords then (PASSPORT_ISSUE_DATE, True)
          else (ty, any (around x) birth_date_keywords)
      | PASSPORT_ISSUE_DATE \<Rightarrow> (ty, any (around x) issue_date_keywords)
      | BIRTH_PLACE \<Rightarrow> (ty, any (around x) birth_place_keywords)
      | CITIZENSHIP \<Rightarrow> (ty, any (pre60 x) citizenship_keywords)
      | PASSPORT_ISSUER \<Rightarrow> (ty, any (around x) passport_issuer_keywords)
      | DEPARTMENT_CODE \<Rightarrow>
          (ty, list_ex (\<lambda>w. sublist w (pre60 x)) (map ru [''KOD PODRAZDELENIQ'', ''KP:'', ''KP '']))
      | FULL_NAME \<Rightarrow> (ty, any (around x) full_name_keywords)
      | CARDHOLDER_NAME \<Rightarrow> (ty, any (around x) cardholder_keywords)
      | ADDRESS \<Rightarrow> (ty, any (around x) address_keywords)
      | EMAIL \<Rightarrow> (ty, any (around x) email_keywords)
      | PHONE \<Rightarrow> (ty, any (around x) phone_keywords)
      | INN \<Rightarrow> (ty, any (around x) inn_keywords)
      | CARD_NUMBER \<Rightarrow> (ty, any (around x) card_number_keywords)
      | CVV \<Rightarrow> (ty, any (around x) cvv_keywords)
      | PIN \<Rightarrow> (ty, any (around x) pin_keywords)
      | PASSPORT \<Rightarrow>
          if any (pre40 x) driver_license_keywords then (DRIVER_LICENSE, True)
          else (ty, any (pre60 x) passport_context_keywords)
      | DRIVER_LICENSE \<Rightarrow> (ty, any (pre60 x) driver_license_keywords)
      | _ \<Rightarrow> (ty, False))"

text \<open>The second switch: one flag for each test that subtracts from the score.\<close>

definition negative_context :: "ucd \<Rightarrow> context_texts \<Rightarrow> etype \<Rightarrow> bool list" where
  "negative_context u x ty =
     (let any = (\<lambda>s words. contains_any s (dict_new u words)) in
      case ty of
        CVV \<Rightarrow> [any (around x) auditorium_keywords \<or> any (around x) non_bank_cvv_keywords]
      | PIN \<Rightarrow> [any (pre60 x) order_number_keywords \<or> any (around x) non_bank_pin_keywords]
      | CARD_NUMBER \<Rightarrow>
          [any (pre60 x) order_number_keywords, any (pre60 x) metro_transport_keywords,
           any (pre60 x) loyalty_card_keywords]
      | DEPARTMENT_CODE \<Rightarrow>
          [list_ex (\<lambda>w. sublist w (around x))
             (map ru [''TOWARA'', ''TOWAR'', ''ZAQWKE'', ''ZAQWKA'', ''ZAQWKI'', ''ARTIKUL''])]
      | PASSPORT \<Rightarrow>
          [any (pre60 x) order_article_keywords,
           sublist (ru ''NOMER DOKUMENTA'') (pre60 x) \<and> \<not> sublist (ru ''PASPORT'') (pre60 x)]
      | ADDRESS \<Rightarrow> [any (around x) bank_branch_keywords \<or> any (around x) public_place_keywords]
      | INN \<Rightarrow> [any (pre60 x) order_article_keywords]
      | PHONE \<Rightarrow> [any (around x) public_contact_keywords]
      | EMAIL \<Rightarrow> [any (around x) public_contact_keywords]
      | FULL_NAME \<Rightarrow> [any (around x) known_person_context_keywords]
      | BIRTH_PLACE \<Rightarrow> [any (pre60 x) known_person_context_keywords]
      | _ \<Rightarrow> [])"

fun suppress :: "f64 \<Rightarrow> bool list \<Rightarrow> f64" where
  "suppress boost [] = boost"
| "suppress boost (b # bs) = suppress (if b then f_sub boost keyword_suppress else boost) bs"

definition clamp :: "f64 \<Rightarrow> f64" where
  "clamp score =
     (let s = (if f_lt score (Fin 0) then Fin 0 else score) in
      if f_lt (Fin 1) s then Fin 1 else s)"

definition adjust :: "ucd \<Rightarrow> context_texts \<Rightarrow> candidate_span \<Rightarrow> candidate_span \<times> bool" where
  "adjust u x c =
     (case positive_context u x (c_type c) of
        (ty, contextual) \<Rightarrow>
          let boost = suppress (if contextual then keyword_boost else Fin 0) (negative_context u x ty) in
          (c\<lparr>c_type := ty, c_score := clamp (f_add (c_score c) boost)\<rparr>, contextual))"

definition score_span :: "ucd \<Rightarrow> norm_text \<Rightarrow> candidate_span \<Rightarrow> (candidate_span \<times> bool) res" where
  "score_span u t c = rbind (context_texts_of u t c) (\<lambda>x. Inr (adjust u x c))"

section \<open>Scores stay between 0 and 1\<close>

lemma f_add_not_NaN: "x \<noteq> NaN \<Longrightarrow> f_add x (Fin a) \<noteq> NaN"
  by (cases x) auto

lemma clamp_range: "x \<noteq> NaN \<Longrightarrow> \<exists>a. clamp x = Fin a \<and> 0 \<le> a \<and> a \<le> 1"
  by (cases x) (auto simp: clamp_def Let_def not_less)

text \<open>What is added to a score is finite.\<close>

lemma keyword_boost_eq: "keyword_boost = Fin (3152519739159347 / 9007199254740992)"
  unfolding keyword_boost_def by code_simp

lemma keyword_suppress_eq: "keyword_suppress = Fin (5404319552844595 / 9007199254740992)"
  unfolding keyword_suppress_def by code_simp

lemma f_add_Fin_not_NaN: "f_add (Fin a) y \<noteq> NaN \<longleftrightarrow> y \<noteq> NaN"
  by (cases y) auto

text \<open>At most three tests subtract, so the sum stays finite; only that it is a number matters.\<close>

lemma f_add_number:
  assumes "x \<noteq> NaN" "y \<noteq> NaN" "x \<noteq> PosInf" "y \<noteq> PosInf"
  shows "f_add x y \<noteq> NaN"
  using assms by (cases x; cases y) auto

definition low :: "f64 \<Rightarrow> bool" where
  "low x \<longleftrightarrow> x = NegInf \<or> (\<exists>a. x = Fin a \<and> a \<le> 1)"

lemma low_number: "low x \<Longrightarrow> x \<noteq> NaN \<and> x \<noteq> PosInf"
  by (auto simp: low_def)

lemma low_sub: "low x \<Longrightarrow> low (f_sub x keyword_suppress)"
proof -
  assume "low x"
  moreover have "low (f_round (a - 5404319552844595 / 9007199254740992))" if "a \<le> 1" for a
    using f_round_le_1[of "a - 5404319552844595 / 9007199254740992"] that
    by (cases "f_round (a - 5404319552844595 / 9007199254740992)") (auto simp: low_def not_less)
  ultimately show ?thesis
    by (auto simp: low_def[of x] f_sub_def keyword_suppress_eq low_def[of NegInf])
qed

lemma low_suppress: "low boost \<Longrightarrow> low (suppress boost bs)"
  by (induction boost bs rule: suppress.induct) (auto simp: low_sub)

lemma low_boost: "low (if b then keyword_boost else Fin 0)"
proof -
  have "low (Fin (3152519739159347 / 9007199254740992))" "low (Fin 0)"
    unfolding low_def by (intro disjI2 exI conjI, rule refl, simp)+
  then show ?thesis
    by (cases b) (simp_all only: keyword_boost_eq if_True if_False)
qed

lemma adjust_range:
  assumes "c_score c \<noteq> NaN" "c_score c \<noteq> PosInf"
  shows "\<exists>a. c_score (fst (adjust u x c)) = Fin a \<and> 0 \<le> a \<and> a \<le> 1"
proof -
  have number: "f_add (c_score c) (suppress (if b then keyword_boost else Fin 0) bs) \<noteq> NaN" for b bs
    using f_add_number[OF assms(1) _ assms(2)] low_number[OF low_suppress[OF low_boost]] by blast
  show ?thesis
    using clamp_range[OF number] unfolding adjust_def Let_def split_def by simp
qed

text \<open>Only the type and the score change, and the type only from a birth date to the date of issue and
  from a passport to a driver's licence.\<close>

lemma adjust_fields:
  "c_text (fst (adjust u x c)) = c_text c" "c_start (fst (adjust u x c)) = c_start c"
  "c_end (fst (adjust u x c)) = c_end c" "c_sources (fst (adjust u x c)) = c_sources c"
  by (simp_all add: adjust_def Let_def split_def)

lemma adjust_type:
  "c_type (fst (adjust u x c)) = c_type c
   \<or> c_type c = BIRTH_DATE \<and> c_type (fst (adjust u x c)) = PASSPORT_ISSUE_DATE
   \<or> c_type c = PASSPORT \<and> c_type (fst (adjust u x c)) = DRIVER_LICENSE"
  by (cases "c_type c") (auto simp: adjust_def positive_context_def Let_def split_def)

section \<open>The windows\<close>

lemma rune_to_byte_eq:
  assumes "k \<le> norm_len (norm_new u s)"
  shows "rune_to_byte (norm_new u s) (int k) = byte_offset (written u (runes s)) k"
  using assms by (auto simp: rune_to_byte_def norm_new_fields norm_len_eq written_def byte_offset_def)

lemma window_slice:
  assumes "lo \<le> hi" "hi \<le> norm_len (norm_new u s)"
  shows "go_slice (normalized (norm_new u s)) (int (rune_to_byte (norm_new u s) (int lo))) (int (rune_to_byte (norm_new u s) (int hi)))
    = Inr (encode_all (drop lo (take hi (written u (runes s)))))"
proof -
  let ?w = "written u (runes s)"
  have "slice_ok (encode_all ?w) (int (byte_offset ?w lo)) (int (byte_offset ?w hi))"
    using byte_offset_mono[OF assms(1), of ?w] byte_offset_le[of ?w hi] by (simp add: slice_ok_def)
  then show ?thesis
    using assms slice_encode_all[OF assms(1), of ?w] by (simp add: rune_to_byte_eq norm_new_fields)
qed

lemma original_to_norm_bounds:
  "original_to_norm (norm_new u s) a \<le> norm_len (norm_new u s)"
  "a \<le> b \<Longrightarrow> original_to_norm (norm_new u s) a \<le> original_to_norm (norm_new u s) b"
proof -
  let ?xs = "orig_offsets (norm_new u s)"
  have "sorted (kept (runes s))"
    by (simp add: kept_def sorted_wrt_filter)
  then have srt: "sorted ?xs"
    by (auto simp: norm_new_fields sorted_iff_nth_mono intro: byte_offset_mono)
  note spec = lower_bound_spec[OF srt le0 le_refl]
  show le: "original_to_norm (norm_new u s) a \<le> norm_len (norm_new u s)" for a
    using spec[of a] by (simp add: original_to_norm_def norm_len_def)
  show "original_to_norm (norm_new u s) a \<le> original_to_norm (norm_new u s) b" if "a \<le> b"
  proof (rule ccontr)
    let ?k = "original_to_norm (norm_new u s) b"
    assume "\<not> original_to_norm (norm_new u s) a \<le> ?k"
    then have "?k < lower_bound ?xs a 0 (length ?xs)" "?k < length ?xs"
      using le[of a] by (simp_all add: original_to_norm_def norm_len_def)
    then have "int (?xs ! ?k) < a" "b \<le> int (?xs ! ?k)"
      using spec[of a] spec[of b] by (auto simp: original_to_norm_def)
    then show False
      using that by simp
  qed
qed

text \<open>Scoring a span whose ends are in order never panics.\<close>

lemma context_texts_total:
  assumes "c_start c \<le> c_end c"
  shows "\<exists>x. context_texts_of u (norm_new u s) c = Inr x
    \<and> pre60 x = encode_all (drop (original_to_norm (norm_new u s) (c_start c) - 60)
                  (take (original_to_norm (norm_new u s) (c_start c)) (written u (runes s))))"
proof -
  let ?t = "norm_new u s"
  have pre: "preceding ?t (c_start c) n = Inr (encode_all (drop (original_to_norm ?t (c_start c) - n)
      (take (original_to_norm ?t (c_start c)) (written u (runes s)))))" for n
    using window_slice[OF _ original_to_norm_bounds(1), of "original_to_norm ?t (c_start c) - n" u s "c_start c"]
    by (simp add: preceding_def Let_def)
  have "original_to_norm ?t (c_start c) - window \<le> min (original_to_norm ?t (c_end c) + window) (norm_len ?t)"
    using original_to_norm_bounds(2)[OF assms, of u s] original_to_norm_bounds(1)[of u s "c_start c"] by linarith
  then have ctx: "score_context ?t (c_start c) (c_end c) = Inr (encode_all (drop (original_to_norm ?t (c_start c) - window)
      (take (min (original_to_norm ?t (c_end c) + window) (norm_len ?t)) (written u (runes s)))))"
    using window_slice[of _ "min (original_to_norm ?t (c_end c) + window) (norm_len ?t)"]
    by (simp add: score_context_def Let_def)
  show ?thesis
    by (simp add: context_texts_of_def pre ctx)
qed

lemma score_span_ok:
  assumes "candidate_ok s c"
  shows "\<exists>c' contextual. score_span u (norm_new u s) c = Inr (c', contextual) \<and> candidate_ok s c'
    \<and> (\<exists>a. c_score c' = Fin a \<and> 0 \<le> a \<and> a \<le> 1)"
proof -
  have "c_start c \<le> c_end c" "c_score c \<noteq> NaN" "c_score c \<noteq> PosInf"
    using assms by (simp_all add: candidate_ok_def)
  then obtain x where x: "context_texts_of u (norm_new u s) c = Inr x"
    using context_texts_total by blast
  obtain a where a: "c_score (fst (adjust u x c)) = Fin a" "0 \<le> a" "a \<le> 1"
    using adjust_range[OF \<open>c_score c \<noteq> NaN\<close> \<open>c_score c \<noteq> PosInf\<close>] by blast
  then have "candidate_ok s (fst (adjust u x c))"
    using assms(1) unfolding candidate_ok_def adjust_fields by (metis f64.distinct)
  then show ?thesis
    using a x by (intro exI[of _ "fst (adjust u x c)"] exI[of _ "snd (adjust u x c)"]) (simp add: score_span_def)
qed

text \<open>A country name without citizenship words before it keeps its score of 0.3.\<close>

lemma citizenship_unboosted:
  assumes "c_type c = CITIZENSHIP" "\<not> contains_any (pre60 x) (dict_new u citizenship_keywords)"
  shows "adjust u x c = (c\<lparr>c_score := clamp (f_add (c_score c) (Fin 0))\<rparr>, False)"
  using assms by (simp add: adjust_def positive_context_def negative_context_def Let_def)

end
