(* ===== verification/Cvv.thy ===== *)
theory Cvv
  imports Recognizer Dict
begin

text \<open>
  \<open>internal/recognizer/cvv.go\<close>: candidates of exactly three digits that are no part of a longer word
  or number, and their binding to a signature within a window of 160 runes.  Positions are rune
  indices of the normalized text; index loops over a range are filters of that range.
\<close>

definition is_digit_sep :: "rune \<Rightarrow> bool" where
  "is_digit_sep r \<longleftrightarrow> r \<in> {32, 9, 45, 0x200B, 0x200C, 0x200D, 0xFEFF, 0x2060}"

definition is_word_char :: "ucd \<Rightarrow> rune \<Rightarrow> bool" where
  "is_word_char u r \<longleftrightarrow> is_letter u r \<or> is_digit u r"

definition word_char_before :: "ucd \<Rightarrow> rune list \<Rightarrow> nat \<Rightarrow> bool" where
  "word_char_before u rs pos = (if pos = 0 then False else is_word_char u (rs ! (pos - 1)))"

definition word_char_after :: "ucd \<Rightarrow> rune list \<Rightarrow> nat \<Rightarrow> bool" where
  "word_char_after u rs pos = (if pos \<ge> length rs then False else is_word_char u (rs ! pos))"

text \<open>The inner loop: the end of the run of digits and separators and its number of digits.\<close>

fun digit_run :: "ucd \<Rightarrow> nat \<Rightarrow> nat \<Rightarrow> rune list \<Rightarrow> nat \<times> nat" where
  "digit_run u j digits [] = (j, digits)"
| "digit_run u j digits (r # rs) =
     (if is_digit u r then digit_run u (j + 1) (digits + 1) rs
      else if is_digit_sep r then digit_run u (j + 1) digits rs
      else (j, digits))"

function first_digit :: "ucd \<Rightarrow> rune list \<Rightarrow> nat \<Rightarrow> nat \<Rightarrow> nat" where
  "first_digit u rs i stop = (if i < stop \<and> \<not> is_digit u (rs ! i) then first_digit u rs (i + 1) stop else i)"
  by pat_completeness auto
termination
  by (relation "measure (\<lambda>(u, rs, i, stop). stop - i)") auto

function last_digit :: "ucd \<Rightarrow> rune list \<Rightarrow> int \<Rightarrow> int \<Rightarrow> int" where
  "last_digit u rs lo i = (if lo \<le> i \<and> \<not> is_digit u (rs ! nat i) then last_digit u rs lo (i - 1) else i)"
  by pat_completeness auto
termination
  by (relation "measure (\<lambda>(u, rs, lo, i). nat (i - lo + 1))") auto

declare first_digit.simps [simp del] last_digit.simps [simp del]

lemma digit_run_spec:
  "digit_run u j digits rs =
     (let run = takeWhile (\<lambda>r. is_digit u r \<or> is_digit_sep r) rs in
      (j + length run, digits + length (filter (is_digit u) run)))"
  by (induction u j digits rs rule: digit_run.induct) (auto simp: Let_def)

lemma digit_run_advances:
  assumes "i < length rs" "is_digit u (rs ! i)"
  shows "i < fst (digit_run u i 0 (drop i rs))"
proof -
  have "drop i rs = rs ! i # drop (Suc i) rs"
    using assms(1) by (simp add: Cons_nth_drop_Suc)
  then show ?thesis
    using assms(2) by (simp add: digit_run_spec Let_def)
qed

lemma digit_run_less:
  "(k, d) = digit_run u i 0 (drop i rs) \<Longrightarrow> \<not> length rs \<le> i \<Longrightarrow> is_digit u (rs ! i)
     \<Longrightarrow> length rs - k < length rs - i"
  using digit_run_advances[of i rs u] by (metis diff_less_mono2 fst_conv not_le)

text \<open>The outer loop.\<close>

function cvv_scan :: "ucd \<Rightarrow> rune list \<Rightarrow> nat \<Rightarrow> (nat \<times> nat) list" where
  "cvv_scan u rs i =
     (if i \<ge> length rs then []
      else if \<not> is_digit u (rs ! i) then cvv_scan u rs (i + 1)
      else
        let (run_end, digits) = digit_run u i 0 (drop i rs);
            first = first_digit u rs i run_end;
            stop = nat (last_digit u rs (int i) (int run_end - 1) + 1) in
        (if digits = 3 \<and> \<not> word_char_before u rs first \<and> \<not> word_char_after u rs stop
         then [(first, stop)] else [])
        @ cvv_scan u rs run_end)"
  by pat_completeness auto
termination
  by (relation "measure (\<lambda>(u, rs, i). length rs - i)") (auto intro: digit_run_less)

declare cvv_scan.simps [simp del]

definition find_cvv_candidates :: "ucd \<Rightarrow> rune list \<Rightarrow> (nat \<times> nat) list" where
  "find_cvv_candidates u rs = cvv_scan u rs 0"

section \<open>Signatures\<close>

definition cvv_window :: nat where
  "cvv_window = 160"

definition cvv_signatures :: "string list" where
  "cvv_signatures = map ru
    [''TRI CIFRY NA OBOROTE KARTY'',
     ''KOD S OBRATNOJ STORONY'',
     ''KOD NA OBOROTE'',
     ''KOD BEZOPASNOSTI'',
     ''ZA]ITNYJ KOD'',
     ''TR#HZNA^NYJ KOD'',
     ''TREHZNA^NYJ KOD'',
     ''cvv2'', ''cvc2'', ''cvv'', ''cvc'',
     ''CWW'', ''CWS'', ''SWW'', ''SWS'']"

definition cvv_competing_keywords :: "string list" where
  "cvv_competing_keywords = map ru
    [''SUMMA'', ''CENA'', ''RUBLEJ'', ''RUB'', ''STOIMOSTX'', ''$'', ''OPLATA'', ''PLATEV'', ''PLAT#V'',
     ''ZAKAZ'', ''ZAQWKA'', ''ARTIKUL'', ''DOGOWOR'',
     ''sms'', ''otp'', ''ODNORAZOWYJ'', ''KOD PODTWERVDENIQ'', ''SMS'',
     ''O[IBKA'', ''http'', ''KOD O[IBKI'',
     ''KABINET'', ''AUDITORIQ'', ''KOMNATA'', ''OFIS'', ''POME]ENIE'',
     ''DOMOFON'', ''ZAMOK'', ''SEJF'', ''KODOWYJ ZAMOK'', ''[KAF^IK'', ''Q^EJKA'',
     ''TELEFON'', ''DOM'', ''KWARTIRA'',
     ''PIN'', ''pin'', ''DATA'', ''SROK DEJSTWIQ'', ''SROK'']"

definition match_runes :: "rune list \<Rightarrow> nat \<Rightarrow> rune list \<Rightarrow> bool" where
  "match_runes rs i sig \<longleftrightarrow> list_all (\<lambda>k. rs ! (i + k) = sig ! k) [0..<length sig]"

definition word_bounded :: "ucd \<Rightarrow> rune list \<Rightarrow> nat \<Rightarrow> nat \<Rightarrow> bool" where
  "word_bounded u rs s e \<longleftrightarrow>
     (if s > 0 \<and> is_word_char u (rs ! (s - 1)) then False
      else if e < length rs \<and> is_word_char u (rs ! e) then False
      else True)"

definition signature_matches :: "ucd \<Rightarrow> rune list \<Rightarrow> nat \<Rightarrow> nat \<Rightarrow> rune list \<Rightarrow> (nat \<times> nat) list" where
  "signature_matches u rs start stop sig =
     map (\<lambda>i. (i, i + length sig))
       (filter (\<lambda>i. match_runes rs i sig \<and> word_bounded u rs i (i + length sig))
         [start..<stop + 1 - length sig])"

definition find_signatures :: "ucd \<Rightarrow> rune list \<Rightarrow> nat \<Rightarrow> nat \<Rightarrow> (nat \<times> nat) list" where
  "find_signatures u rs start stop =
     concat (map (\<lambda>sig. signature_matches u rs start stop (runes sig)) cvv_signatures)"

section \<open>The gap between a value and its signature\<close>

definition contains_keyword :: "ucd \<Rightarrow> rune list \<Rightarrow> nat \<Rightarrow> nat \<Rightarrow> string list \<Rightarrow> bool" where
  "contains_keyword u rs start stop keywords =
     (if start \<ge> stop then False
      else
        let lower = lower_str u (encode_all (drop start (take stop rs))) in
        list_ex (\<lambda>kw. sublist kw lower) keywords)"

definition has_numeric_value :: "ucd \<Rightarrow> rune list \<Rightarrow> nat \<Rightarrow> nat \<Rightarrow> bool" where
  "has_numeric_value u rs start stop \<longleftrightarrow> list_ex (is_digit u) (drop start (take stop rs))"

definition is_strong_sep :: "rune \<Rightarrow> bool" where
  "is_strong_sep r \<longleftrightarrow> r \<in> {44, 59, 46, 33, 63, 10, 13}"

definition has_competing_near_value :: "ucd \<Rightarrow> rune list \<Rightarrow> nat \<times> nat \<Rightarrow> bool" where
  "has_competing_near_value u rs cand =
     (let after_end = min (snd cand + 20) (length rs);
          stop = (case find (\<lambda>i. is_strong_sep (rs ! i)) [snd cand..<after_end] of
                    Some i \<Rightarrow> i | None \<Rightarrow> snd cand);
          before_start = fst cand - 20;
          stop_start = (case find (\<lambda>i. is_strong_sep (rs ! i)) (rev [before_start..<fst cand]) of
                          Some i \<Rightarrow> i + 1 | None \<Rightarrow> fst cand) in
      if contains_keyword u rs (snd cand) stop cvv_competing_keywords then True
      else if contains_keyword u rs stop_start (fst cand) cvv_competing_keywords then True
      else False)"

text \<open>The first loop of \<open>validGap\<close>: no semicolon and at most one sentence end.\<close>

fun gap_marks :: "nat \<Rightarrow> rune list \<Rightarrow> bool" where
  "gap_marks ends [] = True"
| "gap_marks ends (r # rs) =
     (if r = 59 then False
      else if r \<in> {46, 33, 63, 0x2026} then (if ends + 1 > 1 then False else gap_marks (ends + 1) rs)
      else gap_marks ends rs)"

definition valid_gap :: "ucd \<Rightarrow> rune list \<Rightarrow> nat \<Rightarrow> nat \<Rightarrow> nat \<times> nat \<Rightarrow> bool" where
  "valid_gap u rs gap_start gap_end cand =
     (if \<not> gap_marks 0 (drop gap_start (take gap_end rs)) then False
      else if contains_keyword u rs gap_start gap_end cvv_competing_keywords then False
      else if has_numeric_value u rs gap_start gap_end then False
      else if has_competing_near_value u rs cand then False
      else True)"

definition bound_to_signature :: "ucd \<Rightarrow> rune list \<Rightarrow> nat \<times> nat \<Rightarrow> bool" where
  "bound_to_signature u rs cand =
     (let left_start = fst cand - cvv_window;
          right_end = min (snd cand + cvv_window) (length rs) in
      if list_ex (\<lambda>sig. valid_gap u rs (snd sig) (fst cand) cand) (find_signatures u rs left_start (fst cand)) then True
      else if list_ex (\<lambda>sig. valid_gap u rs (snd cand) (fst sig) cand) (find_signatures u rs (snd cand) right_end) then True
      else False)"

definition cvv_recognize :: "ucd \<Rightarrow> recognizer" where
  "cvv_recognize u t =
     (let rs = runes (normalized t) in
      collect (\<lambda>(s, e). emit CVV (f_round (7 / 10)) [SourceRegex, SourceContext] ''cvv-signature-bound'' t
                 (map_span t (int s) (int e)))
        (filter (bound_to_signature u rs) (find_cvv_candidates u rs)))"

section \<open>Candidates\<close>

lemma last_digit_spec:
  assumes "i < k" "is_digit u (rs ! i)"
  shows "\<exists>m. last_digit u rs (int i) (int k - 1) = int m \<and> i \<le> m \<and> m < k \<and> is_digit u (rs ! m)
    \<and> (\<forall>x. m < x \<longrightarrow> x < k \<longrightarrow> \<not> is_digit u (rs ! x))"
  using assms
proof (induction k)
  case 0
  then show ?case by simp
next
  case (Suc k)
  show ?case
  proof (cases "is_digit u (rs ! k)")
    case True
    then have "last_digit u rs (int i) (int (Suc k) - 1) = int k"
      by (subst last_digit.simps) simp
    then show ?thesis
      using True Suc.prems by (intro exI[of _ k]) auto
  next
    case False
    then have "i < k"
      using Suc.prems by (cases "i = k") auto
    moreover have "last_digit u rs (int i) (int (Suc k) - 1) = last_digit u rs (int i) (int k - 1)"
      using False Suc.prems by (subst last_digit.simps) simp
    ultimately show ?thesis
      using Suc.IH[OF _ Suc.prems(2)] False by (metis less_SucE less_SucI)
  qed
qed

text \<open>Three digits with separators between them, at a word boundary on both sides.\<close>

definition cvv_shape :: "ucd \<Rightarrow> rune list \<Rightarrow> nat \<times> nat \<Rightarrow> bool" where
  "cvv_shape u rs cand \<longleftrightarrow>
     (let v = drop (fst cand) (take (snd cand) rs) in
      fst cand < snd cand \<and> snd cand \<le> length rs
      \<and> list_all (\<lambda>r. is_digit u r \<or> is_digit_sep r) v
      \<and> is_digit u (hd v) \<and> is_digit u (last v) \<and> length (filter (is_digit u) v) = 3
      \<and> \<not> word_char_before u rs (fst cand) \<and> \<not> word_char_after u rs (snd cand))"

lemma drop_take_split:
  assumes "i \<le> e" "e \<le> k" "k \<le> length xs"
  shows "drop i (take k xs) = drop i (take e xs) @ drop e (take k xs)"
proof -
  have "take k xs = take e xs @ drop e (take k xs)"
    using append_take_drop_id[of e "take k xs"] assms(2) by (simp add: min_def)
  then have "drop i (take k xs) = drop i (take e xs @ drop e (take k xs))"
    by simp
  also have "\<dots> = drop i (take e xs) @ drop e (take k xs)"
    using assms by (simp only: drop_append) simp
  finally show ?thesis .
qed

lemma scanned_shape:
  assumes i: "i < length rs" "is_digit u (rs ! i)"
    and run: "digit_run u i 0 (drop i rs) = (k, 3)"
    and stop: "e = nat (last_digit u rs (int i) (int k - 1) + 1)"
    and words: "\<not> word_char_before u rs i" "\<not> word_char_after u rs e"
  shows "cvv_shape u rs (i, e)"
proof -
  let ?P = "\<lambda>r. is_digit u r \<or> is_digit_sep r"
  let ?run = "takeWhile ?P (drop i rs)"
  have k: "k = i + length ?run" and three: "length (filter (is_digit u) ?run) = 3"
    using run by (simp_all add: digit_run_spec Let_def)
  have ik: "i < k"
    using digit_run_advances[of i rs u] i run by simp
  have kn: "k \<le> length rs"
    using k length_takeWhile_le[of ?P "drop i rs"] i(1) by simp
  have run_eq: "?run = drop i (take k rs)"
    using k takeWhile_eq_take[of ?P "drop i rs"] by (simp add: take_drop add.commute)
  obtain m where m: "last_digit u rs (int i) (int k - 1) = int m" "i \<le> m" "m < k" "is_digit u (rs ! m)"
    "\<And>x. m < x \<Longrightarrow> x < k \<Longrightarrow> \<not> is_digit u (rs ! x)"
    using last_digit_spec[OF ik i(2)] by blast
  have e: "e = Suc m"
    using stop m(1) by simp
  let ?v = "drop i (take e rs)"
  have split: "drop i (take k rs) = ?v @ drop e (take k rs)"
    using drop_take_split[of i e k rs] m(2,3) e kn by simp
  have tail: "filter (is_digit u) (drop e (take k rs)) = []"
    using m(5) e kn by (auto simp: filter_empty_conv in_set_conv_nth)
  have v: "length ?v = e - i"
    using e m(3) kn by simp
  have "list_all ?P ?v"
    using split run_eq by (metis list_all_append list_all_iff set_takeWhileD)
  moreover have "hd ?v = rs ! i"
    using v e m(2,3) kn by (simp add: hd_drop_conv_nth)
  moreover have "last ?v = rs ! m"
    using v e m(2,3) kn by (simp add: last_conv_nth)
  moreover have "length (filter (is_digit u) ?v) = 3"
    using three tail unfolding run_eq split by simp
  ultimately show ?thesis
    using i m(2-4) words kn e by (simp add: cvv_shape_def Let_def)
qed

lemma cvv_scan_shape: "cand \<in> set (cvv_scan u rs i) \<Longrightarrow> cvv_shape u rs cand"
proof (induction u rs i rule: cvv_scan.induct)
  case (1 u rs i)
  show ?case
  proof (cases "i < length rs \<and> is_digit u (rs ! i)")
    case True
    obtain k d where kd: "digit_run u i 0 (drop i rs) = (k, d)"
      by fastforce
    have first: "first_digit u rs i k = i"
      using True by (subst first_digit.simps) simp
    let ?e = "nat (last_digit u rs (int i) (int k - 1) + 1)"
    have "cand \<in> set (if d = 3 \<and> \<not> word_char_before u rs i \<and> \<not> word_char_after u rs ?e then [(i, ?e)] else [])
        \<or> cand \<in> set (cvv_scan u rs k)"
      using "1.prems" True kd first by (subst (asm) cvv_scan.simps) (simp add: Let_def)
    then show ?thesis
      using "1.IH"(2)[OF _ _ kd[symmetric] refl] scanned_shape[of i rs u k ?e] True kd
      by (auto split: if_splits)
  next
    case False
    then show ?thesis
      using "1.IH"(1) "1.prems" by (subst (asm) (2) cvv_scan.simps) (auto split: if_splits)
  qed
qed

section \<open>What is emitted\<close>

text \<open>A signature as a word of its own within the window before or after the value.\<close>

definition signed :: "ucd \<Rightarrow> rune list \<Rightarrow> nat \<times> nat \<Rightarrow> bool" where
  "signed u rs cand \<longleftrightarrow>
     (\<exists>sig \<in> set cvv_signatures. \<exists>i.
        match_runes rs i (runes sig) \<and> word_bounded u rs i (i + length (runes sig))
        \<and> (fst cand \<le> i + cvv_window \<and> i + length (runes sig) \<le> fst cand
           \<or> snd cand \<le> i \<and> i + length (runes sig) \<le> snd cand + cvv_window))"

lemma found_signature:
  "sg \<in> set (find_signatures u rs start stop) \<Longrightarrow>
     \<exists>sig \<in> set cvv_signatures. \<exists>i. start \<le> i \<and> i + length (runes sig) \<le> stop
       \<and> match_runes rs i (runes sig) \<and> word_bounded u rs i (i + length (runes sig))"
proof -
  assume "sg \<in> set (find_signatures u rs start stop)"
  then obtain sig i where "sig \<in> set cvv_signatures" "i \<in> set [start..<stop + 1 - length (runes sig)]"
    "match_runes rs i (runes sig)" "word_bounded u rs i (i + length (runes sig))"
    by (auto simp: find_signatures_def signature_matches_def)
  then show ?thesis
    by (intro bexI[of _ sig] exI[of _ i]) auto
qed

lemma bound_is_signed:
  assumes "bound_to_signature u rs cand"
  shows "signed u rs cand"
proof -
  consider sg where "sg \<in> set (find_signatures u rs (fst cand - cvv_window) (fst cand))"
    | sg where "sg \<in> set (find_signatures u rs (snd cand) (min (snd cand + cvv_window) (length rs)))"
    using assms by (auto simp: bound_to_signature_def Let_def list_ex_iff split: if_splits)
  then show ?thesis
  proof cases
    case 1
    then show ?thesis
      using found_signature[OF 1] by (fastforce simp: signed_def)
  next
    case 2
    then show ?thesis
      using found_signature[OF 2] by (fastforce simp: signed_def)
  qed
qed

lemma cvv_recognize_ok:
  assumes "ucd_ok u" "valid_string s"
  shows "\<exists>cs. cvv_recognize u (norm_new u s) = Inr cs
    \<and> (\<forall>c \<in> set cs. candidate_ok s c \<and> c_type c = CVV
        \<and> (\<exists>cand. cvv_shape u (runes (normalized (norm_new u s))) cand
             \<and> signed u (runes (normalized (norm_new u s))) cand
             \<and> (c_start c, c_end c) = map_span (norm_new u s) (int (fst cand)) (int (snd cand))))"
proof -
  let ?t = "norm_new u s"
  let ?rs = "runes (normalized ?t)"
  let ?P = "\<lambda>cand c. candidate_ok s c \<and> c_type c = CVV \<and> (c_start c, c_end c) = map_span ?t (int (fst cand)) (int (snd cand))"
  have "\<exists>cs. cvv_recognize u ?t = Inr cs \<and> list_all2 ?P (filter (bound_to_signature u ?rs) (find_cvv_candidates u ?rs)) cs"
    unfolding cvv_recognize_def Let_def
  proof (rule collect_ok)
    fix cand
    assume "cand \<in> set (filter (bound_to_signature u ?rs) (find_cvv_candidates u ?rs))"
    then have sh: "fst cand < snd cand" "snd cand \<le> norm_len ?t"
      using cvv_scan_shape[of cand u ?rs 0] runes_normalized(3)[OF assms]
      by (auto simp: find_cvv_candidates_def cvv_shape_def Let_def)
    obtain c where "emit CVV (f_round (7 / 10)) [SourceRegex, SourceContext] ''cvv-signature-bound'' ?t
        (map_span ?t (int (fst cand)) (int (snd cand))) = Inr c" "?P cand c"
      by (rule emit_ok[OF assms(2) sh, of "f_round (7 / 10)" CVV "[SourceRegex, SourceContext]" "''cvv-signature-bound''"])
        (auto simp: prod_eq_iff)
    then show "\<exists>c. (case cand of (s, e) \<Rightarrow> emit CVV (f_round (7 / 10)) [SourceRegex, SourceContext] ''cvv-signature-bound'' ?t
        (map_span ?t (int s) (int e))) = Inr c \<and> ?P cand c"
      by (auto simp: split_def)
  qed
  then obtain cs where cs: "cvv_recognize u ?t = Inr cs"
    "list_all2 ?P (filter (bound_to_signature u ?rs) (find_cvv_candidates u ?rs)) cs"
    by blast
  have "candidate_ok s c \<and> c_type c = CVV
      \<and> (\<exists>cand. cvv_shape u ?rs cand \<and> signed u ?rs cand \<and> (c_start c, c_end c) = map_span ?t (int (fst cand)) (int (snd cand)))"
    if "c \<in> set cs" for c
    using list_all2_right[OF cs(2) that] cvv_scan_shape bound_is_signed
    unfolding find_cvv_candidates_def set_filter by blast
  with cs(1) show ?thesis by blast
qed

lemma cvv_rule_recognizer: "ucd_ok u \<Longrightarrow> rule_recognizer u (cvv_recognize u) CVV"
  by unfold_locales (use cvv_recognize_ok in blast)

sublocale tables \<subseteq> cvv: rule_recognizer u "cvv_recognize u" CVV
  by (rule cvv_rule_recognizer[OF tables_ok])

end
