(* ===== verification/Name.thy ===== *)
theory Name
  imports Recognizer Dict
begin

text \<open>
  \<open>internal/recognizer/name.go\<close>: full names as maximal runs of two or three name-like words.  Words
  are found by one pass over the normalized text; a word is name-like by the dictionaries or its
  ending.  Scores are sums of doubles.
\<close>

record name_token =
  tok_text :: string
  tok_start :: nat
  tok_end :: nat

record name_dicts =
  first_dict :: dict
  last_dict :: dict
  known_dict :: dict

definition name_letter :: "rune \<Rightarrow> bool" where
  "name_letter r \<longleftrightarrow> 0x430 \<le> r \<and> r \<le> 0x44F \<or> r = 0x451 \<or> 97 \<le> r \<and> r \<le> 122
     \<or> 0x410 \<le> r \<and> r \<le> 0x42F \<or> r = 0x401 \<or> 65 \<le> r \<and> r \<le> 90"

definition token_at :: "string \<Rightarrow> nat \<Rightarrow> nat \<Rightarrow> name_token" where
  "token_at s i j = \<lparr>tok_text = slice s (int i) (int j), tok_start = i, tok_end = j\<rparr>"

fun tokens_from :: "string \<Rightarrow> bool \<Rightarrow> nat \<Rightarrow> (nat \<times> rune) list \<Rightarrow> name_token list" where
  "tokens_from s in_word start [] = (if in_word then [token_at s start (length s)] else [])"
| "tokens_from s in_word start ((i, r) # xs) =
     (if name_letter r then tokens_from s True (if in_word then start else i) xs
      else if in_word then token_at s start i # tokens_from s False start xs
      else tokens_from s False start xs)"

definition tokenize :: "string \<Rightarrow> name_token list" where
  "tokenize s = tokens_from s False 0 (zip (rune_offsets s) (runes s))"

definition is_patronymic :: "string \<Rightarrow> bool" where
  "is_patronymic w \<longleftrightarrow>
     list_ex (\<lambda>suffix. has_suffix w suffix \<and> length w > length suffix + 2)
       (map ru [''OWI^'', ''EWI^'', ''OWNA'', ''EWNA'', ''I^NA'', ''I^'', ''^NA''])"

definition is_last_name_ending :: "string \<Rightarrow> bool" where
  "is_last_name_ending w \<longleftrightarrow>
     list_ex (\<lambda>suffix. has_suffix w suffix \<and> length w > length suffix + 2)
       (map ru [''OW'', ''EW'', ''IN'', ''YN'', ''SKIJ'', ''SKOJ'', ''CKIJ'', ''CKOJ'', ''OWA'', ''EWA'', ''INA'',
                ''YNA'', ''SKAQ'', ''CKAQ''])"

definition is_name_like :: "ucd \<Rightarrow> name_dicts \<Rightarrow> name_token \<Rightarrow> bool" where
  "is_name_like u d t \<longleftrightarrow>
     (let lower = lower_str u (tok_text t) in
      dict_contains u (first_dict d) lower \<or> dict_contains u (last_dict d) lower
      \<or> is_patronymic lower \<or> is_last_name_ending lower)"

fun score_loop :: "ucd \<Rightarrow> name_dicts \<Rightarrow> f64 \<Rightarrow> nat \<Rightarrow> name_token list \<Rightarrow> f64 \<times> nat" where
  "score_loop u d score matched [] = (score, matched)"
| "score_loop u d score matched (t # ts) =
     (let lower = lower_str u (tok_text t) in
      if dict_contains u (first_dict d) lower then score_loop u d (f_add score (f_round (2 / 5))) (matched + 1) ts
      else if dict_contains u (last_dict d) lower then score_loop u d (f_add score (f_round (7 / 20))) (matched + 1) ts
      else if is_patronymic lower then score_loop u d (f_add score (f_round (3 / 10))) (matched + 1) ts
      else if is_last_name_ending lower then score_loop u d (f_add score (f_round (1 / 5))) (matched + 1) ts
      else score_loop u d score matched ts)"

definition score_name :: "ucd \<Rightarrow> name_dicts \<Rightarrow> name_token list \<Rightarrow> f64" where
  "score_name u d ts =
     (case score_loop u d (Fin 0) 0 ts of
        (score, matched) \<Rightarrow>
          if matched = 0 then Fin 0
          else
            let score' = (if length ts = 3 \<and> is_patronymic (lower_str u (tok_text (ts ! 1)))
                          then f_add score (f_round (1 / 5)) else score) in
            if f_lt (Fin 1) score' then Fin 1 else score')"

text \<open>The inner loop: the end of a run of at most three name-like words.\<close>

function name_run :: "ucd \<Rightarrow> name_dicts \<Rightarrow> name_token list \<Rightarrow> nat \<Rightarrow> nat \<Rightarrow> nat" where
  "name_run u d words i j =
     (if j < length words \<and> j - i < 3 \<and> is_name_like u d (words ! j) then name_run u d words i (j + 1) else j)"
  by pat_completeness auto
termination
  by (relation "measure (\<lambda>(u, d, words, i, j). length words - j)") auto

declare name_run.simps [simp del]

text \<open>A known person lowers the score.\<close>

definition known_penalty :: "ucd \<Rightarrow> name_dicts \<Rightarrow> string \<Rightarrow> f64 \<Rightarrow> f64" where
  "known_penalty u d name score =
     (if dict_contains u (known_dict d) name
      then (let s = f_sub score (f_round (3 / 20)) in if f_lt s (Fin 0) then Fin 0 else s)
      else score)"

function name_scan :: "ucd \<Rightarrow> name_dicts \<Rightarrow> norm_text \<Rightarrow> name_token list \<Rightarrow> nat \<Rightarrow> candidate_span list res" where
  "name_scan u d t words i =
     (if i \<ge> length words then Inr []
      else if \<not> is_name_like u d (words ! i) then name_scan u d t words (i + 1)
      else
        let j = name_run u d words i i in
        if j - i < 2 then name_scan u d t words (i + 1)
        else
          let start_byte = int (tok_start (words ! i));
              end_byte = int (tok_end (words ! (j - 1)));
              name = slice (normalized t) start_byte end_byte;
              score = score_name u d (drop i (take j words)) in
          if f_le score (Fin 0) then name_scan u d t words (i + 1)
          else
            rbind (emit FULL_NAME (known_penalty u d name score) [SourceRegex, SourceDictionary] ''name-heuristic'' t
                     (map_span t (int (byte_to_rune t start_byte)) (int (byte_to_rune t end_byte)))) (\<lambda>c.
            rbind (name_scan u d t words j) (\<lambda>cs. Inr (c # cs))))"
  by pat_completeness auto
termination
  by (relation "measure (\<lambda>(u, d, t, words, i). length words - i)") auto

declare name_scan.simps [simp del]

definition name_recognize :: "ucd \<Rightarrow> name_dicts \<Rightarrow> recognizer" where
  "name_recognize u d t = name_scan u d t (tokenize (normalized t)) 0"

section \<open>Words\<close>

definition token_ok :: "rune list \<Rightarrow> name_token \<Rightarrow> bool" where
  "token_ok rs t \<longleftrightarrow> (\<exists>i j. i < j \<and> j \<le> length rs \<and> tok_start t = byte_offset rs i \<and> tok_end t = byte_offset rs j
     \<and> list_all name_letter (drop i (take j rs)))"

definition tokens_ok :: "rune list \<Rightarrow> nat \<Rightarrow> name_token list \<Rightarrow> bool" where
  "tokens_ok rs k ts \<longleftrightarrow> list_all (token_ok rs) ts \<and> sorted_wrt (\<lambda>a b. tok_end a \<le> tok_start b) ts
     \<and> list_all (\<lambda>t. byte_offset rs k \<le> tok_start t) ts"

lemma tokens_ok_mono: "tokens_ok rs n ts \<Longrightarrow> k \<le> n \<Longrightarrow> tokens_ok rs k ts"
  using byte_offset_mono[of k n rs] by (auto simp: tokens_ok_def list_all_iff intro: order_trans)

lemma tokens_ok_Cons:
  assumes "k < n" "n \<le> length rs" "list_all name_letter (drop k (take n rs))" "tokens_ok rs n ts"
  shows "tokens_ok rs k (token_at s (byte_offset rs k) (byte_offset rs n) # ts)"
proof -
  have "token_ok rs (token_at s (byte_offset rs k) (byte_offset rs n))"
    using assms(1-3) by (auto simp: token_ok_def token_at_def)
  then show ?thesis
    using assms(4) tokens_ok_mono[OF assms(4), of k] assms(1) by (simp add: tokens_ok_def token_at_def list_all_iff)
qed

lemma tokens_from_ok:
  assumes "length s = byte_offset rs (length rs)" "n \<le> length rs"
    and "in_word \<Longrightarrow> k < n \<and> start = byte_offset rs k \<and> list_all name_letter (drop k (take n rs))"
  shows "tokens_ok rs (if in_word then k else n)
    (tokens_from s in_word start (map (\<lambda>m. (byte_offset rs m, rs ! m)) [n..<length rs]))"
  using assms(2,3)
proof (induction "length rs - n" arbitrary: n in_word start k)
  case 0
  then show ?case
    using tokens_ok_Cons[of k n rs "[]" s] assms(1) by (auto simp: tokens_ok_def)
next
  case (Suc x)
  then have n: "n < length rs" "x = length rs - Suc n"
    by auto
  let ?xs = "map (\<lambda>m. (byte_offset rs m, rs ! m)) [Suc n..<length rs]"
  have xs: "map (\<lambda>m. (byte_offset rs m, rs ! m)) [n..<length rs] = (byte_offset rs n, rs ! n) # ?xs"
    using n(1) by (simp add: upt_conv_Cons)
  have tk: "drop n (take (Suc n) rs) = [rs ! n]"
    using n(1) by (simp add: take_Suc_conv_app_nth)
  have tk2: "drop k (take (Suc n) rs) = drop k (take n rs) @ [rs ! n]" if "k \<le> n"
    using n(1) that by (simp add: take_Suc_conv_app_nth)
  show ?case
  proof (cases "name_letter (rs ! n)")
    case True
    show ?thesis
    proof (cases in_word)
      case w: True
      then show ?thesis
        using Suc.hyps(1)[OF n(2), of True k start] Suc.prems(2) n(1) True tk2 by (simp add: xs)
    next
      case w: False
      then show ?thesis
        using Suc.hyps(1)[OF n(2), of True n "byte_offset rs n"] n(1) True tk by (simp add: xs)
    qed
  next
    case False
    have rest: "tokens_ok rs n (tokens_from s False start ?xs)"
      using Suc.hyps(1)[OF n(2), of False k start] n(1) by (auto intro: tokens_ok_mono)
    show ?thesis
    proof (cases in_word)
      case w: True
      then show ?thesis
        using tokens_ok_Cons[OF _ _ _ rest, of k s] Suc.prems n(1) False by (simp add: xs)
    next
      case w: False
      then show ?thesis
        using rest False by (simp add: xs)
    qed
  qed
qed

lemma tokenize_ok:
  assumes "valid_string s"
  shows "tokens_ok (runes s) 0 (tokenize s)"
proof -
  have "zip (rune_offsets s) (runes s) = map (\<lambda>m. (byte_offset (runes s) m, runes s ! m)) [0..<length (runes s)]"
    using rune_offsets_nth[OF assms] by (intro nth_equalityI) (auto simp: rune_count_def)
  moreover have "length s = byte_offset (runes s) (length (runes s))"
    using encode_runes[OF assms] by (simp add: byte_offset_length)
  ultimately show ?thesis
    using tokens_from_ok[of s "runes s" 0 False 0 0] by (simp add: tokenize_def)
qed

section \<open>Scores\<close>

definition unit_score :: "f64 \<Rightarrow> bool" where
  "unit_score x \<longleftrightarrow> (\<exists>a. x = Fin a \<and> 0 \<le> a \<and> a \<le> 1)"

definition nonneg :: "f64 \<Rightarrow> bool" where
  "nonneg x \<longleftrightarrow> x \<noteq> NaN \<and> \<not> f_lt x (Fin 0)"

lemma nonneg_add: "nonneg x \<Longrightarrow> 0 \<le> q \<Longrightarrow> nonneg (f_add x (f_round q))"
proof -
  assume x: "nonneg x" and q: "0 \<le> q"
  have y: "nonneg (f_round q)"
    using f_round_nonneg[OF q] by (simp add: nonneg_def)
  show ?thesis
    using x y by (cases x; cases "f_round q") (auto simp: nonneg_def f_round_nonneg not_less)
qed

lemma score_loop_nonneg:
  "nonneg score \<Longrightarrow> nonneg (fst (score_loop u d score matched ts))"
  by (induction u d score matched ts rule: score_loop.induct) (simp_all add: Let_def nonneg_add)

lemma clamp_unit: "nonneg x \<Longrightarrow> unit_score (if f_lt (Fin 1) x then Fin 1 else x)"
  by (cases x) (auto simp: unit_score_def nonneg_def not_less)

lemma score_name_unit: "unit_score (score_name u d ts)"
proof -
  have "nonneg (fst (score_loop u d (Fin 0) 0 ts))"
    by (rule score_loop_nonneg) (simp add: nonneg_def)
  then show ?thesis
    using clamp_unit nonneg_add[of "fst (score_loop u d (Fin 0) 0 ts)" "1 / 5"]
    by (auto simp: score_name_def Let_def split_def unit_score_def[of "Fin 0"])
qed

lemma known_penalty_unit: "unit_score x \<Longrightarrow> unit_score (known_penalty u d name x)"
proof -
  assume "unit_score x"
  then obtain a where a: "x = Fin a" "0 \<le> a" "a \<le> 1"
    by (auto simp: unit_score_def)
  obtain b where b: "f_round (3 / 20) = Fin b" "0 \<le> b"
  proof -
    have "f_round (3 / 20) = Fin (5404319552844595 / 36028797018963968)"
      by code_simp
    then show ?thesis
      by (intro that[of "5404319552844595 / 36028797018963968"]) simp_all
  qed
  have "\<not> f_lt (Fin 1) (f_round (a - b))"
    using a(3) b(2) by (intro f_round_le_1) simp
  then have "f_lt (f_round (a - b)) (Fin 0) \<or> unit_score (f_round (a - b))"
    by (cases "f_round (a - b)") (auto simp: unit_score_def not_less)
  then show ?thesis
    using a b by (auto simp: known_penalty_def f_sub_def Let_def unit_score_def)
qed

section \<open>What is emitted\<close>

lemma name_run_le: "j \<le> length words \<Longrightarrow> j \<le> name_run u d words i j \<and> name_run u d words i j \<le> length words"
proof (induction u d words i j rule: name_run.induct)
  case (1 u d words i j)
  then show ?case
    by (subst name_run.simps, subst (2) name_run.simps) auto
qed

lemma map_span_ordered:
  assumes "i < j" "j \<le> i'" "i' < j'" "j' \<le> norm_len (norm_new u s)"
  shows "snd (map_span (norm_new u s) (int i) (int j)) \<le> fst (map_span (norm_new u s) (int i') (int j'))"
proof -
  let ?ks = "kept (runes s)"
  have "sorted_wrt (<) ?ks"
    by (simp add: kept_def sorted_wrt_filter)
  then have "?ks ! (j - 1) < ?ks ! i'"
    using assms by (auto simp: norm_len_eq intro: sorted_wrt_nth_less)
  then have "byte_offset (runes s) (Suc (?ks ! (j - 1))) \<le> byte_offset (runes s) (?ks ! i')"
    by (intro byte_offset_mono) auto
  then show ?thesis
    using assms by (simp add: map_span_eq)
qed

text \<open>The rune positions of the names found, in order and apart.\<close>

definition name_of :: "ucd \<Rightarrow> string \<Rightarrow> nat \<times> nat \<Rightarrow> candidate_span \<Rightarrow> bool" where
  "name_of u s p c \<longleftrightarrow> fst p < snd p \<and> snd p \<le> norm_len (norm_new u s)
     \<and> (c_start c, c_end c) = map_span (norm_new u s) (int (fst p)) (int (snd p))
     \<and> candidate_ok s c \<and> c_type c = FULL_NAME \<and> unit_score (c_score c)"

lemma name_scan_ok:
  assumes "ucd_ok u" "valid_string s" "t = norm_new u s" "w = written u (runes s)" "tokens_ok w 0 words"
  shows "\<exists>cs ps. name_scan u d t words i = Inr cs \<and> list_all2 (name_of u s) ps cs
    \<and> sorted_wrt (\<lambda>p q. snd p \<le> fst q) ps
    \<and> (i < length words \<longrightarrow> (\<forall>p \<in> set ps. tok_start (words ! i) \<le> byte_offset w (fst p)))
    \<and> (i \<ge> length words \<longrightarrow> ps = [])"
proof (induction "length words - i" arbitrary: i rule: less_induct)
  case less
  note IH = less.hyps
  have len: "length (normalized t) = byte_offset w (length w)" "length w = norm_len t"
    using assms(3,4) by (simp_all add: norm_new_fields byte_offset_length norm_len_eq written_def)
  have tok: "token_ok w (words ! k)" if "k < length words" for k
    using assms(5) that by (simp add: tokens_ok_def list_all_length)
  have ord: "tok_end (words ! a) \<le> tok_start (words ! b)" if "a < b" "b < length words" for a b
    using assms(5) that by (auto simp: tokens_ok_def sorted_wrt_iff_nth_less)
  have tlt: "tok_start (words ! k) < tok_end (words ! k)" "tok_end (words ! k) \<le> length (normalized t)" if "k < length words" for k
    using tok[OF that] byte_offset_strict byte_offset_mono[of _ "length w" w] by (auto simp: token_ok_def len)
  show ?case
  proof (cases "i \<ge> length words")
    case True
    then show ?thesis
      by (subst name_scan.simps) simp
  next
    case i: False
    define j where "j = name_run u d words i i"
    have j: "i \<le> j" "j \<le> length words"
      using name_run_le[of i words u d i] i by (simp_all add: j_def)
    define name where "name = slice (normalized t) (int (tok_start (words ! i))) (int (tok_end (words ! (j - 1))))"
    define score where "score = score_name u d (drop i (take j words))"
    have skip: ?thesis if "name_scan u d t words i = name_scan u d t words (i + 1)"
    proof -
      have less1: "length words - (i + 1) < length words - i"
        using i by simp
      obtain cs ps where h: "name_scan u d t words (i + 1) = Inr cs" "list_all2 (name_of u s) ps cs"
        "sorted_wrt (\<lambda>p q. snd p \<le> fst q) ps"
        "i + 1 < length words \<longrightarrow> (\<forall>p \<in> set ps. tok_start (words ! (i + 1)) \<le> byte_offset w (fst p))"
        "i + 1 \<ge> length words \<longrightarrow> ps = []"
        using IH[of "i + 1"] less1 by blast
      have "tok_start (words ! i) \<le> byte_offset w (fst p)" if "p \<in> set ps" for p
      proof -
        have i1: "i + 1 < length words"
          using h(5) that by (cases "i + 1 < length words") auto
        then have "tok_start (words ! i) \<le> tok_start (words ! (i + 1))"
          using ord[of i "i + 1"] tlt(1)[of i] by simp
        then show ?thesis
          using h(4) i1 that by (meson le_trans)
      qed
      then show ?thesis
        using that h(1-3) i by (intro exI[of _ cs] exI[of _ ps]) simp
    qed
    show ?thesis
    proof (cases "is_name_like u d (words ! i) \<and> j - i \<ge> 2 \<and> \<not> f_le score (Fin 0)")
      case False
      have "name_scan u d t words i = name_scan u d t words (i + 1)"
        using False i by (subst name_scan.simps) (auto simp: Let_def j_def score_def)
      then show ?thesis by (rule skip)
    next
      case True
      then have j2: "Suc i < j" by linarith
      obtain p where p: "p \<le> length w" "tok_start (words ! i) = byte_offset w p"
        using tok[of i] i unfolding token_ok_def by (metis le_trans less_imp_le_nat not_le)
      let ?b1 = "int (tok_start (words ! i))" and ?b2 = "int (tok_end (words ! (j - 1)))"
      have b: "?b1 < ?b2" "?b2 \<le> int (length (normalized t))"
      proof -
        have jj: "i < j - 1" "j - 1 < length words"
          using j2 j by linarith+
        show "?b1 < ?b2" "?b2 \<le> int (length (normalized t))"
          using ord[OF jj] tlt(1)[of i] tlt[OF jj(2)] i by linarith+
      qed
      have pn: "p < norm_len t"
      proof (rule ccontr)
        assume "\<not> p < norm_len t"
        then have "p = length w"
          using p(1) len(2) by simp
        then show False
          using p(2) b len(1) by simp
      qed
      define q where "q = byte_to_rune t ?b2"
      have pq: "byte_to_rune t ?b1 = p" "p < q" "q \<le> norm_len t"
        using byte_to_rune_bounds[of ?b1 u s p ?b2] p pn b len(2) assms(3,4) by (simp_all add: q_def)
      have us: "unit_score (known_penalty u d name score)"
        unfolding score_def by (rule known_penalty_unit[OF score_name_unit])
      then have nn: "known_penalty u d name score \<noteq> NaN" "known_penalty u d name score \<noteq> PosInf"
        by (auto simp: unit_score_def)
      obtain c where c: "emit FULL_NAME (known_penalty u d name score) [SourceRegex, SourceDictionary] ''name-heuristic'' t
          (map_span t (int p) (int q)) = Inr c" "name_of u s (p, q) c"
        using emit_ok[OF assms(2) pq(2) pq(3)[unfolded assms(3)] nn, of FULL_NAME "[SourceRegex, SourceDictionary]" "''name-heuristic''"]
          pq us unfolding assms(3) name_of_def by (metis fst_conv snd_conv prod.collapse)
      have lessj: "length words - j < length words - i"
        using j2 i by simp
      obtain cs ps where IHj: "name_scan u d t words j = Inr cs" "list_all2 (name_of u s) ps cs"
        "sorted_wrt (\<lambda>p q. snd p \<le> fst q) ps"
        "j < length words \<longrightarrow> (\<forall>p \<in> set ps. tok_start (words ! j) \<le> byte_offset w (fst p))"
        "j \<ge> length words \<longrightarrow> ps = []"
        using IH[of j] lessj by blast
      have run: "name_scan u d t words i = Inr (c # cs)"
        using True i j2 c(1)[unfolded name_def] pq(1) IHj(1)
        by (subst name_scan.simps) (simp add: Let_def q_def flip: j_def score_def)
      have qw: "byte_offset w q = tok_end (words ! (j - 1))"
      proof -
        obtain r where r: "r \<le> length w" "tok_end (words ! (j - 1)) = byte_offset w r"
          using tok[of "j - 1"] j j2 unfolding token_ok_def by (metis Suc_lessD Suc_pred' diff_Suc_1 less_eq_Suc_le zero_less_Suc less_nat_zero_code not_less_eq gr0I)
        then have "q = r"
          using byte_to_rune_boundary[of r u s] len(2) assms(3,4) by (simp add: q_def)
        then show ?thesis
          using r by simp
      qed
      have after: "q \<le> fst r \<and> tok_start (words ! i) \<le> byte_offset w (fst r)" if "r \<in> set ps" for r
      proof -
        have jl: "j < length words"
          using that IHj(5) by (cases "j < length words") auto
        then have le: "byte_offset w q \<le> byte_offset w (fst r)"
          using IHj(4) that ord[of "j - 1" j] j2 qw by fastforce
        moreover have "q \<le> length w"
          using pq(3) len(2) by simp
        ultimately have "q \<le> fst r"
          using byte_offset_strict[of "fst r" q w] by fastforce
        then show ?thesis
          using le byte_offset_mono[of p q w] p(2) pq(2) by simp
      qed
      then show ?thesis
        using run IHj(2,3) c(2) p(2) i
        by (intro exI[of _ "c # cs"] exI[of _ "(p, q) # ps"]) auto
    qed
  qed
qed

lemma name_recognize_ok:
  assumes "ucd_ok u" "valid_string s"
  shows "\<exists>cs. name_recognize u d (norm_new u s) = Inr cs
    \<and> (\<forall>c \<in> set cs. candidate_ok s c \<and> c_type c = FULL_NAME \<and> unit_score (c_score c))
    \<and> sorted_wrt (\<lambda>a b. c_end a \<le> c_start b) cs"
proof -
  let ?w = "written u (runes s)"
  have "tokens_ok ?w 0 (tokenize (normalized (norm_new u s)))"
    using tokenize_ok[OF runes_normalized(2)[OF assms]] runes_normalized(1)[OF assms] by simp
  then obtain cs ps where cs: "name_recognize u d (norm_new u s) = Inr cs" and ps: "list_all2 (name_of u s) ps cs"
    "sorted_wrt (\<lambda>p q. snd p \<le> fst q) ps"
    using name_scan_ok[OF assms refl refl, of "tokenize (normalized (norm_new u s))" d 0]
    unfolding name_recognize_def by blast
  have "candidate_ok s c \<and> c_type c = FULL_NAME \<and> unit_score (c_score c)" if "c \<in> set cs" for c
    using list_all2_right[OF ps(1) that] by (auto simp: name_of_def)
  moreover have "sorted_wrt (\<lambda>a b. c_end a \<le> c_start b) cs"
  proof -
    have "c_end (cs ! a) \<le> c_start (cs ! b)" if "a < b" "b < length cs" for a b
    proof -
      have n: "name_of u s (ps ! a) (cs ! a)" "name_of u s (ps ! b) (cs ! b)" "snd (ps ! a) \<le> fst (ps ! b)"
        using ps that by (auto simp: list_all2_conv_all_nth sorted_wrt_iff_nth_less)
      then show ?thesis
        using map_span_ordered[of "fst (ps ! a)" "snd (ps ! a)" "fst (ps ! b)" "snd (ps ! b)" u s]
        unfolding name_of_def by (metis fst_conv snd_conv)
    qed
    then show ?thesis
      by (simp add: sorted_wrt_iff_nth_less)
  qed
  ultimately show ?thesis
    using cs by blast
qed

lemma name_rule_recognizer: "ucd_ok u \<Longrightarrow> rule_recognizer u (name_recognize u d) FULL_NAME"
  by unfold_locales (use name_recognize_ok in blast)

sublocale tables \<subseteq> name: rule_recognizer u "name_recognize u d" FULL_NAME for d
  by (rule name_rule_recognizer[OF tables_ok])

end
