(* ===== verification/Country.thy ===== *)
theory Country
  imports Recognizer Dict Plan
begin

text \<open>
  The dictionary part of \<open>internal/recognizer/dictionary.go\<close>: citizenship by country names of up to
  three words, tolerating case endings, and the helpers that cut a place at a preposition or at
  the next field.  Phrases are joined with one space; offsets of words are found by searching each
  word after the end of the one before.
\<close>

section \<open>Searching and trimming\<close>

definition strip_punct :: "string \<Rightarrow> string" where
  "strip_punct s = trim_func (\<lambda>r. r \<in> {46, 44, 59, 58, 33, 63, 40, 41, 91, 93, 123, 125, 0xAB, 0xBB, 34, 39}) s"

definition strip_leading_preposition :: "ucd \<Rightarrow> string \<Rightarrow> int \<Rightarrow> string \<times> int" where
  "strip_leading_preposition u s0 start_byte =
     (let s = trim_space s0; lower = lower_str u s in
      if prefix (ru ''W '') lower then
        let rest = trim_space (drop 2 s) in
        (case str_index s rest of
           None \<Rightarrow> (rest, start_byte + 2)
         | Some idx \<Rightarrow> (rest, start_byte + int idx))
      else if lower = ru ''W'' then ([], start_byte)
      else (s, start_byte))"

definition field_separators :: "string list" where
  "field_separators = map ru
     ['', DATA ROVDENIQ'', '', DATA'', '', PASPORT'', '', GRAVDANSTWO'', '', GRAVDAN'', '', TEL'', '', TELEFON'', '', email'',
      '', e-mail'', '', INN'', '', FIO'', '', F.I.O'', '', KOD'', '', ADRES'', '', NOMER KARTY'', '', cvv'', '', PIN'']"

text \<open>The first separator of the list that occurs cuts the text at its first occurrence; a cut past the
  end of the text, possible when lower-casing lengthens it, panics.\<close>

fun cut_at_field :: "string \<Rightarrow> string \<Rightarrow> string list \<Rightarrow> string res" where
  "cut_at_field lower s [] = Inr s"
| "cut_at_field lower s (sep # seps) =
     (case str_index lower sep of
        Some i \<Rightarrow> go_slice s 0 (int i)
      | None \<Rightarrow> cut_at_field lower s seps)"

definition trim_field_separator :: "ucd \<Rightarrow> string \<Rightarrow> string res" where
  "trim_field_separator u s0 =
     (let s = trim_space s0 in
      rbind (cut_at_field (lower_str u s) s field_separators) (\<lambda>r. Inr (trim_space r)))"

section \<open>Countries\<close>

fun token_offsets :: "string \<Rightarrow> nat \<Rightarrow> string list \<Rightarrow> nat list" where
  "token_offsets s pos [] = []"
| "token_offsets s pos (w # ws) =
     (case str_index (drop pos s) w of
        None \<Rightarrow> pos # token_offsets s pos ws
      | Some idx \<Rightarrow> (pos + idx) # token_offsets s (pos + idx + length w) ws)"

definition country_replacements :: "(string \<times> string) list" where
  "country_replacements = map (\<lambda>(a, b). (ru a, ru b))
     [(''II'', ''IQ''), (''IEJ'', ''IQ''), (''I@'', ''IQ''), (''E'', ''A''), (''E'', ''Q'')]"

definition country_suffixes :: "string list" where
  "country_suffixes = map ru
     [''OW'', ''EW'', ''IN'', ''YN'', ''II'', ''OJ'', ''IJ'', ''YJ'', ''A'', ''Q'', ''E'', ''U'', ''OM'', ''EM'']"

text \<open>The dictionary lookup of the phrase with its last word replaced.\<close>

definition with_last :: "ucd \<Rightarrow> dict \<Rightarrow> string list \<Rightarrow> string \<Rightarrow> bool" where
  "with_last u countries words w \<longleftrightarrow> dict_contains u countries (join '' '' (butlast words @ [w]))"

definition match_country :: "ucd \<Rightarrow> dict \<Rightarrow> string \<Rightarrow> bool" where
  "match_country u countries phrase =
     (if dict_contains u countries phrase then True
      else
        let words = string_fields phrase in
        if words = [] then False
        else
          let lst = last words in
          if list_ex (\<lambda>(from_end, to_end).
               length lst > length from_end + 2 \<and> has_suffix lst from_end
               \<and> with_last u countries words (take (length lst - length from_end) lst @ to_end)) country_replacements
          then True
          else list_ex (\<lambda>suffix.
               if length lst \<le> length suffix + 2 \<or> \<not> has_suffix lst suffix then False
               else
                 let stem = take (length lst - length suffix) lst in
                 if with_last u countries words stem then True
                 else list_ex (\<lambda>nom. with_last u countries words (stem @ nom)) [ru ''A'', ru ''Q'']) country_suffixes)"

text \<open>The inner loop: the longest country name, of three words at most, that starts at a word.\<close>

definition country_phrase :: "string list \<Rightarrow> nat \<Rightarrow> nat \<Rightarrow> string" where
  "country_phrase words i n = strip_punct (join '' '' (take n (drop i words)))"

definition country_at :: "ucd \<Rightarrow> dict \<Rightarrow> string list \<Rightarrow> nat \<Rightarrow> nat option" where
  "country_at u countries words i =
     find (\<lambda>n. \<not> i + n > length words \<and> match_country u countries (country_phrase words i n)) [3, 2, 1]"

lemma country_at_pos: "country_at u countries words i = Some n \<Longrightarrow> 0 < n"
  by (auto simp: country_at_def split: if_splits)

function country_scan ::
  "ucd \<Rightarrow> dict \<Rightarrow> norm_text \<Rightarrow> string list \<Rightarrow> nat list \<Rightarrow> nat \<Rightarrow> candidate_span list res" where
  "country_scan u countries t words offsets i =
     (if i \<ge> length words then Inr []
      else
        (case country_at u countries words i of
           None \<Rightarrow> country_scan u countries t words offsets (i + 1)
         | Some n \<Rightarrow>
             let start = int (offsets ! i); stop = start + int (length (country_phrase words i n)) in
             rbind (emit CITIZENSHIP (f_round (3 / 10)) [SourceDictionary] ''dict:country'' t
                      (map_span t (int (byte_to_rune t start)) (int (byte_to_rune t stop)))) (\<lambda>c.
             rbind (country_scan u countries t words offsets (i + n)) (\<lambda>cs. Inr (c # cs)))))"
  by pat_completeness auto
termination
  by (relation "measure (\<lambda>(u, countries, t, words, offsets, i). length words - i)")
    (auto dest: country_at_pos intro: diff_less_mono2)

declare country_scan.simps [simp del]

definition country_recognize :: "ucd \<Rightarrow> dict \<Rightarrow> recognizer" where
  "country_recognize u countries t =
     (let words = string_fields (normalized t) in
      country_scan u countries t words (token_offsets (normalized t) 0 words) 0)"

section \<open>The search\<close>

lemma has_prefix_prefix: "has_prefix s p \<longleftrightarrow> prefix p s"
  by (simp add: has_prefix_iff prefix_def)

lemma str_index_Some: "str_index s p = Some i \<Longrightarrow> prefix p (drop i s) \<and> i + length p \<le> length s"
proof (induction s p arbitrary: i rule: str_index.induct)
  case (1 p)
  then show ?case by (auto split: if_splits)
next
  case (2 c cs p)
  show ?case
  proof (cases "prefix p (c # cs)")
    case True
    then show ?thesis
      using 2 prefix_length_le[OF True] by (simp add: has_prefix_prefix)
  next
    case False
    then show ?thesis
      using 2 by (auto simp: has_prefix_prefix)
  qed
qed

lemma str_index_le: "prefix p (drop i s) \<Longrightarrow> i \<le> length s \<Longrightarrow> \<exists>k \<le> i. str_index s p = Some k"
proof (induction s p arbitrary: i rule: str_index.induct)
  case (1 p)
  then show ?case by simp
next
  case (2 c cs p)
  show ?case
  proof (cases "prefix p (c # cs)")
    case False
    then obtain j where j: "i = Suc j"
      using "2.prems"(1) by (cases i) auto
    then show ?thesis
      using "2.IH"[of j] "2.prems" False by (auto simp: has_prefix_prefix)
  qed (simp add: has_prefix_prefix)
qed

section \<open>Words of a valid text\<close>

lemma valid_segments: "valid_string s \<Longrightarrow> seg \<in> set (segments s) \<Longrightarrow> valid_string (snd seg) \<and> snd seg \<noteq> []"
proof (induction s rule: segments.induct)
  case (1 s)
  show ?case
  proof (cases "s = []")
    case True
    then show ?thesis
      using "1.prems" by (subst (asm) segments.simps) simp
  next
    case False
    have ok: "\<not> bad_decode (decode_rune s)" "valid_string (drop (snd (decode_rune s)) s)"
      using "1.prems"(1) False by (simp_all add: valid_string_def decode_all_rec)
    have e: "valid_rune (fst (decode_rune s))" "encode_valid (fst (decode_rune s)) = take (snd (decode_rune s)) s"
      using encode_decode[OF False ok(1)] by simp_all
    have "valid_string (encode_all [fst (decode_rune s)])"
      using e(1) by (intro valid_encode_all) simp
    then have "valid_string (take (snd (decode_rune s)) s)" "take (snd (decode_rune s)) s \<noteq> []"
      using e encode_valid_nonempty[of "fst (decode_rune s)"] by simp_all
    then show ?thesis
      using "1.IH"[OF False ok(2)] "1.prems"(2) False by (subst (asm) (2) segments.simps) auto
  qed
qed

lemma fields_segs_valid:
  "valid_string cur \<Longrightarrow> \<forall>seg \<in> set xs. valid_string (snd seg) \<Longrightarrow> w \<in> set (fields_segs p cur xs) \<Longrightarrow> valid_string w"
  by (induction p cur xs rule: fields_segs.induct) (auto simp: valid_string_append split: if_splits)

text \<open>Every word is found where the search for it stops.\<close>

lemma token_offsets_found:
  assumes "s = pre @ cur @ segs_text xs" "pos \<le> length pre"
  shows "list_all2 (\<lambda>i w. prefix w (drop i s) \<and> i + length w \<le> length s)
    (token_offsets s pos (fields_segs p cur xs)) (fields_segs p cur xs)"
  using assms
proof (induction p cur xs arbitrary: pre pos rule: fields_segs.induct)
  case (1 p cur)
  show ?case
  proof (cases "cur = []")
    case False
    have "prefix cur (drop (length pre - pos) (drop pos s))" "length pre - pos \<le> length (drop pos s)"
      using "1.prems" by (simp_all add: segs_text_def)
    then obtain k where k: "str_index (drop pos s) cur = Some k"
      using str_index_le by blast
    then show ?thesis
      using str_index_Some[OF k] False "1.prems" by (auto simp: add.commute)
  qed simp
next
  case (2 p cur r b xs)
  show ?case
  proof (cases "p r \<and> cur \<noteq> []")
    case True
    have "prefix cur (drop (length pre - pos) (drop pos s))" "length pre - pos \<le> length (drop pos s)"
      using "2.prems" by simp_all
    then obtain k where k: "str_index (drop pos s) cur = Some k" "k \<le> length pre - pos"
      using str_index_le by blast
    have "pos + k + length cur \<le> length (pre @ cur @ b)"
      using k(2) "2.prems"(2) by simp
    then have "list_all2 (\<lambda>i w. prefix w (drop i s) \<and> i + length w \<le> length s)
        (token_offsets s (pos + k + length cur) (fields_segs p [] xs)) (fields_segs p [] xs)"
      using "2.IH"(2)[of "pre @ cur @ b" "pos + k + length cur"] True "2.prems" by (simp add: segs_text_def)
    then show ?thesis
      using str_index_Some[OF k(1)] True k "2.prems" by (auto simp: add.commute)
  next
    case False
    then show ?thesis
    proof (cases "p r")
      case True
      then show ?thesis
        using "2.IH"(1)[of "pre @ b" pos] False "2.prems" by (simp add: segs_text_def)
    next
      case p: False
      then show ?thesis
        using "2.IH"(3)[of pre pos] "2.prems" by (simp add: segs_text_def)
    qed
  qed
qed

lemma word_boundary:
  assumes "valid_string s" "prefix w (drop p s)" "w \<noteq> []" "valid_string w"
  shows "\<exists>i < length (runes s). byte_offset (runes s) i = p"
proof -
  obtain c w' v where w: "w = c # w'" and v: "drop p s = w @ v"
    using assms(2,3) by (cases w) (auto simp: prefix_def)
  have p: "p < length s"
    using v w by (metis append_is_Nil_conv drop_all list.distinct(1) not_le)
  have "\<not> cont_byte (byte c)"
    using valid_string_hd[OF assms(4,3)] w by simp
  moreover have s: "s = take p s @ c # (w' @ v)"
    using v w by (metis append_Cons append_take_drop_id)
  ultimately have vp: "valid_string (take p s)"
    using valid_string_split assms(1) by metis
  have rs: "runes s = runes (take p s) @ runes (drop p s)"
    using runes_append[OF vp, of "drop p s"] by simp
  have "runes (drop p s) \<noteq> []"
    using p by (simp add: runes_def)
  moreover have "byte_offset (runes s) (length (runes (take p s))) = p"
    using encode_runes[OF vp] p by (simp add: byte_offset_def rs)
  ultimately show ?thesis
    by (intro exI[of _ "length (runes (take p s))"]) (simp add: rs)
qed

section \<open>What is emitted\<close>

lemma country_phrase_nonempty:
  assumes "[] \<notin> countries" "country_at u countries words i = Some n"
  shows "country_phrase words i n \<noteq> []"
proof
  assume "country_phrase words i n = []"
  moreover have "match_country u countries (country_phrase words i n)"
    using assms(2) by (auto simp: country_at_def split: if_splits)
  ultimately show False
    using assms(1)
    by (simp add: match_country_def dict_contains_def lower_str_def runes_def string_fields_def fields_func_def segments.simps)
qed

lemma country_scan_ok:
  assumes "ucd_ok u" "valid_string s" "t = norm_new u s" "[] \<notin> countries"
    and offs: "length offs = length words"
      "\<And>k. k < length words \<Longrightarrow> \<exists>i < norm_len t. byte_offset (written u (runes s)) i = offs ! k"
  shows "\<exists>cs. country_scan u countries t words offs i = Inr cs
    \<and> (\<forall>c \<in> set cs. candidate_ok s c \<and> c_type c = CITIZENSHIP \<and> c_score c = f_round (3 / 10))"
proof (induction "length words - i" arbitrary: i rule: less_induct)
  case less
  show ?case
  proof (cases "i \<ge> length words")
    case True
    then show ?thesis
      by (subst country_scan.simps) simp
  next
    case i: False
    show ?thesis
    proof (cases "country_at u countries words i")
      case None
      then have eq: "country_scan u countries t words offs i = country_scan u countries t words offs (i + 1)"
        using i by (subst country_scan.simps) simp
      show ?thesis
        unfolding eq by (rule less.hyps) (use i in simp)
    next
      case (Some n)
      let ?start = "int (offs ! i)"
      let ?stop = "?start + int (length (country_phrase words i n))"
      obtain p where p: "p < norm_len t" "byte_offset (written u (runes s)) p = offs ! i"
        using offs(2)[of i] i by auto
      define q where "q = byte_to_rune t ?stop"
      have q: "byte_to_rune t ?start = p" "p < q" "q \<le> norm_len t"
        using byte_to_rune_bounds[of ?start u s p ?stop] p country_phrase_nonempty[OF assms(4) Some] assms(3)
        by (simp_all add: q_def)
      obtain c where c: "emit CITIZENSHIP (f_round (3 / 10)) [SourceDictionary] ''dict:country'' t
          (map_span t (int p) (int q)) = Inr c" "candidate_ok s c" "c_type c = CITIZENSHIP" "c_score c = f_round (3 / 10)"
      proof -
        have nn: "f_round (3 / 10) \<noteq> NaN" "f_round (3 / 10) \<noteq> PosInf"
          by simp_all
        show ?thesis
          using emit_ok[OF assms(2) q(2) q(3)[unfolded assms(3)] nn, of CITIZENSHIP "[SourceDictionary]" "''dict:country''"]
            that unfolding assms(3) by metis
      qed
      have "length words - (i + n) < length words - i"
        using i country_at_pos[OF Some] by simp
      then obtain cs where cs: "country_scan u countries t words offs (i + n) = Inr cs"
        "\<forall>c \<in> set cs. candidate_ok s c \<and> c_type c = CITIZENSHIP \<and> c_score c = f_round (3 / 10)"
        using less.hyps[of "i + n"] by blast
      have "country_scan u countries t words offs i = Inr (c # cs)"
        using i Some c(1) q(1) cs(1) by (subst country_scan.simps) (simp add: Let_def q_def)
      then show ?thesis
        using c cs by simp
    qed
  qed
qed

lemma country_recognize_ok:
  assumes "ucd_ok u" "valid_string s" "[] \<notin> countries"
  shows "\<exists>cs. country_recognize u countries (norm_new u s) = Inr cs
    \<and> (\<forall>c \<in> set cs. candidate_ok s c \<and> c_type c = CITIZENSHIP \<and> c_score c = f_round (3 / 10))"
proof -
  let ?n = "normalized (norm_new u s)"
  let ?words = "string_fields ?n"
  have v: "valid_string ?n" and rs: "runes ?n = written u (runes s)" and len: "length (runes ?n) = norm_len (norm_new u s)"
    using runes_normalized[OF assms(1,2)] by simp_all
  have found: "list_all2 (\<lambda>i w. prefix w (drop i ?n) \<and> i + length w \<le> length ?n) (token_offsets ?n 0 ?words) ?words"
    using token_offsets_found[of ?n "[]" "[]" "segments ?n" 0 is_space] by (simp add: segments_text string_fields_def fields_func_def)
  have "\<exists>i < norm_len (norm_new u s). byte_offset (written u (runes s)) i = token_offsets ?n 0 ?words ! k"
    if "k < length ?words" for k
  proof -
    let ?w = "?words ! k"
    have w: "?w \<in> set (fields_segs is_space [] (segments ?n))"
      using that by (simp add: string_fields_def fields_func_def)
    have "valid_string ?w"
      using fields_segs_valid[OF _ _ w] valid_segments[OF v] by simp
    moreover have "?w \<noteq> []"
      using fields_segs_nonempty[OF w] .
    moreover have "prefix ?w (drop (token_offsets ?n 0 ?words ! k) ?n)"
      using found that by (auto simp: list_all2_conv_all_nth)
    ultimately show ?thesis
      using word_boundary[OF v, of ?w] rs len by metis
  qed
  moreover have "length (token_offsets ?n 0 ?words) = length ?words"
    using found by (simp add: list_all2_lengthD)
  ultimately show ?thesis
    using country_scan_ok[OF assms(1,2) refl assms(3), of "token_offsets ?n 0 ?words" ?words 0]
    by (simp add: country_recognize_def Let_def)
qed

lemma country_rule_recognizer:
  "ucd_ok u \<Longrightarrow> [] \<notin> countries \<Longrightarrow> rule_recognizer u (country_recognize u countries) CITIZENSHIP"
proof
  fix s
  assume "ucd_ok u" "[] \<notin> countries" "valid_string s"
  then obtain cs where "country_recognize u countries (norm_new u s) = Inr cs"
    "\<forall>c \<in> set cs. candidate_ok s c \<and> c_type c = CITIZENSHIP \<and> c_score c = f_round (3 / 10)"
    using country_recognize_ok by blast
  then show "\<exists>cs. country_recognize u countries (norm_new u s) = Inr cs \<and> (\<forall>c \<in> set cs. candidate_ok s c \<and> c_type c = CITIZENSHIP)"
    by simp
qed

end
