(* ===== verification/Address.thy ===== *)
theory Address
  imports Cvv
begin

text \<open>
  \<open>internal/recognizer/address.go\<close>: addresses by field signature.  The map from start positions to
  the longest match is a HOL map; the result of the sort is the list of its entries by start, which
  does not depend on the map's iteration order.
\<close>

definition address_signatures :: "string list" where
  "address_signatures = map ru
    [''ADRES FAKTI^ESKOGO PROVIWANIQ'',
     ''ADRES FAKTI^ESKOJ REGISTRACII'',
     ''ADRES PROVIWANIQ'',
     ''ADRES REGISTRACII'',
     ''ADRES DOSTAWKI'',
     ''MESTO VITELXSTWA'',
     ''MESTO REGISTRACII'',
     ''PROVIWAET PO ADRESU'',
     ''VIWET PO ADRESU'',
     ''VIW#T PO ADRESU'',
     ''ZAREGISTRIROWAN PO ADRESU'',
     ''ZAREGISTRIROWANA PO ADRESU'',
     ''PROPISAN PO ADRESU'',
     ''PROPISANA PO ADRESU'',
     ''ADRES'']"

definition address_next_fields :: "string list" where
  "address_next_fields = map ru
    [''TELEFON'', ''TEL'', ''email'', ''e-mail'', ''INN'', ''PASPORT'', ''GRAVDANSTWO'',
     ''DATA'', ''cvv'', ''PIN'', ''POKUPATELX'', ''POLU^ATELX'', ''SUMMA'', ''DOGOWOR'',
     ''FIO'', ''F.I.O'', ''KOD'', ''NOMER KARTY'']"

definition max_address_runes :: nat where
  "max_address_runes = 120"

definition address_matches :: "ucd \<Rightarrow> rune list \<Rightarrow> (nat \<times> nat) list" where
  "address_matches u rs = concat (map (\<lambda>sig. signature_matches u rs 0 (length rs) (runes sig)) address_signatures)"

fun longest_by_start :: "(nat \<Rightarrow> nat option) \<Rightarrow> (nat \<times> nat) list \<Rightarrow> nat \<Rightarrow> nat option" where
  "longest_by_start by_start [] = by_start"
| "longest_by_start by_start ((s, e) # ms) =
     (case by_start s of
        Some prev \<Rightarrow> if e - s > prev - s then longest_by_start (by_start(s \<mapsto> e)) ms else longest_by_start by_start ms
      | None \<Rightarrow> longest_by_start (by_start(s \<mapsto> e)) ms)"

definition find_address_signatures :: "ucd \<Rightarrow> rune list \<Rightarrow> (nat \<times> nat) list" where
  "find_address_signatures u rs =
     (let by_start = longest_by_start Map.empty (address_matches u rs) in
      List.map_filter (\<lambda>s. map_option (Pair s) (by_start s)) [0..<length rs])"

definition next_field_at :: "ucd \<Rightarrow> rune list \<Rightarrow> nat \<Rightarrow> bool" where
  "next_field_at u rs pos \<longleftrightarrow>
     list_ex (\<lambda>sig. let sr = runes sig in
         pos + length sr \<le> length rs \<and> match_runes rs pos sr \<and> word_bounded u rs pos (pos + length sr))
       (address_signatures @ address_next_fields)"

text \<open>The three loops of \<open>extractValue\<close>: what is skipped, how far the value goes, what is trimmed.\<close>

function skip_sep :: "rune list \<Rightarrow> nat \<Rightarrow> nat" where
  "skip_sep rs i = (if i < length rs \<and> (rs ! i = 58 \<or> is_space (rs ! i)) then skip_sep rs (i + 1) else i)"
  by pat_completeness auto
termination
  by (relation "measure (\<lambda>(rs, i). length rs - i)") auto

function value_stop :: "ucd \<Rightarrow> rune list \<Rightarrow> nat \<Rightarrow> nat \<Rightarrow> nat" where
  "value_stop u rs limit e =
     (if e < limit then
        if rs ! e = 59 then e
        else if next_field_at u rs e then e
        else value_stop u rs limit (e + 1)
      else e)"
  by pat_completeness auto
termination
  by (relation "measure (\<lambda>(u, rs, limit, e). limit - e)") auto

function trim_value :: "rune list \<Rightarrow> nat \<Rightarrow> nat \<Rightarrow> nat" where
  "trim_value rs start e =
     (if e > start \<and> (is_space (rs ! (e - 1)) \<or> rs ! (e - 1) \<in> {44, 59, 58}) then trim_value rs start (e - 1) else e)"
  by pat_completeness auto
termination
  by (relation "measure (\<lambda>(rs, start, e). e)") auto

declare skip_sep.simps [simp del] value_stop.simps [simp del] trim_value.simps [simp del]

definition extract_value :: "ucd \<Rightarrow> rune list \<Rightarrow> nat \<times> nat \<Rightarrow> (nat \<times> nat) option" where
  "extract_value u rs sig =
     (let value_start = skip_sep rs (snd sig);
          limit = min (value_start + max_address_runes) (length rs);
          value_end = trim_value rs value_start (value_stop u rs limit value_start) in
      if value_end \<le> value_start then None else Some (value_start, value_end))"

definition is_all_digits :: "string \<Rightarrow> bool" where
  "is_all_digits s \<longleftrightarrow> list_all is_digit_char s \<and> length s > 0"

definition has_structure :: "ucd \<Rightarrow> dict \<Rightarrow> string \<Rightarrow> bool" where
  "has_structure u structure addr =
     (let words = string_fields addr in
      if list_ex (dict_contains u structure) words then True
      else list_ex (\<lambda>w. length w = 6 \<and> is_all_digits w) words)"

definition address_spans :: "ucd \<Rightarrow> dict \<Rightarrow> rune list \<Rightarrow> (nat \<times> nat) list" where
  "address_spans u structure rs =
     filter (\<lambda>(s, e). has_structure u structure (encode_all (drop s (take e rs))))
       (List.map_filter (extract_value u rs) (find_address_signatures u rs))"

definition address_recognize :: "ucd \<Rightarrow> dict \<Rightarrow> recognizer" where
  "address_recognize u structure t =
     collect (\<lambda>(s, e). emit ADDRESS (f_round (3 / 5)) [SourceRegex, SourceContext] ''regex:address'' t
                (map_span t (int s) (int e)))
       (address_spans u structure (runes (normalized t)))"

section \<open>The value of an address\<close>

lemma skip_sep_ge: "i \<le> skip_sep rs i"
  by (induction rs i rule: skip_sep.induct) (subst skip_sep.simps, auto)

lemma value_stop_spec:
  "e \<le> limit \<Longrightarrow> e \<le> value_stop u rs limit e \<and> value_stop u rs limit e \<le> limit
     \<and> (\<forall>x. e \<le> x \<longrightarrow> x < value_stop u rs limit e \<longrightarrow> rs ! x \<noteq> 59 \<and> \<not> next_field_at u rs x)"
proof (induction u rs limit e rule: value_stop.induct)
  case (1 u rs limit e)
  show ?case
  proof (cases "e < limit \<and> rs ! e \<noteq> 59 \<and> \<not> next_field_at u rs e")
    case True
    then have eq: "value_stop u rs limit e = value_stop u rs limit (e + 1)"
      by (subst value_stop.simps) simp
    show ?thesis
      unfolding eq using "1.IH" True by (metis Suc_eq_plus1 Suc_leI le_eq_less_or_eq le_trans less_eq_Suc_le)
  next
    case False
    then have "value_stop u rs limit e = e"
      by (subst value_stop.simps) auto
    then show ?thesis
      using "1.prems" by simp
  qed
qed

lemma trim_value_spec:
  "start \<le> e \<Longrightarrow> start \<le> trim_value rs start e \<and> trim_value rs start e \<le> e
     \<and> (start < trim_value rs start e \<longrightarrow> \<not> is_space (rs ! (trim_value rs start e - 1)))"
proof (induction rs start e rule: trim_value.induct)
  case (1 rs start e)
  show ?case
  proof (cases "start < e \<and> (is_space (rs ! (e - 1)) \<or> rs ! (e - 1) \<in> {44, 59, 58})")
    case True
    then have "trim_value rs start e = trim_value rs start (e - 1)"
      by (subst trim_value.simps) simp
    moreover have "start \<le> e - 1" "e - 1 \<le> e"
      using True by auto
    ultimately show ?thesis
      using "1.IH"[OF True] by (metis le_trans)
  next
    case False
    then have "trim_value rs start e = e"
      by (subst trim_value.simps) auto
    then show ?thesis
      using False "1.prems" by auto
  qed
qed

text \<open>A value starts after its signature, is at most 120 runes long, contains no semicolon and no
  start of another field, and does not end in white space.\<close>

definition address_value :: "ucd \<Rightarrow> rune list \<Rightarrow> nat \<times> nat \<Rightarrow> bool" where
  "address_value u rs v \<longleftrightarrow> fst v < snd v \<and> snd v \<le> length rs \<and> snd v \<le> fst v + max_address_runes
     \<and> (\<forall>x. fst v \<le> x \<longrightarrow> x < snd v \<longrightarrow> rs ! x \<noteq> 59 \<and> \<not> next_field_at u rs x)
     \<and> \<not> is_space (rs ! (snd v - 1))"

lemma extract_value_ok:
  assumes "extract_value u rs sig = Some v" "snd sig \<le> length rs"
  shows "snd sig \<le> fst v" "address_value u rs v"
proof -
  let ?a = "skip_sep rs (snd sig)"
  let ?l = "min (?a + max_address_runes) (length rs)"
  let ?b = "value_stop u rs ?l ?a"
  have v: "v = (?a, trim_value rs ?a ?b)" "?a < trim_value rs ?a ?b"
    using assms(1) by (auto simp: extract_value_def Let_def split: if_splits)
  show "snd sig \<le> fst v"
    using skip_sep_ge by (simp add: v(1))
  have "skip_sep rs i \<le> length rs" if "i \<le> length rs" for i
    using that by (induction rs i rule: skip_sep.induct) (subst skip_sep.simps, auto)
  then have "?a \<le> ?l"
    using assms(2) by simp
  note vs = value_stop_spec[OF this, of u rs]
  note tv = trim_value_spec[of ?a ?b rs]
  show "address_value u rs v"
    using vs tv v by (auto simp: address_value_def)
qed

lemma longest_by_start_dom:
  "longest_by_start m ms s = Some e \<Longrightarrow> m s = Some e \<or> (s, e) \<in> set ms"
  by (induction m ms rule: longest_by_start.induct) (auto split: option.splits if_splits)

lemma found_address_signature:
  "sg \<in> set (find_address_signatures u rs) \<Longrightarrow> snd sg \<le> length rs"
proof -
  assume "sg \<in> set (find_address_signatures u rs)"
  then have "sg \<in> set (address_matches u rs)"
    by (auto simp: find_address_signatures_def Let_def map_filter_def dest: longest_by_start_dom)
  then show ?thesis
    by (fastforce simp: address_matches_def signature_matches_def)
qed

lemma address_spans_ok: "v \<in> set (address_spans u structure rs) \<Longrightarrow> address_value u rs v"
  using extract_value_ok(2) found_address_signature
  by (fastforce simp: address_spans_def map_filter_def)

lemma address_recognize_ok:
  assumes "ucd_ok u" "valid_string s"
  shows "\<exists>cs. address_recognize u structure (norm_new u s) = Inr cs
    \<and> list_all2 (\<lambda>v c. candidate_ok s c \<and> c_type c = ADDRESS
          \<and> address_value u (runes (normalized (norm_new u s))) v
          \<and> (c_start c, c_end c) = map_span (norm_new u s) (int (fst v)) (int (snd v)))
        (address_spans u structure (runes (normalized (norm_new u s)))) cs"
  unfolding address_recognize_def
proof (rule collect_ok)
  fix v
  let ?t = "norm_new u s"
  assume "v \<in> set (address_spans u structure (runes (normalized ?t)))"
  then have av: "address_value u (runes (normalized ?t)) v"
    by (rule address_spans_ok)
  then have sh: "fst v < snd v" "snd v \<le> norm_len ?t"
    using runes_normalized(3)[OF assms] by (auto simp: address_value_def)
  obtain c where "emit ADDRESS (f_round (3 / 5)) [SourceRegex, SourceContext] ''regex:address'' ?t
      (map_span ?t (int (fst v)) (int (snd v))) = Inr c" "candidate_ok s c" "c_type c = ADDRESS"
      "(c_start c, c_end c) = map_span ?t (int (fst v)) (int (snd v))"
    by (rule emit_ok[OF assms(2) sh, of "f_round (3 / 5)" ADDRESS "[SourceRegex, SourceContext]" "''regex:address''"])
      (auto simp: prod_eq_iff)
  then show "\<exists>c. (case v of (s, e) \<Rightarrow> emit ADDRESS (f_round (3 / 5)) [SourceRegex, SourceContext] ''regex:address'' ?t
      (map_span ?t (int s) (int e))) = Inr c
    \<and> candidate_ok s c \<and> c_type c = ADDRESS \<and> address_value u (runes (normalized ?t)) v
    \<and> (c_start c, c_end c) = map_span ?t (int (fst v)) (int (snd v))"
    using av by (auto simp: split_def)
qed

lemma address_rule_recognizer: "ucd_ok u \<Longrightarrow> rule_recognizer u (address_recognize u structure) ADDRESS"
proof
  fix s
  assume "ucd_ok u" "valid_string s"
  then obtain cs where cs: "address_recognize u structure (norm_new u s) = Inr cs"
    and all: "list_all2 (\<lambda>v c. candidate_ok s c \<and> c_type c = ADDRESS
          \<and> address_value u (runes (normalized (norm_new u s))) v
          \<and> (c_start c, c_end c) = map_span (norm_new u s) (int (fst v)) (int (snd v)))
        (address_spans u structure (runes (normalized (norm_new u s)))) cs"
    using address_recognize_ok by blast
  have "candidate_ok s c \<and> c_type c = ADDRESS" if "c \<in> set cs" for c
    using list_all2_right[OF all that] by blast
  then show "\<exists>cs. address_recognize u structure (norm_new u s) = Inr cs \<and> (\<forall>c \<in> set cs. candidate_ok s c \<and> c_type c = ADDRESS)"
    using cs by blast
qed

sublocale tables \<subseteq> address: rule_recognizer u "address_recognize u d" ADDRESS for d
  by (rule address_rule_recognizer[OF tables_ok])

end
