(* ===== verification/Regex.thy ===== *)
theory Regex
  imports Utf8
begin

text \<open>
  The part of Go's package \<open>regexp\<close> the rules use, on the runes of a text.  \<open>runs\<close> lists the ends a
  match from a position can have, with the capture, in the order of preference of the package
  (leftmost, then the first alternative; greedy or lazy repetition), so the first of the list
  is the match; \<open>re_match\<close> is the relation between positions that an expression denotes.
\<close>

section \<open>Expressions\<close>

type_synonym rune_class = "(nat \<times> nat) list"

datatype regex =
    Cls rune_class
  | Eps
  | WordBoundary
  | EndText
  | Seq regex regex
  | Alt regex regex
  | Star regex
  | Grp regex

definition in_class :: "rune \<Rightarrow> rune_class \<Rightarrow> bool" where
  "in_class r c \<longleftrightarrow> list_ex (\<lambda>(lo, hi). lo \<le> r \<and> r \<le> hi) c"

definition opt :: "regex \<Rightarrow> regex" where
  "opt r = Alt r Eps"

definition plus :: "regex \<Rightarrow> regex" where
  "plus r = Seq r (Star r)"

text \<open>\<open>x{n}\<close>, \<open>x{n,m}\<close> and the lazy \<open>x{n,m}?\<close>: copies, then nested options.\<close>

fun copies :: "nat \<Rightarrow> regex \<Rightarrow> regex" where
  "copies 0 r = Eps"
| "copies (Suc n) r = Seq r (copies n r)"

fun options :: "nat \<Rightarrow> regex \<Rightarrow> regex" where
  "options 0 r = Eps"
| "options (Suc n) r = Alt (Seq r (options n r)) Eps"

fun lazy_options :: "nat \<Rightarrow> regex \<Rightarrow> regex" where
  "lazy_options 0 r = Eps"
| "lazy_options (Suc n) r = Alt Eps (Seq r (lazy_options n r))"

definition between :: "nat \<Rightarrow> nat \<Rightarrow> regex \<Rightarrow> regex" where
  "between n m r = Seq (copies n r) (options (m - n) r)"

definition lazy_between :: "nat \<Rightarrow> nat \<Rightarrow> regex \<Rightarrow> regex" where
  "lazy_between n m r = Seq (copies n r) (lazy_options (m - n) r)"

definition at_least :: "nat \<Rightarrow> regex \<Rightarrow> regex" where
  "at_least n r = Seq (copies n r) (Star r)"

fun seqs :: "regex list \<Rightarrow> regex" where
  "seqs [] = Eps"
| "seqs [r] = r"
| "seqs (r # q # rs) = Seq r (seqs (q # rs))"

fun alts :: "regex list \<Rightarrow> regex" where
  "alts [] = Cls []"
| "alts [r] = r"
| "alts (r # q # rs) = Alt r (alts (q # rs))"

text \<open>A literal, given by its bytes.\<close>

definition lit :: "string \<Rightarrow> regex" where
  "lit s = seqs (map (\<lambda>r. Cls [(r, r)]) (runes s))"

definition digit :: regex where
  "digit = Cls [(48, 57)]"

definition space_class :: rune_class where
  "space_class = [(9, 10), (12, 13), (32, 32)]"

definition white :: regex where
  "white = Cls space_class"

section \<open>Matching\<close>

definition ascii_word :: "rune \<Rightarrow> bool" where
  "ascii_word r \<longleftrightarrow> in_class r [(48, 57), (65, 90), (95, 95), (97, 122)]"

definition at_boundary :: "rune list \<Rightarrow> nat \<Rightarrow> bool" where
  "at_boundary rs i \<longleftrightarrow> (0 < i \<and> i \<le> length rs \<and> ascii_word (rs ! (i - 1))) \<noteq> (i < length rs \<and> ascii_word (rs ! i))"

type_synonym capture = "(nat \<times> nat) option"

fun star_runs :: "(nat \<times> capture \<Rightarrow> (nat \<times> capture) list) \<Rightarrow> nat \<Rightarrow> nat \<times> capture \<Rightarrow> (nat \<times> capture) list" where
  "star_runs f 0 s = [s]"
| "star_runs f (Suc n) s = concat (map (star_runs f n) (filter (\<lambda>t. fst s < fst t) (f s))) @ [s]"

fun runs :: "regex \<Rightarrow> rune list \<Rightarrow> nat \<times> capture \<Rightarrow> (nat \<times> capture) list" where
  "runs (Cls c) rs s = (if fst s < length rs \<and> in_class (rs ! fst s) c then [(Suc (fst s), snd s)] else [])"
| "runs Eps rs s = [s]"
| "runs WordBoundary rs s = (if at_boundary rs (fst s) then [s] else [])"
| "runs EndText rs s = (if fst s = length rs then [s] else [])"
| "runs (Seq a b) rs s = concat (map (runs b rs) (runs a rs s))"
| "runs (Alt a b) rs s = runs a rs s @ runs b rs s"
| "runs (Star a) rs s = star_runs (runs a rs) (length rs) s"
| "runs (Grp a) rs s = map (\<lambda>t. (fst t, Some (fst s, fst t))) (runs a rs s)"

text \<open>The leftmost match at or after a position: its start, its end and its capture.\<close>

fun first_at :: "regex \<Rightarrow> rune list \<Rightarrow> nat list \<Rightarrow> (nat \<times> nat \<times> capture) option" where
  "first_at r rs [] = None"
| "first_at r rs (i # is) =
     (case runs r rs (i, None) of [] \<Rightarrow> first_at r rs is | (j, g) # _ \<Rightarrow> Some (i, j, g))"

definition find_from :: "regex \<Rightarrow> rune list \<Rightarrow> nat \<Rightarrow> (nat \<times> nat \<times> capture) option" where
  "find_from r rs i = first_at r rs [i..<Suc (length rs)]"

text \<open>All matches from left to right, none overlapping another; an empty match is passed by.\<close>

lemma first_at_Some:
  assumes "first_at r rs is = Some (i, j, g)"
  shows "i \<in> set is \<and> (\<exists>ts. runs r rs (i, None) = (j, g) # ts)"
  using assms by (induction "is") (auto split: list.splits)

lemma first_at_sorted:
  assumes "first_at r rs is = Some (i, j, g)" "sorted is" "k \<in> set is" "k < i"
  shows "runs r rs (k, None) = []"
  using assms by (induction "is") (auto split: list.splits)

lemma first_at_None: "first_at r rs is = None \<longleftrightarrow> (\<forall>i \<in> set is. runs r rs (i, None) = [])"
  by (induction "is") (auto split: list.splits)

function find_loop :: "regex \<Rightarrow> rune list \<Rightarrow> nat \<Rightarrow> nat option \<Rightarrow> (nat \<times> nat \<times> capture) list" where
  "find_loop r rs pos prev =
     (if length rs < pos then []
      else case find_from r rs pos of
        None \<Rightarrow> []
      | Some (s, e, g) \<Rightarrow>
          (if e = pos \<and> prev = Some s then [] else [(s, e, g)])
          @ find_loop r rs (if e \<le> pos then Suc pos else e) (Some e))"
  by pat_completeness auto
termination by (relation "measure (\<lambda>(r, rs, pos, prev). Suc (length rs) - pos)") auto

declare find_loop.simps [simp del]

definition find_all :: "regex \<Rightarrow> rune list \<Rightarrow> (nat \<times> nat \<times> capture) list" where
  "find_all r rs = find_loop r rs 0 None"

section \<open>The denoted relation\<close>

primrec re_match :: "rune list \<Rightarrow> regex \<Rightarrow> nat \<Rightarrow> nat \<Rightarrow> bool" where
  "re_match rs (Cls c) = (\<lambda>i j. j = Suc i \<and> i < length rs \<and> in_class (rs ! i) c)"
| "re_match rs Eps = (\<lambda>i j. i = j)"
| "re_match rs WordBoundary = (\<lambda>i j. i = j \<and> at_boundary rs i)"
| "re_match rs EndText = (\<lambda>i j. i = j \<and> i = length rs)"
| "re_match rs (Seq a b) = re_match rs a OO re_match rs b"
| "re_match rs (Alt a b) = (\<lambda>i j. re_match rs a i j \<or> re_match rs b i j)"
| "re_match rs (Star a) = (re_match rs a)\<^sup>*\<^sup>*"
| "re_match rs (Grp a) = re_match rs a"

text \<open>The least length of a match.\<close>

primrec min_len :: "regex \<Rightarrow> nat" where
  "min_len (Cls c) = 1"
| "min_len Eps = 0"
| "min_len WordBoundary = 0"
| "min_len EndText = 0"
| "min_len (Seq a b) = min_len a + min_len b"
| "min_len (Alt a b) = min (min_len a) (min_len b)"
| "min_len (Star a) = 0"
| "min_len (Grp a) = min_len a"

lemma re_match_len: "re_match rs r i j \<Longrightarrow> i + min_len r \<le> j"
proof (induction r arbitrary: i j)
  case (Seq a b)
  then obtain k where "re_match rs a i k" "re_match rs b k j"
    by auto
  then show ?case
    using Seq.IH by fastforce
next
  case (Alt a b)
  then have "i + min_len a \<le> j \<or> i + min_len b \<le> j"
    by auto
  then show ?case
    by auto
next
  case (Star a)
  have "(re_match rs a)\<^sup>*\<^sup>* i j"
    using Star.prems by simp
  then have "i \<le> j"
    by induction (use Star.IH in fastforce)+
  then show ?case by simp
qed auto

lemma re_match_bound: "re_match rs r i j \<Longrightarrow> i \<le> length rs \<Longrightarrow> j \<le> length rs"
proof (induction r arbitrary: i j)
  case (Star a)
  have "(re_match rs a)\<^sup>*\<^sup>* i j"
    using Star.prems by simp
  then show ?case
    by induction (use Star.IH Star.prems(2) in auto)
qed auto

section \<open>The matcher computes the relation\<close>

lemma star_runs_sound:
  assumes "\<And>s t. t \<in> set (f s) \<Longrightarrow> R (fst s) (fst t)" "t \<in> set (star_runs f n s)"
  shows "R\<^sup>*\<^sup>* (fst s) (fst t)"
  using assms(2)
proof (induction n arbitrary: s)
  case 0
  then show ?case by simp
next
  case (Suc n)
  from Suc.prems consider "t = s" | u where "u \<in> set (f s)" "t \<in> set (star_runs f n u)"
    by auto
  then show ?case
  proof cases
    case 2
    then show ?thesis
      using Suc.IH[OF 2(2)] assms(1)[OF 2(1)] by (meson converse_rtranclp_into_rtranclp)
  qed simp
qed

lemma star_runs_complete:
  assumes "\<And>i j g. R i j \<Longrightarrow> i \<le> m \<Longrightarrow> j \<le> m \<and> i \<le> j \<and> (\<exists>h. (j, h) \<in> set (f (i, g)))"
    and "R\<^sup>*\<^sup>* i j" "i \<le> m" "m \<le> i + n"
  shows "\<exists>h. (j, h) \<in> set (star_runs f n (i, g))"
  using assms(2-)
proof (induction arbitrary: n g rule: converse_rtranclp_induct)
  case base
  have "(j, g) \<in> set (star_runs f n (j, g))"
    by (cases n) simp_all
  then show ?case by blast
next
  case (step i k)
  obtain h where h: "(k, h) \<in> set (f (i, g))" "k \<le> m" "i \<le> k"
    using assms(1)[OF step.hyps(1) step.prems(1)] by blast
  show ?case
  proof (cases "i = k")
    case True
    then show ?thesis
      using step.IH[of n g] step.prems by simp
  next
    case False
    then obtain n' where n: "n = Suc n'"
      using h step.prems by (cases n) auto
    obtain h' where "(j, h') \<in> set (star_runs f n' (k, h))"
      using step.IH[of n' h] h(2,3) False step.prems n by auto
    then have "(j, h') \<in> set (star_runs f n (i, g))"
      using h False n by force
    then show ?thesis by blast
  qed
qed

lemma runs_sound: "t \<in> set (runs r rs s) \<Longrightarrow> re_match rs r (fst s) (fst t)"
proof (induction r arbitrary: s t)
  case (Seq a b)
  then obtain u where "u \<in> set (runs a rs s)" "t \<in> set (runs b rs u)"
    by auto
  then have "re_match rs a (fst s) (fst u)" "re_match rs b (fst u) (fst t)"
    using Seq.IH by blast+
  then show ?case
    by auto
next
  case (Star a)
  have "(re_match rs a)\<^sup>*\<^sup>* (fst s) (fst t)"
    by (rule star_runs_sound[where f = "runs a rs"]) (use Star in auto)
  then show ?case by simp
qed (auto split: if_splits)

lemma runs_complete: "re_match rs r i j \<Longrightarrow> i \<le> length rs \<Longrightarrow> \<exists>h. (j, h) \<in> set (runs r rs (i, g))"
proof (induction r arbitrary: i j g)
  case (Seq a b)
  then obtain k where k: "re_match rs a i k" "re_match rs b k j"
    by auto
  obtain h where h: "(k, h) \<in> set (runs a rs (i, g))"
    using Seq.IH(1)[OF k(1) Seq.prems(2)] by blast
  obtain h' where "(j, h') \<in> set (runs b rs (k, h))"
    using Seq.IH(2)[OF k(2)] re_match_bound[OF k(1) Seq.prems(2)] by blast
  then show ?case
    using h by force
next
  case (Alt a b)
  then show ?case by fastforce
next
  case (Star a)
  have "\<exists>h. (j, h) \<in> set (star_runs (runs a rs) (length rs) (i, g))"
    by (rule star_runs_complete[where R = "re_match rs a" and m = "length rs"])
      (use Star.prems Star.IH re_match_bound re_match_len in \<open>force+\<close>)
  then show ?case by simp
next
  case (Grp a)
  then show ?case by force
qed auto

lemma runs_iff: "i \<le> length rs \<Longrightarrow> (\<exists>h. (j, h) \<in> set (runs r rs (i, g))) \<longleftrightarrow> re_match rs r i j"
  using runs_sound[of _ r rs "(i, g)"] runs_complete[of rs r i j g] by fastforce

section \<open>Captures\<close>

primrec grps :: "regex \<Rightarrow> regex list" where
  "grps (Cls c) = []"
| "grps Eps = []"
| "grps WordBoundary = []"
| "grps EndText = []"
| "grps (Seq a b) = grps a @ grps b"
| "grps (Alt a b) = grps a @ grps b"
| "grps (Star a) = grps a"
| "grps (Grp a) = a # grps a"

definition captured :: "rune list \<Rightarrow> regex \<Rightarrow> nat \<Rightarrow> nat \<Rightarrow> capture \<Rightarrow> bool" where
  "captured rs r i j g \<longleftrightarrow> (\<exists>q \<in> set (grps r). \<exists>a b. g = Some (a, b) \<and> i \<le> a \<and> b \<le> j \<and> re_match rs q a b)"

lemma captured_mono:
  "captured rs q i j g \<Longrightarrow> set (grps q) \<subseteq> set (grps r) \<Longrightarrow> i' \<le> i \<Longrightarrow> j \<le> j' \<Longrightarrow> captured rs r i' j' g"
  unfolding captured_def by fastforce

definition advances :: "rune list \<Rightarrow> regex \<Rightarrow> nat \<times> capture \<Rightarrow> nat \<times> capture \<Rightarrow> bool" where
  "advances rs r s t \<longleftrightarrow> fst s \<le> fst t \<and> (snd t = snd s \<or> captured rs r (fst s) (fst t) (snd t))"

lemma advances_refl: "advances rs r s s"
  by (simp add: advances_def)

lemma advances_trans:
  assumes "advances rs p s t" "advances rs q t u" "set (grps p) \<subseteq> set (grps r)" "set (grps q) \<subseteq> set (grps r)"
  shows "advances rs r s u"
proof -
  have le: "fst s \<le> fst t" "fst t \<le> fst u"
    using assms(1,2) by (auto simp: advances_def)
  have t: "snd t = snd s \<or> captured rs r (fst s) (fst u) (snd t)"
    using assms(1) captured_mono[of rs p "fst s" "fst t" "snd t" r "fst s" "fst u"] assms(3) le
    by (auto simp: advances_def)
  have u: "snd u = snd t \<or> captured rs r (fst s) (fst u) (snd u)"
    using assms(2) captured_mono[of rs q "fst t" "fst u" "snd u" r "fst s" "fst u"] assms(4) le
    by (auto simp: advances_def)
  show ?thesis
    using t u le by (auto simp: advances_def)
qed

lemma advances_wider: "advances rs q s t \<Longrightarrow> set (grps q) \<subseteq> set (grps r) \<Longrightarrow> advances rs r s t"
  by (rule advances_trans[OF _ advances_refl[of rs r]]) auto

lemma star_runs_capture:
  assumes step: "\<And>s t. t \<in> set (f s) \<Longrightarrow> advances rs r s t"
  shows "t \<in> set (star_runs f n s) \<Longrightarrow> advances rs r s t"
proof (induction n arbitrary: s)
  case 0
  then show ?case by (simp add: advances_refl)
next
  case (Suc n)
  from Suc.prems consider "t = s" | u where "u \<in> set (f s)" "t \<in> set (star_runs f n u)"
    by auto
  then show ?case
  proof cases
    case 2
    then show ?thesis
      by (intro advances_trans[OF step Suc.IH]) auto
  qed (simp add: advances_refl)
qed

lemma runs_capture: "t \<in> set (runs r rs s) \<Longrightarrow> advances rs r s t"
proof (induction r arbitrary: s t)
  case (Seq a b)
  then obtain u where u: "u \<in> set (runs a rs s)" "t \<in> set (runs b rs u)"
    by auto
  show ?case
    by (rule advances_trans[OF Seq.IH(1)[OF u(1)] Seq.IH(2)[OF u(2)]]) auto
next
  case (Alt a b)
  then consider "t \<in> set (runs a rs s)" | "t \<in> set (runs b rs s)"
    by auto
  then show ?case
  proof cases
    case 1
    show ?thesis by (rule advances_wider[OF Alt.IH(1)[OF 1]]) auto
  next
    case 2
    show ?thesis by (rule advances_wider[OF Alt.IH(2)[OF 2]]) auto
  qed
next
  case (Star a)
  have "advances rs a s t"
    by (rule star_runs_capture[where f = "runs a rs"]) (use Star in auto)
  then show ?case
    by (rule advances_wider) simp
next
  case (Grp a)
  then obtain u where u: "u \<in> set (runs a rs s)" "t = (fst u, Some (fst s, fst u))"
    by auto
  then show ?case
    using Grp.IH[OF u(1)] runs_sound[OF u(1)] by (auto simp: captured_def advances_def)
qed (auto simp: advances_def split: if_splits)

text \<open>Every rune of a match is in a class of the expression.\<close>

primrec leaves :: "regex \<Rightarrow> rune_class" where
  "leaves (Cls c) = c"
| "leaves Eps = []"
| "leaves WordBoundary = []"
| "leaves EndText = []"
| "leaves (Seq a b) = leaves a @ leaves b"
| "leaves (Alt a b) = leaves a @ leaves b"
| "leaves (Star a) = leaves a"
| "leaves (Grp a) = leaves a"

lemma in_class_append: "in_class r (c @ d) \<longleftrightarrow> in_class r c \<or> in_class r d"
  by (simp add: in_class_def)

lemma re_match_leaves: "re_match rs r i j \<Longrightarrow> i \<le> m \<Longrightarrow> m < j \<Longrightarrow> in_class (rs ! m) (leaves r)"
proof (induction r arbitrary: i j)
  case (Seq a b)
  then obtain k where "re_match rs a i k" "re_match rs b k j"
    by auto
  then show ?case
    using Seq.IH Seq.prems(2,3) by (cases "m < k") (auto simp: in_class_append)
next
  case (Star a)
  have "(re_match rs a)\<^sup>*\<^sup>* i j"
    using Star.prems by simp
  then show ?case
    using Star.prems(2,3)
  proof (induction rule: converse_rtranclp_induct)
    case (step x y)
    then show ?case
      using Star.IH[of x y] by (cases "m < y") auto
  qed simp
qed (auto simp: in_class_append less_Suc_eq)

section \<open>The search\<close>

lemma runs_None_iff: "i \<le> length rs \<Longrightarrow> runs r rs (i, None) = [] \<longleftrightarrow> (\<nexists>j. re_match rs r i j)"
  using runs_iff[of i rs _ r None] by (metis list.set_intros(1) neq_Nil_conv prod.collapse empty_iff empty_set)

text \<open>The match found is the first in preference at the leftmost position that has one.\<close>

lemma find_from_Some:
  assumes "find_from r rs p = Some (i, j, g)"
  shows "p \<le> i" "i \<le> length rs" "re_match rs r i j" "g = None \<or> captured rs r i j g"
    and "\<exists>ts. runs r rs (i, None) = (j, g) # ts" "p \<le> k \<Longrightarrow> k < i \<Longrightarrow> \<not> re_match rs r k m"
proof -
  have f: "first_at r rs [p..<Suc (length rs)] = Some (i, j, g)"
    using assms by (simp add: find_from_def del: upt_Suc)
  obtain ts where ts: "i \<in> set [p..<Suc (length rs)]" "runs r rs (i, None) = (j, g) # ts"
    using first_at_Some[OF f] by blast
  then show b: "p \<le> i" "i \<le> length rs"
    by (simp_all del: upt_Suc)
  have "(j, g) \<in> set (runs r rs (i, None))"
    using ts(2) by simp
  then show "re_match rs r i j" "g = None \<or> captured rs r i j g"
    using runs_sound[of "(j, g)" r rs "(i, None)"] runs_capture[of "(j, g)" r rs "(i, None)"]
    by (auto simp: advances_def)
  show "\<exists>ts. runs r rs (i, None) = (j, g) # ts"
    using ts(2) by blast
  show "p \<le> k \<Longrightarrow> k < i \<Longrightarrow> \<not> re_match rs r k m"
    using first_at_sorted[OF f, of k] runs_None_iff[of k rs r] b by (auto simp del: upt_Suc)
qed

lemma find_from_None: "find_from r rs p = None \<Longrightarrow> p \<le> k \<Longrightarrow> k \<le> length rs \<Longrightarrow> \<not> re_match rs r k m"
  using runs_None_iff[of k rs r] by (auto simp: find_from_def first_at_None simp del: upt_Suc)

text \<open>
  The matches of an expression that matches no empty text: they are in order and disjoint, each is a
  match of the expression, and no position where a match starts is outside all of them.
\<close>

definition matches_ok :: "regex \<Rightarrow> rune list \<Rightarrow> nat \<Rightarrow> (nat \<times> nat \<times> capture) list \<Rightarrow> bool" where
  "matches_ok r rs pos ms \<longleftrightarrow>
    (\<forall>(s, e, g) \<in> set ms. pos \<le> s \<and> s < e \<and> e \<le> length rs \<and> re_match rs r s e \<and> (g = None \<or> captured rs r s e g))
    \<and> sorted_wrt (\<lambda>(_, e, _) (s, _, _). e \<le> s) ms
    \<and> (\<forall>i j. pos \<le> i \<longrightarrow> i \<le> length rs \<longrightarrow> re_match rs r i j \<longrightarrow> (\<exists>(s, e, g) \<in> set ms. s \<le> i \<and> i < e))"

lemma find_loop_ok: "0 < min_len r \<Longrightarrow> matches_ok r rs pos (find_loop r rs pos prev)"
proof (induction r rs pos prev rule: find_loop.induct)
  case (1 r rs pos prev)
  note len = re_match_len[of rs r]
  show ?case
  proof (cases "length rs < pos \<or> find_from r rs pos = None")
    case True
    then show ?thesis
      using find_from_None[of r rs pos] by (auto simp: find_loop.simps[of r rs pos] matches_ok_def)
  next
    case False
    then obtain s e g where f: "find_from r rs pos = Some (s, e, g)" and p: "\<not> length rs < pos"
      by auto
    note m = find_from_Some[OF f]
    have se: "s < e" "e \<le> length rs"
      using len[OF m(3)] 1(2) re_match_bound[OF m(3,2)] by auto
    let ?rest = "find_loop r rs e (Some e)"
    have loop: "find_loop r rs pos prev = (s, e, g) # ?rest"
      using f p se m(1) by (simp add: find_loop.simps[of r rs pos])
    have rest: "matches_ok r rs e ?rest"
      using 1(1)[OF p f refl refl] 1(2) se m(1) by auto
    have cover: "\<exists>(s', e', g') \<in> set ((s, e, g) # ?rest). s' \<le> i \<and> i < e'"
      if "pos \<le> i" "i \<le> length rs" "re_match rs r i j" for i j
    proof (cases "i < e")
      case True
      then have "s \<le> i"
        using m(6)[OF that(1)] that(3) by (meson not_le)
      then show ?thesis
        using True by auto
    next
      case False
      have "\<forall>i j. e \<le> i \<longrightarrow> i \<le> length rs \<longrightarrow> re_match rs r i j \<longrightarrow> (\<exists>(s, e, g) \<in> set ?rest. s \<le> i \<and> i < e)"
        using rest unfolding matches_ok_def by (elim conjE)
      then have "\<exists>(s, e, g) \<in> set ?rest. s \<le> i \<and> i < e"
        using that False by (metis not_le)
      then show ?thesis
        by auto
    qed
    have "\<forall>(s', e', g') \<in> set ?rest. e \<le> s'"
      using rest by (auto simp: matches_ok_def)
    then show ?thesis
      using rest cover m(1,3,4) se unfolding loop matches_ok_def by fastforce
  qed
qed

lemma matches_cover:
  assumes "matches_ok r rs pos ms" "pos \<le> i" "i \<le> length rs" "re_match rs r i j"
  obtains s e g where "(s, e, g) \<in> set ms" "s \<le> i" "i < e"
proof -
  have "\<forall>i j. pos \<le> i \<longrightarrow> i \<le> length rs \<longrightarrow> re_match rs r i j \<longrightarrow> (\<exists>(s, e, g) \<in> set ms. s \<le> i \<and> i < e)"
    using assms(1) unfolding matches_ok_def by (elim conjE)
  from this[rule_format, OF assms(2-4)] show ?thesis
    using that by auto
qed

lemma find_all_ok: "0 < min_len r \<Longrightarrow> matches_ok r rs 0 (find_all r rs)"
  unfolding find_all_def by (rule find_loop_ok)

lemma find_all_mem:
  assumes "0 < min_len r" "(s, e, g) \<in> set (find_all r rs)"
  shows "s < e" "e \<le> length rs" "re_match rs r s e" "g = None \<or> captured rs r s e g"
  using find_all_ok[OF assms(1), of rs] assms(2) by (auto simp: matches_ok_def)

end
