(* ===== verification/Rules.thy ===== *)
theory Rules
  imports Recognizer Validator Regex Dict
begin

text \<open>
  The recognizers of \<open>basic.go\<close>, \<open>card.go\<close>, \<open>date.go\<close> and \<open>document.go\<close> of
  \<open>internal/recognizer\<close>: each finds the matches of its expressions in the normalized text, keeps
  those its check accepts, and maps each back to the original.  The lemmas show that no match is
  lost on the way and that what is emitted fits the text it came from.
\<close>

section \<open>Matches as bytes\<close>

definition byte_at :: "string \<Rightarrow> nat \<Rightarrow> int" where
  "byte_at s i = int ((rune_offsets s @ [length s]) ! i)"

text \<open>\<open>FindAllStringIndex\<close>, and the first group of \<open>FindStringSubmatchIndex\<close>.\<close>

definition find_all_index :: "regex \<Rightarrow> string \<Rightarrow> (int \<times> int) list" where
  "find_all_index r s = map (\<lambda>(i, j, g). (byte_at s i, byte_at s j)) (find_all r (runes s))"

definition find_submatch :: "regex \<Rightarrow> string \<Rightarrow> (int \<times> int) option" where
  "find_submatch r s =
     (case find_from r (runes s) 0 of
        Some (i, j, Some (a, b)) \<Rightarrow> Some (byte_at s a, byte_at s b)
      | _ \<Rightarrow> None)"

definition loc_text :: "norm_text \<Rightarrow> int \<times> int \<Rightarrow> string" where
  "loc_text t loc = slice (normalized t) (fst loc) (snd loc)"

definition found :: "etype \<Rightarrow> f64 \<Rightarrow> esource list \<Rightarrow> string \<Rightarrow> norm_text \<Rightarrow> int \<times> int \<Rightarrow> candidate_span res" where
  "found typ score sources reason t loc =
     emit typ score sources reason t (map_span t (int (byte_to_rune t (fst loc))) (int (byte_to_rune t (snd loc))))"

section \<open>Mail addresses, telephone numbers, tax numbers\<close>

definition email_re :: regex where
  "email_re = seqs
     [plus (Cls [(97, 122), (65, 90), (48, 57), (46, 46), (95, 95), (37, 37), (43, 43), (45, 45)]), lit ''@'',
      plus (Cls [(97, 122), (65, 90), (48, 57), (46, 46), (45, 45)]), lit ''.'', at_least 2 (Cls [(97, 122), (65, 90)])]"

definition email_recognize :: recognizer where
  "email_recognize t =
     collect (found EMAIL (f_round (3 / 5)) [SourceRegex] ''regex:email'' t) (find_all_index email_re (normalized t))"

definition sep_re :: regex where
  "sep_re = opt (Cls (space_class @ [(45, 45)]))"

definition phone_re :: regex where
  "phone_re = seqs
     [alts [lit ''+7'', lit ''8'', lit ''7''], sep_re,
      alts [seqs [lit ''('', copies 3 digit, lit '')''], copies 3 digit], sep_re,
      copies 3 digit, sep_re, copies 2 digit, sep_re, copies 2 digit]"

definition phone_recognize :: recognizer where
  "phone_recognize t =
     collect (found PHONE (f_round (3 / 5)) [SourceRegex] ''regex:phone'' t) (find_all_index phone_re (normalized t))"

definition inn_re :: regex where
  "inn_re = Alt (seqs [WordBoundary, copies 10 digit, WordBoundary]) (seqs [WordBoundary, copies 12 digit, WordBoundary])"

text \<open>\<open>strings.ReplaceAll\<close> of one character by nothing.\<close>

definition without :: "char \<Rightarrow> string \<Rightarrow> string" where
  "without c s = filter (\<lambda>d. d \<noteq> c) s"

definition inn_valid :: "string \<Rightarrow> bool" where
  "inn_valid text =
     (let digits = without CHR '' '' text in
      if length digits = 10 then inn10 digits else if length digits = 12 then inn12 digits else False)"

definition inn_recognize :: recognizer where
  "inn_recognize t =
     collect (found INN (f_round (9 / 10)) [SourceRegex, SourceChecksum] ''inn-checksum'' t)
       (filter (\<lambda>loc. inn_valid (loc_text t loc)) (find_all_index inn_re (normalized t)))"

section \<open>Cards\<close>

definition card_re :: regex where
  "card_re = seqs
     [WordBoundary, copies 4 digit, sep_re, copies 4 digit, sep_re, copies 4 digit, sep_re, copies 4 digit, WordBoundary]"

definition card_valid :: "string \<Rightarrow> bool" where
  "card_valid text =
     (let digits = without CHR ''-'' (without CHR '' '' text) in \<not> (length digits \<noteq> 16 \<or> \<not> luhn digits))"

definition card_recognize :: recognizer where
  "card_recognize t =
     collect (found CARD_NUMBER (f_round (2 / 5)) [SourceRegex, SourceChecksum] ''card-luhn'' t)
       (filter (\<lambda>loc. card_valid (loc_text t loc)) (find_all_index card_re (normalized t)))"

definition pin_re :: regex where
  "pin_re = seqs [WordBoundary, copies 4 digit, WordBoundary]"

definition pin_recognize :: recognizer where
  "pin_recognize t =
     collect (found PIN (f_round (3 / 10)) [SourceRegex] ''regex:pin-candidate'' t) (find_all_index pin_re (normalized t))"

text \<open>\<open>(?i)[a-z]\<close> folds the case of Unicode: the long s and the Kelvin sign belong to it.\<close>

definition latin_fold :: rune_class where
  "latin_fold = [(97, 122), (65, 90), (0x17F, 0x17F), (0x212A, 0x212A)]"

definition cardholder_re :: regex where
  "cardholder_re = seqs
     [WordBoundary, Cls latin_fold, between 2 40 (Cls (latin_fold @ space_class)), WordBoundary]"

definition two_words :: "string \<Rightarrow> bool" where
  "two_words text \<longleftrightarrow> \<not> length (filter (\<lambda>c. c = CHR '' '') (trim_space text)) < 1"

definition cardholder_recognize :: recognizer where
  "cardholder_recognize t =
     collect (found CARDHOLDER_NAME (f_round (3 / 10)) [SourceRegex] ''regex:cardholder'' t)
       (filter (\<lambda>loc. two_words (loc_text t loc)) (find_all_index cardholder_re (normalized t)))"

section \<open>Dates\<close>

definition numeric_date_re :: regex where
  "numeric_date_re = seqs
     [WordBoundary, between 1 2 digit, Cls [(46, 46), (47, 47), (45, 45)], between 1 2 digit,
      Cls [(46, 46), (47, 47), (45, 45)], between 2 4 digit, WordBoundary]"

definition iso_date_re :: regex where
  "iso_date_re = seqs
     [WordBoundary, copies 4 digit, lit ''-'', copies 2 digit, lit ''-'', copies 2 digit, WordBoundary]"

definition month_names :: "string list" where
  "month_names = map ru
     [''QNWARQ'', ''FEWRALQ'', ''MARTA'', ''APRELQ'', ''MAQ'', ''I@NQ'', ''I@LQ'', ''AWGUSTA'', ''SENTQBRQ'', ''OKTQBRQ'',
      ''NOQBRQ'', ''DEKABRQ'']"

definition word_date_re :: regex where
  "word_date_re = seqs
     [WordBoundary, between 1 2 digit, plus white, Grp (alts (map lit month_names)), plus white, copies 4 digit,
      WordBoundary]"

definition year_re :: regex where
  "year_re = seqs
     [WordBoundary, Grp (Alt (Seq (lit ''19'') (copies 2 digit)) (Seq (lit ''20'') (copies 2 digit))), WordBoundary]"

definition date_recognize :: recognizer where
  "date_recognize t =
     (let s = normalized t; sources = [SourceRegex, SourceFormat];
          numeric = find_all_index numeric_date_re s; iso = find_all_index iso_date_re s;
          words = find_all_index word_date_re s; full_dates = numeric @ iso @ words in
      rbind (collect (found BIRTH_DATE (f_round (2 / 5)) sources ''regex:date'' t)
               (filter (\<lambda>loc. valid_date (loc_text t loc)) numeric)) (\<lambda>c1.
      rbind (collect (found BIRTH_DATE (f_round (2 / 5)) sources ''regex:date-iso'' t)
               (filter (\<lambda>loc. valid_iso_date (loc_text t loc)) iso)) (\<lambda>c2.
      rbind (collect (found BIRTH_DATE (f_round (9 / 20)) sources ''regex:date-words'' t) words) (\<lambda>c3.
      rbind (collect (found BIRTH_DATE (f_round (3 / 10)) sources ''regex:year'' t)
               (filter (\<lambda>loc. \<not> overlaps_any (fst loc) (snd loc) full_dates) (find_all_index year_re s))) (\<lambda>c4.
      Inr (c1 @ c2 @ c3 @ c4))))))"

section \<open>Documents\<close>

definition numero :: regex where
  "numero = Cls [(0x2116, 0x2116)]"

definition dash :: regex where
  "dash = Cls [(45, 45), (0x2013, 0x2013)]"

definition passport_re :: regex where
  "passport_re = seqs
     [WordBoundary, copies 2 digit, opt white, copies 2 digit, opt white, opt numero, opt white, copies 6 digit, WordBoundary]"

definition passport_split_re :: regex where
  "passport_split_re = Alt
     (seqs [lit (ru ''SERIQ''), plus white, copies 2 digit, opt white, copies 2 digit, Star white, opt (lit '',''), Star white,
        lit (ru ''NOMER''), plus white, copies 6 digit])
     (seqs [lit (ru ''SERIQ''), plus white, copies 4 digit, Star white, opt (lit '',''), Star white,
        lit (ru ''NOMER''), plus white, copies 6 digit])"

definition passport_recognize :: recognizer where
  "passport_recognize t =
     rbind (collect (found PASSPORT (f_round (2 / 5)) [SourceRegex, SourceFormat] ''regex:passport'' t)
              (find_all_index passport_re (normalized t))) (\<lambda>c1.
     rbind (collect (found PASSPORT (f_round (7 / 10)) [SourceRegex, SourceFormat] ''regex:passport-split'' t)
              (find_all_index passport_split_re (normalized t))) (\<lambda>c2.
     Inr (c1 @ c2)))"

definition department_re :: regex where
  "department_re = seqs [WordBoundary, copies 3 digit, dash, copies 3 digit, WordBoundary]"

definition department_recognize :: recognizer where
  "department_recognize t =
     collect (found DEPARTMENT_CODE (f_round (2 / 5)) [SourceRegex, SourceFormat] ''regex:department-code'' t)
       (find_all_index department_re (normalized t))"

definition license_re :: regex where
  "license_re = seqs
     [WordBoundary,
      Alt (seqs [copies 4 digit, opt white, copies 6 digit])
        (seqs [copies 2 digit, opt white, opt dash, opt white, copies 2 digit, opt white, opt numero, opt white,
          copies 6 digit]),
      WordBoundary]"

definition license_recognize :: recognizer where
  "license_recognize t =
     collect (found DRIVER_LICENSE (f_round (2 / 5)) [SourceRegex, SourceFormat] ''regex:driver-license'' t)
       (find_all_index license_re (normalized t))"

definition russian_small :: rune_class where
  "russian_small = [(0x430, 0x44F), (0x451, 0x451)]"

definition issuer_re :: regex where
  "issuer_re = seqs
     [alts (map (lit \<circ> ru) [''WYDAN'', ''WYDANO'', ''ORGAN, WYDAW[IJ'', ''KEM WYDAN'']),
      plus (Cls ((58, 58) # space_class)),
      Grp (lazy_between 5 80 (Cls (russian_small @ [(97, 122)] @ space_class @ [(46, 46), (45, 45)]))),
      alts [lit '','', Seq (plus white) digit, EndText]]"

fun submatches :: "regex \<Rightarrow> norm_text \<Rightarrow> (int \<times> int) list \<Rightarrow> (int \<times> int) list" where
  "submatches r t [] = []"
| "submatches r t (loc # locs) =
     (case find_submatch r (loc_text t loc) of
        None \<Rightarrow> submatches r t locs
      | Some sub \<Rightarrow> (fst loc + fst sub, fst loc + snd sub) # submatches r t locs)"

definition issuer_recognize :: recognizer where
  "issuer_recognize t =
     collect (found PASSPORT_ISSUER (f_round (7 / 10)) [SourceRegex, SourceContext] ''regex:passport-issuer'' t)
       (submatches issuer_re t (find_all_index issuer_re (normalized t)))"

section \<open>Every match is mapped back\<close>

lemma byte_at_offset: "valid_string s \<Longrightarrow> i \<le> length (runes s) \<Longrightarrow> byte_at s i = int (byte_offset (runes s) i)"
proof -
  assume v: "valid_string s" and i: "i \<le> length (runes s)"
  have n: "rune_count s = length (runes s)"
    by (simp add: rune_count_def runes_def)
  show ?thesis
  proof (cases "i < length (runes s)")
    case True
    then show ?thesis
      using rune_offsets_nth[OF v] by (simp add: byte_at_def nth_append n)
  next
    case False
    then show ?thesis
      using i encode_runes[OF v] by (simp add: byte_at_def nth_append n byte_offset_length)
  qed
qed

text \<open>A candidate that shows the span of runes \<open>[i, j)\<close> of the normalized text.\<close>

definition shows_span :: "ucd \<Rightarrow> string \<Rightarrow> candidate_span \<Rightarrow> nat \<Rightarrow> nat \<Rightarrow> bool" where
  "shows_span u s c i j \<longleftrightarrow>
     i < j \<and> j \<le> norm_len (norm_new u s) \<and> candidate_ok s c
     \<and> (c_start c, c_end c) = map_span (norm_new u s) (int i) (int j)
     \<and> normalized (norm_new u (c_text c)) = encode_all (drop i (take j (runes (normalized (norm_new u s)))))"

lemma found_ok:
  assumes "ucd_ok u" "valid_string s" "i < j" "j \<le> norm_len (norm_new u s)" "score \<noteq> NaN" "score \<noteq> PosInf"
  shows "\<exists>c. found typ score sources reason (norm_new u s)
      (int (byte_offset (written u (runes s)) i), int (byte_offset (written u (runes s)) j)) = Inr c
    \<and> shows_span u s c i j \<and> c_type c = typ \<and> c_score c = score"
proof -
  let ?t = "norm_new u s"
  note norm = runes_normalized[OF assms(1,2)]
  have off: "rune_to_byte ?t (int k) = byte_offset (written u (runes s)) k" if "k \<le> norm_len ?t" for k
    using that norm(3) encode_runes[OF norm(2)]
    by (auto simp: rune_to_byte_def norm_byte_offsets_eq norm(1) byte_offset_length[of _ k] norm_len_def)
  obtain c where c: "emit typ score sources reason ?t (map_span ?t (int i) (int j)) = Inr c"
    "candidate_ok s c" "c_type c = typ" "c_score c = score"
    "normalized (norm_new u (c_text c)) = slice (normalized ?t) (int (rune_to_byte ?t (int i))) (int (rune_to_byte ?t (int j)))"
    "c_start c = fst (map_span ?t (int i) (int j))" "c_end c = snd (map_span ?t (int i) (int j))"
    by (rule emit_ok[OF assms(2-6)])
  have "slice (normalized ?t) (int (rune_to_byte ?t (int i))) (int (rune_to_byte ?t (int j)))
      = encode_all (drop i (take j (runes (normalized ?t))))"
    using slice_at_boundaries[OF norm(2), of i j] assms(3,4) off[of i] off[of j] by (simp add: norm(1))
  then have "shows_span u s c i j"
    using c assms(3,4) by (simp add: shows_span_def)
  then show ?thesis
    using c assms(3,4) by (simp add: found_def byte_to_rune_boundary)
qed

text \<open>A span of bytes that starts with a character is mapped back, wherever it ends.\<close>

lemma found_from:
  assumes "ucd_ok u" "valid_string s" "i < norm_len (norm_new u s)" "start = int (byte_offset (written u (runes s)) i)"
    and "start < stop" "score \<noteq> NaN" "score \<noteq> PosInf"
  shows "\<exists>c. found typ score sources reason (norm_new u s) (start, stop) = Inr c \<and> candidate_ok s c \<and> c_type c = typ"
proof -
  note b = byte_to_rune_bounds[OF assms(4,3,5)]
  obtain c where "emit typ score sources reason (norm_new u s)
      (map_span (norm_new u s) (int i) (int (byte_to_rune (norm_new u s) stop))) = Inr c" "candidate_ok s c" "c_type c = typ"
    by (rule emit_ok[OF assms(2) b(2,3) assms(6,7)])
  then show ?thesis
    using b(1) by (simp add: found_def)
qed

text \<open>The position of a match, and the candidate for it.\<close>

lemma find_all_index_mem:
  assumes "0 < min_len r" "ucd_ok u" "valid_string s" "loc \<in> set (find_all_index r (normalized (norm_new u s)))"
  obtains i j where "i < j" "j \<le> norm_len (norm_new u s)" "re_match (runes (normalized (norm_new u s))) r i j"
    "loc = (int (byte_offset (written u (runes s)) i), int (byte_offset (written u (runes s)) j))"
proof -
  let ?n = "normalized (norm_new u s)"
  note norm = runes_normalized[OF assms(2,3)]
  obtain i j g where m: "(i, j, g) \<in> set (find_all r (runes ?n))" "loc = (byte_at ?n i, byte_at ?n j)"
    using assms(4) by (auto simp: find_all_index_def)
  note f = find_all_mem[OF assms(1) m(1)]
  show ?thesis
    using that[of i j] f m(2) byte_at_offset[OF norm(2)] norm(1,3) by simp
qed

definition match_shown :: "ucd \<Rightarrow> string \<Rightarrow> regex \<Rightarrow> etype \<Rightarrow> int \<times> int \<Rightarrow> candidate_span \<Rightarrow> bool" where
  "match_shown u s r typ loc c \<longleftrightarrow> c_type c = typ
     \<and> (\<exists>i j. loc = (int (byte_offset (written u (runes s)) i), int (byte_offset (written u (runes s)) j))
          \<and> shows_span u s c i j \<and> re_match (runes (normalized (norm_new u s))) r i j)"

lemma found_match:
  assumes "0 < min_len r" "ucd_ok u" "valid_string s" "score \<noteq> NaN" "score \<noteq> PosInf"
    and "loc \<in> set (find_all_index r (normalized (norm_new u s)))"
  shows "\<exists>c. found typ score sources reason (norm_new u s) loc = Inr c \<and> match_shown u s r typ loc c"
proof -
  obtain i j where m: "i < j" "j \<le> norm_len (norm_new u s)" "re_match (runes (normalized (norm_new u s))) r i j"
    "loc = (int (byte_offset (written u (runes s)) i), int (byte_offset (written u (runes s)) j))"
    using find_all_index_mem[OF assms(1-3,6)] .
  show ?thesis
    using found_ok[OF assms(2,3) m(1,2) assms(4,5), of "typ" sources reason] m(3,4) unfolding match_shown_def by blast
qed

text \<open>What a recognizer that is one expression and one check returns.\<close>

lemma rule_pairs:
  assumes "0 < min_len r" "ucd_ok u" "valid_string s" "score \<noteq> NaN" "score \<noteq> PosInf"
  shows "\<exists>cs. collect (found typ score sources reason (norm_new u s))
      (filter P (find_all_index r (normalized (norm_new u s)))) = Inr cs
    \<and> list_all2 (match_shown u s r typ) (filter P (find_all_index r (normalized (norm_new u s)))) cs"
  by (rule collect_ok) (use found_match[OF assms] in auto)

definition rule_candidates :: "ucd \<Rightarrow> string \<Rightarrow> regex \<Rightarrow> etype \<Rightarrow> candidate_span list \<Rightarrow> bool" where
  "rule_candidates u s r typ cs \<longleftrightarrow>
     (\<forall>c \<in> set cs. c_type c = typ \<and> (\<exists>i j. shows_span u s c i j \<and> re_match (runes (normalized (norm_new u s))) r i j))"

lemma rule_candidates_ok: "rule_candidates u s r typ cs \<Longrightarrow> c \<in> set cs \<Longrightarrow> candidate_ok s c \<and> c_type c = typ"
  by (auto simp: rule_candidates_def shows_span_def)

lemma rule_spans:
  assumes "0 < min_len r" "ucd_ok u" "valid_string s" "score \<noteq> NaN" "score \<noteq> PosInf"
  shows "\<exists>cs. collect (found typ score sources reason (norm_new u s))
      (filter P (find_all_index r (normalized (norm_new u s)))) = Inr cs \<and> rule_candidates u s r typ cs"
proof -
  let ?xs = "filter P (find_all_index r (normalized (norm_new u s)))"
  obtain cs where cs: "collect (found typ score sources reason (norm_new u s)) ?xs = Inr cs"
    "list_all2 (match_shown u s r typ) ?xs cs"
    using rule_pairs[OF assms] by blast
  have "\<exists>loc. match_shown u s r typ loc c" if "c \<in> set cs" for c
    using list_all2_right[OF cs(2) that] by blast
  then show ?thesis
    using cs(1) unfolding rule_candidates_def match_shown_def by blast
qed

text \<open>The text a candidate shows is the text that was checked.\<close>

lemma match_shown_text:
  assumes "match_shown u s r typ loc c" "ucd_ok u" "valid_string s"
  shows "normalized (norm_new u (c_text c)) = loc_text (norm_new u s) loc"
proof -
  note norm = runes_normalized[OF assms(2,3)]
  obtain i j where "loc = (int (byte_offset (written u (runes s)) i), int (byte_offset (written u (runes s)) j))"
    "shows_span u s c i j"
    using assms(1) by (auto simp: match_shown_def)
  then show ?thesis
    using slice_at_boundaries[OF norm(2), of i j] by (simp add: loc_text_def shows_span_def norm(1))
qed

lemma checked_spans:
  assumes "0 < min_len r" "ucd_ok u" "valid_string s" "score \<noteq> NaN" "score \<noteq> PosInf"
  shows "\<exists>cs. collect (found typ score sources reason (norm_new u s))
      (filter (\<lambda>loc. P (loc_text (norm_new u s) loc)) (find_all_index r (normalized (norm_new u s)))) = Inr cs
    \<and> (\<forall>c \<in> set cs. P (normalized (norm_new u (c_text c))))"
proof -
  let ?xs = "filter (\<lambda>loc. P (loc_text (norm_new u s) loc)) (find_all_index r (normalized (norm_new u s)))"
  obtain cs where cs: "collect (found typ score sources reason (norm_new u s)) ?xs = Inr cs"
    "list_all2 (match_shown u s r typ) ?xs cs"
    using rule_pairs[OF assms] by blast
  have "P (normalized (norm_new u (c_text c)))" if c: "c \<in> set cs" for c
  proof -
    obtain loc where "loc \<in> set ?xs" "match_shown u s r typ loc c"
      using list_all2_right[OF cs(2) c] by blast
    then show ?thesis
      using match_shown_text[OF _ assms(2,3)] by simp
  qed
  then show ?thesis
    using cs(1) by blast
qed

text \<open>Where a match starts there is a candidate, when nothing is filtered.\<close>

lemma match_covered:
  assumes "0 < min_len r" "re_match (runes s) r i j" "i \<le> length (runes s)" "valid_string s"
  shows "\<exists>loc \<in> set (find_all_index r s). \<exists>a b. loc = (int (byte_offset (runes s) a), int (byte_offset (runes s) b)) \<and> a \<le> i \<and> i < b
    \<and> b \<le> length (runes s)"
proof -
  obtain a b g where m: "(a, b, g) \<in> set (find_all r (runes s))" "a \<le> i" "i < b"
    using matches_cover[OF find_all_ok[OF assms(1)] le0 assms(3,2)] .
  note f = find_all_mem[OF assms(1) m(1)]
  have "(byte_at s a, byte_at s b) \<in> set (find_all_index r s)"
    using m(1) by (force simp: find_all_index_def)
  then show ?thesis
    using m(2,3) f byte_at_offset[OF assms(4)] by force
qed

lemma rule_covers:
  assumes "0 < min_len r" "ucd_ok u" "valid_string s" "score \<noteq> NaN" "score \<noteq> PosInf"
  shows "\<exists>cs. collect (found typ score sources reason (norm_new u s)) (find_all_index r (normalized (norm_new u s))) = Inr cs
    \<and> rule_candidates u s r typ cs
    \<and> (\<forall>i j. i \<le> norm_len (norm_new u s) \<and> re_match (runes (normalized (norm_new u s))) r i j
         \<longrightarrow> (\<exists>c \<in> set cs. \<exists>a b. shows_span u s c a b \<and> a \<le> i \<and> i < b))"
proof -
  let ?n = "normalized (norm_new u s)"
  note norm = runes_normalized[OF assms(2,3)]
  obtain cs where cs: "collect (found typ score sources reason (norm_new u s)) (find_all_index r ?n) = Inr cs"
    "list_all2 (match_shown u s r typ) (find_all_index r ?n) cs"
    using rule_pairs[OF assms, of "typ" sources reason "\<lambda>_. True"] by auto
  have "\<exists>c \<in> set cs. \<exists>a b. shows_span u s c a b \<and> a \<le> i \<and> i < b"
    if ij: "i \<le> norm_len (norm_new u s)" "re_match (runes ?n) r i j" for i j
  proof -
    obtain loc a b where loc: "loc \<in> set (find_all_index r ?n)" "a \<le> i" "i < b" "b \<le> norm_len (norm_new u s)"
      "loc = (int (byte_offset (runes ?n) a), int (byte_offset (runes ?n) b))"
      using match_covered[OF assms(1) ij(2) _ norm(2)] ij(1) norm(3) by auto
    obtain c where c: "c \<in> set cs" "match_shown u s r typ loc c"
      using cs(2) loc(1) by (metis in_set_conv_nth list_all2_conv_all_nth)
    obtain a' b' where ab: "loc = (int (byte_offset (runes ?n) a'), int (byte_offset (runes ?n) b'))" "shows_span u s c a' b'"
      using c(2) norm(1) unfolding match_shown_def by auto
    have inj: "k = k'" if "byte_offset (runes ?n) k = byte_offset (runes ?n) k'" "k \<le> norm_len (norm_new u s)"
        "k' \<le> norm_len (norm_new u s)" for k k'
      using that byte_offset_strict[of k k' "runes ?n"] byte_offset_strict[of k' k "runes ?n"] norm(3)
      by (cases k k' rule: linorder_cases) auto
    have "a' = a" "b' = b"
      using ab loc inj by (auto simp: shows_span_def)
    then show ?thesis
      using c(1) ab(2) loc(2,3) by blast
  qed
  moreover have "rule_candidates u s r typ cs"
  proof -
    have "\<exists>loc. match_shown u s r typ loc c" if "c \<in> set cs" for c
      using list_all2_right[OF cs(2) that] by blast
    then show ?thesis
      unfolding rule_candidates_def match_shown_def by blast
  qed
  ultimately show ?thesis
    using cs(1) by blast
qed

section \<open>The recognizers keep their contract\<close>

lemma min_len_copies: "min_len (copies n r) = n * min_len r"
  by (induction n) auto

lemma min_len_options: "min_len (options n r) = 0" "min_len (lazy_options n r) = 0"
  by (induction n) auto

lemma min_len_seqs: "min_len (seqs rs) = sum_list (map min_len rs)"
  by (induction rs rule: seqs.induct) auto

lemma min_len_rules:
  "0 < min_len email_re" "0 < min_len phone_re" "0 < min_len inn_re" "0 < min_len card_re" "0 < min_len pin_re"
  "0 < min_len cardholder_re" "0 < min_len numeric_date_re" "0 < min_len iso_date_re" "0 < min_len word_date_re"
  "0 < min_len year_re" "0 < min_len passport_re" "0 < min_len passport_split_re" "0 < min_len department_re"
  "0 < min_len license_re" "0 < min_len issuer_re"
  by (simp_all add: email_re_def phone_re_def inn_re_def card_re_def pin_re_def cardholder_re_def numeric_date_re_def
      iso_date_re_def word_date_re_def year_re_def passport_re_def passport_split_re_def department_re_def license_re_def
      issuer_re_def at_least_def between_def plus_def digit_def white_def opt_def sep_re_def numero_def dash_def
      lazy_between_def min_len_copies min_len_options min_len_seqs)

lemma single_rule_recognizer:
  assumes "ucd_ok u" "0 < min_len r" "score \<noteq> NaN" "score \<noteq> PosInf"
    and "\<And>t. recognize t = collect (found ty score sources reason t) (filter (P t) (find_all_index r (normalized t)))"
  shows "rule_recognizer u recognize ty"
proof
  fix s
  assume "valid_string s"
  then obtain cs where "recognize (norm_new u s) = Inr cs" "rule_candidates u s r ty cs"
    using rule_spans[OF assms(2,1) _ assms(3,4), of s ty sources reason "P (norm_new u s)"] assms(5) by auto
  then show "\<exists>cs. recognize (norm_new u s) = Inr cs \<and> (\<forall>c \<in> set cs. candidate_ok s c \<and> c_type c = ty)"
    using rule_candidates_ok by blast
qed

lemma email_rule_recognizer: "ucd_ok u \<Longrightarrow> rule_recognizer u email_recognize EMAIL"
  by (rule single_rule_recognizer[where P = "\<lambda>t loc. True"]) (simp_all add: min_len_rules email_recognize_def)

lemma phone_rule_recognizer: "ucd_ok u \<Longrightarrow> rule_recognizer u phone_recognize PHONE"
  by (rule single_rule_recognizer[where P = "\<lambda>t loc. True"]) (simp_all add: min_len_rules phone_recognize_def)

lemma inn_rule_recognizer: "ucd_ok u \<Longrightarrow> rule_recognizer u inn_recognize INN"
  by (rule single_rule_recognizer[where P = "\<lambda>t loc. inn_valid (loc_text t loc)"])
    (simp_all add: min_len_rules inn_recognize_def)

lemma card_rule_recognizer: "ucd_ok u \<Longrightarrow> rule_recognizer u card_recognize CARD_NUMBER"
  by (rule single_rule_recognizer[where P = "\<lambda>t loc. card_valid (loc_text t loc)"])
    (simp_all add: min_len_rules card_recognize_def)

lemma pin_rule_recognizer: "ucd_ok u \<Longrightarrow> rule_recognizer u pin_recognize PIN"
  by (rule single_rule_recognizer[where P = "\<lambda>t loc. True"]) (simp_all add: min_len_rules pin_recognize_def)

lemma cardholder_rule_recognizer: "ucd_ok u \<Longrightarrow> rule_recognizer u cardholder_recognize CARDHOLDER_NAME"
  by (rule single_rule_recognizer[where P = "\<lambda>t loc. two_words (loc_text t loc)"])
    (simp_all add: min_len_rules cardholder_recognize_def)

lemma department_rule_recognizer: "ucd_ok u \<Longrightarrow> rule_recognizer u department_recognize DEPARTMENT_CODE"
  by (rule single_rule_recognizer[where P = "\<lambda>t loc. True"]) (simp_all add: min_len_rules department_recognize_def)

lemma license_rule_recognizer: "ucd_ok u \<Longrightarrow> rule_recognizer u license_recognize DRIVER_LICENSE"
  by (rule single_rule_recognizer[where P = "\<lambda>t loc. True"]) (simp_all add: min_len_rules license_recognize_def)

lemma rule_part:
  assumes "ucd_ok u" "0 < min_len r" "valid_string s" "score \<noteq> NaN" "score \<noteq> PosInf"
  shows "\<exists>cs. collect (found ty score sources reason (norm_new u s))
      (filter P (find_all_index r (normalized (norm_new u s)))) = Inr cs \<and> (\<forall>c \<in> set cs. candidate_ok s c \<and> c_type c = ty)"
  using rule_spans[OF assms(2,1,3-5), of ty sources reason P] rule_candidates_ok by metis

lemma whole_part:
  assumes "ucd_ok u" "0 < min_len r" "valid_string s" "score \<noteq> NaN" "score \<noteq> PosInf"
  shows "\<exists>cs. collect (found ty score sources reason (norm_new u s))
      (find_all_index r (normalized (norm_new u s))) = Inr cs \<and> (\<forall>c \<in> set cs. candidate_ok s c \<and> c_type c = ty)"
  using rule_part[OF assms, where P = "\<lambda>_. True"] by simp

lemma Inr_bindE: "\<exists>x. f = Inr x \<and> P x \<Longrightarrow> (\<And>x. P x \<Longrightarrow> \<exists>z. g x = Inr z \<and> Q z) \<Longrightarrow> \<exists>z. rbind f g = Inr z \<and> Q z"
  by auto

lemma passport_rule_recognizer:
  assumes "ucd_ok u"
  shows "rule_recognizer u passport_recognize PASSPORT"
proof
  fix s
  assume v: "valid_string s"
  show "\<exists>cs. passport_recognize (norm_new u s) = Inr cs \<and> (\<forall>c \<in> set cs. candidate_ok s c \<and> c_type c = PASSPORT)"
    unfolding passport_recognize_def
    by (rule Inr_bindE[OF whole_part[OF assms min_len_rules(11) v]], simp, simp,
        rule Inr_bindE[OF whole_part[OF assms min_len_rules(12) v]]) auto
qed

lemma date_rule_recognizer:
  assumes "ucd_ok u"
  shows "rule_recognizer u date_recognize BIRTH_DATE"
proof
  fix s
  assume v: "valid_string s"
  show "\<exists>cs. date_recognize (norm_new u s) = Inr cs \<and> (\<forall>c \<in> set cs. candidate_ok s c \<and> c_type c = BIRTH_DATE)"
    unfolding date_recognize_def Let_def
    by (rule Inr_bindE[OF rule_part[OF assms min_len_rules(7) v]], simp, simp,
        rule Inr_bindE[OF rule_part[OF assms min_len_rules(8) v]], simp, simp,
        rule Inr_bindE[OF whole_part[OF assms min_len_rules(9) v]], simp, simp,
        rule Inr_bindE[OF rule_part[OF assms min_len_rules(10) v]]) auto
qed

text \<open>The bytes of a part are those of the whole, shifted.\<close>

lemma byte_offset_shift:
  assumes "i + k \<le> j"
  shows "byte_offset rs i + byte_offset (drop i (take j rs)) k = byte_offset rs (i + k)"
proof -
  have "take (i + k) rs = take i rs @ take k (drop i (take j rs))"
    using assms by (simp add: take_add drop_take min_def)
  then show ?thesis
    by (simp add: byte_offset_def)
qed

lemma submatch_ok:
  assumes "ucd_ok u" "valid_string s" "t = norm_new u s" "w = written u (runes s)" "\<forall>q \<in> set (grps r). 0 < min_len q"
    and "i < j" "j \<le> norm_len t" "loc = (int (byte_offset w i), int (byte_offset w j))"
    and "find_submatch r (loc_text t loc) = Some sub"
  obtains a b where "i \<le> a" "a < b" "b \<le> j" "fst loc + fst sub = int (byte_offset w a)"
    "fst loc + snd sub = int (byte_offset w b)" "\<exists>q \<in> set (grps r). re_match (drop i (take j w)) q (a - i) (b - i)"
    "\<exists>i0 j0 ts. runs r (drop i (take j w)) (i0, None) = (j0, Some (a - i, b - i)) # ts"
proof -
  note norm = runes_normalized[OF assms(1,2), folded assms(3)]
  let ?p = "drop i (take j w)"
  have len: "length w = norm_len t" and w: "runes (normalized t) = w"
    using norm(1,3) assms(4) by simp_all
  have part: "loc_text t loc = encode_all ?p"
    using slice_at_boundaries[OF norm(2), of i j] assms(6) by (simp add: loc_text_def assms(8) w)
  have vp: "list_all valid_rune ?p"
    using runes_valid[OF norm(2)] unfolding w by (auto simp: list_all_iff dest: in_set_dropD in_set_takeD)
  have rp: "runes (loc_text t loc) = ?p" "valid_string (loc_text t loc)"
    unfolding part using vp by (auto intro: runes_encode_all valid_encode_all)
  have lp: "length ?p = j - i"
    using assms(6,7) len by simp
  obtain i0 j0 a b where f: "find_from r ?p 0 = Some (i0, j0, Some (a, b))"
    and sub: "sub = (byte_at (loc_text t loc) a, byte_at (loc_text t loc) b)"
    using assms(9) by (auto simp: find_submatch_def rp split: option.splits prod.splits)
  have cap: "captured ?p r i0 j0 (Some (a, b))" "j0 \<le> length ?p"
    using find_from_Some(4)[OF f] re_match_bound[OF find_from_Some(3)[OF f] find_from_Some(2)[OF f]] by simp_all
  then obtain q where q: "q \<in> set (grps r)" "re_match ?p q a b" "b \<le> j0"
    by (auto simp: captured_def)
  then have ab: "a < b" "b \<le> j - i"
    using re_match_len[OF q(2)] assms(5) cap(2) lp by force+
  have shift: "fst loc + byte_at (loc_text t loc) k = int (byte_offset w (i + k))" if "k \<le> j - i" for k
  proof -
    have "k \<le> length (runes (loc_text t loc))" "i + k \<le> j"
      using that assms(6) lp rp(1) by simp_all
    then have "byte_at (loc_text t loc) k = int (byte_offset ?p k)"
      using byte_at_offset[OF rp(2), of k] rp(1) by simp
    then show ?thesis
      using byte_offset_shift[OF \<open>i + k \<le> j\<close>, of w] by (simp add: assms(8))
  qed
  show ?thesis
  proof (rule that[of "i + a" "i + b"])
    show "\<exists>q \<in> set (grps r). re_match ?p q (i + a - i) (i + b - i)"
      using q by auto
    show "\<exists>i0 j0 ts. runs r ?p (i0, None) = (j0, Some (i + a - i, i + b - i)) # ts"
      using find_from_Some(5)[OF f] by auto
  qed (use ab shift[of a] shift[of b] assms(6) sub in auto)
qed

text \<open>What the groups of an expression show, as candidates: none is empty, so none is lost.\<close>

lemma submatches_mem: "sub \<in> set (submatches r t locs) \<Longrightarrow>
    \<exists>loc \<in> set locs. \<exists>x. find_submatch r (loc_text t loc) = Some x \<and> sub = (fst loc + fst x, fst loc + snd x)"
  by (induction locs) (auto split: option.splits)

lemma submatch_found:
  assumes "ucd_ok u" "valid_string s" "0 < min_len r" "\<forall>q \<in> set (grps r). 0 < min_len q" "score \<noteq> NaN" "score \<noteq> PosInf"
    and "sub \<in> set (submatches r (norm_new u s) (find_all_index r (normalized (norm_new u s))))"
  shows "\<exists>c. found typ score sources reason (norm_new u s) sub = Inr c \<and> candidate_ok s c \<and> c_type c = typ"
proof -
  let ?t = "norm_new u s" and ?w = "written u (runes s)"
  obtain loc x where loc: "loc \<in> set (find_all_index r (normalized ?t))" "find_submatch r (loc_text ?t loc) = Some x"
    and sub: "sub = (fst loc + fst x, fst loc + snd x)"
    using submatches_mem[OF assms(7)] by blast
  obtain i j where m: "i < j" "j \<le> norm_len ?t" "loc = (int (byte_offset ?w i), int (byte_offset ?w j))"
    using find_all_index_mem[OF assms(3,1,2) loc(1)] by metis
  obtain a b where ab: "a < b" "b \<le> j" "sub = (int (byte_offset ?w a), int (byte_offset ?w b))"
    using submatch_ok[OF assms(1,2) refl refl assms(4) m loc(2)] sub by metis
  show ?thesis
    using found_ok[OF assms(1,2) ab(1) order_trans[OF ab(2) m(2)] assms(5,6), of "typ" sources reason] ab(3)
    by (auto simp: shows_span_def)
qed

lemma grps_simps: "grps (copies n r) = concat (replicate n (grps r))" "grps (options n r) = concat (replicate n (grps r))"
  "grps (lazy_options n r) = concat (replicate n (grps r))" "grps (seqs rs) = concat (map grps rs)"
  "grps (alts rs) = concat (map grps rs)" "grps (lit w) = []"
proof -
  show seqs: "grps (seqs rs) = concat (map grps rs)" for rs
    by (induction rs rule: seqs.induct) auto
  show "grps (lit w) = []"
    by (simp add: lit_def seqs)
  show "grps (alts rs) = concat (map grps rs)"
    by (induction rs rule: alts.induct) auto
qed (induction n; simp)+

lemma issuer_groups: "\<forall>q \<in> set (grps issuer_re). 0 < min_len q"
  by (simp add: issuer_re_def plus_def white_def digit_def lazy_between_def grps_simps min_len_copies)

lemma issuer_rule_recognizer:
  assumes "ucd_ok u"
  shows "rule_recognizer u issuer_recognize PASSPORT_ISSUER"
proof
  fix s
  assume v: "valid_string s"
  let ?xs = "submatches issuer_re (norm_new u s) (find_all_index issuer_re (normalized (norm_new u s)))"
  let ?P = "\<lambda>x c. candidate_ok s c \<and> c_type c = PASSPORT_ISSUER"
  let ?f = "found PASSPORT_ISSUER (f_round (7 / 10)) [SourceRegex, SourceContext] ''regex:passport-issuer'' (norm_new u s)"
  have ex: "\<exists>c. ?f sub = Inr c \<and> ?P sub c" if "sub \<in> set ?xs" for sub
    by (rule submatch_found[OF assms v min_len_rules(15) issuer_groups _ _ that]) simp_all
  obtain cs where cs: "collect ?f ?xs = Inr cs" "list_all2 ?P ?xs cs"
    using collect_ok[of ?xs ?f ?P, OF ex] by blast
  have "\<forall>c \<in> set cs. ?P x c" for x
    using list_all2_right[OF cs(2)] by simp
  then show "\<exists>cs. issuer_recognize (norm_new u s) = Inr cs \<and> (\<forall>c \<in> set cs. candidate_ok s c \<and> c_type c = PASSPORT_ISSUER)"
    using cs(1) unfolding issuer_recognize_def by simp
qed

section \<open>The contract, whatever the tables\<close>

sublocale tables \<subseteq> email: rule_recognizer u email_recognize EMAIL
  by (rule email_rule_recognizer[OF tables_ok])

sublocale tables \<subseteq> phone: rule_recognizer u phone_recognize PHONE
  by (rule phone_rule_recognizer[OF tables_ok])

sublocale tables \<subseteq> inn: rule_recognizer u inn_recognize INN
  by (rule inn_rule_recognizer[OF tables_ok])

sublocale tables \<subseteq> card: rule_recognizer u card_recognize CARD_NUMBER
  by (rule card_rule_recognizer[OF tables_ok])

sublocale tables \<subseteq> pin: rule_recognizer u pin_recognize PIN
  by (rule pin_rule_recognizer[OF tables_ok])

sublocale tables \<subseteq> cardholder: rule_recognizer u cardholder_recognize CARDHOLDER_NAME
  by (rule cardholder_rule_recognizer[OF tables_ok])

sublocale tables \<subseteq> date: rule_recognizer u date_recognize BIRTH_DATE
  by (rule date_rule_recognizer[OF tables_ok])

sublocale tables \<subseteq> passport: rule_recognizer u passport_recognize PASSPORT
  by (rule passport_rule_recognizer[OF tables_ok])

sublocale tables \<subseteq> department: rule_recognizer u department_recognize DEPARTMENT_CODE
  by (rule department_rule_recognizer[OF tables_ok])

sublocale tables \<subseteq> license: rule_recognizer u license_recognize DRIVER_LICENSE
  by (rule license_rule_recognizer[OF tables_ok])

sublocale tables \<subseteq> issuer: rule_recognizer u issuer_recognize PASSPORT_ISSUER
  by (rule issuer_rule_recognizer[OF tables_ok])

end
