(* ===== verification/BirthPlace.thy ===== *)
theory BirthPlace
  imports Country Rules
begin

text \<open>
  The birth-place recognizer of \<open>internal/recognizer/dictionary.go\<close>: the text captured after a
  keyword, cut at the next field and freed of a leading preposition.  The start of the candidate is
  that of the captured group, moved by the preposition only; the lemmas show that this is still the
  start of a character of the text.
\<close>

section \<open>The recognizer\<close>

definition place_class :: rune_class where
  "place_class = russian_small @ [(97, 122)] @ space_class @ [(46, 46), (44, 44), (45, 45)]"

definition in_year_re :: regex where
  "in_year_re = seqs [lit (ru ''W''), plus white, copies 4 digit, plus white, lit (ru ''GODU''), plus white]"

definition birth_place_re :: regex where
  "birth_place_re = seqs
     [alts (map (lit \<circ> ru) [''MESTO ROVDENIQ'', ''RODILSQ'', ''RODILASX'', ''UROVENEC'', ''UROVENKA'', ''RODOM IZ'']),
      plus (Cls ((58, 58) # space_class)), opt in_year_re, Grp (between 2 60 (Cls place_class))]"

definition birth_place_at :: "ucd \<Rightarrow> norm_text \<Rightarrow> int \<times> int \<Rightarrow> candidate_span option res" where
  "birth_place_at u t sub =
     rbind (trim_field_separator u (slice (normalized t) (fst sub) (snd sub))) (\<lambda>place0.
       (case strip_leading_preposition u (trim_space place0) (fst sub) of (place, start) \<Rightarrow>
          if place = [] then Inr None
          else rbind (found BIRTH_PLACE (f_round (7 / 10)) [SourceRegex, SourceContext] ''regex:birth-place'' t
                        (start, start + int (length place)))
                 (\<lambda>c. Inr (Some c))))"

definition birth_place_recognize :: "ucd \<Rightarrow> recognizer" where
  "birth_place_recognize u t =
     rbind (collect (birth_place_at u t) (submatches birth_place_re t (find_all_index birth_place_re (normalized t))))
       (\<lambda>cs. Inr (List.map_filter (\<lambda>c. c) cs))"

section \<open>Greedy repetition\<close>

text \<open>The first run of a sequence comes from one run of its first part.\<close>

lemma Seq_first:
  assumes "runs (Seq x y) rs s = t # ts"
  shows "\<exists>u \<in> set (runs x rs s). \<exists>ts'. runs y rs u = t # ts'"
proof -
  have "\<exists>v \<in> set vs. \<exists>ts'. f v = t # ts'" if "concat (map f vs) = t # ts" for f :: "'a \<Rightarrow> 'b list" and vs t ts
    using that
  proof (induction vs)
    case (Cons v vs)
    then show ?case by (cases "f v") auto
  qed simp
  then show ?thesis
    using assms by simp
qed

lemma Seq_assoc: "runs (Seq (Seq x y) z) rs s = runs (Seq x (Seq y z)) rs s"
proof -
  have "concat (map f (concat (map g xs))) = concat (map (\<lambda>v. concat (map f (g v))) xs)"
    for f g :: "nat \<times> capture \<Rightarrow> (nat \<times> capture) list" and xs
    by (induction xs) simp_all
  moreover have "runs (Seq y z) rs = (\<lambda>v. concat (map (runs z rs) (runs y rs v)))"
    by (rule ext) simp
  ultimately show ?thesis
    by (simp only: runs.simps(5))
qed

lemma star_first:
  assumes f: "\<And>k. f (k, g) = (if k < length rs \<and> in_class (rs ! k) c then [(Suc k, g)] else [])"
  shows "concat (map (runs r rs) (star_runs f n (k, g))) = t # ts \<Longrightarrow> length rs \<le> k + n \<Longrightarrow>
    \<exists>m. (\<exists>ts'. runs r rs (m, g) = t # ts') \<and> (m < length rs \<and> in_class (rs ! m) c \<longrightarrow> runs r rs (Suc m, g) = [])"
proof (induction n arbitrary: k ts)
  case 0
  then show ?case by (intro exI[of _ k]) auto
next
  case (Suc n)
  let ?up = "concat (map (runs r rs) (star_runs f n (Suc k, g)))"
  show ?case
  proof (cases "k < length rs \<and> in_class (rs ! k) c")
    case True
    then have split: "?up @ runs r rs (k, g) = t # ts"
      using Suc.prems(1) by (simp add: f)
    show ?thesis
    proof (cases ?up)
      case Nil
      have "(Suc k, g) \<in> set (star_runs f n (Suc k, g))"
        by (cases n) simp_all
      then have "runs r rs (Suc k, g) = []"
        using Nil by simp
      then show ?thesis
        using split Nil by (intro exI[of _ k]) simp
    next
      case (Cons t' ts')
      then have "?up = t # ts'"
        using split by simp
      then show ?thesis
        using Suc.IH[of "Suc k" ts'] Suc.prems(2) by simp
    qed
  next
    case False
    then have "runs r rs (k, g) = t # ts"
      using Suc.prems(1) by (auto simp: f)
    then show ?thesis
      using False by (intro exI[of _ k]) auto
  qed
qed

text \<open>A class repeated greedily before \<open>r\<close> stops at a member of the class only if \<open>r\<close> cannot start after it.\<close>

lemma plus_first:
  assumes "runs (Seq (plus (Cls c)) r) rs s = t # ts"
  shows "\<exists>m. (\<exists>ts'. runs r rs (m, snd s) = t # ts')
    \<and> (m < length rs \<and> in_class (rs ! m) c \<longrightarrow> runs r rs (Suc m, snd s) = [])"
proof -
  have "concat (map (runs r rs) (star_runs (runs (Cls c) rs) (length rs) (Suc (fst s), snd s))) = t # ts"
  proof (cases "fst s < length rs \<and> in_class (rs ! fst s) c")
    case True
    then have "runs (Cls c) rs s = [(Suc (fst s), snd s)]"
      by simp
    then show ?thesis
      using assms unfolding plus_def runs.simps(5,7) by (simp del: runs.simps(1))
  next
    case False
    then have "runs (Cls c) rs s = []"
      by auto
    then show ?thesis
      using assms unfolding plus_def runs.simps(5,7) by (simp del: runs.simps(1))
  qed
  then show ?thesis
    by (rule star_first[rotated]) simp_all
qed

lemma opt_rest: "runs (Seq (opt x) r) rs s = [] \<Longrightarrow> runs r rs s = []"
  by (simp add: opt_def)

lemma seqs_last: "runs (Seq (seqs (xs @ [p])) r) rs s = t # ts \<Longrightarrow> \<exists>u ts'. runs (Seq p r) rs u = t # ts'"
proof (induction xs arbitrary: s ts)
  case Nil
  then show ?case
    by (metis append_Nil seqs.simps(2))
next
  case (Cons x xs)
  have "seqs ((x # xs) @ [p]) = Seq x (seqs (xs @ [p]))"
    by (cases xs) simp_all
  then have "runs (Seq x (Seq (seqs (xs @ [p])) r)) rs s = t # ts"
    using Cons.prems by (simp only: Seq_assoc)
  then show ?case
    using Seq_first Cons.IH by metis
qed

definition place_re :: regex where
  "place_re = between 2 60 (Cls place_class)"

lemma place_runs:
  assumes "runs (Grp place_re) rs (a, h) = (j, g) # ts" "a < length rs \<and> in_class (rs ! a) space_class \<longrightarrow> runs (Grp place_re) rs (Suc a, h') = []"
  shows "g = Some (a, j) \<and> (a < length rs \<and> in_class (rs ! a) space_class \<longrightarrow> \<not> re_match rs place_re (Suc a) e)"
proof (intro conjI impI notI)
  show "g = Some (a, j)"
    using assms(1) by auto
  assume "a < length rs \<and> in_class (rs ! a) space_class" "re_match rs place_re (Suc a) e"
  then show False
    using runs_complete[of rs place_re "Suc a" e h'] assms(2) by auto
qed

text \<open>The place begins with a space only when nothing longer than one more character follows.\<close>

lemma birth_place_group:
  assumes "runs birth_place_re rs s = (j, g) # ts"
  shows "\<exists>a. g = Some (a, j) \<and> (a < length rs \<and> in_class (rs ! a) space_class \<longrightarrow> (\<forall>e. \<not> re_match rs place_re (Suc a) e))"
proof -
  let ?G = "Grp place_re" and ?C = "Cls ((58, 58) # space_class)" and ?t = "(j, g)"
  have space: "in_class r space_class \<Longrightarrow> in_class r ((58, 58) # space_class)" for r
    by (simp add: in_class_def)
  obtain u us where u: "runs (Seq (plus ?C) (Seq (opt in_year_re) ?G)) rs u = ?t # us"
    using Seq_first[OF assms[unfolded birth_place_re_def seqs.simps place_re_def[symmetric]]] by blast
  obtain ts' m h where m: "runs (Seq (opt in_year_re) ?G) rs (m, h) = ?t # ts'"
    "m < length rs \<and> in_class (rs ! m) ((58, 58) # space_class) \<longrightarrow> runs (Seq (opt in_year_re) ?G) rs (Suc m, h) = []"
    using plus_first[OF u] by blast
  have split: "runs (Seq (opt in_year_re) ?G) rs (m, h) = runs (Seq in_year_re ?G) rs (m, h) @ runs ?G rs (m, h)"
    by (simp add: opt_def)
  show ?thesis
  proof (cases "runs (Seq in_year_re ?G) rs (m, h)")
    case Nil
    then have "runs ?G rs (m, h) = ?t # ts'"
      using m(1) split by (simp del: runs.simps)
    moreover have "m < length rs \<and> in_class (rs ! m) space_class \<longrightarrow> runs ?G rs (Suc m, h) = []"
      using m(2) space opt_rest by blast
    ultimately show ?thesis
      using place_runs by blast
  next
    case (Cons t' ts'')
    then have "runs (Seq in_year_re ?G) rs (m, h) = ?t # ts''"
      using m(1) split by (simp del: runs.simps)
    then have "runs (Seq (seqs ([lit (ru ''W''), plus white, copies 4 digit, plus white, lit (ru ''GODU'')] @ [plus white])) ?G) rs (m, h)
        = ?t # ts''"
      by (simp only: in_year_re_def append_Cons append_Nil)
    from seqs_last[OF this] obtain v vs where v: "runs (Seq (plus white) ?G) rs v = ?t # vs"
      by blast
    obtain k h' ts3 where k: "runs ?G rs (k, h') = ?t # ts3"
      "k < length rs \<and> in_class (rs ! k) space_class \<longrightarrow> runs ?G rs (Suc k, h') = []"
      using plus_first[OF v[unfolded white_def]] by blast
    then show ?thesis
      using place_runs[OF k] by blast
  qed
qed

section \<open>Trimming at the ends\<close>

lemma segments_encode_all: "list_all valid_rune rs \<Longrightarrow> segments (encode_all rs) = map (\<lambda>r. (r, encode_rune r)) rs"
proof (induction rs)
  case Nil
  then show ?case by (simp add: segments.simps)
next
  case (Cons r rs)
  then have "decode_rune (encode_rune r @ encode_all rs) = (r, length (encode_rune r))"
    using decode_encode[of r "encode_all rs"] by simp
  then show ?case
    using Cons by (subst segments.simps) simp
qed

definition strip_runes :: "(rune \<Rightarrow> bool) \<Rightarrow> rune list \<Rightarrow> rune list" where
  "strip_runes p rs = rev (dropWhile p (rev (dropWhile p rs)))"

lemma trim_func_encode: "list_all valid_rune rs \<Longrightarrow> trim_func p (encode_all rs) = encode_all (strip_runes p rs)"
proof -
  assume rs: "list_all valid_rune rs"
  have "segs_text (map (\<lambda>r. (r, encode_rune r)) xs) = encode_all xs" for xs
    by (simp add: segs_text_def encode_all_def comp_def)
  then show ?thesis
    by (simp add: trim_func_def segments_encode_all[OF rs] strip_runes_def dropWhile_map rev_map comp_def)
qed

lemma dropWhile_rev_take: "\<exists>k. rev (dropWhile p (rev xs)) = take k xs"
proof -
  have "xs = rev (dropWhile p (rev xs)) @ rev (takeWhile p (rev xs))"
    by (metis rev_append rev_rev_ident takeWhile_dropWhile_id)
  then show ?thesis
    by (metis append_eq_conv_conj)
qed

lemma strip_runes_part: "\<exists>k. strip_runes p rs = take k (drop (length (takeWhile p rs)) rs)"
  using dropWhile_rev_take[of p "dropWhile p rs"] by (simp add: strip_runes_def dropWhile_eq_drop)

lemma strip_runes_take:
  assumes "rs \<noteq> [] \<Longrightarrow> \<not> p (hd rs)"
  shows "\<exists>k. strip_runes p (take n rs) = take k rs"
proof -
  have "dropWhile p (take n rs) = take n rs"
    using assms by (cases rs; cases n) simp_all
  then show ?thesis
    using dropWhile_rev_take[of p "take n rs"] by (auto simp: strip_runes_def)
qed

lemma lower_caseless:
  assumes "ucd_ok u" "list_all valid_rune rs" "list_all caseless rs"
  shows "lower_str u (encode_all rs) = encode_all rs"
proof -
  have "map (to_lower u) rs = rs"
    using assms(1,3) by (auto simp: ucd_ok_def list_all_iff intro: map_idI)
  then show ?thesis
    by (simp add: lower_str_def runes_encode_all[OF assms(2)])
qed

section \<open>What is cut off a place\<close>

text \<open>The runes of a place: valid, their own lower case, and spaces only of the class.\<close>

definition place_rune :: "rune \<Rightarrow> bool" where
  "place_rune r \<longleftrightarrow> in_class r place_class"

lemma place_rune_cases:
  "place_rune r \<Longrightarrow> (0x430 \<le> r \<and> r \<le> 0x44F) \<or> r = 0x451 \<or> (97 \<le> r \<and> r \<le> 122) \<or> (9 \<le> r \<and> r \<le> 10) \<or> (12 \<le> r \<and> r \<le> 13)
    \<or> r = 32 \<or> r = 46 \<or> r = 44 \<or> r = 45"
  by (auto simp: place_rune_def in_class_def place_class_def russian_small_def space_class_def)

lemma place_rune_ok:
  assumes "place_rune r"
  shows "valid_rune r" "caseless r" "is_space r \<longleftrightarrow> in_class r space_class"
proof -
  note cases = place_rune_cases[OF assms]
  show "valid_rune r"
    using cases by (elim disjE) (simp_all add: valid_rune_def)
  show "caseless r"
    using cases by (elim disjE) (simp_all add: caseless_def)
  have "is_space r \<longleftrightarrow> (9 \<le> r \<and> r \<le> 10) \<or> (12 \<le> r \<and> r \<le> 13) \<or> r = 32"
    using cases by (elim disjE) (auto simp: is_space_def)
  then show "is_space r \<longleftrightarrow> in_class r space_class"
    by (auto simp: in_class_def space_class_def)
qed

lemma places_ok: "list_all place_rune rs \<Longrightarrow> list_all valid_rune rs" "list_all place_rune rs \<Longrightarrow> list_all caseless rs"
  using place_rune_ok by (auto simp: list_all_iff)

lemma cut_at_field_ok:
  assumes "list_all valid_rune rs" "\<forall>sep \<in> set seps. sep \<noteq> [] \<and> valid_string sep"
  shows "\<exists>k. cut_at_field (encode_all rs) (encode_all rs) seps = Inr (encode_all (take k rs))"
  using assms(2)
proof (induction seps)
  case Nil
  then show ?case by (auto intro: exI[of _ "length rs"])
next
  case (Cons sep seps)
  let ?s = "encode_all rs"
  note valid = valid_encode_all[OF assms(1)] and runes = runes_encode_all[OF assms(1)]
  show ?case
  proof (cases "str_index ?s sep")
    case None
    then show ?thesis
      using Cons by simp
  next
    case (Some i)
    note i = str_index_Some[OF Some]
    obtain k where k: "byte_offset rs k = i"
      using word_boundary[OF valid, of sep i] i Cons.prems runes by auto
    have "take i ?s = encode_all (take k rs)"
      using k by (metis append_eq_conv_conj append_take_drop_id byte_offset_def encode_all_simps(3))
    then show ?thesis
      using Some i by (auto simp: slice_ok_def slice_def)
  qed
qed

lemma field_separators_ok: "\<forall>sep \<in> set field_separators. sep \<noteq> [] \<and> valid_string sep"
proof -
  have "ru w \<noteq> [] \<and> valid_string (ru w)" if "w \<noteq> []" "list_all (\<lambda>c. valid_rune (ru_char c)) w" for w
  proof
    show "ru w \<noteq> []"
      using that(1) by (cases w) (simp_all add: ru_def)
    show "valid_string (ru w)"
      unfolding ru_def by (rule valid_encode_all) (use that(2) in \<open>simp add: list_all_iff\<close>)
  qed
  then have all: "\<forall>sep \<in> set (map ru ws). sep \<noteq> [] \<and> valid_string sep"
    if "list_all (\<lambda>w. w \<noteq> [] \<and> list_all (\<lambda>c. valid_rune (ru_char c)) w) ws" for ws
    using that by (auto simp: list_all_iff)
  show ?thesis
    unfolding field_separators_def by (rule all) code_simp
qed

lemma strip_prefix_of:
  assumes "H = take k (drop (length (takeWhile p rs)) rs)"
  shows "\<exists>k'. strip_runes p H = take k' (drop (length (takeWhile p rs)) rs)"
proof -
  have "drop (length (takeWhile p rs)) rs = dropWhile p rs"
    by (simp add: dropWhile_eq_drop)
  then have "drop (length (takeWhile p rs)) rs \<noteq> [] \<Longrightarrow> \<not> p (hd (drop (length (takeWhile p rs)) rs))"
    using hd_dropWhile[of p rs] by simp
  then show ?thesis
    using strip_runes_take assms by blast
qed

text \<open>What is left is a part of the place, from its first character that is no space.\<close>

lemma trim_field_separator_ok:
  assumes "ucd_ok u" "list_all place_rune rs"
  shows "\<exists>k. trim_field_separator u (encode_all rs)
    = Inr (encode_all (take k (drop (length (takeWhile is_space rs)) rs)))"
proof -
  let ?d = "drop (length (takeWhile is_space rs)) rs"
  have valid: "list_all valid_rune (take k ?d)" "list_all caseless (take k ?d)" for k
    using places_ok[OF assms(2)] by (auto simp: list_all_iff dest!: in_set_takeD in_set_dropD)
  obtain k where k: "trim_space (encode_all rs) = encode_all (take k ?d)"
    using strip_runes_part[of is_space rs] trim_func_encode[of rs is_space] places_ok(1)[OF assms(2)]
    by (auto simp: trim_space_def)
  obtain m where m: "cut_at_field (encode_all (take k ?d)) (encode_all (take k ?d)) field_separators
      = Inr (encode_all (take m (take k ?d)))"
    using cut_at_field_ok[OF valid(1) field_separators_ok] by blast
  obtain k' where k': "strip_runes is_space (take (min m k) ?d) = take k' ?d"
    using strip_prefix_of[of "take (min m k) ?d" "min m k" is_space rs] by auto
  have "trim_space (encode_all (take m (take k ?d))) = encode_all (take k' ?d)"
    unfolding trim_space_def using trim_func_encode[OF valid(1)[of "min m k"], of is_space] k' by (simp add: min.commute)
  then show ?thesis
    by (auto simp: trim_field_separator_def Let_def k lower_caseless[OF assms(1) valid(1,2)] m)
qed

text \<open>
  The start moves only over a preposition, to a character of the place; without one it stays.  A
  place of one character has none.
\<close>

lemma ru_preposition: "ru ''W '' = encode_all [0x432, 32]"
  by code_simp

lemma strip_leading_preposition_ok:
  assumes "ucd_ok u" "list_all place_rune H" "strip_leading_preposition u (encode_all H) start = (place, start')"
    and "strip_runes is_space H = K" "place \<noteq> []"
  shows "(start' = start \<and> K \<noteq> []) \<or> (2 \<le> length K \<and> (\<exists>m < length K. start' = start + int (byte_offset K m)))"
proof -
  let ?s = "encode_all K"
  have Kplace: "list_all place_rune K"
  proof -
    obtain k where "K = take k (drop (length (takeWhile is_space H)) H)"
      using strip_runes_part[of is_space H] assms(4) by auto
    then show ?thesis
      using assms(2) by (auto simp: list_all_iff dest!: in_set_takeD in_set_dropD)
  qed
  note K = places_ok[OF Kplace]
  have s: "trim_space (encode_all H) = ?s"
    using trim_func_encode[of H is_space] places_ok(1)[OF assms(2)] assms(4) by (simp add: trim_space_def)
  have low: "lower_str u ?s = ?s"
    by (rule lower_caseless[OF assms(1) K])
  note valid = valid_encode_all[OF K(1)] and rK = runes_encode_all[OF K(1)]
  show ?thesis
  proof (cases "prefix (ru ''W '') ?s")
    case False
    then have "start' = start \<and> place = ?s"
      using assms(3,5) by (auto simp: strip_leading_preposition_def Let_def s low split: if_splits)
    then show ?thesis
      using assms(5) by auto
  next
    case True
    then obtain v where v: "?s = encode_all [0x432, 32] @ v"
      by (auto simp: prefix_def ru_preposition)
    have "runes ?s = [0x432, 32] @ runes v"
      unfolding v using runes_append[OF valid_encode_all, of "[0x432, 32]" v] runes_encode_all[of "[0x432, 32]"]
      by (simp add: valid_rune_def)
    then obtain R where R: "K = 0x432 # 32 # R"
      using rK by auto
    let ?r = "trim_space (drop 2 ?s)"
    have d: "drop 2 ?s = encode_all (32 # R)"
      by (simp add: R encode_valid_def valid_rune_def)
    have vR: "list_all valid_rune (32 # R)"
      using K(1) R by (simp add: list_all_iff)
    obtain k where k: "?r = encode_all (take k (drop (length (takeWhile is_space (32 # R))) (32 # R)))"
      using strip_runes_part[of is_space "32 # R"] trim_func_encode[OF vR] by (auto simp: trim_space_def d)
    let ?n = "length (takeWhile is_space (32 # R))"
    have vr: "valid_string ?r"
      unfolding k using vR by (intro valid_encode_all) (auto simp: list_all_iff dest!: in_set_takeD in_set_dropD)
    have "32 # R = take ?n (32 # R) @ take k (drop ?n (32 # R)) @ drop k (drop ?n (32 # R))"
      by (metis append_take_drop_id)
    then have "encode_all (32 # R) = encode_all (take ?n (32 # R)) @ encode_all (take k (drop ?n (32 # R)))
        @ encode_all (drop k (drop ?n (32 # R)))"
      by (metis encode_all_simps(3))
    then have "drop 2 ?s = encode_all (take ?n (32 # R)) @ ?r @ encode_all (drop k (drop ?n (32 # R)))"
      unfolding k unfolding d .
    then have "prefix ?r (drop (length (encode_all (take ?n (32 # R)))) (drop 2 ?s))"
      by (metis append_eq_conv_conj prefixI)
    then have pre: "prefix ?r (drop (length (encode_all (take ?n (32 # R))) + 2) ?s)"
      by (simp only: drop_drop)
    show ?thesis
    proof (cases "str_index ?s ?r")
      case None
      have "length (encode_all (take ?n (32 # R))) + 2 \<le> length ?s"
      proof -
        have "length (encode_all (take ?n (32 # R))) \<le> length (drop 2 ?s)"
          unfolding d by (metis append_take_drop_id encode_all_simps(3) le_add1 length_append)
        moreover have "2 \<le> length ?s"
          by (simp add: R encode_valid_def valid_rune_def)
        ultimately show ?thesis by simp
      qed
      then show ?thesis
        using str_index_le[OF pre] None by simp
    next
      case (Some i)
      then have st: "place = ?r" "start' = start + int i"
        using assms(3) True by (simp_all add: strip_leading_preposition_def Let_def s low)
      obtain m where "m < length K" "byte_offset K m = i"
        using word_boundary[OF valid, of ?r i] str_index_Some[OF Some] vr st(1) assms(5) rK by auto
      then show ?thesis
        using st(2) R by auto
    qed
  qed
qed

section \<open>The contract\<close>

lemma leaves_copies: "in_class r (leaves (copies n q)) \<Longrightarrow> in_class r (leaves q)"
  by (induction n) (auto simp: in_class_append, simp add: in_class_def)

lemma leaves_options: "in_class r (leaves (options n q)) \<Longrightarrow> in_class r (leaves q)"
  by (induction n) (auto simp: in_class_append, simp add: in_class_def)

lemma place_re_leaves: "in_class r (leaves place_re) \<Longrightarrow> place_rune r"
  using leaves_copies[of r 2 "Cls place_class"] leaves_options[of r "60 - 2" "Cls place_class"]
  by (auto simp: place_re_def between_def in_class_append place_rune_def)

lemma place_re_two:
  assumes "Suc i < length rs" "in_class (rs ! i) place_class" "in_class (rs ! Suc i) place_class"
  shows "re_match rs place_re i (Suc (Suc i))"
proof -
  have opts: "re_match rs (options n r) k k" for n r k
    by (induction n) auto
  have "re_match rs (copies 2 (Cls place_class)) i (Suc (Suc i))"
    using assms by (auto simp: numeral_2_eq_2 intro!: relcomppI)
  then show ?thesis
    using opts unfolding place_re_def between_def re_match.simps(5) by (rule relcomppI)
qed

text \<open>The runes the group captured: a place that begins with no space, or one character after one.\<close>

lemma birth_place_captured:
  assumes "ucd_ok u" "valid_string s" "t = norm_new u s" "w = written u (runes s)"
    and "sub \<in> set (submatches birth_place_re t (find_all_index birth_place_re (normalized t)))"
  obtains a b where "a < b" "b \<le> norm_len t" "sub = (int (byte_offset w a), int (byte_offset w b))"
    "list_all place_rune (drop a (take b w))" "is_space (w ! a) \<Longrightarrow> b \<le> a + 2"
proof -
  have len: "length w = norm_len t" and wn: "runes (normalized t) = w"
    using runes_normalized[OF assms(1,2)] assms(3,4) by simp_all
  have min: "0 < min_len birth_place_re" and grps: "grps birth_place_re = [place_re]"
    by (simp_all add: birth_place_re_def in_year_re_def plus_def white_def digit_def opt_def between_def place_re_def
        min_len_copies min_len_options min_len_seqs grps_simps numeral_2_eq_2)
  have q: "\<forall>q \<in> set (grps birth_place_re). 0 < min_len q"
    by (simp add: grps place_re_def between_def min_len_copies)
  obtain loc x where loc: "loc \<in> set (find_all_index birth_place_re (normalized t))"
    "find_submatch birth_place_re (loc_text t loc) = Some x" "sub = (fst loc + fst x, fst loc + snd x)"
    using submatches_mem[OF assms(5)] by blast
  obtain i j where m: "i < j" "j \<le> norm_len t" "loc = (int (byte_offset w i), int (byte_offset w j))"
    using find_all_index_mem[OF min assms(1,2) loc(1)[unfolded assms(3)]] assms(3,4) by metis
  let ?p = "drop i (take j w)"
  obtain a b where ab: "i \<le> a" "a < b" "b \<le> j" "fst loc + fst x = int (byte_offset w a)"
    "fst loc + snd x = int (byte_offset w b)" "\<exists>q \<in> set (grps birth_place_re). re_match ?p q (a - i) (b - i)"
    "\<exists>i0 j0 ts. runs birth_place_re ?p (i0, None) = (j0, Some (a - i, b - i)) # ts"
    using submatch_ok[OF assms(1-4) q m loc(2)] .
  have nth: "?p ! (k - i) = w ! k" if "i \<le> k" "k < j" for k
    using that m len by simp
  have pm: "re_match ?p place_re (a - i) (b - i)"
    using ab(6) by (simp add: grps)
  have place: "place_rune (w ! k)" if "a \<le> k" "k < b" for k
    using re_match_leaves[OF pm, of "k - i"] place_re_leaves nth[of k] that ab by auto
  show ?thesis
  proof (rule that[of a b])
    show "list_all place_rune (drop a (take b w))"
      using place ab m len by (auto simp: list_all_length)
    show "b \<le> a + 2" if "is_space (w ! a)"
    proof (rule ccontr)
      assume "\<not> b \<le> a + 2"
      then have two: "place_rune (w ! a)" "place_rune (w ! Suc a)" "place_rune (w ! Suc (Suc a))" "Suc (Suc a) < b"
        using place by simp_all
      obtain i0 j0 ts where r: "runs birth_place_re ?p (i0, None) = (j0, Some (a - i, b - i)) # ts"
        using ab(7) by blast
      have "in_class (?p ! (a - i)) space_class"
        using that place_rune_ok(3)[OF two(1)] nth[of a] ab by simp
      then have "\<not> re_match ?p place_re (Suc (a - i)) e" for e
        using birth_place_group[OF r] ab m len by auto
      moreover have "re_match ?p place_re (Suc (a - i)) (Suc (Suc (Suc (a - i))))"
        using two ab m len nth[of "Suc a"] nth[of "Suc (Suc a)"]
        by (intro place_re_two) (auto simp: place_rune_def Suc_diff_le)
      ultimately show False
        by blast
    qed
  qed (use ab m loc(3) in auto)
qed

lemma birth_place_at_ok:
  assumes "ucd_ok u" "valid_string s"
    and "sub \<in> set (submatches birth_place_re (norm_new u s) (find_all_index birth_place_re (normalized (norm_new u s))))"
  shows "\<exists>r. birth_place_at u (norm_new u s) sub = Inr r
    \<and> (case r of None \<Rightarrow> True | Some c \<Rightarrow> candidate_ok s c \<and> c_type c = BIRTH_PLACE)"
proof -
  let ?t = "norm_new u s" and ?w = "written u (runes s)"
  note norm = runes_normalized[OF assms(1,2)]
  obtain a b where ab: "a < b" "b \<le> norm_len ?t" "sub = (int (byte_offset ?w a), int (byte_offset ?w b))"
    "list_all place_rune (drop a (take b ?w))" "is_space (?w ! a) \<Longrightarrow> b \<le> a + 2"
    using birth_place_captured[OF assms(1,2) refl refl assms(3)] by metis
  define G where "G = drop a (take b ?w)"
  let ?d = "length (takeWhile is_space G)"
  have len: "length ?w = norm_len ?t"
    using norm(1,3) by simp
  have cut: "slice (normalized ?t) (fst sub) (snd sub) = encode_all G"
    using slice_at_boundaries[OF norm(2), of a b] ab(1,3) norm(1) by (simp add: G_def)
  obtain k where k: "trim_field_separator u (encode_all G) = Inr (encode_all (take k (drop ?d G)))"
    using trim_field_separator_ok[OF assms(1) ab(4)[folded G_def]] by blast
  obtain k' where k': "strip_runes is_space (take k (drop ?d G)) = take k' (drop ?d G)"
    using strip_prefix_of[OF refl, of is_space k G] by blast
  obtain k'' where k'': "strip_runes is_space (take k' (drop ?d G)) = take k'' (drop ?d G)"
    using strip_prefix_of[OF refl, of is_space k' G] by blast
  have places: "list_all place_rune (take n (drop ?d G))" for n
    using ab(4)[folded G_def] set_take_subset[of n "drop ?d G"] set_drop_subset[of ?d G] unfolding list_all_iff by blast
  have trimmed: "trim_space (encode_all (take k (drop ?d G))) = encode_all (take k' (drop ?d G))"
    using trim_func_encode[OF places_ok(1)[OF places], of is_space k] by (simp add: trim_space_def k')
  obtain place start where st: "strip_leading_preposition u (encode_all (take k' (drop ?d G))) (fst sub) = (place, start)"
    by fastforce
  have eq: "birth_place_at u ?t sub =
      (if place = [] then Inr None
       else rbind (found BIRTH_PLACE (f_round (7 / 10)) [SourceRegex, SourceContext] ''regex:birth-place'' ?t
                        (start, start + int (length place))) (\<lambda>c. Inr (Some c)))"
    by (simp add: birth_place_at_def cut k trimmed st)
  show ?thesis
  proof (cases "place = []")
    case False
    have "\<exists>i < norm_len ?t. start = int (byte_offset ?w i)"
    proof -
      consider "start = fst sub" | m where "2 \<le> length (take k'' (drop ?d G))" "m < length (take k'' (drop ?d G))"
          "start = fst sub + int (byte_offset (take k'' (drop ?d G)) m)"
        using strip_leading_preposition_ok[OF assms(1) places st k'' False] by blast
      then show ?thesis
      proof cases
        case 1
        then show ?thesis
          using ab by (intro exI[of _ a]) simp
      next
        case 2
        have "?d = 0"
        proof (rule ccontr)
          assume d: "?d \<noteq> 0"
          have "G ! 0 = ?w ! a" "length G = b - a"
            using ab(1,2) len by (simp_all add: G_def)
          then have "is_space (?w ! a)"
            using d by (cases G) (auto split: if_splits)
          then have "length G \<le> 2"
            using ab(5) \<open>length G = b - a\<close> by auto
          then show False
            using 2(1) d by (cases "takeWhile is_space G") auto
        qed
        then have m: "m < length G" "byte_offset (take k'' (drop ?d G)) m = byte_offset G m"
          using 2(2) by (simp_all add: byte_offset_def min.absorb1)
        then have "a + m \<le> b"
          using ab(2) len by (simp add: G_def)
        then have "start = int (byte_offset ?w (a + m))"
          using 2(3) m(2) byte_offset_shift[of a m b ?w] ab(3) unfolding G_def by simp
        then show ?thesis
          using m(1) ab(2) len by (intro exI[of _ "a + m"]) (auto simp: G_def)
      qed
    qed
    then obtain i where "i < norm_len ?t" "start = int (byte_offset ?w i)"
      by blast
    then obtain c where "found BIRTH_PLACE (f_round (7 / 10)) [SourceRegex, SourceContext] ''regex:birth-place'' ?t
        (start, start + int (length place)) = Inr c" "candidate_ok s c" "c_type c = BIRTH_PLACE"
      using found_from[OF assms(1,2), of i start "start + int (length place)" "f_round (7 / 10)" BIRTH_PLACE] False by auto
    then show ?thesis
      by (simp add: eq False)
  qed (simp add: eq)
qed

lemma birth_place_rule_recognizer:
  assumes "ucd_ok u"
  shows "rule_recognizer u (birth_place_recognize u) BIRTH_PLACE"
proof
  fix s
  assume v: "valid_string s"
  let ?xs = "submatches birth_place_re (norm_new u s) (find_all_index birth_place_re (normalized (norm_new u s)))"
  let ?P = "\<lambda>x r. case r of None \<Rightarrow> True | Some c \<Rightarrow> candidate_ok s c \<and> c_type c = BIRTH_PLACE"
  obtain rs where rs: "collect (birth_place_at u (norm_new u s)) ?xs = Inr rs" "list_all2 ?P ?xs rs"
    using collect_ok[of ?xs "birth_place_at u (norm_new u s)" ?P, OF birth_place_at_ok[OF assms v]] by blast
  have "candidate_ok s c \<and> c_type c = BIRTH_PLACE" if "c \<in> set (List.map_filter (\<lambda>c. c) rs)" for c
  proof -
    have "Some c \<in> set rs"
      using that by (auto simp: List.map_filter_def)
    then show ?thesis
      using list_all2_right[OF rs(2), of "Some c"] by auto
  qed
  then show "\<exists>cs. birth_place_recognize u (norm_new u s) = Inr cs \<and> (\<forall>c \<in> set cs. candidate_ok s c \<and> c_type c = BIRTH_PLACE)"
    using rs(1) by (simp add: birth_place_recognize_def)
qed

sublocale tables \<subseteq> birth_place: rule_recognizer u "birth_place_recognize u" BIRTH_PLACE
  by (rule birth_place_rule_recognizer[OF tables_ok])

end
