(* ===== verification/Resolver.thy ===== *)
theory Resolver
  imports Pii GoSort
begin

text \<open>
  \<open>internal/resolver/resolver.go\<close>: the rule engine's candidates become entities that do not
  overlap.  The pointer \<open>activeStart\<close> and the indexed writes are kept.
\<close>

definition candidate_before :: "candidate_span \<Rightarrow> candidate_span \<Rightarrow> bool" where
  "candidate_before a b =
     (if c_start a \<noteq> c_start b then c_start a < c_start b
      else
        let si = evidence_strength a; sj = evidence_strength b in
        if si \<noteq> sj then si > sj
        else f_lt (c_score b) (c_score a))"

definition cands_overlap :: "candidate_span \<Rightarrow> candidate_span \<Rightarrow> bool" where
  "cands_overlap a b \<longleftrightarrow> c_start a < c_end b \<and> c_start b < c_end a"

function advance :: "candidate_span list \<Rightarrow> int \<Rightarrow> nat \<Rightarrow> nat" where
  "advance resolved start active =
     (if active < length resolved \<and> c_end (resolved ! active) \<le> start
      then advance resolved start (active + 1) else active)"
  by pat_completeness auto
termination
  by (relation "measure (\<lambda>(r, s, a). length r - a)") auto

declare advance.simps [simp del]

definition stronger :: "candidate_span \<Rightarrow> candidate_span \<Rightarrow> bool" where
  "stronger s keep \<longleftrightarrow> evidence_strength s > evidence_strength keep
     \<or> evidence_strength s = evidence_strength keep \<and> f_lt (c_score keep) (c_score s)"

text \<open>The inner loop leaves at the first overlap.\<close>

definition place :: "candidate_span \<Rightarrow> candidate_span list \<Rightarrow> nat \<Rightarrow> candidate_span list" where
  "place s resolved active =
     (case find (\<lambda>i. cands_overlap s (resolved ! i)) [active..<length resolved] of
        Some i \<Rightarrow> (if stronger s (resolved ! i) then resolved[i := s] else resolved)
      | None \<Rightarrow> resolved @ [s])"

fun resolve_spans :: "candidate_span list \<Rightarrow> nat \<Rightarrow> candidate_span list \<Rightarrow> candidate_span list" where
  "resolve_spans resolved active [] = resolved"
| "resolve_spans resolved active (s # ss) =
     (let active' = advance resolved (c_start s) active in
      resolve_spans (place s resolved active') active' ss)"

definition to_entity :: "candidate_span \<Rightarrow> entity" where
  "to_entity s = \<lparr>ent_type = c_type s, ent_text = c_text s, ent_start = c_start s,
     ent_end = c_end s, ent_score = c_score s, ent_reason = c_reason s\<rparr>"

definition ent_before :: "entity \<Rightarrow> entity \<Rightarrow> bool" where
  "ent_before a b \<longleftrightarrow> ent_start a < ent_start b"

definition resolve :: "f64 \<Rightarrow> candidate_span list \<Rightarrow> entity list" where
  "resolve min_score spans =
     (let filtered = go_sort candidate_before (filter (\<lambda>s. f_le min_score (c_score s)) spans);
          resolved = resolve_spans [] 0 filtered
      in go_sort ent_before (map to_entity resolved))"

section \<open>The result\<close>

text \<open>The resolved spans so far: not empty, in order, without overlaps, none starting after the
  next candidate; those before the pointer end before it.\<close>

definition resolved_ok :: "candidate_span list \<Rightarrow> nat \<Rightarrow> int \<Rightarrow> bool" where
  "resolved_ok resolved active p \<longleftrightarrow>
     sorted_wrt (\<lambda>a b. c_end a \<le> c_start b) resolved
     \<and> (\<forall>r \<in> set resolved. c_start r < c_end r \<and> c_start r \<le> p)
     \<and> active \<le> length resolved
     \<and> (\<forall>i < active. c_end (resolved ! i) \<le> p)"

lemma advance_ok:
  assumes "resolved_ok resolved active p"
  shows "resolved_ok resolved (advance resolved p active) p
    \<and> (advance resolved p active < length resolved \<longrightarrow> p < c_end (resolved ! advance resolved p active))"
  using assms
proof (induction resolved p active rule: advance.induct)
  case (1 resolved p active)
  show ?case
  proof (cases "active < length resolved \<and> c_end (resolved ! active) \<le> p")
    case True
    then have "resolved_ok resolved (active + 1) p"
      using 1(2) by (auto simp: resolved_ok_def less_Suc_eq)
    from 1(1)[OF True this] show ?thesis
      using True by (simp add: advance.simps[of resolved p active])
  next
    case False
    then show ?thesis
      using 1(2) by (auto simp: advance.simps[of resolved p active])
  qed
qed

lemma resolved_ok_mono:
  assumes "resolved_ok resolved active p" "p \<le> q"
  shows "resolved_ok resolved active q"
  using assms unfolding resolved_ok_def by force

text \<open>A candidate can overlap only the last resolved span.\<close>

lemma place_cases:
  assumes "resolved_ok resolved active p" "c_start s = p" "c_start s < c_end s"
    and "active < length resolved \<longrightarrow> p < c_end (resolved ! active)"
  shows "(active = length resolved \<and> place s resolved active = resolved @ [s])
    \<or> (Suc active = length resolved \<and>
        (place s resolved active = resolved \<or> place s resolved active = butlast resolved @ [s]))"
proof (cases "active = length resolved")
  case True
  then show ?thesis by (simp add: place_def)
next
  case False
  then have lt: "active < length resolved"
    using assms(1) by (simp add: resolved_ok_def)
  have last: "Suc active = length resolved"
  proof (rule ccontr)
    assume "Suc active \<noteq> length resolved"
    then have nx: "Suc active < length resolved" using lt by simp
    then have "c_end (resolved ! active) \<le> c_start (resolved ! Suc active)"
      using assms(1) by (simp add: resolved_ok_def sorted_wrt_iff_nth_less)
    moreover have "c_start (resolved ! Suc active) \<le> p"
      using assms(1) nx by (simp add: resolved_ok_def)
    ultimately show False using assms(4) lt by simp
  qed
  have "c_start (resolved ! active) \<le> p"
    using assms(1) lt by (simp add: resolved_ok_def)
  then have "cands_overlap s (resolved ! active)"
    using assms(2-4) lt by (simp add: cands_overlap_def)
  moreover have "[active..<length resolved] = [active]"
    using last by (metis upt_rec lessI upt_conv_Nil order_refl)
  ultimately have "place s resolved active =
      (if stronger s (resolved ! active) then resolved[active := s] else resolved)"
    by (simp add: place_def)
  moreover have "resolved[active := s] = butlast resolved @ [s]"
    using last by (metis append_butlast_last_id diff_Suc_1 length_0_conv length_butlast list_update_length nat.distinct(1))
  ultimately show ?thesis using last by auto
qed

lemma place_ok:
  assumes "resolved_ok resolved active p" "c_start s = p" "c_start s < c_end s"
    and "active < length resolved \<longrightarrow> p < c_end (resolved ! active)"
  shows "resolved_ok (place s resolved active) active p"
proof -
  have ok: "sorted_wrt (\<lambda>a b. c_end a \<le> c_start b) resolved"
    "\<forall>r \<in> set resolved. c_start r < c_end r \<and> c_start r \<le> p"
    "active \<le> length resolved" "\<forall>i < active. c_end (resolved ! i) \<le> p"
    using assms(1) by (simp_all add: resolved_ok_def)
  have app: "resolved_ok (xs @ [s]) active p"
    if "sorted_wrt (\<lambda>a b. c_end a \<le> c_start b) xs" "\<forall>r \<in> set xs. c_start r < c_end r \<and> c_start r \<le> p"
      "active = length xs" "\<forall>i < active. c_end (xs ! i) \<le> p" for xs
    using that assms(2,3) by (auto simp: resolved_ok_def sorted_wrt_append nth_append in_set_conv_nth)
  consider "active = length resolved" "place s resolved active = resolved @ [s]"
    | "Suc active = length resolved" "place s resolved active = resolved"
    | "Suc active = length resolved" "place s resolved active = butlast resolved @ [s]"
    using place_cases[OF assms] by blast
  then show ?thesis
  proof cases
    case 1
    then show ?thesis using app[OF ok(1,2) 1(1) ok(4)] by simp
  next
    case 2
    then show ?thesis using assms(1) by simp
  next
    case 3
    have b: "resolved = butlast resolved @ [last resolved]" "active = length (butlast resolved)"
      using 3(1) by (metis append_butlast_last_id length_0_conv nat.distinct(1)) (simp add: 3(1)[symmetric])
    have "sorted_wrt (\<lambda>a b. c_end a \<le> c_start b) (butlast resolved)"
      using ok(1) b(1) sorted_wrt_append by metis
    moreover have "\<forall>r \<in> set (butlast resolved). c_start r < c_end r \<and> c_start r \<le> p"
      using ok(2) in_set_butlastD by fast
    moreover have "\<forall>i < active. c_end (butlast resolved ! i) \<le> p"
      using ok(4) b(2) by (simp add: nth_butlast)
    ultimately show ?thesis
      using app[OF _ _ b(2)] 3(2) by simp
  qed
qed

lemma resolve_spans_ok:
  assumes "resolved_ok resolved active p" "\<forall>s \<in> set ss. c_start s < c_end s \<and> p \<le> c_start s"
    and "sorted_wrt (\<lambda>a b. c_start a \<le> c_start b) ss"
  shows "\<exists>active' q. resolved_ok (resolve_spans resolved active ss) active' q"
  using assms
proof (induction ss arbitrary: resolved active p)
  case Nil
  then show ?case by auto
next
  case (Cons s ss)
  let ?a = "advance resolved (c_start s) active"
  have a: "resolved_ok resolved ?a (c_start s)"
    "?a < length resolved \<longrightarrow> c_start s < c_end (resolved ! ?a)"
    using advance_ok[OF resolved_ok_mono[OF Cons.prems(1)], of "c_start s"] Cons.prems(2) by auto
  have "resolved_ok (place s resolved ?a) ?a (c_start s)"
    using place_ok[OF a(1) refl _ a(2)] Cons.prems(2) by simp
  then show ?case
    using Cons.IH Cons.prems(2,3) by (simp add: Let_def)
qed

lemma place_in: "r \<in> set (place s resolved active) \<Longrightarrow> r = s \<or> r \<in> set resolved"
  by (auto simp: place_def split: option.splits if_splits dest: subsetD[OF set_update_subset_insert])

lemma resolve_spans_in: "r \<in> set (resolve_spans resolved active ss) \<Longrightarrow> r \<in> set resolved \<or> r \<in> set ss"
  by (induction ss arbitrary: resolved active) (auto simp: Let_def dest!: place_in)

text \<open>The comparison is an order where no score is NaN.\<close>

interpretation cand_order: strict_weak "\<lambda>s. c_score s \<noteq> NaN" candidate_before
proof -
  let ?ok = "\<lambda>s. c_score s \<noteq> NaN"
  have "strict_weak ?ok (\<lambda>a b. f_lt (c_score b) (c_score a))"
    by unfold_locales (use f_lt_asym f_lt_cotrans in blast)+
  from strict_weak_by[OF strict_weak_by[OF this key_order_greater[of ?ok evidence_strength]]
      key_order_less[of ?ok c_start]]
  show "strict_weak ?ok candidate_before"
    by (rule strict_weak_cong) (simp add: candidate_before_def Let_def)
qed

lemma candidate_before_starts:
  assumes "\<forall>s \<in> set ss. c_score s \<noteq> NaN"
  shows "sorted_wrt (\<lambda>a b. c_start a \<le> c_start b) (go_sort candidate_before ss)"
  by (rule sorted_wrt_mono_rel[OF _ cand_order.go_sort_ordered[OF assms]])
    (auto simp: candidate_before_def Let_def split: if_splits)

interpretation ent_order: strict_weak "\<lambda>_. True" ent_before
  by unfold_locales (auto simp: ent_before_def)

lemma f_le_no_nan: "f_le a b \<Longrightarrow> b \<noteq> NaN"
  by (cases a; cases b) (auto simp: f_le_def)

lemma resolve_eq:
  assumes "\<forall>s \<in> set spans. 0 \<le> c_start s \<and> c_start s < c_end s"
  shows "\<exists>rs active q. resolve m spans = map to_entity rs \<and> resolved_ok rs active q \<and> set rs \<subseteq> set spans
    \<and> (\<forall>r \<in> set rs. f_le m (c_score r))"
proof -
  let ?f = "filter (\<lambda>s. f_le m (c_score s)) spans"
  let ?s = "go_sort candidate_before ?f"
  let ?r = "resolve_spans [] 0 ?s"
  have nn: "\<forall>s \<in> set ?f. c_score s \<noteq> NaN"
    using f_le_no_nan by auto
  have "resolved_ok [] 0 0"
    by (simp add: resolved_ok_def)
  moreover have "\<forall>s \<in> set ?s. c_start s < c_end s \<and> 0 \<le> c_start s"
    using assms by simp
  ultimately obtain active q where r: "resolved_ok ?r active q"
    using resolve_spans_ok[OF _ _ candidate_before_starts[OF nn]] by blast
  have "sorted_wrt (\<lambda>a b. c_end a \<le> c_start b) ?r" "\<forall>r \<in> set ?r. c_start r < c_end r"
    using r by (simp_all add: resolved_ok_def)
  then have "\<not> ent_before (to_entity b) (to_entity a)" if "a \<in> set ?r" "c_end a \<le> c_start b" for a b
    using that by (auto simp: ent_before_def to_entity_def)
  with \<open>sorted_wrt _ ?r\<close> have "sorted_wrt (\<lambda>a b. \<not> ent_before b a) (map to_entity ?r)"
    unfolding sorted_wrt_map by (rule sorted_wrt_mono_rel[rotated]) blast
  then have "resolve m spans = map to_entity ?r"
    unfolding resolve_def Let_def by (rule go_sort_id)
  moreover have sub: "x \<in> set spans \<and> f_le m (c_score x)" if "x \<in> set ?r" for x
    using resolve_spans_in[OF that] by simp
  then have "set ?r \<subseteq> set spans" "\<forall>x \<in> set ?r. f_le m (c_score x)"
    by blast+
  ultimately show ?thesis
    using r by blast
qed

lemma resolve_disjoint:
  assumes "\<forall>s \<in> set spans. 0 \<le> c_start s \<and> c_start s < c_end s"
  shows "sorted_wrt (\<lambda>a b. ent_end a \<le> ent_start b) (resolve m spans)"
  using resolve_eq[OF assms, of m] by (auto simp: resolved_ok_def sorted_wrt_map to_entity_def)

lemma resolve_from_input:
  assumes "\<forall>s \<in> set spans. 0 \<le> c_start s \<and> c_start s < c_end s" "e \<in> set (resolve m spans)"
  shows "\<exists>s \<in> set spans. e = to_entity s \<and> f_le m (c_score s)"
proof -
  obtain rs where rs: "resolve m spans = map to_entity rs" "set rs \<subseteq> set spans" "\<forall>r \<in> set rs. f_le m (c_score r)"
    using resolve_eq[OF assms(1), of m] by blast
  then obtain s where "s \<in> set rs" "e = to_entity s"
    using assms(2) by auto
  then show ?thesis using rs by blast
qed

end
