(* ===== verification/Engine.thy ===== *)
theory Engine
  imports Scorer Cvv Name Country Address BirthPlace Resolver Masking
begin

text \<open>
  \<open>internal/engine\<close>: the rule engine, from the text to entities, and its use as a detector.  The
  default registry holds the recognizers of the model; the analysis of a valid text by it never
  panics, and what it returns fits the text.
\<close>

section \<open>The pipeline\<close>

definition engine_min_score :: "f64 \<Rightarrow> f64" where
  "engine_min_score min_score = (if f_eq min_score (Fin 0) then f_round (1 / 2) else min_score)"

definition default_registry :: "ucd \<Rightarrow> recognizer list" where
  "default_registry u =
     [email_recognize, phone_recognize, inn_recognize, card_recognize, cvv_recognize u, pin_recognize,
      cardholder_recognize, passport_recognize, department_recognize, license_recognize, issuer_recognize,
      date_recognize, country_recognize u (dict_new u countries), birth_place_recognize u,
      name_recognize u \<lparr>first_dict = dict_new u first_names, last_dict = dict_new u last_names,
        known_dict = dict_new u known_person_names\<rparr>,
      address_recognize u (dict_new u address_structure_keywords)]"

definition spans_close_runes :: "string \<Rightarrow> candidate_span \<Rightarrow> candidate_span \<Rightarrow> nat \<Rightarrow> bool res" where
  "spans_close_runes text a b max_gap =
     (if c_end a < c_start b then
        rbind (go_slice text (c_end a) (c_start b)) (\<lambda>gap. Inr (rune_count gap \<le> max_gap))
      else if c_end b < c_start a then
        rbind (go_slice text (c_end b) (c_start a)) (\<lambda>gap. Inr (rune_count gap \<le> max_gap))
      else Inr True)"

fun near_card :: "string \<Rightarrow> candidate_span \<Rightarrow> candidate_span list \<Rightarrow> bool res" where
  "near_card text s [] = Inr False"
| "near_card text s (c # cards) =
     rbind (spans_close_runes text s c 60) (\<lambda>close. if close then Inr True else near_card text s cards)"

definition boosted :: "candidate_span \<Rightarrow> candidate_span" where
  "boosted s =
     (let score = f_add (c_score s) (f_round (2 / 5)) in
      s\<lparr>c_score := (if f_lt (Fin 1) score then Fin 1 else score), c_sources := c_sources s @ [SourceContext]\<rparr>)"

definition boost_one :: "string \<Rightarrow> candidate_span list \<Rightarrow> candidate_span \<Rightarrow> candidate_span res" where
  "boost_one text cards s =
     (if c_type s \<noteq> CVV \<and> c_type s \<noteq> PIN then Inr s
      else if \<not> c_contextual s then Inr s
      else rbind (near_card text s cards) (\<lambda>close. Inr (if close then boosted s else s)))"

definition boost_near_card :: "string \<Rightarrow> candidate_span list \<Rightarrow> candidate_span list res" where
  "boost_near_card text spans =
     (let cards = filter (\<lambda>s. c_type s = CARD_NUMBER \<and> f_le (f_round (1 / 2)) (c_score s)) spans in
      if cards = [] then Inr spans else collect (boost_one text cards) spans)"

definition score_one :: "ucd \<Rightarrow> norm_text \<Rightarrow> candidate_span \<Rightarrow> candidate_span res" where
  "score_one u t s = rbind (score_span u t s) (\<lambda>(adjusted, contextual). Inr (adjusted\<lparr>c_contextual := contextual\<rparr>))"

definition engine_analyze :: "ucd \<Rightarrow> recognizer list \<Rightarrow> f64 \<Rightarrow> string \<Rightarrow> entity list res" where
  "engine_analyze u registry min_score text =
     (let t = norm_new u text in
      rbind (registry_recognize registry t) (\<lambda>spans.
      rbind (collect (score_one u t) spans) (\<lambda>scored.
      rbind (boost_near_card text scored) (\<lambda>spans'.
      Inr (resolve min_score spans')))))"

section \<open>The detector\<close>

fun map_kind :: "etype \<Rightarrow> pii_kind option" where
  "map_kind FULL_NAME = Some PIIKindFullName"
| "map_kind BIRTH_DATE = Some PIIKindDate"
| "map_kind PASSPORT_ISSUE_DATE = Some PIIKindDate"
| "map_kind BIRTH_PLACE = Some PIIKindBirthPlace"
| "map_kind PASSPORT = Some PIIKindPassport"
| "map_kind CITIZENSHIP = Some PIIKindCitizenship"
| "map_kind PASSPORT_ISSUER = Some PIIKindPassportIssuer"
| "map_kind DEPARTMENT_CODE = Some PIIKindPassportDivision"
| "map_kind DRIVER_LICENSE = Some PIIKindDriverLicense"
| "map_kind ADDRESS = Some PIIKindAddress"
| "map_kind EMAIL = Some PIIKindEmail"
| "map_kind PHONE = Some PIIKindPhone"
| "map_kind INN = Some PIIKindINN"
| "map_kind CARD_NUMBER = Some PIIKindBankCard"
| "map_kind CVV = Some PIIKindCVV"
| "map_kind PIN = Some PIIKindPIN"
| "map_kind CARDHOLDER_NAME = Some PIIKindCardHolderName"
| "map_kind _ = None"

fun entities_to_pii :: "string \<Rightarrow> entity list \<Rightarrow> pii_entity list res" where
  "entities_to_pii text [] = Inr []"
| "entities_to_pii text (re # res) =
     (case map_kind (ent_type re) of
        None \<Rightarrow> Inl (ErrOther ''unknown entity type'')
      | Some kind \<Rightarrow>
          if ent_start re < 0 \<or> ent_end re > int (length text) \<or> ent_start re \<ge> ent_end re then Inl ErrInvalidSpan
          else if slice text (ent_start re) (ent_end re) \<noteq> ent_text re then Inl ErrInvalidSpan
          else rbind (entities_to_pii text res) (\<lambda>out.
            Inr (\<lparr>e_kind = kind, e_start = ent_start re, e_end = ent_end re, e_conf = ent_score re,
                  e_source = SourceReg\<rparr> # out)))"

definition engine_detect :: "(string \<Rightarrow> entity list res) \<Rightarrow> string \<Rightarrow> (ctx, pii_entity list) sm" where
  "engine_detect rules text =
     mbind poll (\<lambda>_.
     mbind (lift (rules text)) (\<lambda>rule_entities.
     mbind poll (\<lambda>_.
     lift (entities_to_pii text rule_entities))))"

section \<open>The pipeline never panics\<close>

lemma score_one_ok:
  assumes "candidate_ok s c"
  shows "\<exists>c'. score_one u (norm_new u s) c = Inr c' \<and> candidate_ok s c'
    \<and> (\<exists>a. c_score c' = Fin a \<and> 0 \<le> a \<and> a \<le> 1)
    \<and> (c_type c' = c_type c \<or> c_type c' = PASSPORT_ISSUE_DATE \<or> c_type c' = DRIVER_LICENSE)"
proof -
  obtain c' ctx where c': "score_span u (norm_new u s) c = Inr (c', ctx)" "candidate_ok s c'"
    "\<exists>a. c_score c' = Fin a \<and> 0 \<le> a \<and> a \<le> 1"
    using score_span_ok[of s c u] assms by (auto simp: candidate_ok_def)
  moreover have "c_type c' = c_type c \<or> c_type c' = PASSPORT_ISSUE_DATE \<or> c_type c' = DRIVER_LICENSE"
  proof -
    obtain x where "adjust u x c = (c', ctx)"
      using c'(1) by (auto simp: score_span_def rbind_Inr_iff)
    then show ?thesis
      using adjust_type[of u x c] by (metis fst_conv)
  qed
  ultimately show ?thesis
    by (auto simp: score_one_def candidate_ok_def)
qed

lemma close_ok:
  assumes "candidate_ok text a" "candidate_ok text b"
  shows "spans_close_runes text a b n \<noteq> Inl e"
  using assms by (auto simp: spans_close_runes_def candidate_ok_def go_slice_def slice_ok_def)

lemma near_card_ok:
  assumes "candidate_ok text s" "\<forall>c \<in> set cards. candidate_ok text c"
  shows "near_card text s cards \<noteq> Inl e"
  using assms(2)
proof (induction cards)
  case Nil
  then show ?case by simp
next
  case (Cons c cards)
  then show ?case
    using close_ok[OF assms(1), of c 60] by (cases "spans_close_runes text s c 60") auto
qed

lemma boosted_fits: "candidate_ok s c \<Longrightarrow> candidate_ok s (boosted c)"
proof -
  assume c: "candidate_ok s c"
  have "c_score (boosted c) \<noteq> NaN \<and> c_score (boosted c) \<noteq> PosInf"
  proof -
    have "f_add (c_score c) (f_round (2 / 5)) \<noteq> NaN"
      using c f_round_not_NaN[of "2 / 5"] f_round_below[of "2 / 5"]
      by (intro f_add_number) (auto simp: candidate_ok_def)
    then show ?thesis
      by (cases "f_add (c_score c) (f_round (2 / 5))") (auto simp: boosted_def Let_def)
  qed
  then show ?thesis
    using c by (auto simp: candidate_ok_def boosted_def Let_def)
qed

lemma boosted_fields: "c_start (boosted c) = c_start c" "c_end (boosted c) = c_end c" "c_type (boosted c) = c_type c"
  by (simp_all add: boosted_def Let_def)

lemma boost_near_card_ok:
  assumes "\<forall>c \<in> set cs. candidate_ok text c"
  shows "\<exists>cs'. boost_near_card text cs = Inr cs' \<and> list_all2 (\<lambda>c c'. c' = c \<or> c' = boosted c) cs cs'"
proof -
  have "\<exists>c'. boost_one text cards c = Inr c' \<and> (c' = c \<or> c' = boosted c)"
    if "c \<in> set cs" "set cards \<subseteq> set cs" for c cards
  proof -
    have "near_card text c cards \<noteq> Inl e" for e
      using near_card_ok[of "text" c cards] assms that by blast
    then show ?thesis
      by (cases "near_card text c cards") (auto simp: boost_one_def)
  qed
  then show ?thesis
    unfolding boost_near_card_def Let_def
    by (auto simp: list_all2_same intro!: collect_ok)
qed

lemma analyze_ok:
  assumes "valid_string text"
    and regs: "\<And>rec. rec \<in> set registry \<Longrightarrow>
      \<exists>cs. rec (norm_new u text) = Inr cs \<and> (\<forall>c \<in> set cs. candidate_ok text c \<and> P (c_type c))"
    and P: "P PASSPORT_ISSUE_DATE" "P DRIVER_LICENSE"
  shows "\<exists>es. engine_analyze u registry m text = Inr es
    \<and> (\<forall>e \<in> set es. entity_fits text e \<and> P (ent_type e) \<and> f_le m (ent_score e))
    \<and> sorted_wrt (\<lambda>a b. ent_end a \<le> ent_start b) es"
proof -
  let ?t = "norm_new u text"
  obtain spans where spans: "registry_recognize registry ?t = Inr spans"
    "\<forall>c \<in> set spans. candidate_ok text c \<and> P (c_type c)"
    using registry_ok[where reg = registry and t = ?t and P = "\<lambda>c. candidate_ok text c \<and> P (c_type c)"] regs by blast
  have "\<exists>scored. collect (score_one u ?t) spans = Inr scored
      \<and> list_all2 (\<lambda>c c'. candidate_ok text c' \<and> P (c_type c')) spans scored"
  proof (rule collect_ok)
    fix c assume "c \<in> set spans"
    then have "candidate_ok text c" "P (c_type c)"
      using spans(2) by simp_all
    then show "\<exists>c'. score_one u ?t c = Inr c' \<and> candidate_ok text c' \<and> P (c_type c')"
      using score_one_ok[of "text" c u] P by metis
  qed
  then obtain scored where scored: "collect (score_one u ?t) spans = Inr scored"
    "\<forall>c \<in> set scored. candidate_ok text c \<and> P (c_type c)"
    using list_all2_right by fastforce
  obtain cs where cs: "boost_near_card text scored = Inr cs" "list_all2 (\<lambda>c c'. c' = c \<or> c' = boosted c) scored cs"
    using boost_near_card_ok scored(2) by blast
  have fits: "candidate_ok text c \<and> P (c_type c)" if "c \<in> set cs" for c
    using list_all2_right[OF cs(2) that] scored(2) boosted_fits boosted_fields(3) by metis
  then have pos: "\<forall>c \<in> set cs. 0 \<le> c_start c \<and> c_start c < c_end c"
    by (auto simp: candidate_ok_def slice_ok_def)
  have "entity_fits text e \<and> P (ent_type e) \<and> f_le m (ent_score e)" if "e \<in> set (resolve m cs)" for e
  proof -
    have "\<exists>c \<in> set cs. e = to_entity c \<and> f_le m (c_score c)"
      using resolve_from_input[OF pos that] .
    then obtain c where c: "c \<in> set cs" "e = to_entity c" "f_le m (c_score c)"
      by blast
    then have "candidate_ok text c" "P (c_type c)"
      using fits[OF c(1)] by blast+
    then show ?thesis
      using c by (auto simp: to_entity_def entity_fits_def candidate_ok_def slice_ok_def span_ok_def)
  qed
  moreover have "engine_analyze u registry m text = Inr (resolve m cs)"
    by (simp add: engine_analyze_def Let_def spans(1) scored(1) cs(1))
  ultimately show ?thesis
    using resolve_disjoint[OF pos, of m] by blast
qed

lemma entities_to_pii_ok:
  assumes "\<forall>e \<in> set es. entity_fits text e \<and> map_kind (ent_type e) \<noteq> None"
  shows "\<exists>ps. entities_to_pii text es = Inr ps
    \<and> list_all2 (\<lambda>e p. e_start p = ent_start e \<and> e_end p = ent_end e \<and> Some (e_kind p) = map_kind (ent_type e)) es ps"
  using assms
proof (induction es)
  case Nil
  then show ?case by simp
next
  case (Cons e es)
  then obtain k where "map_kind (ent_type e) = Some k" "entity_fits text e"
    by auto
  then show ?case
    using Cons by (auto simp: entity_fits_def span_ok_def)
qed

section \<open>The default registry\<close>

lemma ru_nonempty: "s \<noteq> [] \<Longrightarrow> ru s \<noteq> []"
  by (cases s) (simp_all add: ru_def)

lemma lower_str_nonempty: "w \<noteq> [] \<Longrightarrow> lower_str u w \<noteq> []"
  by (cases "runes w") (simp_all add: lower_str_def, simp add: runes_def)

lemma dict_new_nonempty:
  assumes "[] \<notin> set ws"
  shows "[] \<notin> dict_new u ws"
proof
  assume "[] \<in> dict_new u ws"
  then obtain w where w: "w \<in> set ws" "[] = lower_str u w"
    by (auto simp: dict_new_def)
  then have "w \<noteq> []"
    using assms by auto
  then show False
    using lower_str_nonempty[of w u] w(2) by simp
qed

lemma countries_nonempty: "[] \<notin> set countries"
proof -
  have no_empty: "[] \<notin> set (map ru ws)" if "list_all (\<lambda>w. w \<noteq> []) ws" for ws
    using that ru_nonempty by (fastforce simp: list_all_iff)
  show ?thesis
    unfolding countries_def by (rule no_empty) simp
qed

sublocale tables \<subseteq> country: rule_recognizer u "country_recognize u (dict_new u countries)" CITIZENSHIP
  by (rule country_rule_recognizer[OF tables_ok dict_new_nonempty[OF countries_nonempty]])

text \<open>What the contract of a recognizer gives the engine: its candidates fit, and their type has a kind.\<close>

context rule_recognizer
begin

lemma maps: "map_kind ty \<noteq> None \<Longrightarrow> valid_string s \<Longrightarrow>
    \<exists>cs. rec (norm_new u s) = Inr cs \<and> (\<forall>c \<in> set cs. candidate_ok s c \<and> map_kind (c_type c) \<noteq> None)"
  using recognizes by metis

end

context tables
begin

lemma registry_maps:
  assumes "valid_string s" "rec \<in> set (default_registry u)"
  shows "\<exists>cs. rec (norm_new u s) = Inr cs \<and> (\<forall>c \<in> set cs. candidate_ok s c \<and> map_kind (c_type c) \<noteq> None)"
  using assms(2) unfolding default_registry_def list.set insert_iff empty_iff
  by (elim disjE; simp only:)
    (rule email.maps phone.maps inn.maps card.maps cvv.maps pin.maps cardholder.maps passport.maps department.maps
      license.maps issuer.maps date.maps country.maps birth_place.maps name.maps address.maps;
     simp add: assms(1))+

lemma analyzes:
  assumes "valid_string text"
  shows "\<exists>es. engine_analyze u (default_registry u) m text = Inr es
    \<and> (\<forall>e \<in> set es. entity_fits text e \<and> map_kind (ent_type e) \<noteq> None \<and> f_le m (ent_score e))
    \<and> sorted_wrt (\<lambda>a b. ent_end a \<le> ent_start b) es"
  by (rule analyze_ok[OF assms, where P = "\<lambda>ty. map_kind ty \<noteq> None"]) (use registry_maps[OF assms] in simp_all)

end

lemma default_analyze_ok:
  assumes "ucd_ok u" "valid_string text"
  shows "\<exists>es. engine_analyze u (default_registry u) m text = Inr es
    \<and> (\<forall>e \<in> set es. entity_fits text e \<and> map_kind (ent_type e) \<noteq> None \<and> f_le m (ent_score e))
    \<and> sorted_wrt (\<lambda>a b. ent_end a \<le> ent_start b) es"
  by (rule tables.analyzes[OF _ assms(2)]) (rule tables.intro[OF assms(1)])

lemma val_engine_detect: "val (engine_detect rules text) = rbind (rules text) (entities_to_pii text)"
  by (cases "rules text") (simp_all add: engine_detect_def ctx_val polls_mbind)

end
