(* ===== verification/Config.thy ===== *)
theory Config
  imports Floats GoStrings
begin

text \<open>
  \<open>internal/config/config.go\<close>: settings from the environment and their validation.  The environment
  is a function from names to values, empty when unset.  \<open>time.ParseDuration\<close>, \<open>strconv.ParseFloat\<close>
  and the reading of the systems file are the record \<open>readers\<close>.  The modes stay strings, as they
  come from the environment.  Error messages are the source's up to the quoted values.
\<close>

record system_cfg =
  sys_id :: string
  sys_enabled :: bool
  sys_api_key :: string
  sys_mask_kinds :: "string list option"
  sys_detokenization_allowed :: "bool option"

record config =
  addr :: string
  read_timeout :: int
  read_header_timeout :: int
  write_timeout :: int
  idle_timeout :: int
  body_limit :: int
  processing_timeout :: int
  parallel_limit :: int
  run_mode :: string
  auth_mode :: string
  processor_mode :: string
  systems :: "system_cfg list"
  ml_address :: string
  global_rps :: f64
  global_burst :: int
  consumer_rps :: f64
  consumer_burst :: int
  overload_retry_after :: int
  metrics_enabled :: bool
  shutdown_timeout :: int

section \<open>The environment\<close>

type_synonym env = "string \<Rightarrow> string"

record readers =
  parse_duration :: "string \<Rightarrow> int option"
  parse_float :: "string \<Rightarrow> f64 option"
  read_systems :: "string \<Rightarrow> system_cfg list res"

definition env_parse_error :: "string \<Rightarrow> err" where
  "env_parse_error key = ErrOther (''config: invalid value for '' @ key)"

definition env_or :: "env \<Rightarrow> string \<Rightarrow> string \<Rightarrow> string" where
  "env_or env key fallback = (let v = env key in if v \<noteq> [] then v else fallback)"

definition parsed_env :: "(string \<Rightarrow> 'a option) \<Rightarrow> env \<Rightarrow> string \<Rightarrow> 'a \<Rightarrow> 'a res" where
  "parsed_env parse env key fallback =
     (let v = env key in
      if v = [] then Inr fallback
      else (case parse v of None \<Rightarrow> Inl (env_parse_error key) | Some x \<Rightarrow> Inr x))"

definition dur_env :: "readers \<Rightarrow> env \<Rightarrow> string \<Rightarrow> int \<Rightarrow> int res" where
  "dur_env rd env key fallback = parsed_env (parse_duration rd) env key fallback"

definition int_env :: "env \<Rightarrow> string \<Rightarrow> int \<Rightarrow> int res" where
  "int_env env key fallback = parsed_env atoi env key fallback"

text \<open>In base 10 and 64 bits \<open>ParseInt\<close> accepts what \<open>Atoi\<close> accepts.\<close>

definition int64_env :: "env \<Rightarrow> string \<Rightarrow> int \<Rightarrow> int res" where
  "int64_env env key fallback = parsed_env atoi env key fallback"

definition float_env :: "readers \<Rightarrow> env \<Rightarrow> string \<Rightarrow> f64 \<Rightarrow> f64 res" where
  "float_env rd env key fallback = parsed_env (parse_float rd) env key fallback"

definition parse_bool :: "string \<Rightarrow> bool option" where
  "parse_bool s =
     (if s \<in> {''1'', ''t'', ''T'', ''true'', ''TRUE'', ''True''} then Some True
      else if s \<in> {''0'', ''f'', ''F'', ''false'', ''FALSE'', ''False''} then Some False
      else None)"

definition bool_env :: "env \<Rightarrow> string \<Rightarrow> bool \<Rightarrow> bool res" where
  "bool_env env key fallback = parsed_env parse_bool env key fallback"

section \<open>Validation\<close>

definition validate_rate_limit :: "f64 \<Rightarrow> int \<Rightarrow> string \<Rightarrow> unit res" where
  "validate_rate_limit rps burst name =
     (if is_nan rps \<or> is_inf rps then Inl (ErrOther (''config: '' @ name @ '' rate limit rps must be finite''))
      else if f_lt rps (Fin 0) then Inl (ErrOther (''config: '' @ name @ '' rate limit rps must not be negative''))
      else if burst < 0 then Inl (ErrOther (''config: '' @ name @ '' rate limit burst must not be negative''))
      else if f_lt (Fin 0) rps \<and> burst \<le> 0
        then Inl (ErrOther (''config: '' @ name @ '' rate limit burst must be positive when rps is set''))
      else Inr ())"

definition validate_modes :: "string \<Rightarrow> string \<Rightarrow> string \<Rightarrow> unit res" where
  "validate_modes run auth proc =
     (if run \<notin> {''dev'', ''verify'', ''final''} then Inl (ErrOther ''config: invalid run mode'')
      else if auth \<notin> {''api_key'', ''verify''} then Inl (ErrOther ''config: invalid auth mode'')
      else if proc \<notin> {''mock'', ''real''} then Inl (ErrOther ''config: invalid processor mode'')
      else if run = ''final'' then
        (if auth \<noteq> ''api_key'' then Inl (ErrOther ''config: final mode requires auth_mode=api_key'')
         else if proc \<noteq> ''real'' then Inl (ErrOther ''config: final mode requires processor_mode=real'')
         else Inr ())
      else if run = ''verify'' then
        (if auth \<noteq> ''verify'' then Inl (ErrOther ''config: verify mode requires auth_mode=verify'')
         else if proc \<noteq> ''real'' then Inl (ErrOther ''config: verify mode requires processor_mode=real'')
         else Inr ())
      else if proc = ''mock'' \<and> auth \<noteq> ''verify'' \<and> auth \<noteq> ''api_key'' then Inl (ErrOther ''config: invalid auth mode'')
      else Inr ())"

fun validate_systems_loop :: "string list \<Rightarrow> string list \<Rightarrow> nat \<Rightarrow> system_cfg list \<Rightarrow> nat res" where
  "validate_systems_loop seen_id seen_key enabled [] = Inr enabled"
| "validate_systems_loop seen_id seen_key enabled (s # ss) =
     (if sys_id s = [] then Inl (ErrOther ''config: system id must not be empty'')
      else if sys_id s \<in> set seen_id then Inl (ErrOther ''config: duplicate system id'')
      else if sys_api_key s = [] then Inl (ErrOther ''config: system has empty api key'')
      else if sys_api_key s \<in> set seen_key then Inl (ErrOther ''config: duplicate api key across systems'')
      else validate_systems_loop (sys_id s # seen_id) (sys_api_key s # seen_key)
             (if sys_enabled s then enabled + 1 else enabled) ss)"

definition validate_systems :: "system_cfg list \<Rightarrow> unit res" where
  "validate_systems ss =
     rbind (validate_systems_loop [] [] 0 ss) (\<lambda>enabled.
       if enabled = 0 then Inl (ErrOther ''config: at least one enabled system is required in api_key mode'')
       else Inr ())"

definition settings_validate :: "config \<Rightarrow> unit res" where
  "settings_validate c =
     (if addr c = [] then Inl (ErrOther ''config: addr must not be empty'')
      else if ml_address c = [] then Inl (ErrOther ''config: ml address must not be empty'')
      else if read_timeout c \<le> 0 \<or> read_header_timeout c \<le> 0 \<or> write_timeout c \<le> 0 \<or> idle_timeout c \<le> 0
        then Inl (ErrOther ''config: http timeouts must be strictly positive'')
      else if body_limit c \<le> 0 then Inl (ErrOther ''config: body limit must be positive'')
      else if processing_timeout c \<le> 0 then Inl (ErrOther ''config: processing timeout must be positive'')
      else if parallel_limit c \<le> 0 then Inl (ErrOther ''config: parallel limit must be positive'')
      else if overload_retry_after c \<le> 0 then Inl (ErrOther ''config: overload retry after must be positive'')
      else if shutdown_timeout c \<le> 0 then Inl (ErrOther ''config: shutdown timeout must be positive'')
      else
        rbind (validate_rate_limit (global_rps c) (global_burst c) ''global'') (\<lambda>_.
        rbind (validate_rate_limit (consumer_rps c) (consumer_burst c) ''consumer'') (\<lambda>_.
        rbind (validate_modes (run_mode c) (auth_mode c) (processor_mode c)) (\<lambda>_.
        if auth_mode c = ''api_key'' then validate_systems (systems c) else Inr ()))))"

section \<open>Loading\<close>

definition seconds :: "int \<Rightarrow> int" where
  "seconds n = n * 1000000000"

definition error_of :: "'a res \<Rightarrow> err list" where
  "error_of r = (case r of Inl e \<Rightarrow> [e] | Inr _ \<Rightarrow> [])"

definition value_or :: "'a \<Rightarrow> 'a res \<Rightarrow> 'a" where
  "value_or zero r = (case r of Inl _ \<Rightarrow> zero | Inr x \<Rightarrow> x)"

text \<open>A field whose variable does not parse keeps its zero value, and the first error is returned in
  the end.\<close>

definition config_load :: "readers \<Rightarrow> env \<Rightarrow> config res" where
  "config_load rd env =
     (let rt = dur_env rd env ''ALPHA_PROXY_READ_TIMEOUT'' (seconds 10);
          rht = dur_env rd env ''ALPHA_PROXY_READ_HEADER_TIMEOUT'' (seconds 5);
          wt = dur_env rd env ''ALPHA_PROXY_WRITE_TIMEOUT'' (seconds 10);
          it = dur_env rd env ''ALPHA_PROXY_IDLE_TIMEOUT'' (seconds 60);
          pt = dur_env rd env ''ALPHA_PROXY_PROCESSING_TIMEOUT'' (seconds 5);
          ora = dur_env rd env ''ALPHA_PROXY_OVERLOAD_RETRY_AFTER'' (seconds 1);
          bl = int64_env env ''ALPHA_PROXY_BODY_LIMIT'' (2 ^ 20);
          pl = int_env env ''ALPHA_PROXY_PARALLEL_LIMIT'' 512;
          gb = int_env env ''ALPHA_PROXY_GLOBAL_RATE_LIMIT_BURST'' 2000;
          cb = int_env env ''ALPHA_PROXY_CONSUMER_RATE_LIMIT_BURST'' 0;
          gr = float_env rd env ''ALPHA_PROXY_GLOBAL_RATE_LIMIT_RPS'' (Fin 2000);
          cr = float_env rd env ''ALPHA_PROXY_CONSUMER_RATE_LIMIT_RPS'' (Fin 0);
          me = bool_env env ''ALPHA_PROXY_METRICS_ENABLED'' True;
          st = dur_env rd env ''ALPHA_PROXY_SHUTDOWN_TIMEOUT'' (seconds 15);
          sysf = env ''ALPHA_PROXY_SYSTEMS_FILE'';
          ss = (if sysf \<noteq> [] then read_systems rd sysf else Inr []);
          cfg = \<lparr>addr = env_or env ''ALPHA_PROXY_ADDR'' '':8080'',
                 read_timeout = value_or 0 rt, read_header_timeout = value_or 0 rht,
                 write_timeout = value_or 0 wt, idle_timeout = value_or 0 it, body_limit = value_or 0 bl,
                 processing_timeout = value_or 0 pt, parallel_limit = value_or 0 pl,
                 run_mode = env_or env ''ALPHA_PROXY_RUN_MODE'' ''final'',
                 auth_mode = env_or env ''ALPHA_PROXY_AUTH_MODE'' ''api_key'',
                 processor_mode = env_or env ''ALPHA_PROXY_PROCESSOR_MODE'' ''real'',
                 systems = value_or [] ss, ml_address = env_or env ''ALPHA_PROXY_ML_ADDR'' ''127.0.0.1:50051'',
                 global_rps = value_or (Fin 0) gr, global_burst = value_or 0 gb,
                 consumer_rps = value_or (Fin 0) cr, consumer_burst = value_or 0 cb,
                 overload_retry_after = value_or 0 ora, metrics_enabled = value_or False me,
                 shutdown_timeout = value_or 0 st\<rparr> in
      case error_of rt @ error_of rht @ error_of wt @ error_of it @ error_of pt @ error_of ora @ error_of bl
           @ error_of pl @ error_of gb @ error_of cb @ error_of gr @ error_of cr @ error_of me @ error_of st
           @ error_of ss of
        e # _ \<Rightarrow> Inl e
      | [] \<Rightarrow> rbind (settings_validate cfg) (\<lambda>_. Inr cfg))"

section \<open>What validation guarantees\<close>

definition rate_limit_ok :: "f64 \<Rightarrow> int \<Rightarrow> bool" where
  "rate_limit_ok rps burst \<longleftrightarrow> (\<exists>r. rps = Fin r \<and> 0 \<le> r \<and> (0 < r \<longrightarrow> 0 < burst)) \<and> 0 \<le> burst"

lemma validate_rate_limit_iff: "validate_rate_limit rps burst name = Inr () \<longleftrightarrow> rate_limit_ok rps burst"
  by (cases rps) (auto simp: validate_rate_limit_def rate_limit_ok_def is_nan_def is_inf_def not_less)

definition modes_ok :: "string \<Rightarrow> string \<Rightarrow> string \<Rightarrow> bool" where
  "modes_ok run auth proc \<longleftrightarrow>
     run = ''final'' \<and> auth = ''api_key'' \<and> proc = ''real''
     \<or> run = ''verify'' \<and> auth = ''verify'' \<and> proc = ''real''
     \<or> run = ''dev'' \<and> auth \<in> {''api_key'', ''verify''} \<and> proc \<in> {''mock'', ''real''}"

lemma validate_modes_iff: "validate_modes run auth proc = Inr () \<longleftrightarrow> modes_ok run auth proc"
  unfolding validate_modes_def modes_ok_def by auto

definition systems_ok :: "system_cfg list \<Rightarrow> bool" where
  "systems_ok ss \<longleftrightarrow> distinct (map sys_id ss) \<and> distinct (map sys_api_key ss)
     \<and> (\<forall>s \<in> set ss. sys_id s \<noteq> [] \<and> sys_api_key s \<noteq> []) \<and> (\<exists>s \<in> set ss. sys_enabled s)"

lemma validate_systems_loop_iff:
  "validate_systems_loop ids keys n ss = Inr m \<longleftrightarrow>
     distinct (map sys_id ss) \<and> distinct (map sys_api_key ss)
     \<and> (\<forall>s \<in> set ss. sys_id s \<noteq> [] \<and> sys_api_key s \<noteq> [] \<and> sys_id s \<notin> set ids \<and> sys_api_key s \<notin> set keys)
     \<and> m = n + length (filter sys_enabled ss)"
  by (induction ids keys n ss rule: validate_systems_loop.induct) (auto, (metis imageI)+)

lemma validate_systems_iff: "validate_systems ss = Inr () \<longleftrightarrow> systems_ok ss"
proof -
  have "validate_systems ss = Inr () \<longleftrightarrow> (\<exists>m. validate_systems_loop [] [] 0 ss = Inr m \<and> m \<noteq> 0)"
    by (auto simp: validate_systems_def rbind_Inr_iff split: if_splits)
  then show ?thesis
    by (auto simp: validate_systems_loop_iff systems_ok_def filter_empty_conv)
qed

definition settings_ok :: "config \<Rightarrow> bool" where
  "settings_ok c \<longleftrightarrow> addr c \<noteq> [] \<and> ml_address c \<noteq> []
     \<and> 0 < read_timeout c \<and> 0 < read_header_timeout c \<and> 0 < write_timeout c \<and> 0 < idle_timeout c
     \<and> 0 < body_limit c \<and> 0 < processing_timeout c \<and> 0 < parallel_limit c \<and> 0 < overload_retry_after c
     \<and> 0 < shutdown_timeout c
     \<and> rate_limit_ok (global_rps c) (global_burst c) \<and> rate_limit_ok (consumer_rps c) (consumer_burst c)
     \<and> modes_ok (run_mode c) (auth_mode c) (processor_mode c)
     \<and> (auth_mode c = ''api_key'' \<longrightarrow> systems_ok (systems c))"

lemma settings_valid_iff: "settings_validate c = Inr () \<longleftrightarrow> settings_ok c"
  by (auto simp: settings_validate_def settings_ok_def rbind_Inr_iff validate_rate_limit_iff validate_modes_iff
      validate_systems_iff split: if_splits)

text \<open>A loaded configuration has been validated, and every variable that was set has been parsed.\<close>

lemma config_load_ok:
  assumes "config_load rd env = Inr c"
  shows "settings_ok c"
  using assms unfolding config_load_def Let_def
  by (auto simp: rbind_Inr_iff settings_valid_iff split: list.splits)

lemma unparsable_duration_fails:
  assumes "env ''ALPHA_PROXY_READ_TIMEOUT'' \<noteq> []" "parse_duration rd (env ''ALPHA_PROXY_READ_TIMEOUT'') = None"
  shows "config_load rd env = Inl (env_parse_error ''ALPHA_PROXY_READ_TIMEOUT'')"
  using assms by (simp add: config_load_def Let_def dur_env_def parsed_env_def error_of_def)

end
