(* ===== verification/RateLimit.thy ===== *)
theory RateLimit
  imports Floats
begin

text \<open>
  \<open>internal/ratelimit/ratelimit.go\<close>: the token bucket in doubles and one bucket for each consumer.
  The clock's reading is an argument in nanoseconds; the mutexes make each call one step.  A
  conversion of a double out of the range of \<open>int64\<close> gives what amd64 gives.
\<close>

record token_bucket =
  tb_rate :: f64
  tb_burst :: f64
  tb_tokens :: f64
  tb_last :: int

definition new_token_bucket :: "f64 \<Rightarrow> int \<Rightarrow> int \<Rightarrow> token_bucket" where
  "new_token_bucket rate burst now =
     \<lparr>tb_rate = rate, tb_burst = f_of_int burst, tb_tokens = f_of_int burst, tb_last = now\<rparr>"

text \<open>\<open>time.Time.Sub\<close> saturates; \<open>Duration.Seconds\<close> adds whole seconds and the rest, each truncated
  towards zero.\<close>

definition time_sub :: "int \<Rightarrow> int \<Rightarrow> int" where
  "time_sub a b = max (- (2 ^ 63)) (min (2 ^ 63 - 1) (a - b))"

definition go_quot :: "int \<Rightarrow> int \<Rightarrow> int" where
  "go_quot a b = sgn a * sgn b * (\<bar>a\<bar> div \<bar>b\<bar>)"

definition go_rem :: "int \<Rightarrow> int \<Rightarrow> int" where
  "go_rem a b = a - b * go_quot a b"

definition duration_seconds :: "int \<Rightarrow> f64" where
  "duration_seconds d =
     f_add (f_of_int (go_quot d 1000000000)) (f_div (f_of_int (go_rem d 1000000000)) (f_of_int 1000000000))"

definition f_to_int64 :: "f64 \<Rightarrow> int" where
  "f_to_int64 x =
     (case x of
        Fin r \<Rightarrow> let n = (if r < 0 then - \<lfloor>- r\<rfloor> else \<lfloor>r\<rfloor>) in
                 if - (2 ^ 63) \<le> n \<and> n < 2 ^ 63 then n else - (2 ^ 63)
      | _ \<Rightarrow> - (2 ^ 63))"

definition bucket_allow :: "token_bucket \<Rightarrow> int \<Rightarrow> (bool \<times> int) \<times> token_bucket" where
  "bucket_allow b now =
     (let elapsed = duration_seconds (time_sub now (tb_last b));
          tokens = f_min (tb_burst b) (f_add (tb_tokens b) (f_mul elapsed (tb_rate b)));
          b' = b\<lparr>tb_tokens := tokens, tb_last := now\<rparr> in
      if f_le (Fin 1) tokens then ((True, 0), b'\<lparr>tb_tokens := f_sub tokens (Fin 1)\<rparr>)
      else
        let deficit = f_sub (Fin 1) tokens in
        ((False, f_to_int64 (f_mul (f_div deficit (tb_rate b)) (f_of_int 1000000000))), b'))"

section \<open>One bucket for each consumer\<close>

type_synonym consumer_limiter = "string \<Rightarrow> token_bucket option"

definition new_consumer_limiter :: "f64 \<Rightarrow> int \<Rightarrow> string list \<Rightarrow> int \<Rightarrow> consumer_limiter" where
  "new_consumer_limiter rps burst consumers now =
     foldl (\<lambda>l c. l(c \<mapsto> new_token_bucket rps burst now)) Map.empty consumers"

definition limiter_allow :: "consumer_limiter \<Rightarrow> string \<Rightarrow> int \<Rightarrow> (bool \<times> int) \<times> consumer_limiter" where
  "limiter_allow l consumer now =
     (case l consumer of
        None \<Rightarrow> ((True, 0), l)
      | Some b \<Rightarrow> (case bucket_allow b now of (r, b') \<Rightarrow> (r, l(consumer \<mapsto> b'))))"

lemma new_consumer_limiter_eq:
  "new_consumer_limiter rps burst consumers now c
     = (if c \<in> set consumers then Some (new_token_bucket rps burst now) else None)"
proof -
  have "foldl (\<lambda>l c. l(c \<mapsto> b)) m cs c = (if c \<in> set cs then Some b else m c)" for m :: consumer_limiter and b cs
    by (induction cs arbitrary: m) auto
  then show ?thesis
    by (simp add: new_consumer_limiter_def)
qed

section \<open>The bucket's invariant\<close>

text \<open>Validated settings: a burst of at least one, exact as a double, and a finite rate that is not
  negative.  The clock does not run backwards.\<close>

definition bucket_ok :: "token_bucket \<Rightarrow> bool" where
  "bucket_ok b \<longleftrightarrow> (\<exists>n. 1 \<le> n \<and> n < 2 ^ 53 \<and> tb_burst b = Fin (of_int n))
     \<and> (\<exists>r. tb_rate b = Fin r \<and> 0 \<le> r)
     \<and> tb_tokens b \<noteq> NaN \<and> \<not> f_lt (tb_tokens b) (Fin 0) \<and> tb_tokens b \<noteq> PosInf"

lemma f_of_int_exact: "0 \<le> n \<Longrightarrow> n < 2 ^ 53 \<Longrightarrow> f_of_int n = Fin (of_int n)"
  by (simp add: f_of_int_def f_round_int)

lemma bucket_ok_new:
  assumes "1 \<le> burst" "burst < 2 ^ 53" "0 \<le> r"
  shows "bucket_ok (new_token_bucket (Fin r) burst now)"
  using assms by (auto simp: bucket_ok_def new_token_bucket_def f_of_int_exact)

definition f_nonneg :: "f64 \<Rightarrow> bool" where
  "f_nonneg x \<longleftrightarrow> x \<noteq> NaN \<and> \<not> f_lt x (Fin 0)"

lemma f_nonneg_round: "0 \<le> q \<Longrightarrow> f_nonneg (f_round q)"
  by (simp add: f_nonneg_def f_round_nonneg)

lemma f_nonneg_add: "f_nonneg x \<Longrightarrow> f_nonneg y \<Longrightarrow> f_nonneg (f_add x y)"
  by (cases x; cases y) (auto simp: f_nonneg_def f_round_nonneg not_less)

lemma f_nonneg_seconds:
  assumes "0 \<le> d"
  shows "f_nonneg (duration_seconds d)"
proof -
  have q: "go_quot d 1000000000 = d div 1000000000"
    using assms by (cases "d = 0") (simp_all add: go_quot_def)
  have r: "go_rem d 1000000000 = d mod 1000000000"
    unfolding go_rem_def q by (simp add: minus_mult_div_eq_mod)
  have "f_of_int (go_rem d 1000000000) = Fin (of_int (d mod 1000000000))"
    unfolding r using pos_mod_bound[of 1000000000 d] by (intro f_of_int_exact) simp_all
  moreover have "f_of_int 1000000000 = Fin (of_int 1000000000)"
    by (intro f_of_int_exact) simp_all
  ultimately have "f_div (f_of_int (go_rem d 1000000000)) (f_of_int 1000000000)
      = f_round (of_int (d mod 1000000000) / of_int 1000000000)"
    by simp
  moreover have "f_nonneg (f_round (of_int (d mod 1000000000) / of_int 1000000000))"
    by (intro f_nonneg_round divide_nonneg_nonneg) simp_all
  moreover have "f_nonneg (f_of_int (go_quot d 1000000000))"
    unfolding q f_of_int_def using assms by (intro f_nonneg_round) (simp add: pos_imp_zdiv_nonneg_iff)
  ultimately show ?thesis
    unfolding duration_seconds_def by (simp add: f_nonneg_add)
qed

lemma f_nonneg_mul: "f_nonneg x \<Longrightarrow> 0 < r \<Longrightarrow> f_nonneg (f_mul x (Fin r))"
  by (cases x) (auto simp: f_nonneg_def f_round_nonneg not_less f_inf_def)

lemma refill_ok:
  assumes "bucket_ok b" "tb_last b \<le> now" "tb_rate b \<noteq> Fin 0"
  shows "\<exists>t. f_min (tb_burst b) (f_add (tb_tokens b) (f_mul (duration_seconds (time_sub now (tb_last b))) (tb_rate b))) = Fin t
    \<and> 0 \<le> t \<and> \<not> f_lt (tb_burst b) (Fin t)"
proof -
  obtain n r where n: "1 \<le> n" "tb_burst b = Fin (of_int n)" and r: "tb_rate b = Fin r" "0 \<le> r"
    using assms(1) by (auto simp: bucket_ok_def)
  have "0 < r"
    using r assms(3) by (cases "r = 0") auto
  have "0 \<le> time_sub now (tb_last b)"
    using assms(2) by (simp add: time_sub_def)
  then have x: "f_nonneg (f_add (tb_tokens b) (f_mul (duration_seconds (time_sub now (tb_last b))) (tb_rate b)))"
    unfolding r(1) using assms(1) f_nonneg_mul[OF f_nonneg_seconds \<open>0 < r\<close>]
    by (intro f_nonneg_add) (simp_all add: bucket_ok_def f_nonneg_def)
  have n1: "(1 :: rat) \<le> of_int n"
    using n(1) by simp
  show ?thesis
    using x n1 unfolding n(2)
    by (cases "f_add (tb_tokens b) (f_mul (duration_seconds (time_sub now (tb_last b))) (tb_rate b))")
      (auto simp: f_min_def f_nonneg_def not_less)
qed

lemma bucket_allow_ok:
  assumes "bucket_ok b" "tb_last b \<le> now" "tb_rate b \<noteq> Fin 0" "bucket_allow b now = ((ok, delay), b')"
  shows "bucket_ok b'" "tb_last b' = now" "tb_rate b' = tb_rate b" "tb_burst b' = tb_burst b"
proof -
  obtain t where t: "f_min (tb_burst b) (f_add (tb_tokens b) (f_mul (duration_seconds (time_sub now (tb_last b))) (tb_rate b))) = Fin t"
    "0 \<le> t" "\<not> f_lt (tb_burst b) (Fin t)"
    using refill_ok[OF assms(1-3)] by blast
  obtain n where n: "n < 2 ^ 53" "1 \<le> n" "tb_burst b = Fin (of_int n)"
    using assms(1) by (auto simp: bucket_ok_def)
  have b': "b' = b\<lparr>tb_tokens := (if 1 \<le> t then f_round (t - 1) else Fin t), tb_last := now\<rparr>"
    using assms(4) t(1) by (auto simp: bucket_allow_def Let_def f_le_iff f_sub_def split: if_splits)
  show "tb_last b' = now" "tb_rate b' = tb_rate b" "tb_burst b' = tb_burst b"
    by (simp_all add: b')
  have "f_nonneg (f_round (t - 1)) \<and> f_round (t - 1) \<noteq> PosInf" if "1 \<le> t"
  proof
    show "f_nonneg (f_round (t - 1))"
      using that by (intro f_nonneg_round) simp
    have "t - 1 \<le> of_int n"
      using t(3) n(3) by (simp add: not_less)
    then show "f_round (t - 1) \<noteq> PosInf"
      using f_round_le_int[of "t - 1" n] n by (cases "f_round (t - 1)") auto
  qed
  then show "bucket_ok b'"
    using assms(1) t(2) by (auto simp: bucket_ok_def b' f_nonneg_def)
qed

section \<open>A burst is exact\<close>

text \<open>The answers to a number of calls at one instant.\<close>

primrec verdicts :: "nat \<Rightarrow> token_bucket \<Rightarrow> int \<Rightarrow> bool list" where
  "verdicts 0 b now = []"
| "verdicts (Suc k) b now = fst (fst (bucket_allow b now)) # verdicts k (snd (bucket_allow b now)) now"

lemma seconds_0: "duration_seconds 0 = Fin 0"
  by (simp add: duration_seconds_def go_quot_def go_rem_def f_of_int_def) code_simp

lemma allow_at_rest:
  assumes "tb_burst b = Fin (of_int n)" "tb_rate b = Fin r" "tb_tokens b = Fin (of_int k)"
    and "0 \<le> k" "k \<le> n" "n < 2 ^ 53"
  shows "fst (fst (bucket_allow b (tb_last b))) \<longleftrightarrow> 1 \<le> k"
    and "snd (bucket_allow b (tb_last b)) = b\<lparr>tb_tokens := Fin (of_int (if 1 \<le> k then k - 1 else k))\<rparr>"
proof -
  have "f_add (Fin (of_int k)) (Fin 0) = Fin (of_int k)"
    using f_round_int[of k] assms(4-6) by simp
  then have t: "f_min (tb_burst b) (f_add (tb_tokens b) (f_mul (duration_seconds (time_sub (tb_last b) (tb_last b))) (tb_rate b)))
      = Fin (of_int k)"
    using assms(1-3,5) by (simp add: time_sub_def seconds_0 f_min_def)
  have ge: "f_le (Fin 1) (Fin (of_int k)) \<longleftrightarrow> 1 \<le> k"
    by (simp add: f_le_iff not_less)
  have "f_sub (Fin (of_int k)) (Fin 1) = Fin (of_int (k - 1))" if "1 \<le> k"
    using f_round_int[of "k - 1"] that assms(5,6) by (simp add: f_sub_def)
  then show "fst (fst (bucket_allow b (tb_last b))) \<longleftrightarrow> 1 \<le> k"
    "snd (bucket_allow b (tb_last b)) = b\<lparr>tb_tokens := Fin (of_int (if 1 \<le> k then k - 1 else k))\<rparr>"
    unfolding bucket_allow_def Let_def t ge using assms(3) by auto
qed

lemma verdicts_at_rest:
  assumes "tb_burst b = Fin (of_int n)" "tb_rate b = Fin r" "tb_tokens b = Fin (of_int (int k))"
    and "int k \<le> n" "n < 2 ^ 53"
  shows "verdicts m b (tb_last b) = replicate (min k m) True @ replicate (m - k) False"
  using assms
proof (induction m arbitrary: b k)
  case 0
  then show ?case by simp
next
  case (Suc m)
  note step = allow_at_rest[OF Suc.prems(1-3) _ Suc.prems(4,5)]
  show ?case
  proof (cases k)
    case 0
    have "verdicts m (b\<lparr>tb_tokens := Fin 0\<rparr>) (tb_last b) = replicate m False"
      using Suc.IH[of "b\<lparr>tb_tokens := Fin 0\<rparr>" 0] Suc.prems 0 by simp
    then show ?thesis
      using step 0 by simp
  next
    case (Suc j)
    have "verdicts m (b\<lparr>tb_tokens := Fin (of_int (int j))\<rparr>) (tb_last b) = replicate (min j m) True @ replicate (m - j) False"
      using Suc.IH[of "b\<lparr>tb_tokens := Fin (of_int (int j))\<rparr>" j] Suc.prems Suc by simp
    then show ?thesis
      using step Suc by simp
  qed
qed

text \<open>A full bucket admits its burst at one instant and refuses everything after it.\<close>

lemma burst_is_exact:
  assumes "0 \<le> r" "1 \<le> burst" "burst < 2 ^ 53"
  shows "verdicts (nat burst + m) (new_token_bucket (Fin r) burst now) now
    = replicate (nat burst) True @ replicate m False"
proof -
  let ?b = "new_token_bucket (Fin r) burst now"
  have b: "tb_burst ?b = Fin (of_int burst)" "tb_rate ?b = Fin r" "tb_tokens ?b = Fin (of_int (int (nat burst)))" "tb_last ?b = now"
    using assms by (simp_all add: new_token_bucket_def f_of_int_exact)
  show ?thesis
    using verdicts_at_rest[OF b(1-3) _ assms(3), of "nat burst + m"] assms(2) b(4) by simp
qed

end
