(* ===== verification/Access.thy ===== *)
theory Access
  imports Config RateLimit PolicyProvider
begin

text \<open>
  Who may do what: \<open>internal/auth/auth.go\<close>, the policies and the consumer limiter that
  \<open>cmd/server/main.go\<close> and \<open>internal/app/app.go\<close> build from the configuration.  The fingerprint of a key
  (SHA-256 in hexadecimal) is the argument \<open>fp\<close>; what is relied on is that the presented key and the
  configured keys have no two equal fingerprints.  A Go map that is filled in a loop is a fold.
\<close>

section \<open>Authentication\<close>

definition verify_consumer_id :: string where
  "verify_consumer_id = ''verify''"

record authenticator =
  au_mode :: string
  by_fp :: "string \<Rightarrow> string option"
  au_enabled :: "string \<Rightarrow> bool"

definition add_system :: "(string \<Rightarrow> string) \<Rightarrow> authenticator \<Rightarrow> system_cfg \<Rightarrow> authenticator" where
  "add_system fp a s =
     a\<lparr>by_fp := (by_fp a)(fp (sys_api_key s) \<mapsto> sys_id s), au_enabled := (au_enabled a)(sys_id s := sys_enabled s)\<rparr>"

definition new_authenticator :: "(string \<Rightarrow> string) \<Rightarrow> config \<Rightarrow> authenticator" where
  "new_authenticator fp cfg =
     foldl (add_system fp) \<lparr>au_mode = auth_mode cfg, by_fp = Map.empty, au_enabled = (\<lambda>_. False)\<rparr> (systems cfg)"

text \<open>The consumer and 0, or no consumer and the status of the refusal.\<close>

definition authenticate :: "(string \<Rightarrow> string) \<Rightarrow> authenticator \<Rightarrow> string \<Rightarrow> string \<times> nat" where
  "authenticate fp a key =
     (if au_mode a = ''verify'' then (verify_consumer_id, 0)
      else if key = [] then ([], 401)
      else case by_fp a (fp key) of
        None \<Rightarrow> ([], 401)
      | Some system_id \<Rightarrow> if \<not> au_enabled a system_id then ([], 403) else (system_id, 0))"

section \<open>Policies\<close>

fun known_kinds :: "(pii_kind \<Rightarrow> bool) \<Rightarrow> string list \<Rightarrow> (pii_kind \<Rightarrow> bool) res" where
  "known_kinds allowed [] = Inr allowed"
| "known_kinds allowed (k # ks) =
     (case kind_of_string k of
        None \<Rightarrow> Inl (ErrOther ''unknown mask kind'')
      | Some kind \<Rightarrow> known_kinds (allowed(kind := True)) ks)"

definition all_kinds :: "pii_kind \<Rightarrow> bool" where
  "all_kinds = (\<lambda>_. True)"

definition base_policy :: "(pii_kind \<Rightarrow> bool) \<Rightarrow> bool \<Rightarrow> policy" where
  "base_policy allowed detok =
     \<lparr>allowed_kinds = allowed, detokenization_allowed = detok, min_confidence = f_round (1 / 2),
      masking_strategy = [], allow_partial_result = False\<rparr>"

definition system_policy :: "system_cfg \<Rightarrow> policy res" where
  "system_policy s =
     (let detok = (case sys_detokenization_allowed s of None \<Rightarrow> True | Some b \<Rightarrow> b) in
      case sys_mask_kinds s of
        None \<Rightarrow> Inr (base_policy all_kinds detok)
      | Some ks \<Rightarrow> rbind (known_kinds (\<lambda>_. False) ks) (\<lambda>allowed. Inr (base_policy allowed detok)))"

fun add_policies :: "policies \<Rightarrow> system_cfg list \<Rightarrow> policies res" where
  "add_policies ps [] = Inr ps"
| "add_policies ps (s # ss) =
     (if \<not> sys_enabled s then add_policies ps ss
      else rbind (system_policy s) (\<lambda>pol. add_policies (ps(sys_id s \<mapsto> pol)) ss))"

definition build_policies :: "config \<Rightarrow> policies res" where
  "build_policies cfg = add_policies [verify_consumer_id \<mapsto> base_policy all_kinds True] (systems cfg)"

section \<open>Limiters\<close>

definition build_global_limiter :: "config \<Rightarrow> int \<Rightarrow> token_bucket option" where
  "build_global_limiter cfg now =
     (if f_le (global_rps cfg) (Fin 0) then None
      else Some (new_token_bucket (global_rps cfg) (global_burst cfg) now))"

definition limited_consumers :: "config \<Rightarrow> string list" where
  "limited_consumers cfg =
     map sys_id (filter sys_enabled (systems cfg))
     @ (if auth_mode cfg = ''verify'' then [verify_consumer_id] else [])"

definition build_consumer_limiter :: "config \<Rightarrow> int \<Rightarrow> consumer_limiter option" where
  "build_consumer_limiter cfg now =
     (if f_le (consumer_rps cfg) (Fin 0) then None
      else Some (new_consumer_limiter (consumer_rps cfg) (consumer_burst cfg) (limited_consumers cfg) now))"

section \<open>Who is let in\<close>

lemma foldl_add_system:
  "by_fp (foldl (add_system fp) a ss) =
     (\<lambda>f. case find (\<lambda>s. fp (sys_api_key s) = f) (rev ss) of Some s \<Rightarrow> Some (sys_id s) | None \<Rightarrow> by_fp a f)"
  "au_enabled (foldl (add_system fp) a ss) =
     (\<lambda>i. case find (\<lambda>s. sys_id s = i) (rev ss) of Some s \<Rightarrow> sys_enabled s | None \<Rightarrow> au_enabled a i)"
  "au_mode (foldl (add_system fp) a ss) = au_mode a"
  by (induction ss rule: rev_induct) (auto simp: add_system_def fun_eq_iff split: option.splits)

lemma find_unique:
  assumes "s \<in> set ss" "P s" "\<And>t. t \<in> set ss \<Longrightarrow> P t \<Longrightarrow> t = s"
  shows "find P (rev ss) = Some s"
proof (cases "find P (rev ss)")
  case None
  then show ?thesis
    using assms(1,2) unfolding find_None_iff by simp
next
  case (Some t)
  then have "t \<in> set ss" "P t"
    unfolding find_Some_iff by (metis nth_mem set_rev, blast)
  then show ?thesis
    using Some assms(3) by simp
qed

lemma distinct_map_eq: "distinct (map f xs) \<Longrightarrow> x \<in> set xs \<Longrightarrow> y \<in> set xs \<Longrightarrow> f x = f y \<Longrightarrow> x = y"
  by (auto simp: distinct_map dest: inj_onD)

lemma find_key:
  assumes "s \<in> set ss" "inj_on fp (insert k (sys_api_key ` set ss))" "distinct (map sys_api_key ss)" "sys_api_key s = k"
  shows "find (\<lambda>s. fp (sys_api_key s) = fp k) (rev ss) = Some s"
proof (rule find_unique)
  fix t
  assume t: "t \<in> set ss" "fp (sys_api_key t) = fp k"
  have "sys_api_key t = k"
    by (rule inj_onD[OF assms(2) t(2)]) (use t(1) in simp_all)
  then show "t = s"
    using distinct_map_eq[OF assms(3) t(1) assms(1)] assms(4) by simp
qed (simp_all add: assms)

lemma find_id:
  assumes "s \<in> set ss" "distinct (map sys_id ss)"
  shows "find (\<lambda>t. sys_id t = sys_id s) (rev ss) = Some s"
  using assms by (intro find_unique distinct_map_eq[OF assms(2)]) simp_all

text \<open>In key mode a caller is let in as the one system whose key it presents, when that system is enabled;
  a disabled system gets 403, any other key 401.\<close>

lemma authenticate_cases:
  assumes "settings_ok cfg" "auth_mode cfg = ''api_key''"
    and "inj_on fp (insert key (sys_api_key ` set (systems cfg)))"
  shows "s \<in> set (systems cfg) \<Longrightarrow> sys_api_key s = key \<Longrightarrow>
      authenticate fp (new_authenticator fp cfg) key = (if sys_enabled s then (sys_id s, 0) else ([], 403))"
    and "key \<notin> sys_api_key ` set (systems cfg) \<Longrightarrow> authenticate fp (new_authenticator fp cfg) key = ([], 401)"
proof -
  have ok: "systems_ok (systems cfg)"
    using assms(1,2) by (simp add: settings_ok_def)
  {
    assume s: "s \<in> set (systems cfg)" "sys_api_key s = key"
    have "find (\<lambda>s. fp (sys_api_key s) = fp key) (rev (systems cfg)) = Some s"
      using find_key[OF s(1) assms(3) _ s(2)] ok by (simp add: systems_ok_def)
    moreover have "find (\<lambda>t. sys_id t = sys_id s) (rev (systems cfg)) = Some s"
      using find_id[OF s(1)] ok by (simp add: systems_ok_def)
    moreover have "key \<noteq> []"
      using ok s by (auto simp: systems_ok_def)
    ultimately show "authenticate fp (new_authenticator fp cfg) key = (if sys_enabled s then (sys_id s, 0) else ([], 403))"
      using assms(2) by (simp add: authenticate_def new_authenticator_def foldl_add_system)
  }
  assume key: "key \<notin> sys_api_key ` set (systems cfg)"
  have "find (\<lambda>s. fp (sys_api_key s) = fp key) (rev (systems cfg)) = None"
    using assms(3) key unfolding find_None_iff by (metis imageI inj_on_def insertCI set_rev)
  then show "authenticate fp (new_authenticator fp cfg) key = ([], 401)"
    using assms(2) by (simp add: authenticate_def new_authenticator_def foldl_add_system)
qed

lemma add_policies_spec:
  "add_policies ps ss = Inr qs \<Longrightarrow> distinct (map sys_id ss) \<Longrightarrow>
     (\<forall>s \<in> set ss. sys_enabled s \<longrightarrow> (\<exists>pol. system_policy s = Inr pol \<and> qs (sys_id s) = Some pol))
     \<and> (\<forall>c. c \<notin> sys_id ` {s \<in> set ss. sys_enabled s} \<longrightarrow> qs c = ps c)"
proof (induction ps ss rule: add_policies.induct)
  case (1 ps)
  then show ?case by simp
next
  case (2 ps s ss)
  show ?case
  proof (cases "sys_enabled s")
    case False
    then show ?thesis
      using 2 by auto
  next
    case True
    then obtain pol where pol: "system_policy s = Inr pol" "add_policies (ps(sys_id s \<mapsto> pol)) ss = Inr qs"
      using "2.prems"(1) by (auto elim: rbind_InrE)
    note IH = "2.IH"(2)[OF _ pol(2)]
    have d: "distinct (map sys_id ss)" "sys_id s \<notin> sys_id ` set ss"
      using "2.prems"(2) by auto
    have "sys_id s \<notin> sys_id ` {t \<in> set ss. sys_enabled t}"
      using d(2) by auto
    then have q: "qs (sys_id s) = Some pol"
      using IH d(1) True by auto
    have rest: "qs c = ps c" if "c \<notin> sys_id ` {t \<in> set (s # ss). sys_enabled t}" for c
    proof -
      have "c \<noteq> sys_id s" "c \<notin> sys_id ` {t \<in> set ss. sys_enabled t}"
        using that True by auto
      then show ?thesis
        using IH d(1) True by simp
    qed
    have "\<exists>pol. system_policy t = Inr pol \<and> qs (sys_id t) = Some pol"
      if "t \<in> set (s # ss)" "sys_enabled t" for t
      using that q pol(1) IH d(1) True by auto
    then show ?thesis
      using rest by blast
  qed
qed

lemma known_kinds_spec:
  "known_kinds a ks = Inr b \<Longrightarrow> b k \<longleftrightarrow> a k \<or> kind_name k \<in> set ks"
proof (induction a ks rule: known_kinds.induct)
  case (1 allowed)
  then show ?case by simp
next
  case (2 allowed k' ks)
  then obtain x where x: "kind_of_string k' = Some x" "known_kinds (allowed(x := True)) ks = Inr b"
    by (auto split: option.splits)
  have "b k \<longleftrightarrow> (allowed(x := True)) k \<or> kind_name k \<in> set ks"
    by (rule "2.IH"[OF x])
  then show ?case
    using x(1) by (auto simp: kind_of_string_Some kind_name_inj)
qed

text \<open>A system's policy allows exactly the kinds it lists, or all when it lists none.\<close>

lemma system_policy_kinds:
  assumes "system_policy s = Inr pol"
  shows "allowed_kinds pol k \<longleftrightarrow> (case sys_mask_kinds s of None \<Rightarrow> True | Some ks \<Rightarrow> kind_name k \<in> set ks)"
    and "detokenization_allowed pol \<longleftrightarrow> sys_detokenization_allowed s \<noteq> Some False"
  using assms known_kinds_spec[of "\<lambda>_. False" _ _ k]
  by (auto simp: system_policy_def base_policy_def all_kinds_def Let_def rbind_Inr_iff split: option.splits)

lemma limited_consumer:
  assumes "build_consumer_limiter cfg now = Some l" "c \<in> set (limited_consumers cfg)"
  shows "l c = Some (new_token_bucket (consumer_rps cfg) (consumer_burst cfg) now)"
  using assms by (auto simp: build_consumer_limiter_def new_consumer_limiter_eq split: if_splits)

text \<open>Every caller that is let in has a policy of its own system and, when consumers are limited, a bucket.\<close>

lemma authenticated_consumer:
  assumes "settings_ok cfg" "auth_mode cfg = ''api_key''" "build_policies cfg = Inr ps"
    and "inj_on fp (insert key (sys_api_key ` set (systems cfg)))"
    and "authenticate fp (new_authenticator fp cfg) key = (c, 0)"
  shows "\<exists>s \<in> set (systems cfg). sys_enabled s \<and> sys_api_key s = key \<and> sys_id s = c
    \<and> (\<exists>pol. system_policy s = Inr pol \<and> ps c = Some pol) \<and> c \<in> set (limited_consumers cfg)"
proof -
  have "key \<in> sys_api_key ` set (systems cfg)"
    using authenticate_cases(2)[OF assms(1,2,4)] assms(5) by (cases "key \<in> sys_api_key ` set (systems cfg)") auto
  then obtain s where s: "s \<in> set (systems cfg)" "sys_api_key s = key"
    by auto
  then have e: "sys_enabled s" "sys_id s = c"
    using authenticate_cases(1)[OF assms(1,2,4) s] assms(5) by (simp_all split: if_splits)
  have "distinct (map sys_id (systems cfg))"
    using assms(1,2) by (simp add: settings_ok_def systems_ok_def)
  then have "\<exists>pol. system_policy s = Inr pol \<and> ps c = Some pol"
    using add_policies_spec assms(3) s(1) e unfolding build_policies_def by blast
  then show ?thesis
    using s e by (intro bexI[of _ s]) (auto simp: limited_consumers_def)
qed

end
