(* ===== verification/Http.thy ===== *)
theory Http
  imports Access Processor
begin

text \<open>
  The HTTP side: \<open>internal/requestmeta\<close>, \<open>internal/middleware\<close>, \<open>internal/health\<close>, \<open>internal/api\<close>,
  \<open>internal/observability/processor.go\<close> and the counters of \<open>metrics.go\<close>.  A handler is a
  computation on the exchange, which holds the response writer, the request's metadata, the
  limiters, the metrics, the log and the world of the Processor; a panic is the result
  \<open>Inl Panic\<close>.  The JSON decoder and encoder and the parser of media types are arguments.
\<close>

section \<open>The response writer\<close>

type_synonym headers = "string \<Rightarrow> string option"

record conn =
  hdrs :: headers
  sent :: "(nat \<times> headers) option"
  wire_body :: string

datatype writer = Conn conn | Recorder nat bool writer

definition new_status_recorder :: "writer \<Rightarrow> writer" where
  "new_status_recorder w = Recorder 200 False w"

text \<open>Of repeated calls of \<open>WriteHeader\<close> the first counts, on the connection as in the recorder.\<close>

primrec write_header :: "nat \<Rightarrow> writer \<Rightarrow> writer" where
  "write_header code (Conn c) = Conn (if sent c = None then c\<lparr>sent := Some (code, hdrs c)\<rparr> else c)"
| "write_header code (Recorder st wrote w) =
     (if wrote then Recorder st wrote w else Recorder code True (write_header code w))"

lemma size_write_header [simp]: "size (write_header code w) = size w"
  by (induction w) simp_all

function write_bytes :: "string \<Rightarrow> writer \<Rightarrow> writer" where
  "write_bytes b (Conn c) =
     Conn (c\<lparr>sent := (if sent c = None then Some (200, hdrs c) else sent c), wire_body := wire_body c @ b\<rparr>)"
| "write_bytes b (Recorder st wrote w) =
     (if wrote then Recorder st True (write_bytes b w)
      else Recorder 200 True (write_bytes b (write_header 200 w)))"
  by pat_completeness auto
termination by (relation "measure (\<lambda>(b, w). size w)") simp_all

primrec unwrap :: "writer \<Rightarrow> writer" where
  "unwrap (Conn c) = Conn c"
| "unwrap (Recorder st wrote w) = w"

primrec header_written :: "writer \<Rightarrow> bool" where
  "header_written (Conn c) = False"
| "header_written (Recorder st wrote w) = wrote"

primrec rec_status :: "writer \<Rightarrow> nat" where
  "rec_status (Conn c) = 200"
| "rec_status (Recorder st wrote w) = st"

primrec set_header :: "string \<Rightarrow> string \<Rightarrow> writer \<Rightarrow> writer" where
  "set_header k v (Conn c) = Conn (c\<lparr>hdrs := (hdrs c)(k \<mapsto> v)\<rparr>)"
| "set_header k v (Recorder st wrote w) = Recorder st wrote (set_header k v w)"

primrec conn_of :: "writer \<Rightarrow> conn" where
  "conn_of (Conn c) = c"
| "conn_of (Recorder st wrote w) = conn_of w"

text \<open>\<open>http.Error\<close>\<close>

definition newline :: string where
  "newline = [CHR 0x0A]"

definition error_page :: "string \<Rightarrow> nat \<Rightarrow> writer \<Rightarrow> writer" where
  "error_page msg code w =
     write_bytes (msg @ newline) (write_header code
       (set_header ''X-Content-Type-Options'' ''nosniff''
         (set_header ''Content-Type'' ''text/plain; charset=utf-8'' w)))"

definition write_plain :: "nat \<Rightarrow> string \<Rightarrow> writer \<Rightarrow> writer" where
  "write_plain st b w =
     write_bytes b (write_header st (set_header ''Content-Type'' ''text/plain; charset=utf-8'' w))"

section \<open>Requests and the exchange\<close>

text \<open>\<open>rq_limit\<close>, \<open>rq_id\<close> and \<open>rq_consumer\<close> are what middleware attaches to the body and to the context;
  \<open>rq_timer d\<close> is how many polls of the context a deadline \<open>d\<close> from now still lets pass.\<close>

record http_request =
  rq_method :: string
  rq_path :: string
  rq_header :: "string \<Rightarrow> string"
  rq_body :: string
  rq_limit :: "int option"
  rq_id :: string
  rq_consumer :: string
  rq_timer :: "int \<Rightarrow> nat option"

record request_meta =
  m_request_id :: string
  m_consumer_id :: string
  m_route :: string
  m_error_class :: string
  m_operation :: string

definition new_meta :: request_meta where
  "new_meta = \<lparr>m_request_id = [], m_consumer_id = [], m_route = [], m_error_class = [], m_operation = []\<rparr>"

record completion =
  l_request_id :: string
  l_method :: string
  l_route :: string
  l_status :: nat
  l_duration_ms :: int
  l_error_class :: string
  l_consumer_id :: string
  l_operation :: string

text \<open>The metrics: one label tuple for each increment of a counter, the gauge and the timeouts.\<close>

record metrics =
  http_requests :: "(string \<times> string \<times> string) list"
  http_in_flight :: int
  http_timeouts :: nat
  processor_calls :: "string list"

record 's exchange =
  x_writer :: writer
  x_meta :: "request_meta option"
  x_global :: "token_bucket option"
  x_consumers :: "consumer_limiter option"
  x_slots :: int
  x_metrics :: "metrics option"
  x_log :: "completion list"
  x_entropy :: "string option"
  x_ready :: bool
  x_world :: "'s world"

type_synonym 's handler = "http_request \<Rightarrow> ('s exchange, unit) sm"

definition on_writer :: "(writer \<Rightarrow> writer) \<Rightarrow> ('s exchange, unit) sm" where
  "on_writer f = (\<lambda>x. (Inr (), x\<lparr>x_writer := f (x_writer x)\<rparr>))"

definition on_meta :: "(request_meta \<Rightarrow> request_meta) \<Rightarrow> ('s exchange, unit) sm" where
  "on_meta f = (\<lambda>x. (Inr (), x\<lparr>x_meta := map_option f (x_meta x)\<rparr>))"

definition on_metrics :: "(metrics \<Rightarrow> metrics) \<Rightarrow> ('s exchange, unit) sm" where
  "on_metrics f = (\<lambda>x. (Inr (), x\<lparr>x_metrics := map_option f (x_metrics x)\<rparr>))"

definition on_world :: "('s world, 'a) sm \<Rightarrow> ('s exchange, 'a) sm" where
  "on_world m = (\<lambda>x. case m (x_world x) of (r, w) \<Rightarrow> (r, x\<lparr>x_world := w\<rparr>))"

definition set_error_class :: "string \<Rightarrow> ('s exchange, unit) sm" where
  "set_error_class c = on_meta (\<lambda>m. m\<lparr>m_error_class := c\<rparr>)"

definition http_error :: "string \<Rightarrow> nat \<Rightarrow> ('s exchange, unit) sm" where
  "http_error msg code = on_writer (error_page msg code)"

definition then_do :: "('x, unit) sm \<Rightarrow> ('x, 'a) sm \<Rightarrow> ('x, 'a) sm" where
  "then_do m k = mbind m (\<lambda>_. k)"

section \<open>Middleware\<close>

definition recover :: "'s handler \<Rightarrow> 's handler" where
  "recover next rq = (\<lambda>x.
     case next rq x of
       (Inr _, x') \<Rightarrow> (Inr (), x')
     | (Inl _, x') \<Rightarrow>
         then_do (set_error_class ''panic'')
           (if header_written (x_writer x') then ret () else http_error ''internal error'' 500) x')"

text \<open>\<open>int64(math.Ceil(delay.Seconds()))\<close>, at least one.\<close>

definition f_ceil :: "f64 \<Rightarrow> f64" where
  "f_ceil x = (case x of Fin r \<Rightarrow> Fin (of_int \<lceil>r\<rceil>) | _ \<Rightarrow> x)"

definition retry_after_seconds :: "int \<Rightarrow> int" where
  "retry_after_seconds delay =
     (let seconds = f_to_int64 (f_ceil (duration_seconds delay)) in if seconds < 1 then 1 else seconds)"

definition write_too_many_requests :: "int \<Rightarrow> string \<Rightarrow> ('s exchange, unit) sm" where
  "write_too_many_requests delay cls =
     then_do (set_error_class cls)
     (then_do (on_writer (set_header ''Retry-After'' (show_int (retry_after_seconds delay))))
       (http_error ''too many requests'' 429))"

text \<open>The semaphore: a slot is taken without waiting and given back on every way out.\<close>

definition sem_acquire :: "int \<Rightarrow> int \<Rightarrow> int option" where
  "sem_acquire limit slots = (if slots < limit then Some (slots + 1) else None)"

definition sem_release :: "int \<Rightarrow> int" where
  "sem_release slots = slots - 1"

definition limit_parallel :: "int \<Rightarrow> int \<Rightarrow> 's handler \<Rightarrow> 's handler" where
  "limit_parallel limit retry_after next rq = (\<lambda>x.
     case sem_acquire limit (x_slots x) of
       None \<Rightarrow> write_too_many_requests retry_after ''concurrency_limited'' x
     | Some n \<Rightarrow>
         (case next rq (x\<lparr>x_slots := n\<rparr>) of
            (r, x') \<Rightarrow> (r, x'\<lparr>x_slots := sem_release (x_slots x')\<rparr>)))"

definition with_timeout :: "nat option \<Rightarrow> ctx \<Rightarrow> ctx" where
  "with_timeout k c =
     (case k of
        None \<Rightarrow> c
      | Some n \<Rightarrow>
          if (case live c of None \<Rightarrow> True | Some m \<Rightarrow> n < m) then \<lparr>live = Some n, cause = ErrDeadlineExceeded\<rparr>
          else c)"

definition on_time :: "ctx \<Rightarrow> 's exchange \<Rightarrow> 's exchange" where
  "on_time c x = x\<lparr>x_world := (x_world x)\<lparr>w_ctx := c\<rparr>\<rparr>"

definition limit_time :: "int \<Rightarrow> 's handler \<Rightarrow> 's handler" where
  "limit_time d next rq = (\<lambda>x.
     let c = w_ctx (x_world x) in
     case next rq (on_time (with_timeout (rq_timer rq d) c) x) of (r, x') \<Rightarrow> (r, on_time c x'))"

definition limit_body :: "int \<Rightarrow> 's handler \<Rightarrow> 's handler" where
  "limit_body n next rq = next (rq\<lparr>rq_limit := Some n\<rparr>)"

definition limit_global :: "'s handler \<Rightarrow> 's handler" where
  "limit_global next rq = (\<lambda>x.
     case x_global x of
       None \<Rightarrow> next rq x
     | Some b \<Rightarrow>
         mbind (on_world time_now) (\<lambda>now x.
           (case bucket_allow b now of
              ((ok, delay), b') \<Rightarrow>
                if \<not> ok then write_too_many_requests delay ''rate_limited'' (x\<lparr>x_global := Some b'\<rparr>)
                else next rq (x\<lparr>x_global := Some b'\<rparr>))) x)"

definition limit_consumer :: "'s handler \<Rightarrow> 's handler" where
  "limit_consumer next rq = (\<lambda>x.
     case x_consumers x of
       None \<Rightarrow> next rq x
     | Some l \<Rightarrow>
         if l (rq_consumer rq) = None then next rq x
         else mbind (on_world time_now) (\<lambda>now x.
           (case limiter_allow l (rq_consumer rq) now of
              ((ok, delay), l') \<Rightarrow>
                if \<not> ok then write_too_many_requests delay ''rate_limited'' (x\<lparr>x_consumers := Some l'\<rparr>)
                else next rq (x\<lparr>x_consumers := Some l'\<rparr>))) x)"

definition valid_id_char :: "char \<Rightarrow> bool" where
  "valid_id_char c \<longleftrightarrow>
     (CHR ''a'' \<le> c \<and> c \<le> CHR ''z'') \<or> (CHR ''A'' \<le> c \<and> c \<le> CHR ''Z'')
     \<or> (CHR ''0'' \<le> c \<and> c \<le> CHR ''9'') \<or> c = CHR ''.'' \<or> c = CHR ''_'' \<or> c = CHR ''-''"

definition valid_request_id :: "string \<Rightarrow> bool" where
  "valid_request_id i = (if length i = 0 \<or> length i > 64 then False else list_all valid_id_char i)"

definition hex_digit :: "nat \<Rightarrow> char" where
  "hex_digit n = ''0123456789abcdef'' ! n"

definition hex_encode :: "string \<Rightarrow> string" where
  "hex_encode bs = concat (map (\<lambda>b. [hex_digit (byte b div 16), hex_digit (byte b mod 16)]) bs)"

text \<open>\<open>x_entropy\<close>: the 16 bytes the entropy source gives, or its failure.\<close>

definition new_request_id :: "string option \<Rightarrow> string res" where
  "new_request_id entropy =
     (case entropy of None \<Rightarrow> Inl (ErrOther ''entropy'') | Some bs \<Rightarrow> Inr (hex_encode (take 16 bs)))"

definition with_request_id :: "'s handler \<Rightarrow> 's handler" where
  "with_request_id next rq = (\<lambda>x.
     let i = rq_header rq ''X-Request-ID'' in
     case (if valid_request_id i then Inr i else new_request_id (x_entropy x)) of
       Inl _ \<Rightarrow> http_error ''internal error'' 500 x
     | Inr i \<Rightarrow>
         then_do (on_writer (set_header ''X-Request-ID'' i))
         (then_do (on_meta (\<lambda>m. m\<lparr>m_request_id := i\<rparr>))
           (next (rq\<lparr>rq_id := i\<rparr>))) x)"

definition route_metadata :: "string \<Rightarrow> 's handler \<Rightarrow> 's handler" where
  "route_metadata r next rq = then_do (on_meta (\<lambda>m. m\<lparr>m_route := r\<rparr>)) (next rq)"

definition status_text :: "nat \<Rightarrow> string" where
  "status_text st = (if st = 401 then ''Unauthorized'' else if st = 403 then ''Forbidden'' else [])"

definition with_auth :: "(string \<Rightarrow> string) \<Rightarrow> authenticator \<Rightarrow> 's handler \<Rightarrow> 's handler" where
  "with_auth fp a next rq =
     (case authenticate fp a (rq_header rq ''X-API-Key'') of
        (c, st) \<Rightarrow>
          if st \<noteq> 0 then http_error (status_text st) st
          else then_do (on_meta (\<lambda>m. m\<lparr>m_consumer_id := c\<rparr>)) (next (rq\<lparr>rq_consumer := c\<rparr>)))"

definition error_class :: "string \<Rightarrow> nat \<Rightarrow> string" where
  "error_class special st =
     (if special \<noteq> [] then special
      else if st < 400 then ''none'' else if st < 500 then ''client_error'' else ''server_error'')"

definition route_of :: "request_meta option \<Rightarrow> string" where
  "route_of m = (case m of Some m \<Rightarrow> (if m_route m \<noteq> [] then m_route m else ''unmatched'') | None \<Rightarrow> ''unmatched'')"

definition completion_of :: "http_request \<Rightarrow> request_meta \<Rightarrow> nat \<Rightarrow> int \<Rightarrow> completion" where
  "completion_of rq m st d =
     \<lparr>l_request_id = m_request_id m, l_method = rq_method rq, l_route = route_of (Some m), l_status = st,
      l_duration_ms = go_quot d 1000000, l_error_class = error_class (m_error_class m) st,
      l_consumer_id = m_consumer_id m, l_operation = m_operation m\<rparr>"

text \<open>The record is emitted when the chain returns; a panic would pass it by.\<close>

definition completion_logger :: "'s handler \<Rightarrow> 's handler" where
  "completion_logger next rq =
     mbind (on_world time_now) (\<lambda>start x.
       case next rq (x\<lparr>x_writer := new_status_recorder (x_writer x), x_meta := Some new_meta\<rparr>) of
         (Inl e, x') \<Rightarrow> (Inl e, x'\<lparr>x_writer := unwrap (x_writer x')\<rparr>)
       | (Inr _, x') \<Rightarrow>
           mbind (on_world time_now) (\<lambda>stop y.
             (Inr (), y\<lparr>x_log := x_log y @
                 [completion_of rq (case x_meta y of Some m \<Rightarrow> m | None \<Rightarrow> new_meta) (rec_status (x_writer y))
                   (time_sub stop start)],
               x_writer := unwrap (x_writer y)\<rparr>)) x')"

section \<open>Metrics\<close>

definition normalize_method :: "string \<Rightarrow> string" where
  "normalize_method m = (if m \<in> {''GET'', ''POST''} then m else ''OTHER'')"

definition normalize_route :: "string \<Rightarrow> string" where
  "normalize_route r =
     (if r \<in> {''POST /process'', ''GET /metrics'', ''GET /healthz'', ''GET /readyz''} then r else ''unmatched'')"

definition normalize_status :: "nat \<Rightarrow> string" where
  "normalize_status st = (if 100 \<le> st \<and> st \<le> 599 then show_nat st else ''unknown'')"

definition normalize_outcome :: "string \<Rightarrow> string" where
  "normalize_outcome r = (if r \<in> {''success'', ''unavailable'', ''timeout''} then r else ''error'')"

definition observe_http_request :: "string \<Rightarrow> string \<Rightarrow> nat \<Rightarrow> 'm metrics_scheme \<Rightarrow> 'm metrics_scheme" where
  "observe_http_request m r st ms =
     ms\<lparr>http_requests := http_requests ms @ [(normalize_method m, normalize_route r, normalize_status st)]\<rparr>"

definition observe_processor :: "string \<Rightarrow> 'm metrics_scheme \<Rightarrow> 'm metrics_scheme" where
  "observe_processor r ms = ms\<lparr>processor_calls := processor_calls ms @ [normalize_outcome r]\<rparr>"

definition move_in_flight :: "int \<Rightarrow> 'm metrics_scheme \<Rightarrow> 'm metrics_scheme" where
  "move_in_flight d ms = ms\<lparr>http_in_flight := http_in_flight ms + d\<rparr>"

definition inc_http_timeout :: "'m metrics_scheme \<Rightarrow> 'm metrics_scheme" where
  "inc_http_timeout ms = ms\<lparr>http_timeouts := Suc (http_timeouts ms)\<rparr>"

definition with_metrics :: "'s handler \<Rightarrow> 's handler" where
  "with_metrics next rq = (\<lambda>x.
     if x_metrics x = None then next rq x
     else
       then_do (on_metrics (move_in_flight 1)) (mbind (on_world time_now) (\<lambda>_ x.
         case next rq (x\<lparr>x_writer := new_status_recorder (x_writer x)\<rparr>) of
           (Inl e, x') \<Rightarrow>
             (Inl e, snd (on_metrics (move_in_flight (- 1)) (x'\<lparr>x_writer := unwrap (x_writer x')\<rparr>)))
         | (Inr _, x') \<Rightarrow>
             mbind (on_world time_now) (\<lambda>_ y.
               then_do (on_metrics (observe_http_request (rq_method rq) (route_of (x_meta y)) (rec_status (x_writer y))))
               (then_do (if map_option m_error_class (x_meta y) = Some ''timeout''
                         then on_metrics inc_http_timeout else ret ())
               (then_do (on_metrics (move_in_flight (- 1))) (on_writer unwrap))) y) x')) x)"

text \<open>\<open>instrumentedProcessor\<close>: the outcome of a panic is the initial \<open>error\<close>; the metrics see it in either case.\<close>

definition classify_outcome :: "ctx \<Rightarrow> 'a res \<Rightarrow> string" where
  "classify_outcome c r =
     (case r of
        Inr _ \<Rightarrow> ''success''
      | Inl e \<Rightarrow>
          if e = ErrUnavailable then ''unavailable''
          else if e = ErrDeadlineExceeded then ''timeout''
          else if e = ErrCanceled \<and> is_done c then ''timeout''
          else ''error'')"

type_synonym 's processor = "process_request \<Rightarrow> ('s exchange, string) sm"

definition plain_processor :: "(process_request \<Rightarrow> ('s world, string) sm) \<Rightarrow> 's processor" where
  "plain_processor proc req = on_world (proc req)"

definition instrumented_processor :: "'s processor \<Rightarrow> 's processor" where
  "instrumented_processor proc req =
     mbind (on_world time_now) (\<lambda>_.
     mbind (on_meta (\<lambda>m. m\<lparr>m_operation := ''process''\<rparr>)) (\<lambda>_ x.
       case proc req x of
         (r, x') \<Rightarrow>
           then_do (on_metrics (observe_processor
               (if r = Inl Panic then ''error'' else classify_outcome (w_ctx (x_world x')) r)))
             (mbind (on_world time_now) (\<lambda>_. lift r)) x'))"

definition mock_processor :: "process_request \<Rightarrow> ('s world, string) sm" where
  "mock_processor req = ret (payload req)"

section \<open>Health\<close>

definition readiness_handler :: "'s handler" where
  "readiness_handler rq = (\<lambda>x.
     (if x_ready x then on_writer (write_plain 200 (''ready'' @ newline))
      else on_writer (write_plain 503 (''not ready'' @ newline))) x)"

definition liveness_handler :: "'s handler" where
  "liveness_handler rq = on_writer (write_plain 200 (''ok'' @ newline))"

section \<open>The endpoint\<close>

record process_dto =
  dto_payload :: "string option"
  dto_payload_id :: "string option"
  dto_mask_kinds :: "string list option"

text \<open>What the first and the second call of \<open>Decode\<close> give; the second is only made after a value.\<close>

datatype json_error = TooLarge | Malformed | EndOfInput

record codec =
  media_type :: "string \<Rightarrow> string option"
  json_value :: "int option \<Rightarrow> string \<Rightarrow> json_error + process_dto"
  json_tail :: "int option \<Rightarrow> string \<Rightarrow> json_error option"
  json_response :: "string \<Rightarrow> string"

definition is_json_content_type :: "codec \<Rightarrow> string \<Rightarrow> bool" where
  "is_json_content_type cd ct \<longleftrightarrow> media_type cd ct = Some ''application/json''"

definition refuse_json :: "json_error option \<Rightarrow> string \<times> nat" where
  "refuse_json e = (if e = Some TooLarge then (''request too large'', 413) else (''invalid json'', 400))"

definition decode_request :: "codec \<Rightarrow> http_request \<Rightarrow> (string \<times> nat) + process_dto" where
  "decode_request cd rq =
     (case json_value cd (rq_limit rq) (rq_body rq) of
        Inl e \<Rightarrow> Inl (refuse_json (Some e))
      | Inr dto \<Rightarrow>
          let tl_err = json_tail cd (rq_limit rq) (rq_body rq) in
          if tl_err \<noteq> Some EndOfInput then Inl (refuse_json tl_err)
          else if dto_payload dto = None then Inl (''missing payload'', 400)
          else if dto_payload_id dto = None then Inl (''missing payload_id'', 400)
          else if dto_payload_id dto = Some [] then Inl (''empty payload_id'', 400)
          else Inr dto)"

definition mask_kinds_value :: "string list option \<Rightarrow> string list" where
  "mask_kinds_value ks = (case ks of None \<Rightarrow> [] | Some ks \<Rightarrow> ks)"

definition request_of :: "http_request \<Rightarrow> process_dto \<Rightarrow> process_request" where
  "request_of rq dto =
     \<lparr>payload = the (dto_payload dto), req_payload_id = the (dto_payload_id dto), consumer_id = rq_consumer rq,
      req_mask_kinds = mask_kinds_value (dto_mask_kinds dto), req_mask_kinds_set = (dto_mask_kinds dto \<noteq> None)\<rparr>"

text \<open>The error class (empty: none is set), the text and the status for a Processor's error.\<close>

definition error_answer :: "err \<Rightarrow> string \<times> string \<times> nat" where
  "error_answer e =
     (if e = ErrUnavailable \<or> e = ErrDetectorUnavailable \<or> e = ErrStoreUnavailable
      then (''processor_unavailable'', ''processor unavailable'', 503)
      else if e = ErrDeadlineExceeded then (''timeout'', ''request timed out'', 503)
      else if e = ErrInvalidMaskKind then (''invalid_mask_kind'', ''invalid mask kind'', 400)
      else if e = ErrPolicyRejected then (''policy_rejected'', ''policy rejected'', 403)
      else if e = ErrDemaskingDisabled then (''demasking_disabled'', ''detokenization disabled'', 403)
      else ([], ''internal error'', 500))"

definition process_handler :: "codec \<Rightarrow> 's processor \<Rightarrow> 's handler" where
  "process_handler cd proc rq =
     (if \<not> is_json_content_type cd (rq_header rq ''Content-Type'')
      then http_error ''unsupported media type'' 400
      else case decode_request cd rq of
        Inl (msg, code) \<Rightarrow> http_error msg code
      | Inr dto \<Rightarrow> (\<lambda>x.
          case proc (request_of rq dto) x of
            (Inl e, x') \<Rightarrow>
              if e = Panic then (Inl e, x')
              else (case error_answer e of
                (cls, msg, code) \<Rightarrow>
                  then_do (if cls = [] then ret () else set_error_class cls) (http_error msg code) x')
          | (Inr result, x') \<Rightarrow>
              then_do (on_writer (set_header ''Content-Type'' ''application/json''))
                (on_writer (write_bytes (json_response cd result))) x'))"

section \<open>The chain\<close>

text \<open>\<open>http.ServeMux\<close> with patterns of a method and a path; GET also takes HEAD.  Paths are taken as
  already cleaned.\<close>

definition pattern_matches :: "string \<Rightarrow> string \<Rightarrow> http_request \<Rightarrow> bool" where
  "pattern_matches m p rq \<longleftrightarrow> rq_path rq = p \<and> (rq_method rq = m \<or> m = ''GET'' \<and> rq_method rq = ''HEAD'')"

definition serve_mux :: "(string \<times> string \<times> 's handler) list \<Rightarrow> 's handler" where
  "serve_mux hs rq =
     (case find (\<lambda>(m, p, h). pattern_matches m p rq) hs of
        Some (m, p, h) \<Rightarrow> h rq
      | None \<Rightarrow>
          if \<exists>(m, p, h) \<in> set hs. p = rq_path rq then http_error ''Method Not Allowed'' 405
          else http_error ''404 page not found'' 404)"

definition process_route :: string where
  "process_route = ''POST /process''"

definition process_chain :: "codec \<Rightarrow> (string \<Rightarrow> string) \<Rightarrow> config \<Rightarrow> 's processor \<Rightarrow> 's handler" where
  "process_chain cd fp cfg proc =
     route_metadata process_route
     (limit_global
     (with_auth fp (new_authenticator fp cfg)
     (limit_consumer
     (limit_parallel (parallel_limit cfg) (overload_retry_after cfg)
     (limit_time (processing_timeout cfg)
     (limit_body (body_limit cfg)
     (process_handler cd proc)))))))"

definition app_processor :: "config \<Rightarrow> (process_request \<Rightarrow> ('s world, string) sm) \<Rightarrow> 's processor" where
  "app_processor cfg proc =
     (if metrics_enabled cfg then instrumented_processor (plain_processor proc) else plain_processor proc)"

text \<open>\<open>page\<close>: the handler of the Prometheus library.\<close>

definition runtime_handler ::
  "codec \<Rightarrow> (string \<Rightarrow> string) \<Rightarrow> config \<Rightarrow> 's handler \<Rightarrow> (process_request \<Rightarrow> ('s world, string) sm) \<Rightarrow> 's handler"
where
  "runtime_handler cd fp cfg page proc =
     completion_logger (with_metrics (recover (with_request_id (serve_mux
       ([(''POST'', ''/process'',
          process_chain cd fp cfg
            (app_processor cfg proc)),
         (''GET'', ''/healthz'', route_metadata ''GET /healthz'' liveness_handler),
         (''GET'', ''/readyz'', route_metadata ''GET /readyz'' readiness_handler)]
        @ (if metrics_enabled cfg then [(''GET'', ''/metrics'', route_metadata ''GET /metrics'' page)] else []))))))"

text \<open>The state a runtime starts with.\<close>

definition new_metrics :: metrics where
  "new_metrics = \<lparr>http_requests = [], http_in_flight = 0, http_timeouts = 0, processor_calls = []\<rparr>"

definition new_runtime :: "config \<Rightarrow> int \<Rightarrow> conn \<Rightarrow> 's world \<Rightarrow> 's exchange" where
  "new_runtime cfg now c w =
     \<lparr>x_writer = Conn c, x_meta = None, x_global = build_global_limiter cfg now,
      x_consumers = build_consumer_limiter cfg now, x_slots = 0,
      x_metrics = (if metrics_enabled cfg then Some new_metrics else None), x_log = [], x_entropy = None,
      x_ready = True, x_world = w\<rparr>"

end
