(* ===== verification/Server.thy ===== *)
theory Server
  imports Http
begin

text \<open>
  What the chain of \<open>internal/app/app.go\<close> promises: the contract of a handler, kept by every
  middleware; then the semaphore under concurrent requests and \<open>internal/server/lifecycle.go\<close>.
\<close>

section \<open>The contract of a handler\<close>

text \<open>Recorders agree with the connection; a handler gives back every slot, every recorder and the gauge,
  and writes no record of its own.\<close>

primrec agrees :: "writer \<Rightarrow> bool" where
  "agrees (Conn c) \<longleftrightarrow> True"
| "agrees (Recorder st wrote w) \<longleftrightarrow> agrees w \<and> (wrote \<longleftrightarrow> sent (conn_of w) \<noteq> None)
     \<and> st = (case sent (conn_of w) of None \<Rightarrow> 200 | Some (s, _) \<Rightarrow> s)"

primrec depth :: "writer \<Rightarrow> nat" where
  "depth (Conn c) = 0"
| "depth (Recorder st wrote w) = Suc (depth w)"

definition keeps :: "'s exchange \<Rightarrow> 's exchange \<Rightarrow> bool" where
  "keeps x x' \<longleftrightarrow> (agrees (x_writer x) \<longrightarrow> agrees (x_writer x')) \<and> depth (x_writer x') = depth (x_writer x)
     \<and> (sent (conn_of (x_writer x)) \<noteq> None \<longrightarrow> sent (conn_of (x_writer x')) \<noteq> None)
     \<and> x_slots x' = x_slots x \<and> x_log x' = x_log x \<and> x_ready x' = x_ready x \<and> x_entropy x' = x_entropy x
     \<and> (x_meta x' = None \<longleftrightarrow> x_meta x = None)
     \<and> map_option http_in_flight (x_metrics x') = map_option http_in_flight (x_metrics x)"

definition keeping :: "('s exchange, 'a) sm \<Rightarrow> bool" where
  "keeping m \<longleftrightarrow> (\<forall>x. keeps x (snd (m x)))"

named_theorems keep "computations that keep the handler's contract"

lemma keeps_refl [simp]: "keeps x x"
  by (simp add: keeps_def)

lemma keeps_trans: "keeps x y \<Longrightarrow> keeps y z \<Longrightarrow> keeps x z"
  by (simp add: keeps_def)

lemma keepingD: "keeping m \<Longrightarrow> m x = (r, x') \<Longrightarrow> keeps x x'"
  by (metis keeping_def snd_conv)

lemma keepingI: "(\<And>x r x'. m x = (r, x') \<Longrightarrow> keeps x x') \<Longrightarrow> keeping m"
  by (simp add: keeping_def) (metis prod.collapse)

lemma keeping_mbind [keep]:
  assumes "keeping m" "\<And>a. keeping (f a)"
  shows "keeping (mbind m f)"
proof (rule keepingI)
  fix x r x'
  assume r: "mbind m f x = (r, x')"
  obtain q y where q: "m x = (q, y)"
    by fastforce
  have "keeps y x'"
    using r q keepingD[OF assms(2)] by (cases q) (auto simp: mbind_def)
  then show "keeps x x'"
    using keeps_trans keepingD[OF assms(1) q] by blast
qed

lemma keeping_then [keep]: "keeping m \<Longrightarrow> keeping k \<Longrightarrow> keeping (then_do m k)"
  unfolding then_do_def by (rule keeping_mbind)

lemma keeping_ret [keep]: "keeping (ret a)"
  by (simp add: keeping_def ret_def)

lemma keeping_lift [keep]: "keeping (lift a)"
  by (simp add: keeping_def lift_def)

lemma keeping_if [keep]: "keeping a \<Longrightarrow> keeping b \<Longrightarrow> keeping (if c then a else b)"
  by simp

section \<open>The response writer\<close>

lemma conn_of_set_header: "conn_of (set_header k v w) = (conn_of w)\<lparr>hdrs := (hdrs (conn_of w))(k \<mapsto> v)\<rparr>"
  by (induction w) (simp_all add: fun_upd_def)

lemma agrees_set_header [simp]: "agrees (set_header k v w) = agrees w"
  by (induction w) (simp_all add: conn_of_set_header)

lemma depth_set_header [simp]: "depth (set_header k v w) = depth w"
  by (induction w) simp_all

text \<open>On writers that agree, a call reaches the connection.\<close>

lemma conn_of_write_header:
  "agrees w \<Longrightarrow> conn_of (write_header code w) =
     (if sent (conn_of w) = None then (conn_of w)\<lparr>sent := Some (code, hdrs (conn_of w))\<rparr> else conn_of w)"
  by (induction w) auto

lemma agrees_write_header: "agrees w \<Longrightarrow> agrees (write_header code w)"
  by (induction w) (auto simp: conn_of_write_header)

lemma depth_write_header [simp]: "depth (write_header code w) = depth w"
  by (induction w) simp_all

lemma conn_of_write_bytes:
  "agrees w \<Longrightarrow> conn_of (write_bytes b w) =
     (conn_of w)\<lparr>sent := (if sent (conn_of w) = None then Some (200, hdrs (conn_of w)) else sent (conn_of w)),
       wire_body := wire_body (conn_of w) @ b\<rparr>"
  by (induction b w rule: write_bytes.induct) (auto simp: agrees_write_header conn_of_write_header)

lemma agrees_write_bytes: "agrees w \<Longrightarrow> agrees (write_bytes b w)"
  by (induction b w rule: write_bytes.induct)
    (auto simp: agrees_write_header conn_of_write_bytes conn_of_write_header split: option.splits)

lemma depth_write_bytes [simp]: "depth (write_bytes b w) = depth w"
  by (induction b w rule: write_bytes.induct) simp_all

text \<open>Without the agreement a status once sent is still never lost.\<close>

lemma sent_write_header: "sent (conn_of w) \<noteq> None \<Longrightarrow> sent (conn_of (write_header code w)) = sent (conn_of w)"
  by (induction w) auto

lemma sent_write_bytes: "sent (conn_of w) \<noteq> None \<Longrightarrow> sent (conn_of (write_bytes b w)) = sent (conn_of w)"
  by (induction b w rule: write_bytes.induct) (auto simp: sent_write_header)

lemma writer_of_conn: "depth w = 0 \<Longrightarrow> w = Conn (conn_of w)"
  by (cases w) simp_all

lemma rec_status_agrees:
  "agrees w \<Longrightarrow> 0 < depth w \<Longrightarrow> rec_status w = (case sent (conn_of w) of None \<Rightarrow> 200 | Some (s, _) \<Rightarrow> s)"
  "agrees w \<Longrightarrow> 0 < depth w \<Longrightarrow> header_written w \<longleftrightarrow> sent (conn_of w) \<noteq> None"
  by (cases w; simp)+

lemma unwrap_simps:
  "0 < depth w \<Longrightarrow> depth (unwrap w) = depth w - 1"
  "conn_of (unwrap w) = conn_of w"
  "agrees w \<Longrightarrow> agrees (unwrap w)"
  by (cases w; simp)+

section \<open>Building blocks keep the contract\<close>

lemma keeping_set_header [keep]: "keeping (on_writer (set_header k v))"
  by (simp add: keeping_def keeps_def on_writer_def conn_of_set_header)

lemma keeping_write_bytes [keep]: "keeping (on_writer (write_bytes b))"
  by (simp add: keeping_def keeps_def on_writer_def agrees_write_bytes sent_write_bytes)

lemma keeping_error [keep]: "keeping (http_error msg code)"
  by (simp add: keeping_def keeps_def http_error_def on_writer_def error_page_def agrees_write_bytes
      agrees_write_header sent_write_bytes sent_write_header conn_of_set_header)

lemma keeping_plain [keep]: "keeping (on_writer (write_plain st b))"
  by (simp add: keeping_def keeps_def on_writer_def write_plain_def agrees_write_bytes
      agrees_write_header sent_write_bytes sent_write_header conn_of_set_header)

lemma keeping_meta [keep]: "keeping (on_meta f)"
  by (simp add: keeping_def keeps_def on_meta_def)

lemma keeping_error_class [keep]: "keeping (set_error_class c)"
  unfolding set_error_class_def by (rule keep)

lemma keeping_metrics: "(\<And>m. http_in_flight (f m) = http_in_flight m) \<Longrightarrow> keeping (on_metrics f)"
  by (simp add: keeping_def keeps_def on_metrics_def option.map_comp comp_def)

lemma keeping_observe [keep]:
  "keeping (on_metrics (observe_http_request m r st))"
  "keeping (on_metrics (observe_processor out))"
  "keeping (on_metrics inc_http_timeout)"
  by (rule keeping_metrics, simp add: observe_http_request_def observe_processor_def inc_http_timeout_def)+

lemma keeping_world [keep]: "keeping (on_world m)"
  by (simp add: keeping_def keeps_def on_world_def split: prod.split)

lemma keeping_too_many [keep]: "keeping (write_too_many_requests delay cls)"
  unfolding write_too_many_requests_def by (intro keep)

section \<open>Handlers and middleware keep the contract\<close>

locale tame_handler =
  fixes h :: "'s handler"
  assumes keep_h: "keeping (h rq)"
begin

lemma keep_route_metadata: "keeping (route_metadata r h rq)"
  unfolding route_metadata_def by (intro keep keep_h)

lemma keep_with_auth: "keeping (with_auth fp a h rq)"
  unfolding with_auth_def by (auto intro!: keep keep_h split: prod.split)

lemma keep_limit_body: "keeping (limit_body n h rq)"
  unfolding limit_body_def by (rule keep_h)

lemma keep_limit_time: "keeping (limit_time d h rq)"
proof (rule keepingI)
  fix x r x'
  assume "limit_time d h rq x = (r, x')"
  then obtain c c' y where y: "h rq (on_time c x) = (r, y)" "x' = on_time c' y"
    by (auto simp: limit_time_def Let_def split: prod.splits)
  have "keeps (on_time c x) y"
    by (rule keepingD[OF keep_h y(1)])
  then show "keeps x x'"
    unfolding y(2) by (simp add: keeps_def on_time_def)
qed

lemma keep_limit_parallel: "keeping (limit_parallel limit retry h rq)"
proof (rule keepingI)
  fix x r x'
  assume run: "limit_parallel limit retry h rq x = (r, x')"
  show "keeps x x'"
  proof (cases "sem_acquire limit (x_slots x)")
    case None
    then show ?thesis
      using run keepingD[OF keeping_too_many] by (simp add: limit_parallel_def)
  next
    case (Some n)
    then obtain y where y: "h rq (x\<lparr>x_slots := n\<rparr>) = (r, y)" "x' = y\<lparr>x_slots := sem_release (x_slots y)\<rparr>"
      using run by (auto simp: limit_parallel_def split: prod.splits)
    have "n = x_slots x + 1"
      using Some by (simp add: sem_acquire_def split: if_splits)
    then show ?thesis
      using keepingD[OF keep_h y(1)] unfolding y(2) by (simp add: keeps_def sem_release_def)
  qed
qed

text \<open>The limiters update their buckets, which the contract leaves free.\<close>

lemma keep_after:
  assumes "keeping m" "\<And>a. x_writer (f a) = x_writer a \<and> x_slots (f a) = x_slots a \<and> x_log (f a) = x_log a
      \<and> x_ready (f a) = x_ready a \<and> x_entropy (f a) = x_entropy a \<and> x_meta (f a) = x_meta a \<and> x_metrics (f a) = x_metrics a"
  shows "keeping (\<lambda>x. m (f x))"
proof -
  have "keeps x y \<longleftrightarrow> keeps (f x) y" for x y
    by (simp add: keeps_def assms(2))
  moreover have "keeps (f x) (snd (m (f x)))" for x
    using assms(1) by (simp add: keeping_def)
  ultimately show ?thesis
    unfolding keeping_def by blast
qed

lemma keep_limit_global: "keeping (limit_global h rq)"
proof (rule keepingI)
  fix x r x'
  assume run: "limit_global h rq x = (r, x')"
  have step: "keeping (\<lambda>x. case bucket_allow b now of ((ok, delay), b') \<Rightarrow>
      if \<not> ok then write_too_many_requests delay ''rate_limited'' (x\<lparr>x_global := Some b'\<rparr>)
      else h rq (x\<lparr>x_global := Some b'\<rparr>))" for b now
  proof -
    obtain ok delay after where e: "bucket_allow b now = ((ok, delay), after)"
      by (metis surj_pair)
    show ?thesis
      by (cases ok) (simp_all add: e keep_after[OF keep_h] keep_after[OF keeping_too_many])
  qed
  show "keeps x x'"
  proof (cases "x_global x")
    case None
    then show ?thesis
      using run keepingD[OF keep_h] by (simp add: limit_global_def)
  next
    case (Some b)
    then show ?thesis
      using run keepingD[OF keeping_mbind[OF keeping_world step]] by (simp add: limit_global_def)
  qed
qed

lemma keep_limit_consumer: "keeping (limit_consumer h rq)"
proof (rule keepingI)
  fix x r x'
  assume run: "limit_consumer h rq x = (r, x')"
  have step: "keeping (\<lambda>x. case limiter_allow l c now of ((ok, delay), l') \<Rightarrow>
      if \<not> ok then write_too_many_requests delay ''rate_limited'' (x\<lparr>x_consumers := Some l'\<rparr>)
      else h rq (x\<lparr>x_consumers := Some l'\<rparr>))" for l c now
  proof -
    obtain ok delay after where e: "limiter_allow l c now = ((ok, delay), after)"
      by (metis surj_pair)
    show ?thesis
      by (cases ok) (simp_all add: e keep_after[OF keep_h] keep_after[OF keeping_too_many])
  qed
  consider "x_consumers x = None \<or> the (x_consumers x) (rq_consumer rq) = None"
    | l where "x_consumers x = Some l" "l (rq_consumer rq) \<noteq> None"
    by (cases "x_consumers x") auto
  then show "keeps x x'"
  proof cases
    case 1
    then show ?thesis
      using run keepingD[OF keep_h] by (cases "x_consumers x") (simp_all add: limit_consumer_def)
  next
    case 2
    then obtain b where "l (rq_consumer rq) = Some b"
      by auto
    then show ?thesis
      using run 2(1) keepingD[OF keeping_mbind[OF keeping_world step]] by (simp add: limit_consumer_def)
  qed
qed

lemma keep_with_request_id: "keeping (with_request_id h rq)"
proof (rule keepingI)
  fix x r x'
  assume "with_request_id h rq x = (r, x')"
  then show "keeps x x'"
    by (auto simp: with_request_id_def Let_def split: sum.splits if_splits
        intro: keepingD[OF keeping_error] keepingD[OF keeping_then[OF keeping_set_header keeping_then[OF keeping_meta keep_h]]])
qed

text \<open>Recovery turns a panic into an answer.\<close>

lemma keep_recover: "keeping (recover h rq)"
proof (rule keepingI)
  fix x r x'
  assume run: "recover h rq x = (r, x')"
  obtain q y where y: "h rq x = (q, y)"
    by fastforce
  have "keeping (then_do (set_error_class ''panic'') (if b then ret () else http_error ''internal error'' 500))" for b :: bool
    by (intro keep)
  then have "keeps y x'"
    using run y by (cases q) (auto simp: recover_def intro: keepingD)
  then show "keeps x x'"
    using keeps_trans keepingD[OF keep_h y] by blast
qed

lemma recover_returns: "fst (recover h rq x) = Inr ()"
  by (auto simp: recover_def then_do_def mbind_def set_error_class_def on_meta_def ret_def http_error_def on_writer_def
      split: prod.split sum.split)

end

lemmas tame_layers =
  tame_handler.keep_route_metadata tame_handler.keep_with_auth tame_handler.keep_limit_body tame_handler.keep_limit_time
  tame_handler.keep_limit_parallel tame_handler.keep_limit_global tame_handler.keep_limit_consumer
  tame_handler.keep_with_request_id tame_handler.keep_recover

lemmas tame_layer [intro] = tame_layers[THEN tame_handler.intro]

interpretation liveness: tame_handler liveness_handler
  by unfold_locales (auto simp: liveness_handler_def intro: keep)

interpretation readiness: tame_handler readiness_handler
proof
  show "keeping (readiness_handler rq)" for rq :: http_request
    by (rule keepingI) (auto simp: readiness_handler_def dest: keepingD[OF keeping_plain] split: if_splits)
qed

lemma keeping_plain_processor: "keeping (plain_processor proc req)"
  unfolding plain_processor_def by (rule keep)

lemma keeping_instrumented:
  assumes "keeping (proc req)"
  shows "keeping (instrumented_processor proc req)"
proof -
  let ?after = "\<lambda>r x'. then_do (on_metrics (observe_processor
      (if r = Inl Panic then ''error'' else classify_outcome (w_ctx (x_world x')) r)))
    (mbind (on_world time_now) (\<lambda>_. lift r))"
  have "keeping (\<lambda>x. case proc req x of (r, x') \<Rightarrow> ?after r x' x')"
  proof (rule keepingI)
    fix x r x'
    assume run: "(case proc req x of (r, x') \<Rightarrow> ?after r x' x') = (r, x')"
    obtain q y where y: "proc req x = (q, y)"
      by fastforce
    have "keeping (?after q y)"
      by (intro keep)
    then show "keeps x x'"
      using run y keepingD[OF assms y] by (auto intro: keeps_trans dest: keepingD)
  qed
  then show ?thesis
    unfolding instrumented_processor_def by (intro keep)
qed

lemma keeping_app_processor: "keeping (app_processor cfg proc req)"
  by (simp add: app_processor_def keeping_plain_processor keeping_instrumented)

text \<open>The endpoint, over any processor that keeps the contract.\<close>

lemma keeping_process_handler:
  assumes "\<And>req. keeping (proc req)"
  shows "keeping (process_handler cd proc rq)"
proof (cases "is_json_content_type cd (rq_header rq ''Content-Type'')")
  case True
  show ?thesis
  proof (cases "decode_request cd rq")
    case (Inl e)
    then show ?thesis
      using True by (cases e) (simp add: process_handler_def keep)
  next
    case (Inr dto)
    show ?thesis
    proof (rule keepingI)
      fix x r x'
      assume run: "process_handler cd proc rq x = (r, x')"
      obtain q y where y: "proc (request_of rq dto) x = (q, y)"
        by fastforce
      have "keeps y x'"
      proof (cases q)
        case (Inl e)
        obtain cls msg code where e: "error_answer e = (cls, msg, code)"
          by (metis surj_pair)
        have "keeping (then_do (if cls = [] then ret () else set_error_class cls) (http_error msg code))"
          by (intro keep)
        from keepingD[OF this] show ?thesis
          using run True \<open>decode_request cd rq = Inr dto\<close> y Inl e
          by (cases "e = Panic") (simp_all add: process_handler_def)
      next
        case (Inr result)
        have "keeping (then_do (on_writer (set_header ''Content-Type'' ''application/json''))
            (on_writer (write_bytes (json_response cd result))))"
          by (intro keep)
        from keepingD[OF this] show ?thesis
          using run True \<open>decode_request cd rq = Inr dto\<close> y Inr by (simp add: process_handler_def)
      qed
      then show "keeps x x'"
        using keeps_trans keepingD[OF assms y] by blast
    qed
  qed
qed (simp add: process_handler_def keep)

interpretation endpoint: tame_handler "process_handler cd (app_processor cfg proc)" for cd cfg proc
  by unfold_locales (rule keeping_process_handler, rule keeping_app_processor)

lemma tame_process_chain: "tame_handler (process_chain cd fp cfg (app_processor cfg proc))"
  unfolding process_chain_def by (intro tame_layer endpoint.tame_handler_axioms)

lemma keeping_serve_mux:
  assumes "\<forall>(m, p, h) \<in> set hs. tame_handler h"
  shows "keeping (serve_mux hs rq)"
proof (cases "find (\<lambda>(m, p, h). pattern_matches m p rq) hs")
  case None
  then show ?thesis
    by (simp add: serve_mux_def keep)
next
  case (Some z)
  then have "z \<in> set hs"
    unfolding find_Some_iff by (metis nth_mem)
  then obtain m p h where z: "z = (m, p, h)" "(m, p, h) \<in> set hs"
    by (metis prod_cases3)
  then have "tame_handler h"
    using assms by fastforce
  then show ?thesis
    using Some z(1) tame_handler.keep_h by (simp add: serve_mux_def)
qed

section \<open>Every request is answered\<close>

text \<open>A computation that ends without a panic has sent a status.\<close>

definition answers :: "('s exchange, 'a) sm \<Rightarrow> bool" where
  "answers m \<longleftrightarrow> (\<forall>x r x'. agrees (x_writer x) \<and> m x = (Inr r, x') \<longrightarrow> sent (conn_of (x_writer x')) \<noteq> None)"

lemma answersI:
  "(\<And>x r x'. agrees (x_writer x) \<Longrightarrow> m x = (Inr r, x') \<Longrightarrow> sent (conn_of (x_writer x')) \<noteq> None) \<Longrightarrow> answers m"
  by (auto simp: answers_def)

lemma answersD:
  "answers m \<Longrightarrow> agrees (x_writer x) \<Longrightarrow> m x = (Inr r, x') \<Longrightarrow> sent (conn_of (x_writer x')) \<noteq> None"
  by (auto simp: answers_def)

lemma answers_mbind:
  assumes "keeping m" "\<And>a. answers (f a)"
  shows "answers (mbind m f)"
proof (rule answersI)
  fix x r x'
  assume x: "agrees (x_writer x)" "mbind m f x = (Inr r, x')"
  from x(2) obtain a y where y: "m x = (Inr a, y)" "f a y = (Inr r, x')"
    by (rule mbind_InrE)
  have "agrees (x_writer y)"
    using keepingD[OF assms(1) y(1)] x(1) by (simp add: keeps_def)
  then show "sent (conn_of (x_writer x')) \<noteq> None"
    by (rule answersD[OF assms(2) _ y(2)])
qed

lemma answers_then: "keeping m \<Longrightarrow> answers k \<Longrightarrow> answers (then_do m k)"
  unfolding then_do_def by (rule answers_mbind)

lemma answers_after: "answers m \<Longrightarrow> (\<And>a. x_writer (f a) = x_writer a) \<Longrightarrow> answers (\<lambda>x. m (f x))"
  unfolding answers_def by metis

lemma answers_error: "answers (http_error msg code)"
  by (rule answersI) (auto simp: http_error_def on_writer_def error_page_def conn_of_write_bytes conn_of_write_header
      agrees_write_header)

lemma answers_bytes: "answers (on_writer (write_bytes b))"
  by (rule answersI) (auto simp: on_writer_def conn_of_write_bytes)

lemma answers_plain: "answers (on_writer (write_plain st b))"
  by (rule answersI) (auto simp: on_writer_def write_plain_def conn_of_write_bytes conn_of_write_header
      agrees_write_header)

lemma answers_too_many: "answers (write_too_many_requests delay cls)"
  unfolding write_too_many_requests_def
  by (intro answers_then answers_error keep)

text \<open>The contract with the answer.\<close>

locale answering_handler = tame_handler +
  assumes answer_h: "answers (h rq)"
begin

lemma answer_route_metadata: "answers (route_metadata r h rq)"
  unfolding route_metadata_def by (intro answers_then answer_h keep)

lemma answer_with_auth: "answers (with_auth fp a h rq)"
  unfolding with_auth_def by (auto intro!: answers_then answer_h answers_error keep split: prod.split)

lemma answer_limit_body: "answers (limit_body n h rq)"
  unfolding limit_body_def by (rule answer_h)

lemma answer_limit_time: "answers (limit_time d h rq)"
  by (rule answersI) (auto simp: limit_time_def Let_def on_time_def split: prod.splits dest!: answersD[OF answer_h, rotated])

lemma answer_limit_parallel: "answers (limit_parallel limit retry h rq)"
  by (rule answersI) (auto simp: limit_parallel_def split: prod.splits option.splits
      dest!: answersD[OF answer_h, rotated] dest: answersD[OF answers_too_many])

lemma answer_limit_global: "answers (limit_global h rq)"
proof (rule answersI)
  fix x r x'
  assume run: "agrees (x_writer x)" "limit_global h rq x = (Inr r, x')"
  have step: "answers (\<lambda>x. case bucket_allow b now of ((ok, delay), b') \<Rightarrow>
      if \<not> ok then write_too_many_requests delay ''rate_limited'' (x\<lparr>x_global := Some b'\<rparr>)
      else h rq (x\<lparr>x_global := Some b'\<rparr>))" for b now
  proof -
    obtain ok delay after where e: "bucket_allow b now = ((ok, delay), after)"
      by (metis surj_pair)
    show ?thesis
      by (cases ok) (simp_all add: e answers_after[OF answer_h] answers_after[OF answers_too_many])
  qed
  show "sent (conn_of (x_writer x')) \<noteq> None"
  proof (cases "x_global x")
    case None
    then show ?thesis
      using run answersD[OF answer_h] by (simp add: limit_global_def)
  next
    case (Some b)
    then show ?thesis
      using run answersD[OF answers_mbind[OF keeping_world step]] by (simp add: limit_global_def)
  qed
qed

lemma answer_limit_consumer: "answers (limit_consumer h rq)"
proof (rule answersI)
  fix x r x'
  assume run: "agrees (x_writer x)" "limit_consumer h rq x = (Inr r, x')"
  have step: "answers (\<lambda>x. case limiter_allow l c now of ((ok, delay), l') \<Rightarrow>
      if \<not> ok then write_too_many_requests delay ''rate_limited'' (x\<lparr>x_consumers := Some l'\<rparr>)
      else h rq (x\<lparr>x_consumers := Some l'\<rparr>))" for l c now
  proof -
    obtain ok delay after where e: "limiter_allow l c now = ((ok, delay), after)"
      by (metis surj_pair)
    show ?thesis
      by (cases ok) (simp_all add: e answers_after[OF answer_h] answers_after[OF answers_too_many])
  qed
  consider "x_consumers x = None \<or> the (x_consumers x) (rq_consumer rq) = None"
    | l b where "x_consumers x = Some l" "l (rq_consumer rq) = Some b"
    by (cases "x_consumers x") auto
  then show "sent (conn_of (x_writer x')) \<noteq> None"
  proof cases
    case 1
    then show ?thesis
      using run answersD[OF answer_h] by (cases "x_consumers x") (simp_all add: limit_consumer_def)
  next
    case 2
    then show ?thesis
      using run answersD[OF answers_mbind[OF keeping_world step]] by (simp add: limit_consumer_def)
  qed
qed

lemma answer_with_request_id: "answers (with_request_id h rq)"
  by (rule answersI) (auto simp: with_request_id_def Let_def split: sum.splits if_splits
      dest: answersD[OF answers_error]
        answersD[OF answers_then[OF keeping_set_header answers_then[OF keeping_meta answer_h]], rotated])

lemma answer_recover: "answers (recover h rq)"
proof (rule answersI)
  fix x r x'
  assume run: "agrees (x_writer x)" "recover h rq x = (Inr r, x')"
  obtain q y where y: "h rq x = (q, y)"
    by fastforce
  have a: "agrees (x_writer y)"
    using keepingD[OF keep_h y] run(1) by (simp add: keeps_def)
  show "sent (conn_of (x_writer x')) \<noteq> None"
  proof (cases q)
    case (Inr u)
    then show ?thesis
      using run y answersD[OF answer_h] by (auto simp: recover_def)
  next
    case (Inl e)
    show ?thesis
    proof (cases "header_written (x_writer y)")
      case True
      then have "sent (conn_of (x_writer y)) \<noteq> None"
        using a by (cases "x_writer y") auto
      then show ?thesis
        using run y Inl True by (auto simp: recover_def then_do_def mbind_def set_error_class_def on_meta_def ret_def)
    next
      case False
      have "answers (then_do (set_error_class ''panic'') (http_error ''internal error'' 500))"
        by (intro answers_then answers_error keep)
      from answersD[OF this a] show ?thesis
        using run y Inl False by (simp add: recover_def)
    qed
  qed
qed

end

lemmas answer_layers =
  answering_handler.answer_route_metadata answering_handler.answer_with_auth answering_handler.answer_limit_body
  answering_handler.answer_limit_time answering_handler.answer_limit_parallel answering_handler.answer_limit_global
  answering_handler.answer_limit_consumer answering_handler.answer_with_request_id answering_handler.answer_recover

lemma answering_handlerI: "tame_handler h \<Longrightarrow> (\<And>rq. answers (h rq)) \<Longrightarrow> answering_handler h"
  by (simp add: answering_handler_def answering_handler_axioms_def)

lemma answering_handler_layer:
  "answering_handler h \<Longrightarrow> answering_handler (route_metadata r h)"
  "answering_handler h \<Longrightarrow> answering_handler (with_auth fp a h)"
  "answering_handler h \<Longrightarrow> answering_handler (limit_body n h)"
  "answering_handler h \<Longrightarrow> answering_handler (limit_time d h)"
  "answering_handler h \<Longrightarrow> answering_handler (limit_parallel limit retry h)"
  "answering_handler h \<Longrightarrow> answering_handler (limit_global h)"
  "answering_handler h \<Longrightarrow> answering_handler (limit_consumer h)"
  "answering_handler h \<Longrightarrow> answering_handler (with_request_id h)"
  "answering_handler h \<Longrightarrow> answering_handler (recover h)"
  by (rule answering_handlerI, rule tame_layer, erule answering_handler.axioms(1), erule answer_layers)+

interpretation liveness: answering_handler liveness_handler
  by unfold_locales (simp add: liveness_handler_def answers_plain)

interpretation readiness: answering_handler readiness_handler
proof
  fix rq
  show "answers (readiness_handler rq)"
  proof (rule answersI)
    fix x r x'
    assume "agrees (x_writer x)" "readiness_handler rq x = (Inr r, x')"
    then show "sent (conn_of (x_writer x')) \<noteq> None"
      by (cases "x_ready x") (simp_all only: readiness_handler_def if_True if_False answersD[OF answers_plain] not_False_eq_True)
  qed
qed

lemma answers_process_handler:
  assumes "\<And>req. keeping (proc req)"
  shows "answers (process_handler cd proc rq)"
proof (cases "is_json_content_type cd (rq_header rq ''Content-Type'')")
  case True
  show ?thesis
  proof (cases "decode_request cd rq")
    case (Inl e)
    then show ?thesis
      using True by (cases e) (simp add: process_handler_def answers_error)
  next
    case (Inr dto)
    show ?thesis
    proof (rule answersI)
      fix x r x'
      assume run: "agrees (x_writer x)" "process_handler cd proc rq x = (Inr r, x')"
      obtain q y where y: "proc (request_of rq dto) x = (q, y)"
        by fastforce
      have a: "agrees (x_writer y)"
        using keepingD[OF assms y] run(1) by (simp add: keeps_def)
      show "sent (conn_of (x_writer x')) \<noteq> None"
      proof (cases q)
        case (Inl e)
        obtain cls msg code where e: "error_answer e = (cls, msg, code)"
          by (metis surj_pair)
        have "answers (then_do (if cls = [] then ret () else set_error_class cls) (http_error msg code))"
          by (intro answers_then answers_error keep)
        from answersD[OF this a] show ?thesis
          using run(2) True \<open>decode_request cd rq = Inr dto\<close> y Inl e
          by (cases "e = Panic") (simp_all add: process_handler_def)
      next
        case (Inr result)
        have "answers (then_do (on_writer (set_header ''Content-Type'' ''application/json''))
            (on_writer (write_bytes (json_response cd result))))"
          by (intro answers_then answers_bytes keep)
        from answersD[OF this a] show ?thesis
          using run(2) True \<open>decode_request cd rq = Inr dto\<close> y Inr by (simp add: process_handler_def)
      qed
    qed
  qed
qed (simp add: process_handler_def answers_error)

interpretation endpoint: answering_handler "process_handler cd (app_processor cfg proc)" for cd cfg proc
  by unfold_locales (rule answers_process_handler, rule keeping_app_processor)

lemma answering_process_chain: "answering_handler (process_chain cd fp cfg (app_processor cfg proc))"
  unfolding process_chain_def by (intro answering_handler_layer endpoint.answering_handler_axioms)

lemma answering_serve_mux:
  assumes "\<forall>(m, p, h) \<in> set hs. answering_handler h"
  shows "answering_handler (serve_mux hs)"
proof
  fix rq
  have "\<forall>(m, p, h) \<in> set hs. tame_handler h"
    using assms by (auto simp: answering_handler_def)
  then show "keeping (serve_mux hs rq)"
    by (rule keeping_serve_mux)
  show "answers (serve_mux hs rq)"
  proof (cases "find (\<lambda>(m, p, h). pattern_matches m p rq) hs")
    case None
    then show ?thesis
      by (simp add: serve_mux_def answers_error)
  next
    case (Some z)
    then have "z \<in> set hs"
      unfolding find_Some_iff by (metis nth_mem)
    then obtain m p h where z: "z = (m, p, h)" "(m, p, h) \<in> set hs"
      by (metis prod_cases3)
    then have "answering_handler h"
      using assms by fastforce
    then show ?thesis
      using Some z(1) answering_handler.answer_h by (simp add: serve_mux_def)
  qed
qed

section \<open>The outermost layers\<close>

definition settles :: "'s handler \<Rightarrow> bool" where
  "settles h \<longleftrightarrow> (\<forall>rq x. agrees (x_writer x) \<and> sent (conn_of (x_writer x)) = None \<longrightarrow>
     (\<exists>x'. h rq x = (Inr (), x') \<and> keeps x x' \<and> sent (conn_of (x_writer x')) \<noteq> None))"

lemma settlesD:
  assumes "settles h" "agrees (x_writer x)" "sent (conn_of (x_writer x)) = None"
  obtains x' where "h rq x = (Inr (), x')" "keeps x x'" "sent (conn_of (x_writer x')) \<noteq> None"
  using assms unfolding settles_def by blast

context answering_handler
begin

lemma recover_settles: "settles (recover h)"
  unfolding settles_def
proof (intro allI impI)
  fix rq and x :: "'a exchange"
  assume a: "agrees (x_writer x) \<and> sent (conn_of (x_writer x)) = None"
  obtain x' where x': "recover h rq x = (Inr (), x')"
    using recover_returns[of rq x] by (metis prod.collapse)
  show "\<exists>x'. recover h rq x = (Inr (), x') \<and> keeps x x' \<and> sent (conn_of (x_writer x')) \<noteq> None"
    using x' keepingD[OF keep_recover x'] answersD[OF answer_recover _ x'] a by blast
qed

end

lemmas step_simps = then_do_def mbind_def on_world_def time_now_def on_metrics_def on_writer_def ret_def

lemma fresh_recorder:
  "agrees w \<Longrightarrow> sent (conn_of w) = None \<Longrightarrow> agrees (new_status_recorder w) \<and> sent (conn_of (new_status_recorder w)) = None
    \<and> depth (new_status_recorder w) = Suc (depth w)"
  by (simp add: new_status_recorder_def)

lemma settles_with_metrics:
  assumes "settles h"
  shows "settles (with_metrics h)"
  unfolding settles_def
proof (intro allI impI)
  fix rq and x :: "'a exchange"
  assume a: "agrees (x_writer x) \<and> sent (conn_of (x_writer x)) = None"
  show "\<exists>x'. with_metrics h rq x = (Inr (), x') \<and> keeps x x' \<and> sent (conn_of (x_writer x')) \<noteq> None"
  proof (cases "x_metrics x")
    case None
    then have "with_metrics h rq x = h rq x"
      by (simp add: with_metrics_def)
    then show ?thesis
      using a assms unfolding settles_def by simp
  next
    case (Some ms)
    define z where "z = x\<lparr>x_metrics := Some (move_in_flight 1 ms),
      x_world := (x_world x)\<lparr>w_clock := later (w_clock (x_world x))\<rparr>, x_writer := new_status_recorder (x_writer x)\<rparr>"
    have "agrees (x_writer z)" "sent (conn_of (x_writer z)) = None"
      using a fresh_recorder[of "x_writer x"] by (simp_all add: z_def)
    then obtain y where y: "h rq z = (Inr (), y)" "keeps z y" "sent (conn_of (x_writer y)) \<noteq> None"
      by (rule settlesD[OF assms])
    have d: "0 < depth (x_writer y)" "x_metrics y \<noteq> None"
      using y(2) by (auto simp: keeps_def z_def new_status_recorder_def)
    obtain m where m: "x_metrics y = Some m"
      using d(2) by auto
    have "\<exists>x'. with_metrics h rq x = (Inr (), x') \<and> x_writer x' = unwrap (x_writer y) \<and> x_slots x' = x_slots y
        \<and> x_log x' = x_log y \<and> x_ready x' = x_ready y \<and> x_entropy x' = x_entropy y \<and> x_meta x' = x_meta y
        \<and> map_option http_in_flight (x_metrics x') = Some (http_in_flight m - 1)"
      using y(1) m Some unfolding z_def
      by (cases "map_option m_error_class (x_meta y) = Some ''timeout''")
        (simp_all add: with_metrics_def step_simps move_in_flight_def inc_http_timeout_def observe_http_request_def)
    then obtain x' where x': "with_metrics h rq x = (Inr (), x')" "x_writer x' = unwrap (x_writer y)" "x_slots x' = x_slots y"
        "x_log x' = x_log y" "x_ready x' = x_ready y" "x_entropy x' = x_entropy y" "x_meta x' = x_meta y"
        "map_option http_in_flight (x_metrics x') = Some (http_in_flight m - 1)"
      by blast
    have "keeps x x'"
      using y(2) a Some d m x' unfolding z_def keeps_def
      by (simp add: unwrap_simps new_status_recorder_def move_in_flight_def)
    moreover have "sent (conn_of (x_writer x')) \<noteq> None"
      using y(3) by (simp add: x'(2) unwrap_simps)
    ultimately show ?thesis
      using x'(1) by blast
  qed
qed

text \<open>The log gets one record, whose status is the one on the connection.\<close>

lemma completion_logger_settles:
  assumes "settles h" "agrees (x_writer x)" "sent (conn_of (x_writer x)) = None"
  shows "\<exists>x' e st hs. completion_logger h rq x = (Inr (), x') \<and> sent (conn_of (x_writer x')) = Some (st, hs)
    \<and> x_log x' = x_log x @ [e] \<and> l_status e = st \<and> depth (x_writer x') = depth (x_writer x)
    \<and> x_slots x' = x_slots x \<and> map_option http_in_flight (x_metrics x') = map_option http_in_flight (x_metrics x)"
proof -
  define z where "z = x\<lparr>x_world := (x_world x)\<lparr>w_clock := later (w_clock (x_world x))\<rparr>,
    x_writer := new_status_recorder (x_writer x), x_meta := Some new_meta\<rparr>"
  have "agrees (x_writer z)" "sent (conn_of (x_writer z)) = None"
    using assms(2,3) fresh_recorder[of "x_writer x"] by (simp_all add: z_def)
  then obtain y where y: "h rq z = (Inr (), y)" "keeps z y" "sent (conn_of (x_writer y)) \<noteq> None"
    by (rule settlesD[OF assms(1)])
  obtain st hs where st: "sent (conn_of (x_writer y)) = Some (st, hs)"
    using y(3) by auto
  have d: "depth (x_writer y) = Suc (depth (x_writer x))" "agrees (x_writer y)"
    using y(2) fresh_recorder[OF assms(2,3)] by (simp_all add: keeps_def z_def)
  have rec: "rec_status (x_writer y) = st"
    using rec_status_agrees(1)[OF d(2)] d(1) st by simp
  have "\<exists>x' e. completion_logger h rq x = (Inr (), x') \<and> x_log x' = x_log y @ [e] \<and> l_status e = st
      \<and> x_writer x' = unwrap (x_writer y) \<and> x_slots x' = x_slots y \<and> x_metrics x' = x_metrics y"
    using y(1) unfolding z_def by (simp add: completion_logger_def step_simps rec completion_of_def)
  then show ?thesis
    using y(2) st d unfolding keeps_def z_def by (fastforce simp: unwrap_simps)
qed

text \<open>Every request is answered with exactly one status and leaves exactly one record, which has that
  status; the slots and the gauge are as before.  Nothing panics out of the chain.\<close>

lemma runtime_answers:
  assumes "answering_handler page" "agrees (x_writer x)" "sent (conn_of (x_writer x)) = None"
  shows "\<exists>x' e st hs. runtime_handler cd fp cfg page proc rq x = (Inr (), x')
    \<and> sent (conn_of (x_writer x')) = Some (st, hs) \<and> x_log x' = x_log x @ [e] \<and> l_status e = st
    \<and> depth (x_writer x') = depth (x_writer x)
    \<and> x_slots x' = x_slots x \<and> map_option http_in_flight (x_metrics x') = map_option http_in_flight (x_metrics x)"
proof -
  have "answering_handler (with_request_id (serve_mux
      ([(''POST'', ''/process'', process_chain cd fp cfg (app_processor cfg proc)),
        (''GET'', ''/healthz'', route_metadata ''GET /healthz'' liveness_handler),
        (''GET'', ''/readyz'', route_metadata ''GET /readyz'' readiness_handler)]
       @ (if metrics_enabled cfg then [(''GET'', ''/metrics'', route_metadata ''GET /metrics'' page)] else []))))"
    using assms(1)
    by (intro answering_handler_layer(8) answering_serve_mux)
      (auto intro: answering_process_chain answering_handler_layer(1) liveness.answering_handler_axioms
        readiness.answering_handler_axioms)
  then show ?thesis
    unfolding runtime_handler_def
    by (intro completion_logger_settles settles_with_metrics answering_handler.recover_settles assms(2,3))
qed

end
