(* ===== verification/Guard.thy ===== *)
theory Guard
  imports Server
begin

text \<open>
  What the chain lets through to the Processor: the store of sessions is only touched by one run of
  the Processor, for a request that came to the endpoint with a JSON body in bounds and a key that
  authenticates its consumer.
\<close>

section \<open>Runs of the Processor\<close>

definition x_store :: "'s exchange \<Rightarrow> 's" where
  "x_store x = w_store (x_world x)"

definition quiet :: "('s exchange, 'a) sm \<Rightarrow> bool" where
  "quiet m \<longleftrightarrow> (\<forall>x. x_store (snd (m x)) = x_store x)"

definition reaches :: "(process_request \<Rightarrow> ('s world, string) sm) \<Rightarrow> process_request set \<Rightarrow> 's \<Rightarrow> 's \<Rightarrow> bool" where
  "reaches proc R s s' \<longleftrightarrow> s' = s \<or> (\<exists>req \<in> R. \<exists>w. w_store w = s \<and> s' = w_store (snd (proc req w)))"

definition asking ::
  "(process_request \<Rightarrow> ('s world, string) sm) \<Rightarrow> process_request set \<Rightarrow> ('s exchange, 'a) sm \<Rightarrow> bool"
where
  "asking proc R m \<longleftrightarrow> (\<forall>x. reaches proc R (x_store x) (x_store (snd (m x))))"

named_theorems hush "computations that leave the store alone"

lemma quietD: "quiet m \<Longrightarrow> m x = (r, x') \<Longrightarrow> x_store x' = x_store x"
  by (metis quiet_def snd_conv)

lemma quiet_mbind [hush]:
  assumes "quiet m" "\<And>a. quiet (f a)"
  shows "quiet (mbind m f)"
  unfolding quiet_def
proof
  fix x
  obtain q y where "m x = (q, y)"
    by fastforce
  then show "x_store (snd (mbind m f x)) = x_store x"
    using quietD[OF assms(1)] assms(2) by (cases q) (auto simp: mbind_def quiet_def)
qed

lemma quiet_basics [hush]:
  "quiet (ret a)" "quiet (lift r)" "quiet (on_writer f)" "quiet (on_meta g)" "quiet (on_metrics k)"
  "quiet (http_error msg code)" "quiet (set_error_class c)" "quiet (on_world time_now)"
  by (simp_all add: quiet_def x_store_def ret_def lift_def on_writer_def on_meta_def on_metrics_def http_error_def
      set_error_class_def on_world_def time_now_def)

lemma quiet_then [hush]: "quiet m \<Longrightarrow> quiet k \<Longrightarrow> quiet (then_do m k)"
  unfolding then_do_def by (rule quiet_mbind)

lemma quiet_if [hush]: "quiet a \<Longrightarrow> quiet b \<Longrightarrow> quiet (if c then a else b)"
  by simp

lemma quiet_too_many [hush]: "quiet (write_too_many_requests d c)"
  unfolding write_too_many_requests_def by (intro hush)

lemma reaches_refl [simp]: "reaches proc R s s"
  by (simp add: reaches_def)

lemma reaches_mono: "reaches proc R s s' \<Longrightarrow> R \<subseteq> R' \<Longrightarrow> reaches proc R' s s'"
  unfolding reaches_def by blast

lemma askingI: "(\<And>x. reaches proc R (x_store x) (x_store (snd (m x)))) \<Longrightarrow> asking proc R m"
  by (simp add: asking_def)

lemma askingD: "asking proc R m \<Longrightarrow> reaches proc R (x_store x) (x_store (snd (m x)))"
  by (simp add: asking_def)

lemma quiet_store: "quiet m \<Longrightarrow> x_store (snd (m x)) = x_store x"
  by (simp add: quiet_def)

lemma asking_quiet: "quiet m \<Longrightarrow> asking proc R m"
  by (simp add: quiet_def asking_def)

lemma asking_mono: "asking proc R m \<Longrightarrow> R \<subseteq> R' \<Longrightarrow> asking proc R' m"
  unfolding asking_def by (blast intro: reaches_mono)

lemma asking_pre:
  assumes "quiet m" "\<And>a. asking proc R (f a)"
  shows "asking proc R (mbind m f)"
  unfolding asking_def
proof
  fix x
  obtain q y where y: "m x = (q, y)"
    by fastforce
  have s: "x_store y = x_store x"
    by (rule quietD[OF assms(1) y])
  show "reaches proc R (x_store x) (x_store (snd (mbind m f x)))"
    using y s askingD[OF assms(2), where x = y] by (cases q) (simp_all add: mbind_def)
qed

lemma asking_then: "quiet m \<Longrightarrow> asking proc R k \<Longrightarrow> asking proc R (then_do m k)"
  unfolding then_do_def by (rule asking_pre)

lemma asking_after:
  assumes "asking proc R m" "\<And>a. x_store (f a) = x_store a"
  shows "asking proc R (\<lambda>x. m (f x))"
  by (rule askingI) (metis askingD[OF assms(1)] assms(2))

text \<open>A step on the result and the state, which leaves the store alone, can follow.\<close>

lemma asking_post:
  assumes "asking proc R m" "\<And>r x. x_store (snd (k r x)) = x_store x"
  shows "asking proc R (\<lambda>x. case m x of (r, x') \<Rightarrow> k r x')"
  using assms by (simp add: asking_def case_prod_beta)

lemma asking_app_processor: "asking proc {req} (app_processor cfg proc req)"
proof -
  have plain: "asking proc {req} (plain_processor proc req)"
    by (auto simp: asking_def reaches_def plain_processor_def on_world_def x_store_def case_prod_beta)
  have "asking proc {req} (instrumented_processor (plain_processor proc) req)"
    unfolding instrumented_processor_def
  proof (intro asking_pre hush asking_post[OF plain])
    fix r and x :: "'a exchange"
    show "x_store (snd (then_do (on_metrics (observe_processor
          (if r = Inl Panic then ''error'' else classify_outcome (w_ctx (x_world x)) r)))
        (mbind (on_world time_now) (\<lambda>_. lift r)) x)) = x_store x"
      by (rule quiet_store) (intro hush)
  qed
  then show ?thesis
    using plain by (simp add: app_processor_def)
qed

section \<open>The layers\<close>

lemma x_store_parts:
  "x_store (on_time c x) = x_store x"
  "x_store (x\<lparr>x_slots := n\<rparr>) = x_store x"
  "x_store (x\<lparr>x_global := g\<rparr>) = x_store x"
  "x_store (x\<lparr>x_consumers := l\<rparr>) = x_store x"
  by (simp_all add: x_store_def on_time_def)

text \<open>What a handler asks the Processor for, as a function of the HTTP request.\<close>

locale asking_handler =
  fixes proc :: "process_request \<Rightarrow> ('s world, string) sm"
    and asked :: "http_request \<Rightarrow> process_request set"
    and h :: "'s handler"
  assumes asks: "asking proc (asked rq) (h rq)"
begin

lemma ask_route_metadata: "asking proc (asked rq) (route_metadata r h rq)"
  unfolding route_metadata_def by (intro asking_then hush asks)

lemma ask_with_auth:
  "asking proc (\<Union>c \<in> {c. authenticate fp a (rq_header rq ''X-API-Key'') = (c, 0)}. asked (rq\<lparr>rq_consumer := c\<rparr>))
     (with_auth fp a h rq)"
proof (cases "authenticate fp a (rq_header rq ''X-API-Key'')")
  case (Pair c st)
  show ?thesis
  proof (cases "st = 0")
    case True
    have "asking proc (asked (rq\<lparr>rq_consumer := c\<rparr>))
        (then_do (on_meta (\<lambda>m. m\<lparr>m_consumer_id := c\<rparr>)) (h (rq\<lparr>rq_consumer := c\<rparr>)))"
      by (intro asking_then hush asks)
    then show ?thesis
      using Pair True by (simp add: with_auth_def)
  next
    case False
    then show ?thesis
      using Pair by (simp add: with_auth_def asking_quiet hush)
  qed
qed

lemma ask_limit_body: "asking proc (asked (rq\<lparr>rq_limit := Some n\<rparr>)) (limit_body n h rq)"
  unfolding limit_body_def by (rule asks)

lemma ask_limit_time: "asking proc (asked rq) (limit_time d h rq)"
  unfolding asking_def limit_time_def Let_def case_prod_beta
  by (simp add: x_store_parts) (metis askingD[OF asks] x_store_parts(1))

lemma ask_limit_parallel: "asking proc (asked rq) (limit_parallel limit retry h rq)"
  unfolding asking_def limit_parallel_def case_prod_beta
  using askingD[OF asks, where x = "x\<lparr>x_slots := n\<rparr>" for x n]
  by (simp add: quiet_store[OF quiet_too_many] x_store_parts split: option.split)

lemma ask_with_request_id: "asking proc (\<Union>i. asked (rq\<lparr>rq_id := i\<rparr>)) (with_request_id h rq)"
proof -
  have go: "asking proc (\<Union>i. asked (rq\<lparr>rq_id := i\<rparr>))
      (then_do (on_writer (set_header ''X-Request-ID'' i))
        (then_do (on_meta (\<lambda>m. m\<lparr>m_request_id := i\<rparr>)) (h (rq\<lparr>rq_id := i\<rparr>))))" for i
    by (intro asking_then hush asking_mono[OF asks]) blast
  have stop: "asking proc (\<Union>i. asked (rq\<lparr>rq_id := i\<rparr>)) (http_error ''internal error'' 500)"
    by (intro asking_quiet hush)
  show ?thesis
    unfolding asking_def with_request_id_def Let_def
    using go stop by (simp add: asking_def split: sum.split)
qed

lemma ask_limit_global: "asking proc (asked rq) (limit_global h rq)"
proof -
  have step: "asking proc (asked rq) (\<lambda>x. case bucket_allow b now of ((ok, delay), b') \<Rightarrow>
      if \<not> ok then write_too_many_requests delay ''rate_limited'' (x\<lparr>x_global := Some b'\<rparr>)
      else h rq (x\<lparr>x_global := Some b'\<rparr>))" for b now
  proof -
    obtain ok delay after where e: "bucket_allow b now = ((ok, delay), after)"
      by (metis surj_pair)
    show ?thesis
      by (cases ok) (simp_all add: e asking_after[OF asks] asking_after[OF asking_quiet] hush x_store_def)
  qed
  show ?thesis
    using asking_pre[OF quiet_basics(8) step] asks[of rq]
    unfolding asking_def limit_global_def by (simp split: option.split)
qed

lemma ask_limit_consumer: "asking proc (asked rq) (limit_consumer h rq)"
proof -
  have step: "asking proc (asked rq) (\<lambda>x. case limiter_allow l c now of ((ok, delay), l') \<Rightarrow>
      if \<not> ok then write_too_many_requests delay ''rate_limited'' (x\<lparr>x_consumers := Some l'\<rparr>)
      else h rq (x\<lparr>x_consumers := Some l'\<rparr>))" for l c now
  proof -
    obtain ok delay after where e: "limiter_allow l c now = ((ok, delay), after)"
      by (metis surj_pair)
    show ?thesis
      by (cases ok) (simp_all add: e asking_after[OF asks] asking_after[OF asking_quiet] hush x_store_def)
  qed
  show ?thesis
    using asking_pre[OF quiet_basics(8) step] asks[of rq]
    unfolding asking_def limit_consumer_def by (simp split: option.split)
qed

lemma ask_recover: "asking proc (asked rq) (recover h rq)"
proof -
  have q: "x_store (snd (then_do (set_error_class ''panic'') (if b then ret () else http_error ''internal error'' 500) x))
      = x_store x" for b :: bool and x :: "'s exchange"
    by (rule quiet_store) (intro hush)
  have "asking proc (asked rq) (\<lambda>x. case h rq x of (r, x') \<Rightarrow>
      (case r of Inr _ \<Rightarrow> (Inr (), x')
       | Inl _ \<Rightarrow> then_do (set_error_class ''panic'')
           (if header_written (x_writer x') then ret () else http_error ''internal error'' 500) x'))"
    using q[of True] q[of False] by (intro asking_post asks) (auto split: sum.split)
  moreover have "recover h rq x = (case h rq x of (r, x') \<Rightarrow>
      (case r of Inr _ \<Rightarrow> (Inr (), x')
       | Inl _ \<Rightarrow> then_do (set_error_class ''panic'')
           (if header_written (x_writer x') then ret () else http_error ''internal error'' 500) x'))" for x
    by (auto simp: recover_def split: prod.split sum.split)
  ultimately show ?thesis
    by (simp add: asking_def)
qed

text \<open>Around the handler the outermost layers only read the clock.\<close>

lemma ask_with_metrics: "asking proc (asked rq) (with_metrics h rq)"
  unfolding asking_def
proof
  fix x :: "'s exchange"
  let ?z = "x\<lparr>x_metrics := map_option (move_in_flight 1) (x_metrics x),
      x_world := (x_world x)\<lparr>w_clock := later (w_clock (x_world x))\<rparr>, x_writer := new_status_recorder (x_writer x)\<rparr>"
  obtain q y where y: "h rq ?z = (q, y)"
    by fastforce
  have "x_store (snd (with_metrics h rq x)) = (if x_metrics x = None then x_store (snd (h rq x)) else x_store y)"
    using y by (cases q; cases "map_option m_error_class (x_meta y) = Some ''timeout''")
      (simp_all add: with_metrics_def step_simps x_store_def)
  moreover have "reaches proc (asked rq) (x_store x) (x_store y)"
    using askingD[OF asks, where rq1 = rq and x = ?z] y by (simp add: x_store_def)
  ultimately show "reaches proc (asked rq) (x_store x) (x_store (snd (with_metrics h rq x)))"
    using askingD[OF asks, where rq1 = rq and x = x] by simp
qed

lemma ask_completion_logger: "asking proc (asked rq) (completion_logger h rq)"
  unfolding asking_def
proof
  fix x :: "'s exchange"
  let ?z = "x\<lparr>x_world := (x_world x)\<lparr>w_clock := later (w_clock (x_world x))\<rparr>,
      x_writer := new_status_recorder (x_writer x), x_meta := Some new_meta\<rparr>"
  obtain q y where y: "h rq ?z = (q, y)"
    by fastforce
  have "x_store (snd (completion_logger h rq x)) = x_store y"
    using y by (cases q) (simp_all add: completion_logger_def step_simps x_store_def)
  then show "reaches proc (asked rq) (x_store x) (x_store (snd (completion_logger h rq x)))"
    using askingD[OF asks, where rq1 = rq and x = ?z] y by (simp add: x_store_def)
qed

end

section \<open>The runtime\<close>

lemma asking_process_handler:
  "asking proc {req. \<exists>dto. is_json_content_type cd (rq_header rq ''Content-Type'')
      \<and> decode_request cd rq = Inr dto \<and> req = request_of rq dto}
     (process_handler cd (app_processor cfg proc) rq)" (is "asking proc ?R _")
proof (cases "is_json_content_type cd (rq_header rq ''Content-Type'')")
  case True
  show ?thesis
  proof (cases "decode_request cd rq")
    case (Inl e)
    then show ?thesis
      using True by (cases e) (simp add: process_handler_def asking_quiet hush)
  next
    case (Inr dto)
    have k: "x_store (snd ((case r of
        Inl e \<Rightarrow> (\<lambda>x. if e = Panic then (Inl e, x)
          else (case error_answer e of (cls, msg, code) \<Rightarrow>
            then_do (if cls = [] then ret () else set_error_class cls) (http_error msg code) x))
      | Inr result \<Rightarrow> then_do (on_writer (set_header ''Content-Type'' ''application/json''))
          (on_writer (write_bytes (json_response cd result)))) x)) = x_store x" for r and x :: "'a exchange"
      by (auto split: sum.split prod.split intro!: quiet_store hush)
    have "asking proc ?R (\<lambda>x. case app_processor cfg proc (request_of rq dto) x of (r, x') \<Rightarrow>
        (case r of
          Inl e \<Rightarrow> (\<lambda>x. if e = Panic then (Inl e, x)
            else (case error_answer e of (cls, msg, code) \<Rightarrow>
              then_do (if cls = [] then ret () else set_error_class cls) (http_error msg code) x))
        | Inr result \<Rightarrow> then_do (on_writer (set_header ''Content-Type'' ''application/json''))
            (on_writer (write_bytes (json_response cd result)))) x')"
      using True Inr by (intro asking_post asking_mono[OF asking_app_processor] k) auto
    then show ?thesis
      using True Inr by (simp add: process_handler_def asking_def case_prod_beta sum.case_distrib[of "\<lambda>f. f _"])
  qed
qed (simp add: process_handler_def asking_quiet hush)

definition at_endpoint :: "codec \<Rightarrow> http_request \<Rightarrow> process_request set" where
  "at_endpoint cd rq = {req. \<exists>dto. is_json_content_type cd (rq_header rq ''Content-Type'')
     \<and> decode_request cd rq = Inr dto \<and> req = request_of rq dto}"

interpretation endpoint_asks: asking_handler proc "at_endpoint cd" "process_handler cd (app_processor cfg proc)"
  for proc :: "process_request \<Rightarrow> ('s world, string) sm" and cd cfg
  by unfold_locales (unfold at_endpoint_def, rule asking_process_handler)

text \<open>The requests the Processor may see for an HTTP request.\<close>

definition admitted :: "codec \<Rightarrow> (string \<Rightarrow> string) \<Rightarrow> config \<Rightarrow> http_request \<Rightarrow> process_request set" where
  "admitted cd fp cfg rq =
     {req. pattern_matches ''POST'' ''/process'' rq \<and> is_json_content_type cd (rq_header rq ''Content-Type'')
       \<and> (\<exists>c dto. authenticate fp (new_authenticator fp cfg) (rq_header rq ''X-API-Key'') = (c, 0)
          \<and> decode_request cd (rq\<lparr>rq_limit := Some (body_limit cfg)\<rparr>) = Inr dto
          \<and> req = request_of (rq\<lparr>rq_consumer := c\<rparr>) dto)}"

lemma decode_request_same:
  "rq_body r = rq_body q \<Longrightarrow> rq_limit r = rq_limit q \<Longrightarrow> decode_request cd r = decode_request cd q"
  by (simp add: decode_request_def Let_def cong: sum.case_cong)

lemma decode_request_ignores [simp]:
  "decode_request cd (rq\<lparr>rq_consumer := c, rq_limit := l\<rparr>) = decode_request cd (rq\<lparr>rq_limit := l\<rparr>)"
  "decode_request cd (rq\<lparr>rq_id := i, rq_limit := l\<rparr>) = decode_request cd (rq\<lparr>rq_limit := l\<rparr>)"
  by (rule decode_request_same; simp)+

lemma request_of_ignores [simp]:
  "request_of (rq\<lparr>rq_id := i\<rparr>) = request_of rq"
  "request_of (rq\<lparr>rq_limit := l\<rparr>) = request_of rq"
  by (simp_all add: request_of_def fun_eq_iff)

lemma asking_process_chain:
  assumes "pattern_matches ''POST'' ''/process'' rq"
  shows "asking proc (admitted cd fp cfg rq) (process_chain cd fp cfg (app_processor cfg proc) rq)"
proof -
  note layer = asking_handler.intro
  have "asking proc (\<Union>c \<in> {c. authenticate fp (new_authenticator fp cfg) (rq_header rq ''X-API-Key'') = (c, 0)}.
      at_endpoint cd (rq\<lparr>rq_consumer := c, rq_limit := Some (body_limit cfg)\<rparr>))
    (process_chain cd fp cfg (app_processor cfg proc) rq)" for rq :: http_request
    unfolding process_chain_def
    by (rule asking_handler.ask_route_metadata, rule layer, rule asking_handler.ask_limit_global, rule layer,
        rule asking_handler.ask_with_auth, rule layer, rule asking_handler.ask_limit_consumer, rule layer,
        rule asking_handler.ask_limit_parallel, rule layer, rule asking_handler.ask_limit_time, rule layer,
        rule endpoint_asks.ask_limit_body)
  then show ?thesis
    by (rule asking_mono) (use assms in \<open>auto simp: at_endpoint_def admitted_def request_of_def\<close>)
qed

lemma quiet_health: "quiet (liveness_handler rq)" "quiet (readiness_handler rq)"
proof -
  show "quiet (liveness_handler rq)"
    unfolding liveness_handler_def by (intro hush)
  show "quiet (readiness_handler rq)"
    by (simp add: quiet_def readiness_handler_def on_writer_def x_store_def)
qed

lemma asking_routes:
  assumes "\<And>rq. quiet (page rq)"
  shows "asking proc (admitted cd fp cfg rq) (serve_mux
      ([(''POST'', ''/process'', process_chain cd fp cfg (app_processor cfg proc)),
        (''GET'', ''/healthz'', route_metadata ''GET /healthz'' liveness_handler),
        (''GET'', ''/readyz'', route_metadata ''GET /readyz'' readiness_handler)]
       @ (if metrics_enabled cfg then [(''GET'', ''/metrics'', route_metadata ''GET /metrics'' page)] else [])) rq)"
proof -
  have "quiet (route_metadata r h rq)" if "\<And>rq. quiet (h rq)" for r and h :: "'a handler"
    unfolding route_metadata_def by (intro hush that)
  then have q: "asking proc R (route_metadata ''GET /healthz'' liveness_handler rq)"
    "asking proc R (route_metadata ''GET /readyz'' readiness_handler rq)"
    "asking proc R (route_metadata ''GET /metrics'' page rq)" for R
    by (auto intro!: asking_quiet quiet_health assms)
  show ?thesis
    using asking_process_chain[of rq proc cd fp cfg] q
    by (cases "pattern_matches ''POST'' ''/process'' rq"; cases "pattern_matches ''GET'' ''/healthz'' rq";
        cases "pattern_matches ''GET'' ''/readyz'' rq"; cases "pattern_matches ''GET'' ''/metrics'' rq";
        cases "metrics_enabled cfg")
      (simp_all add: serve_mux_def asking_quiet quiet_basics)
qed

lemma admitted_id: "admitted cd fp cfg (rq\<lparr>rq_id := i\<rparr>) = admitted cd fp cfg rq"
  by (simp add: admitted_def pattern_matches_def request_of_def)

text \<open>The store changes only by a run of the Processor for an admitted request.\<close>

lemma runtime_admits:
  assumes "\<And>rq. quiet (page rq)" "runtime_handler cd fp cfg page proc rq x = (r, x')" "x_store x' \<noteq> x_store x"
  shows "\<exists>req \<in> admitted cd fp cfg rq. \<exists>w. w_store w = x_store x \<and> x_store x' = w_store (snd (proc req w))"
proof -
  have ids: "asking_handler proc (\<lambda>rq. \<Union>i. admitted cd fp cfg (rq\<lparr>rq_id := i\<rparr>)) (with_request_id (serve_mux
      ([(''POST'', ''/process'', process_chain cd fp cfg (app_processor cfg proc)),
        (''GET'', ''/healthz'', route_metadata ''GET /healthz'' liveness_handler),
        (''GET'', ''/readyz'', route_metadata ''GET /readyz'' readiness_handler)]
       @ (if metrics_enabled cfg then [(''GET'', ''/metrics'', route_metadata ''GET /metrics'' page)] else []))))"
    by (intro asking_handler.intro asking_handler.ask_with_request_id asking_routes assms(1))
  have "asking proc (\<Union>i. admitted cd fp cfg (rq\<lparr>rq_id := i\<rparr>)) (runtime_handler cd fp cfg page proc rq)"
    unfolding runtime_handler_def
    by (intro asking_handler.ask_completion_logger asking_handler.intro asking_handler.ask_with_metrics
        asking_handler.ask_recover) (rule asking_handler.asks[OF ids])
  from askingD[OF this, where x = x] show ?thesis
    using assms(2,3) by (auto simp: admitted_id reaches_def)
qed

section \<open>The answer\<close>

text \<open>For a request that nothing turns away, the status and the body are the Processor's result.\<close>

definition answer_of :: "codec \<Rightarrow> string res \<Rightarrow> nat \<times> string" where
  "answer_of cd r =
     (case r of
        Inr result \<Rightarrow> (200, json_response cd result)
      | Inl e \<Rightarrow> if e = Panic then (500, ''internal error'' @ newline)
                 else (case error_answer e of (cls, msg, code) \<Rightarrow> (code, msg @ newline)))"

definition request_world :: "config \<Rightarrow> http_request \<Rightarrow> 's world \<Rightarrow> 's world" where
  "request_world cfg rq w = w\<lparr>w_clock := later (w_clock w), w_ctx := with_timeout (rq_timer rq (processing_timeout cfg)) (w_ctx w)\<rparr>"

lemma runtime_response:
  assumes "pattern_matches ''POST'' ''/process'' rq" "valid_request_id (rq_header rq ''X-Request-ID'')"
    and "authenticate fp (new_authenticator fp cfg) (rq_header rq ''X-API-Key'') = (c, 0)"
    and "is_json_content_type cd (rq_header rq ''Content-Type'')"
    and "decode_request cd (rq\<lparr>rq_limit := Some (body_limit cfg)\<rparr>) = Inr dto"
    and "x_writer x = Conn k" "sent k = None" "wire_body k = []" "x_global x = None" "x_consumers x = None"
    and "x_metrics x = None" "\<not> metrics_enabled cfg" "x_slots x < parallel_limit cfg"
    and "proc (request_of (rq\<lparr>rq_consumer := c\<rparr>) dto) (request_world cfg rq (x_world x)) = (r, w)"
    and "runtime_handler cd fp cfg page proc rq x = (r', x')"
  shows "\<exists>hs. sent (conn_of (x_writer x')) = Some (fst (answer_of cd r), hs)"
    and "wire_body (conn_of (x_writer x')) = snd (answer_of cd r)"
    and "x_store x' = w_store w"
proof -
  have dto1: "decode_request cd (rq\<lparr>rq_id := i, rq_consumer := c, rq_limit := Some (body_limit cfg)\<rparr>) = Inr dto" for i
    unfolding assms(5)[symmetric] by (rule decode_request_same) simp_all
  have "request_of (rq\<lparr>rq_id := i, rq_consumer := c, rq_limit := l\<rparr>) dto = request_of (rq\<lparr>rq_consumer := c\<rparr>) dto" for i l
    by (simp add: request_of_def)
  note dto = this dto1
  note layers = runtime_handler_def completion_logger_def with_metrics_def recover_def with_request_id_def serve_mux_def
    process_chain_def route_metadata_def limit_global_def with_auth_def limit_consumer_def limit_parallel_def
    limit_time_def limit_body_def process_handler_def app_processor_def plain_processor_def request_world_def on_time_def
    sem_acquire_def sem_release_def step_simps on_meta_def Let_def set_error_class_def http_error_def error_page_def
    new_status_recorder_def answer_of_def x_store_def pattern_matches_def newline_def
  have "(\<exists>hs. sent (conn_of (x_writer x')) = Some (fst (answer_of cd r), hs))
    \<and> wire_body (conn_of (x_writer x')) = snd (answer_of cd r) \<and> x_store x' = w_store w"
  proof (cases r)
    case (Inr result)
    then show ?thesis
      using assms dto by (auto simp: layers)
  next
    case (Inl e)
    obtain cls msg code where "error_answer e = (cls, msg, code)"
      by (metis surj_pair)
    then show ?thesis
      using assms dto Inl by (cases "e = Panic"; cases "cls = []") (auto simp: layers)
  qed
  then show "\<exists>hs. sent (conn_of (x_writer x')) = Some (fst (answer_of cd r), hs)"
    and "wire_body (conn_of (x_writer x')) = snd (answer_of cd r)"
    and "x_store x' = w_store w"
    by blast+
qed


end
