(* ===== verification/Lifecycle.thy ===== *)
theory Lifecycle
  imports Http Batching
begin

text \<open>
  Starting, running and stopping: the semaphore of \<open>middleware.ParallelLimit\<close> under concurrent
  requests, \<open>internal/server/lifecycle.go\<close>, the construction of the Processor in
  \<open>cmd/server/main.go\<close> and \<open>internal/ml/config.go\<close>.  What the constructors outside \<open>src/\<close> answer is
  an argument; what is done is the list of events.
\<close>

section \<open>The semaphore under concurrent requests\<close>

record gate =
  g_slots :: int
  g_inside :: "nat set"

datatype gate_event = Enter nat | Refuse nat | Leave nat

inductive gate_step :: "int \<Rightarrow> gate_event \<Rightarrow> gate \<Rightarrow> gate \<Rightarrow> bool" for limit :: int where
  enter: "sem_acquire limit (g_slots g) = Some n \<Longrightarrow> i \<notin> g_inside g \<Longrightarrow>
    gate_step limit (Enter i) g \<lparr>g_slots = n, g_inside = insert i (g_inside g)\<rparr>"
| refuse: "sem_acquire limit (g_slots g) = None \<Longrightarrow> i \<notin> g_inside g \<Longrightarrow> gate_step limit (Refuse i) g g"
| leave: "i \<in> g_inside g \<Longrightarrow>
    gate_step limit (Leave i) g \<lparr>g_slots = sem_release (g_slots g), g_inside = g_inside g - {i}\<rparr>"

inductive_simps gate_step_iff:
  "gate_step limit (Enter i) g g'" "gate_step limit (Refuse i) g g'" "gate_step limit (Leave i) g g'"

inductive gate_reachable :: "int \<Rightarrow> gate \<Rightarrow> bool" for limit :: int where
  gate_start: "gate_reachable limit \<lparr>g_slots = 0, g_inside = {}\<rparr>"
| gate_next: "gate_reachable limit g \<Longrightarrow> gate_step limit e g g' \<Longrightarrow> gate_reachable limit g'"

lemma gate_invariant:
  assumes "gate_reachable limit g" "0 \<le> limit"
  shows "finite (g_inside g) \<and> g_slots g = int (card (g_inside g)) \<and> int (card (g_inside g)) \<le> limit"
  using assms(1)
proof induction
  case gate_start
  then show ?case
    using assms(2) by simp
next
  case (gate_next g e g')
  from gate_next(2,3) show ?case
  proof cases
    case (enter n i)
    then show ?thesis
      using gate_next.IH by (auto simp: sem_acquire_def split: if_splits)
  next
    case refuse
    then show ?thesis
      using gate_next.IH by simp
  next
    case (leave i)
    then have "0 < card (g_inside g)"
      using gate_next.IH by (auto simp: card_gt_0_iff)
    then show ?thesis
      using leave gate_next.IH by (auto simp: sem_release_def card_Diff_singleton)
  qed
qed

section \<open>Running the server\<close>

datatype serve_failure = ServerClosed | ServeFailed string

text \<open>What the server's three operations return; \<open>None\<close> is nil.\<close>

record server_ops =
  serve_result :: "serve_failure option"
  shutdown_result :: "string option"
  close_result :: "string option"

record serve_args =
  ctx_given :: bool
  server_given :: bool
  listener_given :: bool
  readiness_given :: bool
  shutdown_limit :: int

datatype life_event = StartServing | SetReady bool | CallShutdown | CallClose | AwaitServe

text \<open>An error is the list of its joined causes; the empty list is nil.\<close>

definition serve_causes :: "serve_failure option \<Rightarrow> string list" where
  "serve_causes r = (case r of Some (ServeFailed e) \<Rightarrow> [''server: serve: '' @ e] | _ \<Rightarrow> [])"

definition join_shutdown_errors :: "string \<Rightarrow> string option \<Rightarrow> serve_failure option \<Rightarrow> string list" where
  "join_shutdown_errors shutdown_err close_err serve_err =
     [''server: shutdown: '' @ shutdown_err]
     @ (case close_err of None \<Rightarrow> [] | Some e \<Rightarrow> [''server: close: '' @ e])
     @ serve_causes serve_err"

definition graceful_shutdown :: "server_ops \<Rightarrow> string list \<times> life_event list" where
  "graceful_shutdown s =
     (case shutdown_result s of
        Some e \<Rightarrow> (join_shutdown_errors e (close_result s) (serve_result s),
                   [SetReady False, CallShutdown, CallClose, AwaitServe])
      | None \<Rightarrow> (serve_causes (serve_result s), [SetReady False, CallShutdown, AwaitServe]))"

text \<open>\<open>stopped\<close>: the context is done before the server ends on its own.\<close>

definition serve :: "serve_args \<Rightarrow> bool \<Rightarrow> server_ops \<Rightarrow> string list \<times> life_event list" where
  "serve a stopped s =
     (if \<not> ctx_given a then ([''server: context must not be nil''], [])
      else if \<not> server_given a then ([''server: server must not be nil''], [])
      else if \<not> listener_given a then ([''server: listener must not be nil''], [])
      else if \<not> readiness_given a then ([''server: readiness must not be nil''], [])
      else if shutdown_limit a \<le> 0 then ([''server: shutdown timeout must be positive''], [])
      else if stopped then (case graceful_shutdown s of (e, es) \<Rightarrow> (e, StartServing # es))
      else (serve_causes (serve_result s), [StartServing, AwaitServe, SetReady False]))"

definition readiness_after :: "bool \<Rightarrow> life_event list \<Rightarrow> bool" where
  "readiness_after r es = foldl (\<lambda>r e. case e of SetReady b \<Rightarrow> b | _ \<Rightarrow> r) r es"

text \<open>Whenever the server was started, it is awaited and the process ends not ready; it was told to shut
  down only after that; it is closed exactly when the shutdown failed; and no failure is lost.\<close>

lemma serve_spec:
  assumes "serve a stopped s = (causes, es)" "StartServing \<in> set es"
  shows "AwaitServe \<in> set es" "\<not> readiness_after True es"
    and "CallShutdown \<in> set es \<Longrightarrow> \<not> readiness_after True (takeWhile (\<lambda>e. e \<noteq> CallShutdown) es)"
    and "CallClose \<in> set es \<longleftrightarrow> stopped \<and> shutdown_result s \<noteq> None"
    and "causes = [] \<longleftrightarrow> (stopped \<longrightarrow> shutdown_result s = None) \<and> (\<forall>e. serve_result s \<noteq> Some (ServeFailed e))"
  using assms
  by (auto simp: serve_def graceful_shutdown_def readiness_after_def serve_causes_def join_shutdown_errors_def
      split: if_splits option.splits serve_failure.splits)

section \<open>Settings of the batcher\<close>

fun set_count :: "string \<Rightarrow> int \<Rightarrow> batch_config \<Rightarrow> batch_config" where
  "set_count k n c =
     (if k = ''ALPHA_PROXY_ML_BATCH_ITEMS'' then c\<lparr>max_items := n\<rparr>
      else if k = ''ALPHA_PROXY_ML_BATCH_CODEPOINTS'' then c\<lparr>max_batch_code_points := n\<rparr>
      else if k = ''ALPHA_PROXY_ML_QUEUE_CAPACITY'' then c\<lparr>queue_capacity := n\<rparr>
      else if k = ''ALPHA_PROXY_ML_RPC_WORKERS'' then c\<lparr>workers_n := n\<rparr>
      else c)"

fun set_period :: "string \<Rightarrow> int \<Rightarrow> batch_config \<Rightarrow> batch_config" where
  "set_period k n c =
     (if k = ''ALPHA_PROXY_ML_BATCH_WAIT'' then c\<lparr>max_wait := n\<rparr>
      else if k = ''ALPHA_PROXY_ML_RPC_TIMEOUT'' then c\<lparr>rpc_timeout := n\<rparr>
      else c)"

fun read_keys ::
  "(string \<Rightarrow> int option) \<Rightarrow> (string \<Rightarrow> int \<Rightarrow> batch_config \<Rightarrow> batch_config) \<Rightarrow> env \<Rightarrow> string list \<Rightarrow> batch_config
    \<Rightarrow> batch_config res"
where
  "read_keys parse set_key env [] c = Inr c"
| "read_keys parse set_key env (k # ks) c =
     (if env k = [] then read_keys parse set_key env ks c
      else case parse (env k) of
        None \<Rightarrow> Inl (ErrOther (''invalid '' @ k))
      | Some n \<Rightarrow> read_keys parse set_key env ks (set_key k n c))"

text \<open>The two loops range over Go maps, so the order of the keys is an argument.\<close>

definition batch_config_from_env :: "readers \<Rightarrow> env \<Rightarrow> string list \<Rightarrow> string list \<Rightarrow> batch_config res" where
  "batch_config_from_env rd env counts periods =
     rbind (read_keys atoi set_count env counts default_batch_config) (\<lambda>c.
     rbind (read_keys (parse_duration rd) set_period env periods c) (\<lambda>c.
     rbind (batch_config_validate c) (\<lambda>_. Inr c)))"

section \<open>Construction of the Processor\<close>

text \<open>\<open>ml.NewConnection\<close>: the addresses of the replicas.\<close>

fun trimmed_addresses :: "string list \<Rightarrow> string list res" where
  "trimmed_addresses [] = Inr []"
| "trimmed_addresses (v # vs) =
     (if trim_space v = [] then Inl (ErrOther ''empty ML replica address'')
      else rbind (trimmed_addresses vs) (\<lambda>as. Inr (trim_space v # as)))"

definition new_connection :: "(string list \<Rightarrow> err option) \<Rightarrow> string \<Rightarrow> unit res" where
  "new_connection dial address =
     rbind (if \<not> contains address '','' then Inr [address] else trimmed_addresses (split_byte CHR '','' address))
       (\<lambda>as. case dial as of None \<Rightarrow> Inr () | Some e \<Rightarrow> Inl e)"

datatype resource_event = OpenConn | StartBatcher | CloseBatcher | CloseConn

datatype built = MockProcessor | RealProcessor batch_config int policies

definition session_capacity :: "env \<Rightarrow> int res" where
  "session_capacity env =
     (let value = env ''ALPHA_PROXY_SESSION_CAPACITY'' in
      if value = [] then Inr 100000
      else case atoi value of
        None \<Rightarrow> Inl (ErrOther ''invalid ALPHA_PROXY_SESSION_CAPACITY'')
      | Some n \<Rightarrow> if n \<le> 0 then Inl (ErrOther ''invalid ALPHA_PROXY_SESSION_CAPACITY'') else Inr n)"

definition cleanup :: "bool \<Rightarrow> resource_event list" where
  "cleanup batching = (if batching then [CloseBatcher] else []) @ [CloseConn]"

definition build_processor ::
  "(string list \<Rightarrow> err option) \<Rightarrow> readers \<Rightarrow> env \<Rightarrow> string list \<Rightarrow> string list \<Rightarrow> config \<Rightarrow> built res \<times> resource_event list"
where
  "build_processor dial rd env counts periods cfg =
     (if processor_mode cfg = ''mock'' then
        (if run_mode cfg \<noteq> ''dev'' then (Inl (ErrOther ''mock processor is allowed only in dev mode''), [])
         else (Inr MockProcessor, []))
      else case new_connection dial (ml_address cfg) of
        Inl e \<Rightarrow> (Inl e, [])
      | Inr _ \<Rightarrow>
        (case rbind (batch_config_from_env rd env counts periods) (\<lambda>bc. rbind (new_batcher bc) (\<lambda>_. Inr bc)) of
          Inl e \<Rightarrow> (Inl e, OpenConn # cleanup False)
        | Inr bc \<Rightarrow>
          (case rbind (session_capacity env) (\<lambda>n. rbind (build_policies cfg) (\<lambda>ps. Inr (RealProcessor bc n ps))) of
            Inl e \<Rightarrow> (Inl e, [OpenConn, StartBatcher] @ cleanup True)
          | Inr b \<Rightarrow> (Inr b, [OpenConn, StartBatcher]))))"

text \<open>\<open>sync.Once\<close>: later calls of the cleanup function do nothing.\<close>

fun cleanups :: "bool \<Rightarrow> nat \<Rightarrow> resource_event list" where
  "cleanups batching 0 = []"
| "cleanups batching (Suc n) = cleanup batching"

fun still_open :: "resource_event list \<Rightarrow> nat \<times> nat" where
  "still_open [] = (0, 0)"
| "still_open (e # es) =
     (case still_open es of (c, b) \<Rightarrow>
       (case e of
          OpenConn \<Rightarrow> (if CloseConn \<in> set es then (c, b) else (Suc c, b))
        | StartBatcher \<Rightarrow> (if CloseBatcher \<in> set es then (c, b) else (c, Suc b))
        | _ \<Rightarrow> (c, b)))"

text \<open>A construction that fails leaves nothing open; one that succeeds leaves one connection and one
  batcher, which the cleanup closes however often it is called; the mock only runs in dev mode.\<close>

lemma build_processor_resources:
  assumes "build_processor dial rd env counts periods cfg = (r, es)"
  shows "r = Inl e \<Longrightarrow> still_open es = (0, 0)"
    and "r = Inr (RealProcessor bc n ps) \<Longrightarrow> still_open es = (1, 1) \<and> still_open (es @ cleanups True (Suc k)) = (0, 0)
      \<and> batch_config_validate bc = Inr () \<and> 0 < n \<and> build_policies cfg = Inr ps"
    and "r = Inr MockProcessor \<Longrightarrow> es = [] \<and> run_mode cfg = ''dev''"
  using assms
  by (auto simp: build_processor_def cleanup_def rbind_Inr_iff session_capacity_def Let_def batch_config_from_env_def
      split: if_splits sum.splits option.splits)

end
