(* ===== verification/Service.thy ===== *)
theory Service
  imports Guard Lifecycle
begin

text \<open>
  The properties of the service around the Processor: every request is answered once, only admitted
  requests reach the sessions, the semaphore and the token bucket keep their bounds, and a started
  process is the one its configuration describes.  The samples are inputs of the witnesses.
\<close>

section \<open>Sample inputs for the witnesses\<close>

definition sample_system :: system_cfg where
  "sample_system = \<lparr>sys_id = ''crm'', sys_enabled = True, sys_api_key = ''k1'', sys_mask_kinds = None,
     sys_detokenization_allowed = None\<rparr>"

definition sample_readers :: readers where
  "sample_readers = \<lparr>parse_duration = (\<lambda>_. None), parse_float = (\<lambda>_. None), read_systems = (\<lambda>_. Inr [sample_system])\<rparr>"

definition sample_env :: env where
  "sample_env k = (if k = ''ALPHA_PROXY_SYSTEMS_FILE'' then ''systems.json''
     else [])"

definition sample_config :: config where
  "sample_config = \<lparr>addr = '':8080'', read_timeout = 1, read_header_timeout = 1, write_timeout = 1, idle_timeout = 1,
     body_limit = 1000, processing_timeout = 1, parallel_limit = 4, run_mode = ''final'', auth_mode = ''api_key'',
     processor_mode = ''real'', systems = [sample_system], ml_address = ''ml:50051'', global_rps = Fin 0,
     global_burst = 0, consumer_rps = Fin 0, consumer_burst = 0, overload_retry_after = 1000000000,
     metrics_enabled = False, shutdown_timeout = 1\<rparr>"

definition sample_codec :: codec where
  "sample_codec = \<lparr>media_type = (\<lambda>s. Some s),
     json_value = (\<lambda>l b. Inr \<lparr>dto_payload = Some b, dto_payload_id = Some ''p1'', dto_mask_kinds = None\<rparr>),
     json_tail = (\<lambda>l b. Some EndOfInput), json_response = (\<lambda>s. s)\<rparr>"

definition sample_http :: http_request where
  "sample_http = \<lparr>rq_method = ''POST'', rq_path = ''/process'',
     rq_header = (\<lambda>h. if h = ''Content-Type'' then ''application/json'' else if h = ''X-API-Key'' then ''k1''
       else if h = ''X-Request-ID'' then ''r1'' else []),
     rq_body = ''hello'', rq_limit = None, rq_id = [], rq_consumer = [], rq_timer = (\<lambda>_. None)\<rparr>"

definition sample_proc :: "process_request \<Rightarrow> (memory_store world, string) sm" where
  "sample_proc = process mem_get mem_put_if_absent mem_update
     [''crm'' \<mapsto> base_policy all_kinds True] (\<lambda>t pol. ret (t, [])) (map of_char) 1000"

definition sample_conn :: conn where
  "sample_conn = \<lparr>hdrs = Map.empty, sent = None, wire_body = []\<rparr>"

definition sample_exchange :: "memory_store exchange" where
  "sample_exchange = new_runtime sample_config 0 sample_conn
     \<lparr>w_ctx = background, w_clock = int, w_store = new_memory_store 10\<rparr>"

abbreviation sample_runtime :: "http_request \<Rightarrow> (memory_store exchange, unit) sm" where
  "sample_runtime \<equiv> runtime_handler sample_codec id sample_config liveness_handler sample_proc"

lemma sample_stored: "map fst (sessions (x_store (snd (sample_runtime sample_http sample_exchange)))) = [''p1'']"
  by code_simp

lemma sample_changed: "x_store (snd (sample_runtime sample_http sample_exchange)) \<noteq> x_store sample_exchange"
proof
  assume "x_store (snd (sample_runtime sample_http sample_exchange)) = x_store sample_exchange"
  moreover have "sessions (x_store sample_exchange) = []"
    by (simp add: sample_exchange_def new_runtime_def x_store_def new_memory_store_def)
  ultimately show False
    using sample_stored by simp
qed

section \<open>Requests\<close>

text \<open>C3: Every HTTP request is answered, exactly once, and accounted for: whatever the configuration,
  the request, the Processor and the state of the limiters, the chain returns without a panic,
  one status has been sent, the log has one more record, that record has the status that was
  sent, no slot of the semaphore is kept, and the gauge of requests in flight is back.\<close>

theorem every_request_is_answered:
  assumes "answering_handler page" "x_writer x = Conn k" "sent k = None"
  shows "\<exists>x' e st hs. runtime_handler cd fp cfg page proc rq x = (Inr (), x')
    \<and> sent (conn_of (x_writer x')) = Some (st, hs) \<and> x_log x' = x_log x @ [e] \<and> l_status e = st
    \<and> depth (x_writer x') = 0
    \<and> x_slots x' = x_slots x \<and> map_option http_in_flight (x_metrics x') = map_option http_in_flight (x_metrics x)"
  using runtime_answers[OF assms(1), of x cd fp cfg proc rq] assms(2,3) by simp

theorem every_request_is_answered_witness:
  "\<exists>x' e st hs. sample_runtime sample_http sample_exchange = (Inr (), x')
    \<and> sent (conn_of (x_writer x')) = Some (st, hs) \<and> x_log x' = x_log sample_exchange @ [e] \<and> l_status e = st
    \<and> depth (x_writer x') = 0 \<and> x_slots x' = x_slots sample_exchange
    \<and> map_option http_in_flight (x_metrics x') = map_option http_in_flight (x_metrics sample_exchange)"
  by (rule every_request_is_answered[where k = sample_conn])
    (simp_all add: liveness.answering_handler_axioms sample_exchange_def new_runtime_def sample_conn_def)

text \<open>C4: Only admitted requests reach the sessions: when a request changed the store, it was a POST to
  the endpoint with a JSON body within the limit, its key authenticated a consumer, and the
  change is one run of the Processor for exactly that payload in the name of exactly that
  consumer.\<close>

theorem only_admitted_requests_reach_sessions:
  assumes "\<And>rq. quiet (page rq)" "runtime_handler cd fp cfg page proc rq x = (r, x')" "x_store x' \<noteq> x_store x"
  shows "pattern_matches ''POST'' ''/process'' rq \<and> is_json_content_type cd (rq_header rq ''Content-Type'')
    \<and> (\<exists>c dto w. authenticate fp (new_authenticator fp cfg) (rq_header rq ''X-API-Key'') = (c, 0)
        \<and> decode_request cd (rq\<lparr>rq_limit := Some (body_limit cfg)\<rparr>) = Inr dto
        \<and> w_store w = x_store x \<and> x_store x' = w_store (snd (proc (request_of (rq\<lparr>rq_consumer := c\<rparr>) dto) w)))"
  using runtime_admits[OF assms] unfolding admitted_def by blast

theorem only_admitted_requests_reach_sessions_witness:
  "pattern_matches ''POST'' ''/process'' sample_http
    \<and> is_json_content_type sample_codec (rq_header sample_http ''Content-Type'')
    \<and> (\<exists>c dto w. authenticate id (new_authenticator id sample_config) (rq_header sample_http ''X-API-Key'') = (c, 0)
        \<and> decode_request sample_codec (sample_http\<lparr>rq_limit := Some (body_limit sample_config)\<rparr>) = Inr dto
        \<and> w_store w = x_store sample_exchange
        \<and> x_store (snd (sample_runtime sample_http sample_exchange))
          = w_store (snd (sample_proc (request_of (sample_http\<lparr>rq_consumer := c\<rparr>) dto) w)))"
  by (rule only_admitted_requests_reach_sessions[OF quiet_health(1) prod.collapse[symmetric] sample_changed])



section \<open>Access\<close>

text \<open>C21: In final mode only the systems of the configuration are served, each under its own policy: when
  the configuration loads, the Processor is built and a key authenticates a consumer, that
  consumer is an enabled system with exactly that key, the Processor is a real one with room for
  a session, and the policy it keeps for the consumer is the system's.\<close>

theorem final_mode_serves_configured_systems:
  assumes "config_load rd env = Inr cfg" "run_mode cfg = ''final''"
    and "build_processor dial rd env counts periods cfg = (Inr b, es)"
    and "inj_on fp (insert key (sys_api_key ` set (systems cfg)))"
    and "authenticate fp (new_authenticator fp cfg) key = (c, 0)"
  shows "\<exists>s bc n ps pol. s \<in> set (systems cfg) \<and> sys_enabled s \<and> sys_api_key s = key \<and> sys_id s = c
    \<and> b = RealProcessor bc n ps \<and> 0 < n \<and> system_policy s = Inr pol \<and> ps c = Some pol"
proof -
  have ok: "settings_ok cfg"
    by (rule config_load_ok[OF assms(1)])
  then have mode: "auth_mode cfg = ''api_key''"
    using assms(2) by (auto simp: settings_ok_def modes_ok_def)
  show ?thesis
  proof (cases b)
    case MockProcessor
    then show ?thesis
      using build_processor_resources(3)[OF assms(3)] assms(2) by simp
  next
    case (RealProcessor bc n ps)
    then have "0 < n" "build_policies cfg = Inr ps"
      using build_processor_resources(2)[OF assms(3), of bc n ps] by simp_all
    then show ?thesis
      using authenticated_consumer[OF ok mode _ assms(4,5)] RealProcessor by blast
  qed
qed

definition loaded_config :: config where
  "loaded_config = value_or sample_config (config_load sample_readers sample_env)"

lemma sample_load: "config_load sample_readers sample_env = Inr loaded_config"
proof -
  have "case config_load sample_readers sample_env of Inl _ \<Rightarrow> False | Inr _ \<Rightarrow> True"
    by code_simp
  then show ?thesis
    unfolding loaded_config_def by (auto simp: value_or_def split: sum.splits)
qed

definition sample_build :: "built res \<times> resource_event list" where
  "sample_build = build_processor (\<lambda>_. None) sample_readers sample_env [] [] loaded_config"

lemma sample_built: "sample_build = (Inr (value_or MockProcessor (fst sample_build)), [OpenConn, StartBatcher])"
proof -
  have "case fst sample_build of Inl _ \<Rightarrow> False | Inr _ \<Rightarrow> True" "snd sample_build = [OpenConn, StartBatcher]"
    by code_simp+
  then show ?thesis
    by (intro prod_eqI) (auto simp: value_or_def split: sum.splits)
qed

theorem final_mode_serves_configured_systems_witness:
  "\<exists>s bc n ps pol. s \<in> set (systems loaded_config) \<and> sys_enabled s \<and> sys_api_key s = ''k1'' \<and> sys_id s = ''crm''
    \<and> value_or MockProcessor (fst sample_build) = RealProcessor bc n ps \<and> 0 < n
    \<and> system_policy s = Inr pol \<and> ps ''crm'' = Some pol"
proof (rule final_mode_serves_configured_systems[OF sample_load])
  show "run_mode loaded_config = ''final''" by code_simp
  show "build_processor (\<lambda>_. None) sample_readers sample_env [] [] loaded_config
      = (Inr (value_or MockProcessor (fst sample_build)), [OpenConn, StartBatcher])"
    using sample_built by (simp add: sample_build_def)
  show "inj_on id (insert ''k1'' (sys_api_key ` set (systems loaded_config)))" by simp
  show "authenticate id (new_authenticator id loaded_config) ''k1'' = (''crm'', 0)" by code_simp
qed

section \<open>Bounds\<close>



text \<open>C29: A full token bucket admits exactly its burst at one instant: of any number of calls with the
  same reading of the clock the first \<open>burst\<close> are admitted and all others refused, in the
  doubles the code computes with.\<close>

theorem bucket_admits_its_burst:
  assumes "0 \<le> r" "1 \<le> burst" "burst < 2 ^ 53"
  shows "verdicts (nat burst + m) (new_token_bucket (Fin r) burst now) now
    = replicate (nat burst) True @ replicate m False"
  by (rule burst_is_exact[OF assms])

theorem bucket_admits_its_burst_witness:
  "verdicts (nat 3 + 2) (new_token_bucket (Fin 5) 3 7) 7 = replicate (nat 3) True @ replicate 2 False"
  by (rule bucket_admits_its_burst) simp_all

section \<open>Start and stop\<close>

text \<open>Nothing is leaked by the construction of the Processor: one that fails has closed what it
  opened, one that succeeds holds one connection and one batcher, which the cleanup closes
  however often it is called; the mock, which opens nothing, is built in dev mode only.\<close>

theorem construction_leaks_nothing:
  assumes "build_processor dial rd env counts periods cfg = (r, es)"
  shows "case r of
      Inl _ \<Rightarrow> still_open es = (0, 0)
    | Inr MockProcessor \<Rightarrow> still_open es = (0, 0) \<and> run_mode cfg = ''dev''
    | Inr (RealProcessor bc n ps) \<Rightarrow> still_open es = (1, 1) \<and> still_open (es @ cleanups True (Suc k)) = (0, 0)"
  using build_processor_resources[OF assms] by (auto split: sum.split built.split)

theorem construction_leaks_nothing_witness:
  "still_open [OpenConn, StartBatcher] = (1, 1) \<and> still_open ([OpenConn, StartBatcher] @ cleanups True (Suc 1)) = (0, 0)"
proof -
  have "case value_or MockProcessor (fst sample_build) of MockProcessor \<Rightarrow> False | RealProcessor bc n ps \<Rightarrow> True"
    by code_simp
  with construction_leaks_nothing[OF sample_built[unfolded sample_build_def], of 1] show ?thesis
    by (simp add: sample_build_def split: built.splits)
qed

text \<open>A server that was started ends orderly: it is awaited, the process is not ready any more, and it
  was not ready before the shutdown began; the listener is torn down exactly when the graceful
  shutdown failed; and the result is nil exactly when neither shutting down nor serving failed.\<close>

theorem server_ends_orderly:
  assumes "serve a stopped s = (causes, es)" "StartServing \<in> set es"
  shows "AwaitServe \<in> set es \<and> \<not> readiness_after True es
    \<and> (CallShutdown \<in> set es \<longrightarrow> \<not> readiness_after True (takeWhile (\<lambda>e. e \<noteq> CallShutdown) es))
    \<and> (CallClose \<in> set es \<longleftrightarrow> stopped \<and> shutdown_result s \<noteq> None)
    \<and> (causes = [] \<longleftrightarrow> (stopped \<longrightarrow> shutdown_result s = None) \<and> (\<forall>e. serve_result s \<noteq> Some (ServeFailed e)))"
  using serve_spec[OF assms] by blast

theorem server_ends_orderly_witness:
  "AwaitServe \<in> set [StartServing, SetReady False, CallShutdown, CallClose, AwaitServe]"
proof -
  have "serve \<lparr>ctx_given = True, server_given = True, listener_given = True, readiness_given = True, shutdown_limit = 1\<rparr> True
      \<lparr>serve_result = Some ServerClosed, shutdown_result = Some ''late'', close_result = None\<rparr>
    = ([''server: shutdown: late''], [StartServing, SetReady False, CallShutdown, CallClose, AwaitServe])"
    by code_simp
  from server_ends_orderly[OF this] show ?thesis
    by simp
qed

end
