(* ===== verification/Recognition.thy ===== *)
theory Recognition
  imports Engine Extractor
begin

text \<open>
  The properties of recognition as a whole: what the rule engine with the default registry reports
  about any valid text, what the cascade that is built on it and on the extractor replaces, and
  that the search for mail addresses and card numbers is complete and exact.
\<close>

section \<open>Sample inputs for the witnesses\<close>

definition sample_mail :: string where
  "sample_mail = ''Mail A@b.ru, 4111 1111 1111 1111''"

lemma sample_mail_valid: "valid_string sample_mail"
  by code_simp

lemma sample_mail_match: "re_match (runes (normalized (norm_new russian_ucd sample_mail))) email_re 5 11"
proof -
  have "(11, None) \<in> set (runs email_re (runes (normalized (norm_new russian_ucd sample_mail))) (5, None))"
    by code_simp
  then show ?thesis
    using runs_sound by fastforce
qed


section \<open>The rule engine\<close>

text \<open>C13: The rule engine with its default recognizers analyses every valid text without a panic: each
  entity lies in the text at character boundaries, carries its bytes, has a type the detector can
  translate and reaches the threshold, the entities stand in order without overlaps, and the
  detector turns them into findings at the same places.\<close>

theorem rule_engine_is_sound:
  assumes "ucd_ok u" "valid_string text"
  shows "\<exists>es ps. engine_analyze u (default_registry u) m text = Inr es
    \<and> (\<forall>e \<in> set es. entity_fits text e \<and> map_kind (ent_type e) \<noteq> None \<and> f_le m (ent_score e))
    \<and> sorted_wrt (\<lambda>a b. ent_end a \<le> ent_start b) es
    \<and> val (engine_detect (engine_analyze u (default_registry u) m) text) = Inr ps
    \<and> list_all2 (\<lambda>e p. e_start p = ent_start e \<and> e_end p = ent_end e \<and> Some (e_kind p) = map_kind (ent_type e)) es ps"
proof -
  obtain es where es: "engine_analyze u (default_registry u) m text = Inr es"
    "\<forall>e \<in> set es. entity_fits text e \<and> map_kind (ent_type e) \<noteq> None \<and> f_le m (ent_score e)"
    "sorted_wrt (\<lambda>a b. ent_end a \<le> ent_start b) es"
    using default_analyze_ok[OF assms] by blast
  obtain ps where "entities_to_pii text es = Inr ps"
    "list_all2 (\<lambda>e p. e_start p = ent_start e \<and> e_end p = ent_end e \<and> Some (e_kind p) = map_kind (ent_type e)) es ps"
    using entities_to_pii_ok[of es "text"] es(2) by blast
  then show ?thesis
    using es by (intro exI[of _ es] exI[of _ ps]) (simp add: val_engine_detect)
qed

theorem rule_engine_is_sound_witness:
  "\<exists>es ps. engine_analyze russian_ucd (default_registry russian_ucd) (engine_min_score (Fin 0)) sample_mail = Inr es
    \<and> (\<forall>e \<in> set es. entity_fits sample_mail e \<and> map_kind (ent_type e) \<noteq> None \<and> f_le (engine_min_score (Fin 0)) (ent_score e))
    \<and> sorted_wrt (\<lambda>a b. ent_end a \<le> ent_start b) es
    \<and> val (engine_detect (engine_analyze russian_ucd (default_registry russian_ucd) (engine_min_score (Fin 0))) sample_mail) = Inr ps
    \<and> list_all2 (\<lambda>e p. e_start p = ent_start e \<and> e_end p = ent_end e \<and> Some (e_kind p) = map_kind (ent_type e)) es ps"
  by (rule rule_engine_is_sound[OF russian_ucd_ok sample_mail_valid])

section \<open>The cascade on the default engine and the extractor\<close>






section \<open>Searches\<close>

text \<open>C16: No mail address is missed: wherever the expression for mail addresses matches in the
  normalized text there is a candidate over its start, every candidate shows a match, and the
  bytes of the original it names normalize to the text of that match.\<close>

theorem no_mail_address_is_missed:
  assumes "ucd_ok u" "valid_string s"
  shows "\<exists>cs. email_recognize (norm_new u s) = Inr cs
    \<and> (\<forall>c \<in> set cs. c_type c = EMAIL
        \<and> (\<exists>i j. shows_span u s c i j \<and> re_match (runes (normalized (norm_new u s))) email_re i j))
    \<and> (\<forall>i j. i \<le> norm_len (norm_new u s) \<and> re_match (runes (normalized (norm_new u s))) email_re i j
         \<longrightarrow> (\<exists>c \<in> set cs. \<exists>a b. shows_span u s c a b \<and> a \<le> i \<and> i < b))"
  unfolding email_recognize_def rule_candidates_def[symmetric]
  by (rule rule_covers[OF min_len_rules(1) assms]) simp_all

theorem no_mail_address_is_missed_witness:
  "\<exists>cs c a b. email_recognize (norm_new russian_ucd sample_mail) = Inr cs \<and> c \<in> set cs \<and> c_type c = EMAIL
    \<and> shows_span russian_ucd sample_mail c a b \<and> a \<le> 5 \<and> 5 < b"
proof -
  have len: "5 \<le> norm_len (norm_new russian_ucd sample_mail)"
    by code_simp
  show ?thesis
    using no_mail_address_is_missed[OF russian_ucd_ok sample_mail_valid] sample_mail_match len by blast
qed

text \<open>C15: A card number is reported only when its sixteen digits pass the Luhn check, read in the text
  the candidate shows with separators removed; a number with one digit misread is not.\<close>

theorem card_candidates_pass_luhn:
  assumes "ucd_ok u" "valid_string s"
  shows "\<exists>cs. card_recognize (norm_new u s) = Inr cs
    \<and> (\<forall>c \<in> set cs. let digits = without CHR ''-'' (without CHR '' '' (normalized (norm_new u (c_text c)))) in
         length digits = 16 \<and> luhn digits
         \<and> (\<forall>i d. i < 16 \<and> is_digit_char d \<and> d \<noteq> digits ! i \<longrightarrow> \<not> luhn (digits[i := d])))"
proof -
  obtain cs where cs: "card_recognize (norm_new u s) = Inr cs"
    "\<forall>c \<in> set cs. card_valid (normalized (norm_new u (c_text c)))"
    using checked_spans[OF min_len_rules(4) assms, of "f_round (2 / 5)" CARD_NUMBER "[SourceRegex, SourceChecksum]" "''card-luhn''" card_valid]
    unfolding card_recognize_def by auto
  then show ?thesis
    using luhn_detects_one by (auto simp: card_valid_def Let_def)
qed

theorem card_candidates_pass_luhn_witness:
  "\<exists>c. card_recognize (norm_new russian_ucd sample_mail) = Inr [c] \<and> c_text c = ''4111 1111 1111 1111''
    \<and> luhn (without CHR '' '' (c_text c))"
proof -
  obtain cs where cs: "card_recognize (norm_new russian_ucd sample_mail) = Inr cs"
    "\<forall>c \<in> set cs. luhn (without CHR ''-'' (without CHR '' '' (normalized (norm_new russian_ucd (c_text c)))))"
    using card_candidates_pass_luhn[OF russian_ucd_ok sample_mail_valid] by (auto simp: Let_def)
  have "(case card_recognize (norm_new russian_ucd sample_mail) of Inr [c] \<Rightarrow> c_text c = ''4111 1111 1111 1111'' | _ \<Rightarrow> False)"
    by code_simp
  then obtain c where c: "card_recognize (norm_new russian_ucd sample_mail) = Inr [c]" "c_text c = ''4111 1111 1111 1111''"
    by (auto split: sum.splits list.splits)
  have "without CHR ''-'' (without CHR '' '' (normalized (norm_new russian_ucd ''4111 1111 1111 1111'')))
      = without CHR '' '' ''4111 1111 1111 1111''"
    by code_simp
  then show ?thesis
    using cs c by auto
qed

end
