(* ===== verification/SessionSpec.thy ===== *)
theory SessionSpec
  imports Store
begin

text \<open>
  What \<open>internal/store\<close> promises, as a machine over a map: a session is there from the moment it was
  put or updated until it expires or is deleted, and a new one is refused only when the map is
  full.  The memory store, with its sweeps put off to once a second, is a refinement: on every
  sequence of operations it gives the replies of the map.
\<close>

section \<open>The map\<close>

type_synonym session_map = "string \<Rightarrow> session option"

datatype store_op = OpGet string | OpPut session | OpUpdate session | OpDelete string

datatype store_reply = Looked "session res" | Taken "bool res" | Acked "unit res"

definition expire :: "int \<Rightarrow> session_map \<Rightarrow> session_map" where
  "expire t m = (\<lambda>pid. case m pid of None \<Rightarrow> None | Some s \<Rightarrow> stored s t)"

fun spec_act :: "int \<Rightarrow> int \<Rightarrow> store_op \<Rightarrow> session_map \<Rightarrow> store_reply \<times> session_map" where
  "spec_act cap now (OpGet pid) m = (Looked (lookup_result (expire now m pid)), expire now m)"
| "spec_act cap now (OpPut s) m =
     (let live = expire now m in
      if live (payload_id s) \<noteq> None then (Taken (Inr False), live)
      else if int (card (dom live)) < cap then (Taken (Inr True), live(payload_id s \<mapsto> s))
      else (Taken (Inl ErrStoreUnavailable), live))"
| "spec_act cap now (OpUpdate s) m =
     (let live = expire now m in
      if live (payload_id s) = None then (Acked (Inl ErrSessionNotFound), live)
      else (Acked (Inr ()), live(payload_id s \<mapsto> s)))"
| "spec_act cap now (OpDelete pid) m = (Acked (Inr ()), (expire now m)(pid := None))"

section \<open>The memory store on the same operations\<close>

fun store_act :: "int \<Rightarrow> store_op \<Rightarrow> memory_store \<Rightarrow> store_reply \<times> memory_store" where
  "store_act now (OpGet pid) st = map_prod Looked id (get_at now pid st)"
| "store_act now (OpPut s) st = map_prod Taken id (put_at now s st)"
| "store_act now (OpUpdate s) st = map_prod Acked id (update_at now s st)"
| "store_act now (OpDelete pid) st = (Acked (Inr ()), drop_session pid st)"

fun replies :: "(int \<Rightarrow> store_op \<Rightarrow> 's \<Rightarrow> store_reply \<times> 's) \<Rightarrow> 's \<Rightarrow> (int \<times> store_op) list \<Rightarrow> store_reply list" where
  "replies act st [] = []"
| "replies act st ((t, op) # ops) = (case act t op st of (r, st') \<Rightarrow> r # replies act st' ops)"

section \<open>The simulation\<close>

lemma stored_later: "stored s now = None \<Longrightarrow> now \<le> t \<Longrightarrow> stored s t = None"
  using is_expired_mono[of s now t] by (auto simp: stored_def split: if_splits)

lemma expire_expire: "now \<le> t \<Longrightarrow> expire t (expire now m) = expire t m"
  by (rule ext) (auto simp: expire_def stored_def is_expired_mono split: option.split)

lemma expire_upd: "expire t (m(pid := v)) = (expire t m)(pid := Option.bind v (\<lambda>s. stored s t))"
  by (rule ext) (auto simp: expire_def split: option.split)

lemma live_count_card:
  assumes "store_inv st"
  shows "live_count now st = card (dom (view_at now st))"
proof -
  let ?xs = "filter (\<lambda>(i, s). \<not> is_expired s now) (sessions st)"
  have d: "distinct (map fst (sessions st))"
    using assms by (simp add: store_inv_def)
  have "view_at now st = map_of ?xs"
    by (rule ext) (auto simp: view_at_def map_of_filter_value[OF d] stored_def split: option.split)
  moreover have "distinct (map fst ?xs)"
    using d by (simp add: distinct_map_filter)
  ultimately have "card (dom (view_at now st)) = length (map fst ?xs)"
    using distinct_card[of "map fst ?xs"] by (simp only: dom_map_of_conv_image_fst set_map)
  then show ?thesis
    by (simp add: live_count_def)
qed

lemma max_sessions_kept:
  "max_sessions (snd (get_at now pid st)) = max_sessions st"
  "max_sessions (snd (put_at now s st)) = max_sessions st"
  "max_sessions (snd (update_at now s st)) = max_sessions st"
  by (auto simp: get_at_def put_at_def update_at_def insert_at_def save_session_def purge_expired_def drop_session_def
      Let_def split: option.split)

definition simulates :: "int \<Rightarrow> int \<Rightarrow> memory_store \<Rightarrow> session_map \<Rightarrow> bool" where
  "simulates cap now st m \<longleftrightarrow> store_inv st \<and> max_sessions st = cap \<and> (\<forall>t \<ge> now. view_at t st = expire t m)"

lemma simulates_new: "simulates cap now (new_memory_store cap) Map.empty"
  by (simp add: simulates_def store_inv_new view_new) (simp add: new_memory_store_def expire_def)

lemma simulates_step:
  assumes "simulates cap past st m" "past \<le> now"
  shows "\<exists>r st' m'. store_act now op st = (r, st') \<and> spec_act cap now op m = (r, m') \<and> simulates cap now st' m'"
proof -
  have inv: "store_inv st" and cap: "max_sessions st = cap" and view: "\<forall>t \<ge> now. view_at t st = expire t m"
    using assms by (auto simp: simulates_def)
  have now: "view_at now st = expire now m"
    using view by simp
  note upd = expire_upd expire_expire
  show ?thesis
  proof (cases op)
    case (OpGet pid)
    obtain st' where st': "get_at now pid st = (lookup_result (view_at now st pid), st')" "store_inv st'"
      "\<forall>t \<ge> now. view_at t st' = view_at t st"
      using get_at_spec[OF inv] by blast
    then show ?thesis
      using max_sessions_kept(1)[of now pid st] view cap by (simp add: OpGet simulates_def upd now)
  next
    case (OpPut s)
    obtain r st' where st': "put_at now s st = (r, st')" "store_inv st'"
      "r = (if view_at now st (payload_id s) \<noteq> None then Inr False
           else if int (live_count now st) < max_sessions st then Inr True else Inl ErrStoreUnavailable)"
      "\<forall>t \<ge> now. view_at t st' = (if r = Inr True then (view_at t st)(payload_id s := stored s t) else view_at t st)"
      using put_at_spec[OF inv] by blast
    then show ?thesis
      using max_sessions_kept(2)[of now s st] view cap live_count_card[OF inv, of now]
      by (auto simp: OpPut simulates_def upd now)
  next
    case (OpUpdate s)
    obtain r st' where st': "update_at now s st = (r, st')" "store_inv st'"
      "if view_at now st (payload_id s) = None
       then r = Inl ErrSessionNotFound \<and> (\<forall>t \<ge> now. view_at t st' = view_at t st)
       else r = Inr () \<and> (\<forall>t \<ge> now. view_at t st' = (view_at t st)(payload_id s := stored s t))"
      using update_at_spec[OF inv] by blast
    show ?thesis
    proof (cases "view_at now st (payload_id s)")
      case None
      then show ?thesis
        using st' max_sessions_kept(3)[of now s st] view cap now by (simp add: OpUpdate simulates_def expire_expire)
    next
      case (Some old)
      then show ?thesis
        using st' max_sessions_kept(3)[of now s st] view cap now by (simp add: OpUpdate simulates_def upd)
    qed
  next
    case (OpDelete pid)
    then show ?thesis
      using inv cap view store_inv_drop by (simp add: simulates_def upd view_drop)
  qed
qed

lemma replies_simulated:
  "simulates cap past st m \<Longrightarrow> sorted (past # map fst ops) \<Longrightarrow> replies store_act st ops = replies (spec_act cap) m ops"
proof (induction ops arbitrary: past st m)
  case Nil
  then show ?case by simp
next
  case (Cons p ops)
  obtain t op where p: "p = (t, op)"
    by (cases p)
  obtain r st' m' where "store_act t op st = (r, st')" "spec_act cap t op m = (r, m')" "simulates cap t st' m'"
    using simulates_step[OF Cons.prems(1), of t op] Cons.prems(2) p by auto
  then show ?case
    using Cons.IH[of t st' m'] Cons.prems(2) by (simp add: p)
qed

section \<open>The refinement\<close>

text \<open>C12: The memory store refines the map of sessions: on every sequence of lookups, insertions,
  updates and deletions, at times that do not go back, it gives the replies of the map, in which an
  expired session is gone at once and an insertion is refused only when the sessions alive fill it.\<close>

theorem store_refines_session_map:
  assumes "sorted (map fst ops)"
  shows "replies store_act (new_memory_store cap) ops = replies (spec_act cap) Map.empty ops"
proof (cases ops)
  case (Cons p rest)
  then have "sorted (fst p # map fst ops)"
    using assms by simp
  then show ?thesis
    by (rule replies_simulated[OF simulates_new])
qed simp

definition sample_session :: "string \<Rightarrow> int \<Rightarrow> session" where
  "sample_session pid e = \<lparr>payload_id = pid, payload_hash = [], mappings = [], status = PROCESSING, created_at = 0,
     expires_at = Some e, mask_kinds_set = False, mask_kinds = []\<rparr>"

definition sample_ops :: "(int \<times> store_op) list" where
  "sample_ops = [(0, OpPut (sample_session ''a'' 10)), (5, OpPut (sample_session ''b'' 20)), (5, OpGet ''a''),
     (12, OpPut (sample_session ''b'' 20)), (12, OpGet ''a''), (13, OpDelete ''b''), (14, OpUpdate (sample_session ''b'' 20))]"

theorem store_refines_session_map_witness:
  "replies (spec_act 1) Map.empty sample_ops =
     [Taken (Inr True), Taken (Inl ErrStoreUnavailable), Looked (Inr (sample_session ''a'' 10)),
      Taken (Inr True), Looked (Inl ErrSessionNotFound), Acked (Inr ()), Acked (Inl ErrSessionNotFound)]"
proof -
  have "replies store_act (new_memory_store 1) sample_ops =
     [Taken (Inr True), Taken (Inl ErrStoreUnavailable), Looked (Inr (sample_session ''a'' 10)),
      Taken (Inr True), Looked (Inl ErrSessionNotFound), Acked (Inr ()), Acked (Inl ErrSessionNotFound)]"
    by code_simp
  moreover have "sorted (map fst sample_ops)"
    by code_simp
  ultimately show ?thesis
    using store_refines_session_map[of sample_ops 1] by simp
qed

end
