(* ===== verification/Batches.thy ===== *)
theory Batches
  imports Batching
begin

text \<open>
  The properties of the extractor's transport: what becomes of every accepted job under any
  interleaving of callers, workers and the clock, and whose answer a caller gets.
\<close>

section \<open>Sample inputs for the witnesses\<close>

definition sample_job :: "nat \<Rightarrow> string \<Rightarrow> job" where
  "sample_job n s = \<lparr>jid = n, job_item = \<lparr>chunk_id = ''c'', item_text = s, gate_text = s\<rparr>\<rparr>"

definition sample_batcher :: batcher where
  "sample_batcher = \<lparr>b_queue = [], b_closed = False, b_gone = (\<lambda>_. None),
     b_workers = [\<lparr>phase = Gathering [sample_job 1 ''ab''] 2, pending = None\<rparr>, \<lparr>phase = Seeking, pending = None\<rparr>,
       \<lparr>phase = Seeking, pending = None\<rparr>, \<lparr>phase = Seeking, pending = None\<rparr>],
     b_seq = 0, b_accepted = [sample_job 1 ''ab''], b_answers = []\<rparr>"

lemma sample_job_size: "job_size (sample_job 1 ''ab'') = 2" "valid_string ''ab''"
  by (simp add: job_size_def sample_job_def code_points_def, code_simp) code_simp

lemma sample_batcher_reachable: "batcher_reachable default_batch_config sample_batcher"
proof -
  let ?idle = "\<lparr>phase = Seeking, pending = None\<rparr>"
  let ?b0 = "\<lparr>b_queue = [], b_closed = False, b_gone = (\<lambda>_. None), b_workers = replicate 4 ?idle, b_seq = 0,
    b_accepted = [], b_answers = []\<rparr>"
  let ?j = "sample_job 1 ''ab''"
  let ?b1 = "?b0\<lparr>b_queue := [?j], b_accepted := [?j]\<rparr>"
  have "new_batcher default_batch_config = Inr ?b0"
    by (simp add: new_batcher_def default_batch_config_def batch_config_validate_def new_item_queue_def)
  then have b0: "batcher_reachable default_batch_config ?b0"
    by (rule batcher_reachable.Start)
  have "submit default_batch_config ?b0 ?j = Inr ?b1"
    using sample_job_size(2) by (simp add: submit_def sample_job_def enqueue_def default_batch_config_def)
  then have "batcher_step default_batch_config ?b0 ?b1"
    by (rule batcher_step.Submit[rotated]) simp
  then have b1: "batcher_reachable default_batch_config ?b1"
    by (rule batcher_reachable.Step[OF b0])
  have "first_job default_batch_config (b_gone ?b1) ?j = (Gathering [?j] 2, [])"
    using sample_job_size by (simp add: first_job_def gather_def default_batch_config_def)
  then have "batcher_step default_batch_config ?b1
      (answer [] (set_worker (?b1\<lparr>b_queue := []\<rparr>) 0 \<lparr>phase = Gathering [?j] 2, pending = None\<rparr>))"
    by (intro batcher_step.TakeFirst) (simp_all add: numeral_eq_Suc)
  from batcher_reachable.Step[OF b1 this] show ?thesis
    by (simp add: sample_batcher_def numeral_eq_Suc)
qed

section \<open>Jobs\<close>

text \<open>C17: In every reachable state of the batcher, each accepted job is in exactly one place: in the
  queue, with one worker, or answered, and no job is answered twice; the queue keeps its capacity
  and every batch its limits of items and of code points.\<close>

theorem batcher_accounts_for_every_job:
  assumes "batcher_reachable cfg b"
  shows "mset (b_accepted b) = mset (b_queue b) + mset (concat (map held (b_workers b))) + mset (map fst (b_answers b))
    \<and> distinct (map (jid \<circ> fst) (b_answers b)) \<and> distinct (map jid (b_accepted b))
    \<and> int (length (b_queue b)) \<le> queue_capacity cfg
    \<and> (\<forall>w \<in> set (b_workers b). batch_of (phase w) \<noteq> [] \<longrightarrow> in_limits cfg (map job_item (batch_of (phase w))))"
proof -
  have inv: "batcher_inv cfg b"
    using batcher_reachable_inv[OF assms] by simp
  have "in_limits cfg (map job_item (batch_of (phase w)))" if "worker_ok cfg w" "batch_of (phase w) \<noteq> []" for w
    using that by (auto simp: worker_ok_def batch_of_def batch_within_def split: phase.splits)
  then show ?thesis
    using inv inv_answers(1)[OF inv] by (simp add: batcher_inv_def list_all_iff)
qed

theorem batcher_accounts_for_every_job_witness:
  "mset (b_accepted sample_batcher) = mset (b_queue sample_batcher) + mset (concat (map held (b_workers sample_batcher)))
      + mset (map fst (b_answers sample_batcher))
    \<and> concat (map held (b_workers sample_batcher)) = [sample_job 1 ''ab'']"
  using batcher_accounts_for_every_job[OF sample_batcher_reachable]
  by (simp add: sample_batcher_def held_def batch_of_def)

section \<open>Answers\<close>

text \<open>C18: A caller whose job was sent gets the answer to its own text, under its own chunk identifier, with
  entities inside that text, whatever the order of the results and whatever identifiers other callers
  use; an answer that breaks the contract is refused for the whole batch.\<close>

theorem callers_get_their_own_answer:
  assumes "i < length batch"
  shows "if response_ok (batch_request_of n batch) resp
    then \<exists>r. Some r \<in> set (wp_results resp) \<and> wr_chunk_id r = transport_id n i
      \<and> deliver n batch (from_grpc_response (batch_request_of n batch) (Some resp)) ! i =
        (batch ! i, if cr_error (chunk_result_of r) \<noteq> [] then Failure ErrDetectorUnavailable
                    else Reply ((chunk_result_of r)\<lparr>cr_chunk_id := chunk_id (job_item (batch ! i))\<rparr>))
      \<and> (\<forall>e \<in> set (cr_entities (chunk_result_of r)). ml_entity_ok (item_text (job_item (batch ! i))) e)
    else deliver n batch (from_grpc_response (batch_request_of n batch) (Some resp)) ! i =
      (batch ! i, Failure ErrInvalidMLResponse)"
proof (cases "response_ok (batch_request_of n batch) resp")
  case True
  then show ?thesis
    using deliver_own_result[OF True assms] by simp
next
  case False
  then show ?thesis
    using assms by (simp add: from_grpc_response_eq deliver_def fail_batch_def)
qed

definition sample_batch :: "job list" where
  "sample_batch = [sample_job 1 ''ab'', sample_job 2 ''cde'']"

definition sample_response :: wire_response where
  "sample_response = \<lparr>wp_batch_id = ''batch-7'', wp_model = ''m'', wp_unit = 1, wp_results =
     [Some \<lparr>wr_chunk_id = ''batch-7-1'', wr_entities = [Some \<lparr>w_type = 14, w_start = 0, w_end = 3, w_conf = Fin 1\<rparr>], wr_error = 1\<rparr>,
      Some \<lparr>wr_chunk_id = ''batch-7-0'', wr_entities = [], wr_error = 1\<rparr>]\<rparr>"

theorem callers_get_their_own_answer_witness:
  "deliver 7 sample_batch (from_grpc_response (batch_request_of 7 sample_batch) (Some sample_response)) ! 1 =
    (sample_job 2 ''cde'', Reply \<lparr>cr_chunk_id = ''c'',
       cr_entities = [\<lparr>ml_type = ''email'', ml_start = 0, ml_end = 3, ml_conf = Fin 1\<rparr>], cr_error = []\<rparr>)"
proof -
  have resp: "from_grpc_response (batch_request_of 7 sample_batch) (Some sample_response) =
      Inr \<lparr>resp_batch_id = ''batch-7'', model_version = ''m'', resp_offset_unit = unicode_code_points,
        results = map (\<lambda>p. chunk_result_of (the p)) (wp_results sample_response)\<rparr>"
    by code_simp
  then have ok: "response_ok (batch_request_of 7 sample_batch) sample_response"
    by (simp add: from_grpc_response_eq split: if_splits)
  have ids: "transport_id 7 1 = ''batch-7-1''"
    by code_simp
  obtain r where r: "Some r \<in> set (wp_results sample_response)" "wr_chunk_id r = ''batch-7-1''"
    "deliver 7 sample_batch (from_grpc_response (batch_request_of 7 sample_batch) (Some sample_response)) ! 1 =
        (sample_batch ! 1, if cr_error (chunk_result_of r) \<noteq> [] then Failure ErrDetectorUnavailable
                    else Reply ((chunk_result_of r)\<lparr>cr_chunk_id := chunk_id (job_item (sample_batch ! 1))\<rparr>))"
    using callers_get_their_own_answer[of 1 sample_batch 7 sample_response] ok ids by (auto simp: sample_batch_def)
  have "r = \<lparr>wr_chunk_id = ''batch-7-1'', wr_entities = [Some \<lparr>w_type = 14, w_start = 0, w_end = 3, w_conf = Fin 1\<rparr>], wr_error = 1\<rparr>"
    using r(1,2) by (auto simp: sample_response_def)
  then have "chunk_result_of r = \<lparr>cr_chunk_id = ''batch-7-1'',
      cr_entities = [\<lparr>ml_type = ''email'', ml_start = 0, ml_end = 3, ml_conf = Fin 1\<rparr>], cr_error = []\<rparr>"
    by (simp only:) code_simp
  then show ?thesis
    using r(3) by (simp add: sample_batch_def sample_job_def)
qed

end
