(* ===== verification/Telemetry.thy ===== *)
theory Telemetry
  imports Http Masking MlClient
begin

text \<open>
  \<open>internal/observability/metrics.go\<close> and \<open>pipeline.go\<close>: the collectors and the counters of the
  pipeline, the wrappers that observe the masker, the ML client and the cascade, and the fields they
  add to the completion record.  The counters of the HTTP layer are in \<open>Http\<close>.  A counter is the list
  of the labels it was incremented with; a histogram keeps the values it was given.
\<close>

section \<open>The collectors\<close>

definition http_duration_buckets :: "f64 list" where
  "http_duration_buckets =
     map f_round [1 / 1000, 5 / 1000, 1 / 100, 25 / 1000, 5 / 100, 1 / 10, 25 / 100, 5 / 10, 1, 25 / 10, 5]"

record collector =
  c_name :: string
  c_help :: string
  c_labels :: "string list"
  c_buckets :: "f64 list"

definition collectors :: "collector list" where
  "collectors =
     [\<lparr>c_name = ''alpha_proxy_http_requests_total'',
       c_help = ''Total number of HTTP requests processed by alpha_proxy.'',
       c_labels = [''method'', ''route'', ''status''], c_buckets = []\<rparr>,
      \<lparr>c_name = ''alpha_proxy_http_request_duration_seconds'',
       c_help = ''Duration of HTTP requests in seconds.'',
       c_labels = [''method'', ''route''], c_buckets = http_duration_buckets\<rparr>,
      \<lparr>c_name = ''alpha_proxy_http_in_flight_requests'',
       c_help = ''Number of HTTP requests currently in flight.'', c_labels = [], c_buckets = []\<rparr>,
      \<lparr>c_name = ''alpha_proxy_http_timeouts_total'',
       c_help = ''Total number of HTTP requests that timed out.'', c_labels = [], c_buckets = []\<rparr>,
      \<lparr>c_name = ''alpha_proxy_processor_calls_total'',
       c_help = ''Total number of Processor calls by outcome.'', c_labels = [''outcome''], c_buckets = []\<rparr>,
      \<lparr>c_name = ''alpha_proxy_processor_duration_seconds'',
       c_help = ''Duration of Processor calls in seconds by outcome.'',
       c_labels = [''outcome''], c_buckets = http_duration_buckets\<rparr>,
      \<lparr>c_name = ''alpha_proxy_pii_entities_total'',
       c_help = ''Total number of PII entities found by kind.'', c_labels = [''kind''], c_buckets = []\<rparr>,
      \<lparr>c_name = ''alpha_proxy_ml_requests_total'',
       c_help = ''Total number of ML requests by outcome.'', c_labels = [''outcome''], c_buckets = []\<rparr>,
      \<lparr>c_name = ''alpha_proxy_ml_request_duration_seconds'',
       c_help = ''Duration of ML requests in seconds by outcome.'',
       c_labels = [''outcome''], c_buckets = http_duration_buckets\<rparr>,
      \<lparr>c_name = ''alpha_proxy_cascade_routes_total'',
       c_help = ''Total number of cascade routing decisions by route.'', c_labels = [''route''], c_buckets = []\<rparr>]"

text \<open>The registry of the Prometheus library: \<open>add\<close> registers a collector or refuses it.\<close>

fun register_all :: "('r \<Rightarrow> collector \<Rightarrow> 'r res) \<Rightarrow> 'r \<Rightarrow> collector list \<Rightarrow> 'r res" where
  "register_all add r [] = Inr r"
| "register_all add r (c # cs) = rbind (add r c) (\<lambda>r. register_all add r cs)"

record pipeline_metrics = metrics +
  pii_entities :: "string list"
  ml_requests :: "string list"
  ml_durations :: "(string \<times> int) list"
  cascade_routes :: "string list"

definition no_observations :: pipeline_metrics where
  "no_observations = metrics.extend new_metrics
     \<lparr>pii_entities = [], ml_requests = [], ml_durations = [], cascade_routes = []\<rparr>"

definition new_pipeline_metrics ::
  "('r \<Rightarrow> collector \<Rightarrow> 'r res) \<Rightarrow> 'r \<Rightarrow> ('r \<times> pipeline_metrics) res" where
  "new_pipeline_metrics add reg = rbind (register_all add reg collectors) (\<lambda>r. Inr (r, no_observations))"

section \<open>Labels\<close>

definition normalize_ml_outcome :: "string \<Rightarrow> string" where
  "normalize_ml_outcome outcome = (if outcome = ''success'' then ''success'' else ''error'')"

text \<open>Country, region and district are not among the kinds that are counted under their name.\<close>

definition reported_kinds :: "pii_kind list" where
  "reported_kinds =
     [PIIKindFullName, PIIKindFirstName, PIIKindLastName,
      PIIKindMiddleName, PIIKindAddress, PIIKindCity,
      PIIKindStreet, PIIKindHouse, PIIKindApartment,
      PIIKindBirthPlace, PIIKindCitizenship, PIIKindPassportIssuer,
      PIIKindCardHolderName, PIIKindEmail, PIIKindPhone,
      PIIKindINN, PIIKindBankCard, PIIKindPassport,
      PIIKindPassportDivision, PIIKindDate, PIIKindDriverLicense,
      PIIKindCVV, PIIKindPIN, PIIKindPostalCode]"

definition normalize_kind :: "string \<Rightarrow> string" where
  "normalize_kind kind = (if kind \<in> set (map kind_name reported_kinds) then kind else ''unknown'')"

definition normalize_cascade_route :: "string \<Rightarrow> string" where
  "normalize_cascade_route r = (if r \<in> {''safe'', ''rule'', ''ml''} then r else ''safe'')"

definition observe_pii_entity :: "string \<Rightarrow> pipeline_metrics \<Rightarrow> pipeline_metrics" where
  "observe_pii_entity kind ms = ms\<lparr>pii_entities := pii_entities ms @ [normalize_kind kind]\<rparr>"

definition observe_ml_request :: "string \<Rightarrow> int \<Rightarrow> pipeline_metrics \<Rightarrow> pipeline_metrics" where
  "observe_ml_request outcome duration ms =
     (let outcome = normalize_ml_outcome outcome in
      ms\<lparr>ml_requests := ml_requests ms @ [outcome],
         ml_durations := ml_durations ms @ [(outcome, duration)]\<rparr>)"

definition observe_cascade_route :: "string \<Rightarrow> pipeline_metrics \<Rightarrow> pipeline_metrics" where
  "observe_cascade_route r ms = ms\<lparr>cascade_routes := cascade_routes ms @ [normalize_cascade_route r]\<rparr>"

section \<open>The observed pipeline\<close>

text \<open>The metadata with the fields of the pipeline, and what a call sees: its context with the
  metadata it carries, and the metrics, \<open>None\<close> for a nil pointer.\<close>

record run_meta = request_meta +
  pii_count :: int
  pii_types :: "string list"
  ml_invoked :: bool

record pipeline =
  p_ctx :: ctx
  p_meta :: "run_meta option"
  p_metrics :: "pipeline_metrics option"

definition in_ctx :: "(ctx, 'a) sm \<Rightarrow> (pipeline, 'a) sm" where
  "in_ctx m = (\<lambda>p. case m (p_ctx p) of (r, c) \<Rightarrow> (r, p\<lparr>p_ctx := c\<rparr>))"

definition with_pipeline_metrics :: "(pipeline_metrics \<Rightarrow> pipeline_metrics) \<Rightarrow> pipeline \<Rightarrow> pipeline" where
  "with_pipeline_metrics f p = p\<lparr>p_metrics := map_option f (p_metrics p)\<rparr>"

definition with_meta :: "(run_meta \<Rightarrow> run_meta) \<Rightarrow> pipeline \<Rightarrow> pipeline" where
  "with_meta f p = p\<lparr>p_meta := map_option f (p_meta p)\<rparr>"

fun findings_loop ::
  "pii_kind set \<Rightarrow> string list \<Rightarrow> pipeline_metrics \<Rightarrow> token_mapping list \<Rightarrow> string list \<times> pipeline_metrics" where
  "findings_loop seen types ms [] = (types, ms)"
| "findings_loop seen types ms (mp # mps) =
     (let ms = observe_pii_entity (kind_name (m_kind mp)) ms in
      if m_kind mp \<notin> seen
      then findings_loop (insert (m_kind mp) seen) (types @ [kind_name (m_kind mp)]) ms mps
      else findings_loop seen types ms mps)"

definition record_findings :: "token_mapping list \<Rightarrow> pipeline \<Rightarrow> pipeline" where
  "record_findings mps p =
     (case p_metrics p of
        None \<Rightarrow> p
      | Some ms \<Rightarrow>
          (case findings_loop {} [] ms mps of (types, ms) \<Rightarrow>
             with_meta (\<lambda>m. m\<lparr>pii_count := int (length mps), pii_types := types\<rparr>)
               (p\<lparr>p_metrics := Some ms\<rparr>)))"


text \<open>\<open>InstrumentedMLClient\<close>: both transports go through \<open>observe\<close>; \<open>elapsed\<close> is what the clock measures.\<close>

definition observe_call :: "int \<Rightarrow> (batch_request \<Rightarrow> batch_response res) \<Rightarrow> batch_request \<Rightarrow> (pipeline, batch_response) sm" where
  "observe_call elapsed call req = (\<lambda>p.
     let resp = call req in
     if resp = Inl Panic then (resp, p)
     else (resp, with_pipeline_metrics
       (observe_ml_request (case resp of Inl _ \<Rightarrow> ''error'' | Inr _ \<Rightarrow> ''success'') elapsed) p))"

definition instrumented_batch_v1 ::
  "int \<Rightarrow> wire_chunk rpc \<Rightarrow> batch_request \<Rightarrow> (pipeline, batch_response) sm" where
  "instrumented_batch_v1 elapsed rpc req = observe_call elapsed (process_batch_v1 rpc) req"

definition instrumented_batch_v2 ::
  "int \<Rightarrow> wire_chunk2 rpc \<Rightarrow> batch_request \<Rightarrow> (pipeline, batch_response) sm" where
  "instrumented_batch_v2 elapsed rpc req = observe_call elapsed (process_batch_v2 rpc) req"

text \<open>\<open>InstrumentedCascade\<close>: \<open>AnalyzeRules\<close> is passed on; a chunk is counted before it is detected.\<close>

definition instrumented_detect ::
  "extractor \<Rightarrow> string \<Rightarrow> string \<Rightarrow> (pipeline, entity list) sm" where
  "instrumented_detect expensive original gate = (\<lambda>p.
     if p_metrics p = None then in_ctx (detect_chunk expensive original gate) p
     else
       mbind (in_ctx poll) (\<lambda>_ p.
         in_ctx (detect_chunk expensive original gate)
           (with_meta (\<lambda>m. m\<lparr>ml_invoked := True\<rparr>)
             (with_pipeline_metrics (observe_cascade_route ''ml'') p))) p)"

text \<open>What the completion record says of the pipeline: \<open>pii_types\<close> only when there are any.\<close>

record pipeline_fields =
  l_pii_count :: int
  l_pii_types :: "string list option"
  l_ml_invoked :: bool

definition fields_of :: "run_meta \<Rightarrow> pipeline_fields" where
  "fields_of m = \<lparr>l_pii_count = pii_count m,
     l_pii_types = (if length (pii_types m) > 0 then Some (pii_types m) else None),
     l_ml_invoked = ml_invoked m\<rparr>"


section \<open>Registration\<close>

lemma collector_names_distinct: "distinct (map c_name collectors)"
  by (simp add: collectors_def)

text \<open>Registering distinct names succeeds in a registry that refuses only a name it has.\<close>

lemma register_all_ok:
  assumes "\<And>r c. c_name c \<notin> names r \<Longrightarrow> \<exists>r'. add r c = Inr r' \<and> names r' = insert (c_name c) (names r)"
    and "distinct (map c_name cs)" "names r \<inter> set (map c_name cs) = {}"
  shows "\<exists>r'. register_all add r cs = Inr r' \<and> names r' = names r \<union> set (map c_name cs)"
  using assms(2,3)
proof (induction cs arbitrary: r)
  case (Cons c cs)
  obtain r' where r': "add r c = Inr r'" "names r' = insert (c_name c) (names r)"
    using assms(1)[of c r] Cons.prems by auto
  then show ?case
    using Cons.IH[of r'] Cons.prems by auto
qed simp

section \<open>Findings\<close>


lemma in_ctx_apply [simp]: "in_ctx m p = (fst (m (p_ctx p)), p\<lparr>p_ctx := snd (m (p_ctx p))\<rparr>)"
  by (simp add: in_ctx_def split: prod.split)

lemma ctx_of_recorded [simp]:
  "p_ctx (record_findings mps p) = p_ctx p"
  "p_ctx (with_meta f p) = p_ctx p"
  "p_ctx (with_pipeline_metrics g p) = p_ctx p"
  by (simp_all add: record_findings_def with_meta_def with_pipeline_metrics_def split: option.split prod.split)

section \<open>The series a process can ever show\<close>

text \<open>Every increment and observation of the metrics.\<close>

inductive observed :: "pipeline_metrics \<Rightarrow> bool" where
  fresh: "observed no_observations"
| http_request: "observed ms \<Longrightarrow> observed (observe_http_request m r st ms)"
| processor_call: "observed ms \<Longrightarrow> observed (observe_processor outcome ms)"
| in_flight: "observed ms \<Longrightarrow> observed (move_in_flight d ms)"
| timed_out: "observed ms \<Longrightarrow> observed (inc_http_timeout ms)"
| pii_entity: "observed ms \<Longrightarrow> observed (observe_pii_entity kind ms)"
| ml_request: "observed ms \<Longrightarrow> observed (observe_ml_request outcome elapsed ms)"
| cascade_route: "observed ms \<Longrightarrow> observed (observe_cascade_route r ms)"

definition label_values :: "string \<Rightarrow> string set" where
  "label_values name =
     (if name = ''method'' then {''GET'', ''POST'', ''OTHER''}
      else if name = ''route'' then
        {''POST /process'', ''GET /metrics'', ''GET /healthz'', ''GET /readyz'', ''unmatched''}
      else if name = ''status'' then insert ''unknown'' (show_nat ` {100..599})
      else if name = ''outcome'' then {''success'', ''unavailable'', ''timeout'', ''error''}
      else if name = ''kind'' then insert ''unknown'' (range kind_name)
      else if name = ''ml outcome'' then {''success'', ''error''}
      else if name = ''cascade route'' then {''safe'', ''rule'', ''ml''}
      else {})"

definition labels_ok :: "pipeline_metrics \<Rightarrow> bool" where
  "labels_ok ms \<longleftrightarrow>
     set (http_requests ms) \<subseteq> label_values ''method'' \<times> label_values ''route'' \<times> label_values ''status''
     \<and> set (processor_calls ms) \<subseteq> label_values ''outcome''
     \<and> set (pii_entities ms) \<subseteq> label_values ''kind''
     \<and> set (ml_requests ms) \<subseteq> label_values ''ml outcome''
     \<and> set (cascade_routes ms) \<subseteq> label_values ''cascade route''
     \<and> map fst (ml_durations ms) = ml_requests ms"

lemma normalized [simp]:
  "normalize_method m \<in> label_values ''method''"
  "normalize_route r \<in> label_values ''route''"
  "normalize_status st \<in> label_values ''status''"
  "normalize_outcome outcome \<in> label_values ''outcome''"
  "normalize_kind kind \<in> label_values ''kind''"
  "normalize_ml_outcome outcome \<in> label_values ''ml outcome''"
  "normalize_cascade_route q \<in> label_values ''cascade route''"
        apply (simp add: label_values_def normalize_method_def)
       apply (simp add: label_values_def normalize_route_def)
      apply (simp add: label_values_def normalize_status_def)
     apply (simp add: label_values_def normalize_outcome_def)
    apply (auto simp: label_values_def normalize_kind_def)[1]
   apply (simp add: label_values_def normalize_ml_outcome_def)
  apply (simp add: label_values_def normalize_cascade_route_def)
  done

lemma finite_label_values: "finite (label_values name)"
proof -
  have "finite (range kind_name)"
    by (rule finite_subset[of _ "kind_name ` set kinds_list"]) (use kinds_list_complete in auto)
  then show ?thesis
    by (simp add: label_values_def)
qed

lemma observed_labels: "observed ms \<Longrightarrow> labels_ok ms"
proof (induction rule: observed.induct)
  case fresh
  then show ?case
    by (simp add: labels_ok_def no_observations_def new_metrics_def metrics.defs)
qed (simp_all add: labels_ok_def observe_http_request_def observe_processor_def move_in_flight_def
    inc_http_timeout_def observe_pii_entity_def observe_ml_request_def observe_cascade_route_def Let_def)


section \<open>What the wrappers do\<close>







text \<open>C36: No value of a request becomes a label: whatever the process observes, the labels of its
  counters are values of sets that are fixed and finite, and every ML request that is counted has
  its duration.\<close>

theorem labels_are_bounded:
  assumes "observed ms"
  shows "labels_ok ms \<and> (\<forall>name. finite (label_values name))"
  using observed_labels[OF assms] finite_label_values by blast

theorem labels_are_bounded_witness:
  "labels_ok (observe_pii_entity ''Ivan'' (observe_http_request ''BREW'' ''GET /secret'' 7 no_observations))
   \<and> pii_entities (observe_pii_entity ''Ivan'' (observe_http_request ''BREW'' ''GET /secret'' 7 no_observations)) = [''unknown'']"
proof
  show "labels_ok (observe_pii_entity ''Ivan'' (observe_http_request ''BREW'' ''GET /secret'' 7 no_observations))"
    using labels_are_bounded[OF observed.pii_entity[OF observed.http_request[OF observed.fresh]]] by blast
qed code_simp

text \<open>Observing the ML client changes no answer; a panic is not counted.\<close>

lemma observe_call_transparent:
  "fst (observe_call elapsed call req p) = call req" "p_ctx (snd (observe_call elapsed call req p)) = p_ctx p"
  by (simp_all add: observe_call_def Let_def)

text \<open>The observed cascade asks its context once more and answers what the cascade answers.\<close>

lemma instrumented_detect_result:
  assumes "live (p_ctx p) = None" "p_metrics p = Some ms"
  shows "instrumented_detect ext t gate p =
    (val (detect_chunk ext t gate),
     with_meta (\<lambda>m. m\<lparr>ml_invoked := True\<rparr>)
       (p\<lparr>p_metrics := Some (ms\<lparr>cascade_routes := cascade_routes ms @ [''ml'']\<rparr>)\<rparr>))"
proof -
  have "detect_chunk ext t gate (p_ctx p) = (val (detect_chunk ext t gate), p_ctx p)"
    using polls_detect_chunk[of ext t gate] assms(1) by (simp add: polls_def)
  then show ?thesis
    using assms by (simp add: instrumented_detect_def mbind_def poll_def with_pipeline_metrics_def
        with_meta_def observe_cascade_route_def normalize_cascade_route_def)
qed

end
