(* ===== verification/Startup.thy ===== *)
theory Startup
  imports Service Telemetry
begin

text \<open>
  \<open>run\<close> and \<open>main\<close> of \<open>cmd/server/main.go\<close>: the whole life of the process, from reading the
  configuration to the deferred clean-up.  What the platform answers (the dialler, the Prometheus
  registry, the listener, the HTTP server, the context) is the record \<open>platform\<close>.
\<close>

section \<open>The process\<close>

record 'r platform =
  dial :: "string list \<Rightarrow> err option"
  registry :: 'r
  add_collector :: "'r \<Rightarrow> collector \<Rightarrow> 'r res"
  listen :: "string \<Rightarrow> err option"
  has_ctx :: bool
  is_stopped :: bool
  server_answers :: server_ops

datatype run_event = Resource resource_event | Listening | Life life_event | ServerStopped

datatype run_failure =
    NoContext
  | LoadConfig err
  | CreateMetrics err
  | BuildProcessor err
  | ListenFailed err
  | ServeLifecycle "string list"

text \<open>The function \<open>buildProcessor\<close> returns for clean-up; the mock has nothing to clean.\<close>

definition deferred_cleanup :: "built \<Rightarrow> run_event list" where
  "deferred_cleanup b = (case b of MockProcessor \<Rightarrow> [] | RealProcessor bc n ps \<Rightarrow> map Resource (cleanups True 1))"

definition run_server ::
  "'r platform \<Rightarrow> readers \<Rightarrow> env \<Rightarrow> string list \<Rightarrow> string list \<Rightarrow> (run_failure + unit) \<times> run_event list"
where
  "run_server pf rd env counts periods =
     (if \<not> has_ctx pf then (Inl NoContext, [])
      else case config_load rd env of
        Inl e \<Rightarrow> (Inl (LoadConfig e), [])
      | Inr cfg \<Rightarrow>
        (case (if metrics_enabled cfg
               then rbind (new_pipeline_metrics (add_collector pf) (registry pf)) (\<lambda>(r, ms). Inr (Some ms))
               else Inr None) of
          Inl e \<Rightarrow> (Inl (CreateMetrics e), [])
        | Inr metrics \<Rightarrow>
          (case build_processor (dial pf) rd env counts periods cfg of
            (Inl e, es) \<Rightarrow> (Inl (BuildProcessor e), map Resource es)
          | (Inr b, es) \<Rightarrow>
            (case listen pf (addr cfg) of
              Some e \<Rightarrow> (Inl (ListenFailed e), map Resource es @ deferred_cleanup b)
            | None \<Rightarrow>
              (case serve \<lparr>ctx_given = True, server_given = True, listener_given = True, readiness_given = True,
                     shutdown_limit = shutdown_timeout cfg\<rparr> (is_stopped pf) (server_answers pf) of
                (causes, les) \<Rightarrow>
                  if causes \<noteq> [] then
                    (Inl (ServeLifecycle causes), map Resource es @ [Listening] @ map Life les @ deferred_cleanup b)
                  else
                    (Inr (), map Resource es @ [Listening] @ map Life les @ [ServerStopped] @ deferred_cleanup b))))))"

text \<open>\<open>main\<close>: the exit status of the process.\<close>

definition exit_status :: "(run_failure + unit) \<times> run_event list \<Rightarrow> nat" where
  "exit_status out = (case fst out of Inl e \<Rightarrow> 1 | Inr _ \<Rightarrow> 0)"

section \<open>What is left open, and when\<close>

fun resource_part :: "run_event list \<Rightarrow> resource_event list" where
  "resource_part [] = []"
| "resource_part (Resource e # es) = e # resource_part es"
| "resource_part (e # es) = resource_part es"

lemma resource_part_append [simp]: "resource_part (es @ fs) = resource_part es @ resource_part fs"
  by (induction es rule: resource_part.induct) simp_all

lemma resource_part_map [simp]: "resource_part (map Resource es) = es" "resource_part (map Life ls) = []"
  by (induction es) (simp_all, induction ls, simp_all)

definition serving :: "run_event list \<Rightarrow> bool" where
  "serving es \<longleftrightarrow> Life StartServing \<in> set es"

text \<open>While the server serves, the Processor is open: between the start and the end of serving nothing
  is opened or closed.\<close>

definition kept_while_serving :: "run_event list \<Rightarrow> bool" where
  "kept_while_serving es \<longleftrightarrow>
     (\<exists>before during after. es = map Resource before @ [Listening] @ map Life during @ after
        \<and> CloseConn \<notin> set before \<and> CloseBatcher \<notin> set before
        \<and> StartServing \<in> set during \<and> AwaitServe \<in> set during \<and> \<not> readiness_after True during
        \<and> (\<forall>l. Life l \<notin> set after))"

lemma deferred_resources:
  assumes "build_processor d rd env counts periods cfg = (Inr b, es)"
  shows "still_open (es @ resource_part (deferred_cleanup b)) = (0, 0)"
    "CloseConn \<notin> set es" "CloseBatcher \<notin> set es"
  using assms
  by (auto simp: build_processor_def deferred_cleanup_def cleanup_def rbind_Inr_iff
      split: if_splits sum.splits option.splits)

lemma serve_started:
  assumes "0 < shutdown_timeout cfg"
    "serve \<lparr>ctx_given = True, server_given = True, listener_given = True, readiness_given = True,
       shutdown_limit = shutdown_timeout cfg\<rparr> stopped s = (causes, les)"
  shows "StartServing \<in> set les"
  using assms by (auto simp: serve_def graceful_shutdown_def split: if_splits option.splits)

lemma deferred_no_life: "Life l \<notin> set (deferred_cleanup b)"
  by (auto simp: deferred_cleanup_def split: built.split)

lemma run_server_spec:
  assumes "run_server pf rd env counts periods = (r, es)"
  shows "still_open (resource_part es) = (0, 0)
    \<and> (serving es \<longrightarrow> kept_while_serving es \<and> (\<exists>cfg b fs. config_load rd env = Inr cfg
        \<and> build_processor (dial pf) rd env counts periods cfg = (Inr b, fs) \<and> listen pf (addr cfg) = None))
    \<and> (r = Inr () \<longrightarrow> serving es)"
proof (cases "has_ctx pf")
  case True
  show ?thesis
  proof (cases "config_load rd env")
    case (Inl e)
    then show ?thesis
      using assms True by (auto simp: run_server_def serving_def)
  next
    case (Inr cfg)
    obtain b fs where bp: "build_processor (dial pf) rd env counts periods cfg = (b, fs)"
      by fastforce
    have pos: "0 < shutdown_timeout cfg"
      using config_load_ok[OF Inr] by (simp add: settings_ok_def)
    define ms where "ms = (if metrics_enabled cfg
               then rbind (new_pipeline_metrics (add_collector pf) (registry pf)) (\<lambda>(r, ms). Inr (Some ms))
               else Inr None)"
    show ?thesis
    proof (cases ms)
      case (Inl e)
      then show ?thesis
        using assms True Inr by (auto simp: run_server_def serving_def ms_def)
    next
      case m: (Inr metrics)
      show ?thesis
      proof (cases b)
        case (Inl e)
        then show ?thesis
          using assms True Inr m build_processor_resources(1)[OF bp Inl]
          by (auto simp: run_server_def serving_def bp simp flip: ms_def)
      next
        case (Inr q)
        note d = deferred_resources[OF bp[unfolded Inr]]
        obtain causes les where sv: "serve \<lparr>ctx_given = True, server_given = True, listener_given = True,
            readiness_given = True, shutdown_limit = shutdown_timeout cfg\<rparr> (is_stopped pf) (server_answers pf) = (causes, les)"
          by fastforce
        note st = serve_started[OF pos sv]
        have run: "run_server pf rd env counts periods =
          (case listen pf (addr cfg) of
              Some e \<Rightarrow> (Inl (ListenFailed e), map Resource fs @ deferred_cleanup q)
            | None \<Rightarrow>
                  if causes \<noteq> [] then
                    (Inl (ServeLifecycle causes), map Resource fs @ [Listening] @ map Life les @ deferred_cleanup q)
                  else
                    (Inr (), map Resource fs @ [Listening] @ map Life les @ [ServerStopped] @ deferred_cleanup q))"
          using True \<open>config_load rd env = Inr cfg\<close> m bp Inr sv
          by (cases "listen pf (addr cfg)") (simp_all add: run_server_def flip: ms_def)
        show ?thesis
        proof (cases "listen pf (addr cfg)")
          case (Some e)
          then show ?thesis
            using assms run d(1) deferred_no_life by (auto simp: serving_def)
        next
          case None
          define after where "after = (if causes \<noteq> [] then deferred_cleanup q else ServerStopped # deferred_cleanup q)"
          have es: "es = map Resource fs @ [Listening] @ map Life les @ after" "r = (if causes \<noteq> [] then Inl (ServeLifecycle causes) else Inr ())"
            using assms run None by (auto simp: after_def)
          have "kept_while_serving es"
            unfolding kept_while_serving_def
            by (rule exI[of _ fs], rule exI[of _ les], rule exI[of _ after])
              (use es(1) d st serve_spec(1,2)[OF sv st] deferred_no_life in \<open>auto simp: after_def\<close>)
          moreover have "still_open (resource_part es) = (0, 0)" "serving es"
            using d(1) st by (auto simp: es(1) after_def serving_def)
          ultimately show ?thesis
            using \<open>config_load rd env = Inr cfg\<close> bp Inr None by blast
        qed
      qed
    qed
  qed
qed (use assms in \<open>auto simp: run_server_def serving_def\<close>)

text \<open>C20: The whole process is orderly: however it ends it leaves no connection and no batcher open; it
  serves only under a valid configuration, with the Processor built for it and a listener on its
  address; while it serves nothing is opened or closed, the server is awaited and the process is not
  ready any more when it cleans up; and it exits with status 0 only after it has served.\<close>

theorem process_is_orderly:
  assumes "run_server pf rd env counts periods = (r, es)"
  shows "still_open (resource_part es) = (0, 0)
    \<and> (serving es \<longrightarrow> kept_while_serving es \<and> (\<exists>cfg b fs. config_load rd env = Inr cfg
        \<and> build_processor (dial pf) rd env counts periods cfg = (Inr b, fs) \<and> listen pf (addr cfg) = None))
    \<and> (exit_status (r, es) = 0 \<longrightarrow> r = Inr () \<and> serving es)"
  using run_server_spec[OF assms] by (auto simp: exit_status_def split: sum.splits)

definition sample_platform :: "unit platform" where
  "sample_platform = \<lparr>dial = (\<lambda>_. None), registry = (), add_collector = (\<lambda>r _. Inr r), listen = (\<lambda>_. None),
     has_ctx = True, is_stopped = True,
     server_answers = \<lparr>serve_result = Some ServerClosed, shutdown_result = None, close_result = None\<rparr>\<rparr>"

theorem process_is_orderly_witness:
  "still_open (resource_part (snd (run_server sample_platform sample_readers sample_env [] []))) = (0, 0)
    \<and> kept_while_serving (snd (run_server sample_platform sample_readers sample_env [] []))
    \<and> resource_part (snd (run_server sample_platform sample_readers sample_env [] []))
        = [OpenConn, StartBatcher, CloseBatcher, CloseConn]"
proof -
  have s: "serving (snd (run_server sample_platform sample_readers sample_env [] []))"
    by code_simp
  have e: "resource_part (snd (run_server sample_platform sample_readers sample_env [] []))
        = [OpenConn, StartBatcher, CloseBatcher, CloseConn]"
    by code_simp
  show ?thesis
    using process_is_orderly[OF prod.collapse[symmetric], of sample_platform sample_readers sample_env "[]" "[]"] s e
    by blast
qed

end
