(* ===== verification/FloatOrder.thy ===== *)
theory FloatOrder
  imports Floats
begin

text \<open>
  Rounding is monotone, so adding a weight that is not negative never lowers a score.
\<close>

lemma pow2_powi: "pow2 e = 2 powi e"
  by (simp add: pow2_def power_int_def inverse_eq_divide power_one_over)

lemma pow2_add: "pow2 (a + b) = pow2 a * pow2 b"
  by (simp add: pow2_powi power_int_add)

lemma pow2_strict: "a < b \<Longrightarrow> pow2 a < pow2 b"
proof -
  assume "a < b"
  then have "pow2 (b - a) = of_int (2 ^ nat (b - a))" "1 < (2 :: int) ^ nat (b - a)"
    by (simp_all add: pow2_def)
  then have "1 < pow2 (b - a)"
    by (simp only: of_int_1_less_iff)
  then have "1 * pow2 a < pow2 (b - a) * pow2 a"
    by (intro mult_strict_right_mono) simp_all
  then show ?thesis
    by (simp flip: pow2_add)
qed

lemma pow2_less_iff: "pow2 a < pow2 b \<longleftrightarrow> a < b"
  using pow2_strict[of a b] pow2_strict[of b a] by (cases a b rule: linorder_cases) auto

lemma pow2_le_iff: "pow2 a \<le> pow2 b \<longleftrightarrow> a \<le> b"
  by (simp add: pow2_less_iff flip: not_less)

lemma pow2_nat: "pow2 (int n) = of_int (2 ^ n)"
  by (simp add: pow2_def)

lemma pow2_grid:
  assumes "u \<le> k"
  shows "pow2 k / pow2 u = of_int (2 ^ nat (k - u))"
proof -
  have "pow2 k = pow2 (k - u) * pow2 u"
    using pow2_add[of "k - u" u] by simp
  moreover have "pow2 (k - u) = of_int (2 ^ nat (k - u))"
    using assms pow2_nat[of "nat (k - u)"] by simp
  moreover have "pow2 u \<noteq> 0"
    using pow2_pos[of u] by linarith
  ultimately show ?thesis
    by simp
qed

section \<open>The leading bit\<close>

lemma bitlen_pow2:
  assumes "0 < n"
  shows "pow2 (bitlen n - 1) \<le> of_int n" "of_int n < pow2 (bitlen n)"
proof -
  have b: "0 < bitlen n"
    using assms bitlen_eq_zero_iff[of n] bitlen_nonneg[of n] by linarith
  have "pow2 (bitlen n - 1) = of_int (2 ^ nat (bitlen n - 1))" "pow2 (bitlen n) = of_int (2 ^ nat (bitlen n))"
    using b by (simp_all add: pow2_def)
  then show "pow2 (bitlen n - 1) \<le> of_int n" "of_int n < pow2 (bitlen n)"
    using bitlen_bounds[OF assms] by (simp_all only: of_int_le_iff of_int_less_iff)
qed

lemma leading_exponent_bounds:
  assumes "0 < x"
  shows "pow2 (leading_exponent x) \<le> x" "x < pow2 (leading_exponent x + 1)"
proof -
  obtain p q where pq: "quotient_of x = (p, q)"
    by fastforce
  have q: "0 < q" "x = of_int p / of_int q"
    using quotient_of_denom_pos[OF pq] quotient_of_div[OF pq] by simp_all
  have p: "0 < p"
    using assms q by (simp add: zero_less_divide_iff)
  define e where "e = bitlen p - bitlen q"
  have q0: "(0 :: rat) < of_int q"
    using q(1) by simp
  have "pow2 (e + 1) * pow2 (bitlen q - 1) = pow2 (bitlen p)"
    by (simp add: e_def flip: pow2_add)
  moreover have "pow2 (e + 1) * pow2 (bitlen q - 1) \<le> pow2 (e + 1) * of_int q"
    using bitlen_pow2(1)[OF q(1)] by (intro mult_left_mono) (simp_all add: less_imp_le)
  ultimately have "of_int p < pow2 (e + 1) * of_int q"
    using bitlen_pow2(2)[OF p] by linarith
  then have up: "x < pow2 (e + 1)"
    unfolding q(2) using q0 by (simp only: pos_divide_less_eq)
  have "pow2 (e - 1) * pow2 (bitlen q) = pow2 (bitlen p - 1)"
    by (simp add: e_def flip: pow2_add)
  moreover have "pow2 (e - 1) * of_int q \<le> pow2 (e - 1) * pow2 (bitlen q)"
    using bitlen_pow2(2)[OF q(1)] by (intro mult_left_mono) (simp_all add: less_imp_le)
  ultimately have "pow2 (e - 1) * of_int q \<le> of_int p"
    using bitlen_pow2(1)[OF p] by linarith
  then have low: "pow2 (e - 1) \<le> x"
    unfolding q(2) using q0 by (simp only: pos_le_divide_eq)
  have "leading_exponent x = (if pow2 e \<le> x then e else e - 1)"
    by (simp only: leading_exponent_def pq Let_def prod.case e_def)
  then show "pow2 (leading_exponent x) \<le> x" "x < pow2 (leading_exponent x + 1)"
    using up low by auto
qed

section \<open>Rounding to an integer\<close>

lemma round_even_ge: "of_int n \<le> x \<Longrightarrow> n \<le> round_even x"
proof -
  assume "of_int n \<le> x"
  then have "n \<le> \<lfloor>x\<rfloor>"
    by (simp add: le_floor_iff)
  then show ?thesis
    by (auto simp: round_even_def Let_def)
qed

lemma round_even_mono:
  assumes "x \<le> y"
  shows "round_even x \<le> round_even y"
proof (cases "\<lfloor>x\<rfloor> = \<lfloor>y\<rfloor>")
  case True
  then show ?thesis
    using assms by (auto simp: round_even_def Let_def)
next
  case False
  then have "\<lfloor>x\<rfloor> + 1 \<le> \<lfloor>y\<rfloor>"
    using floor_mono[OF assms] by linarith
  moreover have "round_even x \<le> \<lfloor>x\<rfloor> + 1" "\<lfloor>y\<rfloor> \<le> round_even y"
    by (auto simp: round_even_def Let_def)
  ultimately show ?thesis
    by linarith
qed

section \<open>Rounding to a float\<close>

definition last_bit :: "rat \<Rightarrow> int" where
  "last_bit x = max (leading_exponent x - 52) (-1074)"

definition rounded :: "rat \<Rightarrow> rat" where
  "rounded x = of_int (round_even (x / pow2 (last_bit x))) * pow2 (last_bit x)"

definition too_big :: "rat \<Rightarrow> bool" where
  "too_big x \<longleftrightarrow> last_bit x > 971 \<or> last_bit x = 971 \<and> round_even (x / pow2 (last_bit x)) \<ge> 2 ^ 53"

lemma f_round_pos: "0 < x \<Longrightarrow> f_round x = (if too_big x then PosInf else Fin (rounded x))"
  unfolding f_round_def too_big_def rounded_def last_bit_def Let_def by (auto simp only: abs_of_pos less_irrefl if_False not_less_iff_gr_or_eq split: if_split dest: less_asym)

lemma last_bit_mono:
  assumes "0 < x" "x \<le> y"
  shows "leading_exponent x \<le> leading_exponent y" "last_bit x \<le> last_bit y"
proof -
  have "pow2 (leading_exponent x) < pow2 (leading_exponent y + 1)"
    using leading_exponent_bounds[of x] leading_exponent_bounds[of y] assms by linarith
  then show "leading_exponent x \<le> leading_exponent y"
    by (simp add: pow2_less_iff)
  then show "last_bit x \<le> last_bit y"
    by (simp add: last_bit_def)
qed

lemma rounded_le_pow2:
  assumes "x \<le> pow2 k" "last_bit x \<le> k"
  shows "rounded x \<le> pow2 k"
proof -
  let ?u = "last_bit x"
  have "x / pow2 ?u \<le> pow2 k / pow2 ?u"
    using assms(1) pow2_pos[of ?u] by (simp add: divide_right_mono less_imp_le)
  then have "round_even (x / pow2 ?u) \<le> 2 ^ nat (k - ?u)"
    by (intro round_even_le) (simp add: pow2_grid[OF assms(2)])
  then have "(of_int (round_even (x / pow2 ?u)) :: rat) \<le> pow2 k / pow2 ?u"
    unfolding pow2_grid[OF assms(2)] by (simp only: of_int_le_iff)
  then show ?thesis
    unfolding rounded_def by (simp only: pos_le_divide_eq pow2_pos)
qed

lemma rounded_ge_pow2:
  assumes "pow2 k \<le> x" "last_bit x \<le> k"
  shows "pow2 k \<le> rounded x"
proof -
  let ?u = "last_bit x"
  have "pow2 k / pow2 ?u \<le> x / pow2 ?u"
    using assms(1) pow2_pos[of ?u] by (simp add: divide_right_mono less_imp_le)
  then have "2 ^ nat (k - ?u) \<le> round_even (x / pow2 ?u)"
    by (intro round_even_ge) (simp add: pow2_grid[OF assms(2)])
  then have "pow2 k / pow2 ?u \<le> (of_int (round_even (x / pow2 ?u)) :: rat)"
    unfolding pow2_grid[OF assms(2)] by (simp only: of_int_le_iff)
  then show ?thesis
    unfolding rounded_def by (simp only: pos_divide_le_eq pow2_pos)
qed

lemma rounded_mono:
  assumes "0 < x" "x \<le> y" "last_bit y \<le> 971"
  shows "rounded x \<le> rounded y"
proof (cases "last_bit x = last_bit y")
  case True
  have "round_even (x / pow2 (last_bit y)) \<le> round_even (y / pow2 (last_bit y))"
    using assms(2) pow2_pos[of "last_bit y"] by (intro round_even_mono) (simp add: divide_right_mono less_imp_le)
  then show ?thesis
    using True pow2_pos[of "last_bit y"] by (simp add: rounded_def mult_right_mono less_imp_le)
next
  case False
  then have "leading_exponent x + 1 \<le> leading_exponent y" "last_bit y \<le> leading_exponent y"
    "last_bit x \<le> leading_exponent y"
    using last_bit_mono[OF assms(1,2)] by (auto simp: last_bit_def)
  moreover have "x < pow2 (leading_exponent x + 1)" "pow2 (leading_exponent y) \<le> y"
    using leading_exponent_bounds(2)[of x] leading_exponent_bounds(1)[of y] assms(1,2) by linarith+
  ultimately show ?thesis
    using rounded_le_pow2[of x "leading_exponent y"] rounded_ge_pow2[of "leading_exponent y" y]
      pow2_le_iff[of "leading_exponent x + 1" "leading_exponent y"] by linarith
qed

lemma too_big_mono:
  assumes "0 < x" "x \<le> y" "too_big x"
  shows "too_big y"
proof (cases "last_bit y = 971")
  case True
  then have x: "last_bit x = 971" "2 ^ 53 \<le> round_even (x / pow2 971)"
    using assms(3) last_bit_mono[OF assms(1,2)] by (auto simp: too_big_def)
  have "round_even (x / pow2 971) \<le> round_even (y / pow2 971)"
    using assms(2) pow2_pos[of 971] by (intro round_even_mono) (simp add: divide_right_mono less_imp_le)
  then show ?thesis
    using True x by (simp add: too_big_def)
next
  case False
  then show ?thesis
    using assms(3) last_bit_mono[OF assms(1,2)] by (auto simp: too_big_def)
qed

lemma f_round_mono_pos:
  assumes "0 < x" "x \<le> y"
  shows "\<not> f_lt (f_round y) (f_round x)"
  using f_round_pos[OF assms(1)] f_round_pos[of y] assms too_big_mono[OF assms] rounded_mono[OF assms]
  by (auto simp: too_big_def not_less)

lemma f_round_neg: "f_round (- x) = f_neg (f_round x)"
  by (cases "x = 0") (auto simp: f_round_def Let_def)

lemma f_round_mono:
  assumes "x \<le> y"
  shows "\<not> f_lt (f_round y) (f_round x)"
proof (cases "0 < x")
  case True
  then show ?thesis
    using f_round_mono_pos assms by blast
next
  case False
  show ?thesis
  proof (cases "0 \<le> y")
    case True
    have "\<not> f_lt (f_round (- x)) (Fin 0)" "\<not> f_lt (f_round y) (Fin 0)"
      using f_round_nonneg False True by simp_all
    then show ?thesis
      by (cases "f_round x"; cases "f_round y") (auto simp: f_round_neg)
  next
    case False
    then have "\<not> f_lt (f_round (- x)) (f_round (- y))"
      using f_round_mono_pos[of "- y" "- x"] assms by simp
    then show ?thesis
      by (cases "f_round x"; cases "f_round y") (auto simp: f_round_neg)
  qed
qed

section \<open>Sums of weights\<close>

text \<open>\<open>at_least b x\<close>: a score that is a number not below \<open>b\<close>, which is itself a float.\<close>

definition is_float :: "rat \<Rightarrow> bool" where
  "is_float b \<longleftrightarrow> f_round b = Fin b"

definition not_below :: "rat \<Rightarrow> f64 \<Rightarrow> bool" where
  "not_below b x \<longleftrightarrow> x = PosInf \<or> (\<exists>a. x = Fin a \<and> b \<le> a)"

lemma not_below_round: "is_float b \<Longrightarrow> b \<le> q \<Longrightarrow> not_below b (f_round q)"
  using f_round_mono[of b q] by (cases "f_round q") (auto simp: is_float_def not_below_def)

lemma not_below_add:
  assumes "not_below b x" "not_below c y" "is_float d" "d \<le> b + c"
  shows "not_below d (f_add x y)"
  using assms not_below_round[OF assms(3)] by (cases x; cases y) (auto simp: not_below_def)

end
