(* ===== verification/Gate.thy ===== *)
theory Gate
  imports FloatOrder Rules
begin

text \<open>
  \<open>internal/gate\<close>, the heuristic that says whether a residual text may still hold personal data, and
  \<open>internal/cascade/router.go\<close> and \<open>smallgate.go\<close>.  The expressions of the gate that are those of a
  rule are the rule's; \<open>MatchString\<close> is the search from the start of the text.
\<close>

section \<open>Configuration\<close>

datatype gate_route = SAFE | UNCERTAIN | LIKELY_PII

record signal =
  sig_name :: string
  sig_weight :: f64
  sig_contribution :: f64

record decision =
  d_score :: f64
  d_route :: gate_route
  d_signals :: "signal list"

record gate_config =
  low_threshold :: f64
  high_threshold :: f64
  passport_like_digits_w :: f64
  identifier_digits_w :: f64
  card_like_digits_w :: f64
  phone_like_digits_w :: f64
  email_like_w :: f64
  date_like_w :: f64
  department_code_like_w :: f64
  security_code_like_w :: f64
  name_like_w :: f64
  passport_context_w :: f64
  series_number_w :: f64
  issued_w :: f64
  department_code_ctx_w :: f64
  citizenship_ctx_w :: f64
  birth_ctx_w :: f64
  address_ctx_w :: f64
  inn_ctx_w :: f64
  card_ctx_w :: f64
  cvv_ctx_w :: f64
  pin_ctx_w :: f64
  driver_license_ctx_w :: f64
  client_ctx_w :: f64
  public_context_w :: f64

definition default_gate_config :: gate_config where
  "default_gate_config =
     \<lparr>low_threshold = f_round (3 / 10), high_threshold = f_round (7 / 10), passport_like_digits_w = f_round (35 / 100),
      identifier_digits_w = f_round (35 / 100), card_like_digits_w = f_round (35 / 100), phone_like_digits_w = f_round (35 / 100),
      email_like_w = f_round (35 / 100), date_like_w = f_round (3 / 10), department_code_like_w = f_round (35 / 100),
      security_code_like_w = f_round (35 / 100), name_like_w = f_round (35 / 100), passport_context_w = f_round (4 / 10),
      series_number_w = f_round (3 / 10), issued_w = f_round (3 / 10), department_code_ctx_w = f_round (3 / 10),
      citizenship_ctx_w = f_round (3 / 10), birth_ctx_w = f_round (3 / 10), address_ctx_w = f_round (3 / 10),
      inn_ctx_w = f_round (3 / 10), card_ctx_w = f_round (3 / 10), cvv_ctx_w = f_round (3 / 10),
      pin_ctx_w = f_round (3 / 10), driver_license_ctx_w = f_round (3 / 10), client_ctx_w = f_round (25 / 100),
      public_context_w = f_round (1 / 10)\<rparr>"

definition route_for_score :: "gate_config \<Rightarrow> f64 \<Rightarrow> gate_route" where
  "route_for_score cfg score =
     (if f_lt score (low_threshold cfg) then SAFE
      else if f_lt score (high_threshold cfg) then UNCERTAIN
      else LIKELY_PII)"

section \<open>Signals\<close>

definition passport_like :: regex where
  "passport_like = Alt passport_re (seqs [WordBoundary, copies 4 digit, opt white, copies 6 digit, WordBoundary])"

definition phone_like :: regex where
  "phone_like = seqs
     [alts [lit ''+7'', lit ''8'', lit ''7''], sep_re, opt (lit ''(''), copies 3 digit, opt (lit '')''), sep_re,
      copies 3 digit, sep_re, copies 2 digit, sep_re, copies 2 digit]"

definition date_like :: regex where
  "date_like = Alt numeric_date_re iso_date_re"

definition security_code :: regex where
  "security_code = Alt (seqs [WordBoundary, copies 3 digit, WordBoundary]) pin_re"

definition name_like :: regex where
  "name_like =
     (let word = Seq (Cls [(0x410, 0x42F), (0x401, 0x401)]) (plus (Cls russian_small)) in
      Seq word (between 1 2 (Seq (plus white) word)))"

definition structural_signals :: "(string \<times> (gate_config \<Rightarrow> f64) \<times> regex) list" where
  "structural_signals =
    [(''passport_like_digits'', passport_like_digits_w, passport_like),
     (''identifier_digits'', identifier_digits_w, inn_re),
     (''card_like_digits'', card_like_digits_w, card_re),
     (''phone_like'', phone_like_digits_w, phone_like),
     (''email_like'', email_like_w, email_re),
     (''date_like'', date_like_w, date_like),
     (''department_code_like'', department_code_like_w, department_re),
     (''security_code_like'', security_code_like_w, security_code),
     (''name_like'', name_like_w, name_like)]"

definition context_words :: "(string \<times> (gate_config \<Rightarrow> f64) \<times> string list) list" where
  "context_words =
    [(''passport_context'', passport_context_w, map ru [''PASPORT'', ''PASPORTA'', ''PASPORTE'']),
     (''series_number'', series_number_w, map ru [''SERIQ'', ''NOMER'', ''SERIQ I NOMER'']),
     (''issued'', issued_w, map ru [''WYDAN'', ''WYDANO'', ''KEM WYDAN'']),
     (''department_code_ctx'', department_code_ctx_w, map ru [''KOD PODRAZDELENIQ'', ''PODRAZDELENIE'']),
     (''citizenship_ctx'', citizenship_ctx_w, map ru [''GRAVDANSTWO'', ''GRAVDANIN'', ''GRAVDANKA'', ''GRAVDANINOM'']),
     (''birth_ctx'', birth_ctx_w, map ru [''RODILSQ'', ''RODILASX'', ''MESTO ROVDENIQ'', ''DATA ROVDENIQ'']),
     (''address_ctx'', address_ctx_w, map ru [''PROVIWAET'', ''ADRES'', ''ADRES PROVIWANIQ'', ''ADRES REGISTRACII'', ''VIWET PO ADRESU'']),
     (''inn_ctx'', inn_ctx_w, map ru [''INN'', ''IIN'']),
     (''card_ctx'', card_ctx_w, map ru [''KARTA'', ''KARTY'', ''DERVATELX'', ''NOMER KARTY'']),
     (''cvv_ctx'', cvv_ctx_w, map ru [''cvv'', ''cvc'', ''KOD BEZOPASNOSTI'', ''ZA]ITNYJ KOD'']),
     (''pin_ctx'', pin_ctx_w, map ru [''PIN'', ''PIN-KOD'', ''PIN KOD'', ''pin'']),
     (''driver_license_ctx'', driver_license_ctx_w, map ru [''WODITELXSKOE UDOSTOWERENIE'', ''WODITELXSKIE PRAWA'', ''W/U'', ''WU'']),
     (''client_ctx'', client_ctx_w, map ru [''KLIENT'', ''ZAQWITELX'', ''DERVATELX'', ''ZA#M]IK'', ''ZAEM]IK'', ''PACIENT'', ''SOTRUDNIK''])]"

definition public_words :: "string list" where
  "public_words = map ru [''OFIS'', ''MAGAZIN'', ''RESTORAN'', ''SLUVBA PODDERVKI'', ''GORQ^AQ LINIQ'', ''KOMPANII'', ''OTDEL PRODAV'']"

definition any_word :: "string \<Rightarrow> string list \<Rightarrow> bool" where
  "any_word s ws \<longleftrightarrow> list_ex (contains s) ws"

definition match_string :: "regex \<Rightarrow> string \<Rightarrow> bool" where
  "match_string r s \<longleftrightarrow> find_from r (runes s) 0 \<noteq> None"

section \<open>The decision\<close>

text \<open>One \<open>if\<close> of \<open>Evaluate\<close>: name, weight and whether the signal fires.\<close>

fun apply_signal :: "f64 \<times> signal list \<Rightarrow> string \<times> f64 \<times> bool \<Rightarrow> f64 \<times> signal list" where
  "apply_signal (score, signals) (n, w, hit) =
     (if hit then (f_add score w, signals @ [\<lparr>sig_name = n, sig_weight = w, sig_contribution = w\<rparr>])
      else (score, signals))"

definition gate_checks :: "ucd \<Rightarrow> gate_config \<Rightarrow> string \<Rightarrow> (string \<times> f64 \<times> bool) list" where
  "gate_checks u cfg residual =
     map (\<lambda>(n, w, r). (n, w cfg, match_string r residual)) structural_signals
     @ map (\<lambda>(n, w, ws). (n, w cfg, any_word (lower_str u residual) ws)) context_words"

definition clamp_score :: "f64 \<Rightarrow> f64" where
  "clamp_score score =
     (let score = (if f_lt score (Fin 0) then Fin 0 else score) in
      if f_lt (Fin 1) score then Fin 1 else score)"

definition gate_evaluate :: "ucd \<Rightarrow> gate_config \<Rightarrow> string \<Rightarrow> decision" where
  "gate_evaluate u cfg residual =
     (case foldl apply_signal (Fin 0, []) (gate_checks u cfg residual) of (score, signals) \<Rightarrow>
        let (score, signals) =
              (if any_word (lower_str u residual) public_words
               then (f_sub score (public_context_w cfg),
                     signals @ [\<lparr>sig_name = ''public_context'', sig_weight = public_context_w cfg,
                                 sig_contribution = f_neg (public_context_w cfg)\<rparr>])
               else (score, signals));
            score = clamp_score score in
        \<lparr>d_score = score, d_route = route_for_score cfg score, d_signals = signals\<rparr>)"

section \<open>The router of the cascade\<close>

datatype cascade_route = DONE | CHECK_SMALL

definition allowed_delimiters :: "rune list" where
  "allowed_delimiters = map byte ''.,;:!?-()[]{}\"'' @ [39, 0x2026, 0x2013, 0x2014, 0xAB, 0xBB]"

fun route_runes :: "rune list \<Rightarrow> cascade_route" where
  "route_runes [] = DONE"
| "route_runes (r # rs) =
     (if is_space r then route_runes rs
      else if r \<in> set allowed_delimiters then route_runes rs
      else CHECK_SMALL)"

definition route_for_residual :: "string \<Rightarrow> cascade_route" where
  "route_for_residual residual = route_runes (runes residual)"

text \<open>\<open>ProbabilityGate\<close>: the model behind it is an argument.\<close>

definition needs_ner :: "('s, f64) sm \<Rightarrow> f64 \<Rightarrow> ('s, bool) sm" where
  "needs_ner score threshold = mbind score (\<lambda>p. ret (f_le threshold p))"

section \<open>Scores\<close>

lemma match_string_iff: "match_string r s \<longleftrightarrow> (\<exists>i j. i \<le> length (runes s) \<and> re_match (runes s) r i j)"
proof
  assume "match_string r s"
  then obtain i j g where "find_from r (runes s) 0 = Some (i, j, g)"
    by (auto simp: match_string_def)
  then show "\<exists>i j. i \<le> length (runes s) \<and> re_match (runes s) r i j"
    using find_from_Some by blast
next
  assume "\<exists>i j. i \<le> length (runes s) \<and> re_match (runes s) r i j"
  then show "match_string r s"
    using find_from_None[of r "runes s" 0] unfolding match_string_def by blast
qed

definition fired :: "(string \<times> f64 \<times> bool) list \<Rightarrow> signal list" where
  "fired cs = map (\<lambda>(n, w, hit). \<lparr>sig_name = n, sig_weight = w, sig_contribution = w\<rparr>) (filter (\<lambda>(n, w, hit). hit) cs)"

lemma signals_of_fold: "snd (foldl apply_signal acc cs) = snd acc @ fired cs"
proof (induction cs arbitrary: acc)
  case (Cons c cs)
  then show ?case
    by (cases acc; cases c) (auto simp: fired_def)
qed (simp add: fired_def)

lemma fold_not_below:
  assumes "not_below b (fst acc)" "is_float b" "\<forall>(n, w, hit) \<in> set cs. not_below 0 w"
  shows "not_below b (fst (foldl apply_signal acc cs))"
  using assms
proof (induction cs arbitrary: acc)
  case (Cons c cs)
  obtain n w hit score sigs where c: "c = (n, w, hit)" "acc = (score, sigs)"
    by (cases c; cases acc) auto
  then have "not_below b (fst (apply_signal acc c))"
    using Cons.prems not_below_add[of b score 0 w b] by auto
  then show ?case
    using Cons by auto
qed simp

lemma is_float_0: "is_float 0"
  by (simp add: is_float_def)

lemma fold_fired_not_below:
  assumes "not_below 0 (fst acc)" "is_float b" "\<forall>(n, w, hit) \<in> set cs. not_below 0 w"
    and "(n, w, True) \<in> set cs" "not_below b w"
  shows "not_below b (fst (foldl apply_signal acc cs))"
proof -
  obtain xs ys where cs: "cs = xs @ (n, w, True) # ys"
    using assms(4) by (auto simp: in_set_conv_decomp)
  have "not_below 0 (fst (foldl apply_signal acc xs))"
    using assms(1,3) is_float_0 by (intro fold_not_below) (auto simp: cs)
  then have "not_below b (fst (foldl apply_signal acc (xs @ [(n, w, True)])))"
    using assms(2,5) not_below_add[of 0 _ b w b]
    by (cases "foldl apply_signal acc xs") simp
  then have "not_below b (fst (foldl apply_signal (foldl apply_signal acc (xs @ [(n, w, True)])) ys))"
    using assms(2) by (rule fold_not_below) (use assms(3) in \<open>simp add: cs\<close>)
  then show ?thesis
    by (simp add: cs)
qed

text \<open>The number the literal 0.3 stands for.\<close>

definition low_mark :: rat where
  "low_mark = 5404319552844595 / 18014398509481984"

lemma low_mark_float: "is_float low_mark" "f_round (3 / 10) = Fin low_mark"
  unfolding is_float_def by code_simp+

lemma low_mark_range: "0 \<le> low_mark" "low_mark \<le> 3 / 10" "low_mark \<le> 1"
  by (simp_all add: low_mark_def)

lemma weight_not_below: "0 \<le> q \<Longrightarrow> not_below 0 (f_round q)"
  "3 / 10 \<le> q \<Longrightarrow> not_below low_mark (f_round q)"
  using not_below_round is_float_0 low_mark_float(1) low_mark_range by (blast, force)

lemma default_weights:
  "(n, w, r) \<in> set structural_signals \<Longrightarrow> not_below low_mark (w default_gate_config)"
  "(n, w, ws) \<in> set context_words \<Longrightarrow> not_below 0 (w default_gate_config)"
  by (auto simp: structural_signals_def context_words_def default_gate_config_def weight_not_below)

lemma not_below_weaker: "not_below b x \<Longrightarrow> c \<le> b \<Longrightarrow> not_below c x"
  by (auto simp: not_below_def)

lemma default_checks: "\<forall>(n, w, hit) \<in> set (gate_checks u default_gate_config s). not_below 0 w"
  using default_weights not_below_weaker[OF _ low_mark_range(1)] by (fastforce simp: gate_checks_def)

lemma clamp_score_not_below: "not_below b x \<Longrightarrow> b \<le> 1 \<Longrightarrow> not_below b (clamp_score x)"
  by (auto simp: not_below_def clamp_score_def Let_def)

lemma clamp_score_unit: "x \<noteq> NaN \<Longrightarrow> \<exists>a. clamp_score x = Fin a \<and> 0 \<le> a \<and> a \<le> 1"
  by (cases x) (auto simp: clamp_score_def Let_def not_less)

section \<open>What the gate promises\<close>

text \<open>C37: Where a text matches one of the nine expressions, a mail address or a row of ten digits say, and
  holds no word of a public context, the gate with its default weights does not call it safe: the
  score lies between the low threshold and 1, whatever else fires and however the doubles round, and
  the signals listed are those that fired, that of the expression among them.\<close>

theorem gate_never_calls_structure_safe:
  assumes "(n, w, r) \<in> set structural_signals" "i \<le> length (runes s)" "re_match (runes s) r i j"
    and "\<not> any_word (lower_str u s) public_words"
  shows "\<exists>a. d_score (gate_evaluate u default_gate_config s) = Fin a \<and> low_mark \<le> a \<and> a \<le> 1
    \<and> d_route (gate_evaluate u default_gate_config s) \<noteq> SAFE
    \<and> d_signals (gate_evaluate u default_gate_config s) = fired (gate_checks u default_gate_config s)
    \<and> n \<in> sig_name ` set (d_signals (gate_evaluate u default_gate_config s))"
proof -
  let ?cs = "gate_checks u default_gate_config s"
  let ?x = "fst (foldl apply_signal (Fin 0, []) ?cs)"
  have hit: "match_string r s"
    using assms(2,3) match_string_iff by blast
  then have c: "(n, w default_gate_config, True) \<in> set ?cs"
    using assms(1) by (force simp: gate_checks_def)
  have x: "not_below low_mark ?x"
    using default_checks c default_weights(1)[OF assms(1)] low_mark_float(1)
    by (intro fold_fired_not_below) (auto simp: not_below_def)
  then have nan: "?x \<noteq> NaN"
    by (auto simp: not_below_def)
  obtain a where a: "clamp_score ?x = Fin a" "a \<le> 1"
    using clamp_score_unit[OF nan] by blast
  have low: "low_mark \<le> a"
    using clamp_score_not_below[OF x low_mark_range(3)] a(1) by (simp add: not_below_def)
  have e: "gate_evaluate u default_gate_config s =
      \<lparr>d_score = Fin a, d_route = route_for_score default_gate_config (Fin a), d_signals = fired ?cs\<rparr>"
    using assms(4) a(1) signals_of_fold[of "(Fin 0, [])" ?cs]
    by (simp add: gate_evaluate_def Let_def case_prod_unfold)
  have "low_threshold default_gate_config = Fin low_mark"
    by (simp add: default_gate_config_def low_mark_float(2))
  then have "route_for_score default_gate_config (Fin a) \<noteq> SAFE"
    using low by (simp add: route_for_score_def not_less)
  moreover have "n \<in> sig_name ` set (fired ?cs)"
    using c by (force simp: fired_def)
  ultimately show ?thesis
    using a low by (simp add: e)
qed

definition sample_residual :: string where
  "sample_residual = ''call 7707083893''"

lemma sample_residual_match: "re_match (runes sample_residual) inn_re 5 15"
proof -
  have "(15, None) \<in> set (runs inn_re (runes sample_residual) (5, None))"
    by code_simp
  then show ?thesis
    using runs_sound by fastforce
qed

theorem gate_never_calls_structure_safe_witness:
  "d_route (gate_evaluate russian_ucd default_gate_config sample_residual) \<noteq> SAFE"
proof -
  have i: "(''identifier_digits'', identifier_digits_w, inn_re) \<in> set structural_signals"
    by (simp add: structural_signals_def)
  have l: "5 \<le> length (runes sample_residual)"
    by code_simp
  have p: "\<not> any_word (lower_str russian_ucd sample_residual) public_words"
    by code_simp
  show ?thesis
    using gate_never_calls_structure_safe[OF i l sample_residual_match p] by blast
qed

end
