(* ===== verification/Evaluation.thy ===== *)
theory Evaluation
  imports Gate Engine RateLimit
begin

text \<open>
  The evaluation of the rule engine, \<open>internal/eval/metrics.go\<close>, and of the gate,
  \<open>internal/gateeval/metrics.go\<close>: greedy matching of expected and predicted spans, the counts and
  the figures drawn from them.  \<open>analyze\<close> is the engine under evaluation and \<open>elapsed i\<close> the time
  its run on sample \<open>i\<close> takes.
\<close>

section \<open>Samples\<close>

record expected =
  x_type :: etype
  x_text :: string
  x_start :: int
  x_end :: int

record sample =
  s_text :: string
  s_expected :: "expected list"
  s_negative :: bool

text \<open>\<open>exp\<close> panics when the value is not in the text.\<close>

definition expect :: "string \<Rightarrow> etype \<Rightarrow> string \<Rightarrow> expected res" where
  "expect text typ value =
     (case str_index text value of
        None \<Rightarrow> Inl Panic
      | Some idx \<Rightarrow> Inr \<lparr>x_type = typ, x_text = value, x_start = int idx, x_end = int idx + int (length value)\<rparr>)"

section \<open>Matching\<close>

definition iou_threshold :: f64 where
  "iou_threshold = f_round (1 / 2)"

definition span_iou :: "int \<Rightarrow> int \<Rightarrow> int \<Rightarrow> int \<Rightarrow> f64" where
  "span_iou a_start a_end b_start b_end =
     (let inter = min a_end b_end - max a_start b_start in
      if inter \<le> 0 then Fin 0
      else
        let union = (a_end - a_start) + (b_end - b_start) - inter in
        f_div (f_of_int inter) (f_of_int union))"

text \<open>The inner loop: the best prediction so far, with its IoU, over the predictions from index \<open>j\<close> on.\<close>

fun best_loop :: "expected \<Rightarrow> bool \<Rightarrow> bool list \<Rightarrow> nat \<Rightarrow> entity list \<Rightarrow> nat option \<times> f64 \<Rightarrow> nat option \<times> f64" where
  "best_loop x require_type used j [] best = best"
| "best_loop x require_type used j (g # gs) best =
     (if used ! j then best_loop x require_type used (Suc j) gs best
      else if require_type \<and> ent_type g \<noteq> x_type x then best_loop x require_type used (Suc j) gs best
      else
        let iou = span_iou (x_start x) (x_end x) (ent_start g) (ent_end g) in
        best_loop x require_type used (Suc j) gs (if f_lt (snd best) iou then (Some j, iou) else best))"

text \<open>The result of an expected span is the index it matched.\<close>

fun match_loop :: "entity list \<Rightarrow> f64 \<Rightarrow> bool \<Rightarrow> bool list \<Rightarrow> expected list \<Rightarrow> (expected \<times> nat option) list \<times> bool list" where
  "match_loop got threshold require_type used [] = ([], used)"
| "match_loop got threshold require_type used (x # xs) =
     (case best_loop x require_type used 0 got (None, Fin 0) of (idx, iou) \<Rightarrow>
        case idx of
          Some j \<Rightarrow>
            if f_le threshold iou then
              (case match_loop got threshold require_type (used[j := True]) xs of (rs, used) \<Rightarrow> ((x, Some j) # rs, used))
            else (case match_loop got threshold require_type used xs of (rs, used) \<Rightarrow> ((x, None) # rs, used))
        | None \<Rightarrow> (case match_loop got threshold require_type used xs of (rs, used) \<Rightarrow> ((x, None) # rs, used)))"

definition match_spans ::
  "expected list \<Rightarrow> entity list \<Rightarrow> f64 \<Rightarrow> bool \<Rightarrow> (expected \<times> nat option) list \<times> bool list" where
  "match_spans xs got threshold require_type =
     match_loop got threshold require_type (replicate (length got) False) xs"

section \<open>Counts\<close>

record counts =
  n_tp :: int
  n_fp :: int
  n_fn :: int

definition no_counts :: counts where
  "no_counts = \<lparr>n_tp = 0, n_fp = 0, n_fn = 0\<rparr>"

definition add_tp :: "counts \<Rightarrow> counts" where "add_tp c = c\<lparr>n_tp := n_tp c + 1\<rparr>"
definition add_fp :: "counts \<Rightarrow> counts" where "add_fp c = c\<lparr>n_fp := n_fp c + 1\<rparr>"
definition add_fn :: "counts \<Rightarrow> counts" where "add_fn c = c\<lparr>n_fn := n_fn c + 1\<rparr>"

definition tally :: "(expected \<times> nat option) list \<times> bool list \<Rightarrow> counts \<Rightarrow> counts" where
  "tally m c =
     (let c = fold (\<lambda>(x, r). if r \<noteq> None then add_tp else add_fn) (fst m) c in
      fold (\<lambda>u. if \<not> u then add_fp else id) (snd m) c)"

definition typed_verdict :: "expected \<times> nat option \<Rightarrow> (etype \<Rightarrow> counts) \<Rightarrow> etype \<Rightarrow> counts" where
  "typed_verdict m typed =
     (let t = x_type (fst m) in
      if snd m \<noteq> None then typed(t := add_tp (typed t)) else typed(t := add_fn (typed t)))"

definition typed_alarm :: "entity \<times> bool \<Rightarrow> (etype \<Rightarrow> counts) \<Rightarrow> etype \<Rightarrow> counts" where
  "typed_alarm p typed =
     (if \<not> snd p then typed(ent_type (fst p) := add_fp (typed (ent_type (fst p)))) else typed)"

definition tally_typed ::
  "entity list \<Rightarrow> (expected \<times> nat option) list \<times> bool list \<Rightarrow> (etype \<Rightarrow> counts) \<Rightarrow> etype \<Rightarrow> counts" where
  "tally_typed got m typed = fold typed_alarm (zip got (snd m)) (fold typed_verdict (fst m) typed)"

record eval_state =
  v_det :: counts
  v_span :: counts
  v_exact :: counts
  v_typed :: "etype \<Rightarrow> counts"
  v_neg_total :: int
  v_neg_fp :: int
  v_latency :: int
  v_offset_errors :: int

definition eval_start :: eval_state where
  "eval_start = \<lparr>v_det = no_counts, v_span = no_counts, v_exact = no_counts, v_typed = (\<lambda>_. no_counts),
     v_neg_total = 0, v_neg_fp = 0, v_latency = 0, v_offset_errors = 0\<rparr>"

definition offset_error :: "string \<Rightarrow> entity \<Rightarrow> bool" where
  "offset_error text g =
     (if ent_start g < 0 \<or> ent_end g > int (length text) \<or> ent_start g > ent_end g then True
      else slice text (ent_start g) (ent_end g) \<noteq> ent_text g)"

definition false_alarm :: "entity \<Rightarrow> eval_state \<Rightarrow> eval_state" where
  "false_alarm g v = v\<lparr>v_det := add_fp (v_det v), v_span := add_fp (v_span v), v_exact := add_fp (v_exact v),
     v_typed := (v_typed v)(ent_type g := add_fp (v_typed v (ent_type g)))\<rparr>"

definition eval_sample :: "int \<Rightarrow> sample \<Rightarrow> entity list \<Rightarrow> eval_state \<Rightarrow> eval_state" where
  "eval_sample took s got v =
     (let v = v\<lparr>v_latency := v_latency v + took,
                v_offset_errors := v_offset_errors v + int (length (filter (offset_error (s_text s)) got))\<rparr> in
      if s_negative s then
        fold false_alarm got
          (v\<lparr>v_neg_total := v_neg_total v + 1,
             v_neg_fp := v_neg_fp v + (if length got > 0 then 1 else 0)\<rparr>)
      else
        let det = match_spans (s_expected s) got iou_threshold False;
            span = match_spans (s_expected s) got iou_threshold True;
            exact = match_spans (s_expected s) got (Fin 1) True in
        v\<lparr>v_det := tally det (v_det v), v_span := tally span (v_span v), v_exact := tally exact (v_exact v),
           v_typed := tally_typed got span (v_typed v)\<rparr>)"

fun eval_loop ::
  "(string \<Rightarrow> entity list res) \<Rightarrow> (nat \<Rightarrow> int) \<Rightarrow> nat \<Rightarrow> sample list \<Rightarrow> eval_state \<Rightarrow> eval_state res" where
  "eval_loop analyze elapsed i [] v = Inr v"
| "eval_loop analyze elapsed i (s # ss) v =
     rbind (analyze (s_text s)) (\<lambda>got. eval_loop analyze elapsed (Suc i) ss (eval_sample (elapsed i) s got v))"

section \<open>Figures\<close>

definition f_ratio :: "int \<Rightarrow> int \<Rightarrow> f64" where
  "f_ratio num den = (if den = 0 then Fin 0 else f_div (f_of_int num) (f_of_int den))"

definition f1_score :: "f64 \<Rightarrow> f64 \<Rightarrow> f64" where
  "f1_score p r =
     (if f_eq (f_add p r) (Fin 0) then Fin 0 else f_div (f_mul (f_mul (Fin 2) p) r) (f_add p r))"

record scores =
  sc_precision :: f64
  sc_recall :: f64
  sc_f1 :: f64

definition scores_of :: "counts \<Rightarrow> scores" where
  "scores_of c =
     (let p = f_ratio (n_tp c) (n_tp c + n_fp c); r = f_ratio (n_tp c) (n_tp c + n_fn c) in
      \<lparr>sc_precision = p, sc_recall = r, sc_f1 = f1_score p r\<rparr>)"

record eval_metrics =
  e_detection :: scores
  e_typed_span :: scores
  e_exact :: scores
  e_typed :: "etype \<Rightarrow> scores \<times> counts"
  e_false_positive_rate :: f64
  e_latency :: int
  e_offset_errors :: int

text \<open>The average divides by the number of samples: without samples the division panics.\<close>

definition evaluate :: "(string \<Rightarrow> entity list res) \<Rightarrow> (nat \<Rightarrow> int) \<Rightarrow> sample list \<Rightarrow> eval_metrics res" where
  "evaluate analyze elapsed samples =
     rbind (eval_loop analyze elapsed 0 samples eval_start) (\<lambda>v.
       if length samples = 0 then Inl Panic
       else Inr \<lparr>e_detection = scores_of (v_det v), e_typed_span = scores_of (v_span v),
         e_exact = scores_of (v_exact v), e_typed = (\<lambda>t. (scores_of (v_typed v t), v_typed v t)),
         e_false_positive_rate = (if v_neg_total v > 0 then f_div (f_of_int (v_neg_fp v)) (f_of_int (v_neg_total v)) else Fin 0),
         e_latency = go_quot (v_latency v) (int (length samples)), e_offset_errors = v_offset_errors v\<rparr>)"

section \<open>The gate\<close>

record gate_sample =
  g_text :: string
  g_has_pii :: int

record gate_counts = counts +
  n_tn :: int
  n_safe :: int
  n_uncertain :: int
  n_likely :: int

definition no_gate_counts :: gate_counts where
  "no_gate_counts = counts.extend no_counts \<lparr>n_tn = 0, n_safe = 0, n_uncertain = 0, n_likely = 0\<rparr>"

definition gate_count :: "ucd \<Rightarrow> gate_config \<Rightarrow> gate_sample \<Rightarrow> gate_counts \<Rightarrow> gate_counts" where
  "gate_count u cfg s c =
     (let suspect = (\<lambda>c. if g_has_pii s = 1 then c\<lparr>n_tp := n_tp c + 1\<rparr> else c\<lparr>n_fp := n_fp c + 1\<rparr>) in
      case d_route (gate_evaluate u cfg (g_text s)) of
        SAFE \<Rightarrow> (let c = c\<lparr>n_safe := n_safe c + 1\<rparr> in
          if g_has_pii s = 1 then c\<lparr>n_fn := n_fn c + 1\<rparr> else c\<lparr>n_tn := n_tn c + 1\<rparr>)
      | UNCERTAIN \<Rightarrow> suspect (c\<lparr>n_uncertain := n_uncertain c + 1\<rparr>)
      | LIKELY_PII \<Rightarrow> suspect (c\<lparr>n_likely := n_likely c + 1\<rparr>))"

record gate_metrics =
  gm_counts :: gate_counts
  gm_precision :: f64
  gm_recall :: f64
  gm_f1 :: f64
  gm_fnr :: f64
  gm_safe_rate :: f64
  gm_uncertain_rate :: f64
  gm_likely_rate :: f64

definition evaluate_gate :: "ucd \<Rightarrow> gate_config \<Rightarrow> gate_sample list \<Rightarrow> gate_metrics" where
  "evaluate_gate u cfg samples =
     (let c = fold (gate_count u cfg) samples no_gate_counts; total = f_of_int (int (length samples));
          precision = f_ratio (n_tp c) (n_tp c + n_fp c); recall = f_ratio (n_tp c) (n_tp c + n_fn c) in
      \<lparr>gm_counts = c, gm_precision = precision, gm_recall = recall, gm_f1 = f1_score precision recall,
       gm_fnr = f_ratio (n_fn c) (n_fn c + n_tp c), gm_safe_rate = f_div (f_of_int (n_safe c)) total,
       gm_uncertain_rate = f_div (f_of_int (n_uncertain c)) total,
       gm_likely_rate = f_div (f_of_int (n_likely c)) total\<rparr>)"

record sweep_result =
  sw_low :: f64
  sw_recall :: f64
  sw_precision :: f64
  sw_fnr :: f64
  sw_safe_rate :: f64

definition sweep_config :: "f64 \<Rightarrow> f64 \<Rightarrow> gate_config" where
  "sweep_config lo hi = default_gate_config\<lparr>low_threshold := lo, high_threshold := hi\<rparr>"

definition sweep_low_threshold :: "ucd \<Rightarrow> gate_sample list \<Rightarrow> f64 \<Rightarrow> f64 list \<Rightarrow> sweep_result list" where
  "sweep_low_threshold u samples hi lows =
     map (\<lambda>lo. let m = evaluate_gate u (sweep_config lo hi) samples in
       \<lparr>sw_low = lo, sw_recall = gm_recall m, sw_precision = gm_precision m, sw_fnr = gm_fnr m,
        sw_safe_rate = gm_safe_rate m\<rparr>) lows"

section \<open>The greedy matching\<close>

definition eligible :: "expected \<Rightarrow> bool \<Rightarrow> entity \<Rightarrow> bool" where
  "eligible x require_type g \<longleftrightarrow> (require_type \<longrightarrow> ent_type g = x_type x)"

definition iou_of :: "expected \<Rightarrow> entity \<Rightarrow> f64" where
  "iou_of x g = span_iou (x_start x) (x_end x) (ent_start g) (ent_end g)"

lemma best_loop_step:
  "best_loop x rt used j (g # gs) best =
     best_loop x rt used (Suc j) gs
       (if \<not> used ! j \<and> eligible x rt g \<and> f_lt (snd best) (iou_of x g) then (Some j, iou_of x g) else best)"
  by (auto simp: eligible_def iou_of_def Let_def)

lemma best_loop_mono: "\<not> f_lt (snd (best_loop x rt used j gs best)) (snd best)"
proof (induction gs arbitrary: j best)
  case (Cons g gs)
  let ?b = "if \<not> used ! j \<and> eligible x rt g \<and> f_lt (snd best) (iou_of x g) then (Some j, iou_of x g) else best"
  have "\<not> f_lt (snd (best_loop x rt used (Suc j) gs ?b)) (snd ?b)"
    by (rule Cons.IH)
  then show ?case
    unfolding best_loop_step using f_lt_trans by (auto split: if_splits)
qed simp

text \<open>The best prediction is one that may be matched, and none that may be matched is better.\<close>

lemma best_loop_from:
  assumes "best_loop x rt used j gs best = (r, iou)" "r \<noteq> fst best \<or> iou \<noteq> snd best"
  shows "\<exists>k < length gs. r = Some (j + k) \<and> \<not> used ! (j + k) \<and> eligible x rt (gs ! k) \<and> iou = iou_of x (gs ! k)"
  using assms
proof (induction gs arbitrary: j best)
  case (Cons g gs)
  let ?b = "if \<not> used ! j \<and> eligible x rt g \<and> f_lt (snd best) (iou_of x g) then (Some j, iou_of x g) else best"
  have b: "best_loop x rt used (Suc j) gs ?b = (r, iou)"
    using Cons.prems(1) by (simp only: best_loop_step)
  show ?case
  proof (cases "r = fst ?b \<and> iou = snd ?b")
    case True
    then have "\<not> used ! j" "eligible x rt g" "r = Some j" "iou = iou_of x g"
      using Cons.prems(2) by (auto split: if_splits)
    then show ?thesis
      by (intro exI[of _ 0]) simp
  next
    case False
    then obtain k where "k < length gs" "r = Some (Suc j + k)" "\<not> used ! (Suc j + k)" "eligible x rt (gs ! k)"
      "iou = iou_of x (gs ! k)"
      using Cons.IH[OF b] by blast
    then show ?thesis
      by (intro exI[of _ "Suc k"]) simp
  qed
qed simp

lemma best_loop_best:
  assumes "k < length gs" "\<not> used ! (j + k)" "eligible x rt (gs ! k)" "snd best \<noteq> NaN"
  shows "\<not> f_lt (snd (best_loop x rt used j gs best)) (iou_of x (gs ! k))"
  using assms
proof (induction gs arbitrary: j best k)
  case (Cons g gs)
  let ?b = "if \<not> used ! j \<and> eligible x rt g \<and> f_lt (snd best) (iou_of x g) then (Some j, iou_of x g) else best"
  have b: "snd ?b \<noteq> NaN"
    using Cons.prems(4) by auto
  show ?case
  proof (cases k)
    case 0
    have "\<not> f_lt (snd (best_loop x rt used (Suc j) gs ?b)) (snd ?b)"
      by (rule best_loop_mono)
    moreover have "\<not> f_lt (snd ?b) (iou_of x g)"
      using 0 Cons.prems by auto
    ultimately show ?thesis
      unfolding best_loop_step 0 nth_Cons_0 using f_lt_cotrans[OF b] by blast
  next
    case (Suc m)
    then show ?thesis
      unfolding best_loop_step using Cons.IH[of m "Suc j" ?b] Cons.prems b by simp
  qed
qed simp

section \<open>One to one\<close>

definition matched_indices :: "(expected \<times> nat option) list \<Rightarrow> nat list" where
  "matched_indices rs = map (the \<circ> snd) (filter (\<lambda>r. snd r \<noteq> None) rs)"

lemma matched_indices_simps [simp]:
  "matched_indices [] = []"
  "matched_indices ((x, None) # rs) = matched_indices rs"
  "matched_indices ((x, Some j) # rs) = j # matched_indices rs"
  by (simp_all add: matched_indices_def)

definition match_ok :: "entity list \<Rightarrow> f64 \<Rightarrow> bool \<Rightarrow> expected \<times> nat option \<Rightarrow> bool" where
  "match_ok got threshold rt r \<longleftrightarrow>
     (case r of (x, None) \<Rightarrow> True
      | (x, Some j) \<Rightarrow> j < length got \<and> eligible x rt (got ! j) \<and> f_le threshold (iou_of x (got ! j)))"

lemma match_step:
  assumes "best_loop x rt used 0 got (None, Fin 0) = (r, iou)"
  shows "r = None \<and> iou = Fin 0
    \<or> (\<exists>j < length got. r = Some j \<and> \<not> used ! j \<and> eligible x rt (got ! j) \<and> iou = iou_of x (got ! j))"
proof (cases "r = None \<and> iou = Fin 0")
  case False
  then show ?thesis
    using best_loop_from[OF assms] by simp
qed simp

lemma match_loop_ok:
  assumes "match_loop got threshold rt used xs = (rs, used')" "length used = length got"
  shows "map fst rs = xs \<and> length used' = length got \<and> (\<forall>r \<in> set rs. match_ok got threshold rt r)
    \<and> distinct (matched_indices rs)
    \<and> (\<forall>j < length got. used' ! j \<longleftrightarrow> used ! j \<or> j \<in> set (matched_indices rs))
    \<and> (\<forall>j \<in> set (matched_indices rs). \<not> used ! j)"
  using assms
proof (induction xs arbitrary: used rs used')
  case (Cons x xs)
  obtain r iou where b: "best_loop x rt used 0 got (None, Fin 0) = (r, iou)"
    by fastforce
  show ?case
  proof (cases "r \<noteq> None \<and> f_le threshold iou")
    case True
    then obtain j where j: "r = Some j" "j < length got" "\<not> used ! j" "eligible x rt (got ! j)" "iou = iou_of x (got ! j)"
      using match_step[OF b] by auto
    obtain rs1 u1 where m: "match_loop got threshold rt (used[j := True]) xs = (rs1, u1)"
      by fastforce
    have rs: "rs = (x, Some j) # rs1" "used' = u1"
      using Cons.prems(1) b j(1) True m by auto
    have ih: "map fst rs1 = xs \<and> length u1 = length got \<and> (\<forall>r \<in> set rs1. match_ok got threshold rt r)
      \<and> distinct (matched_indices rs1)
      \<and> (\<forall>i < length got. u1 ! i \<longleftrightarrow> used[j := True] ! i \<or> i \<in> set (matched_indices rs1))
      \<and> (\<forall>i \<in> set (matched_indices rs1). \<not> used[j := True] ! i)"
      using Cons.IH[OF m] Cons.prems(2) by simp
    have "match_ok got threshold rt (x, Some j)"
      using j True by (simp add: match_ok_def)
    moreover have "j \<notin> set (matched_indices rs1)"
      using ih j(2) Cons.prems(2) by (metis nth_list_update_eq)
    moreover have "\<not> used ! i" if "i \<in> set (matched_indices rs1)" for i
      using ih that calculation(2) by (metis nth_list_update_neq)
    ultimately show ?thesis
      using ih j(2,3) Cons.prems(2) by (auto simp: rs nth_list_update)
  next
    case False
    obtain rs1 where m: "match_loop got threshold rt used xs = (rs1, used')" and rs: "rs = (x, None) # rs1"
      using Cons.prems(1) b False by (cases r) (auto split: prod.splits)
    then show ?thesis
      using Cons.IH[OF m Cons.prems(2)] by (simp add: match_ok_def)
  qed
qed auto

section \<open>Accounting\<close>

definition typed_x :: "etype \<Rightarrow> expected list \<Rightarrow> int" where
  "typed_x t xs = int (length (filter (\<lambda>x. x_type x = t) xs))"

definition typed_g :: "etype \<Rightarrow> entity list \<Rightarrow> int" where
  "typed_g t gs = int (length (filter (\<lambda>g. ent_type g = t) gs))"

definition typed_hits :: "etype \<Rightarrow> (expected \<times> nat option) list \<Rightarrow> int" where
  "typed_hits t rs = int (length (filter (\<lambda>(x, r). x_type x = t \<and> r \<noteq> None) rs))"

lemma typed_simps [simp]:
  "typed_x t [] = 0" "typed_x t (xs @ ys) = typed_x t xs + typed_x t ys"
  "typed_g t [] = 0" "typed_g t (gs @ hs) = typed_g t gs + typed_g t hs"
  by (simp_all add: typed_x_def typed_g_def)

lemma typed_verdicts:
  "n_tp (fold typed_verdict rs ty t) = n_tp (ty t) + typed_hits t rs"
  "n_tp (fold typed_verdict rs ty t) + n_fn (fold typed_verdict rs ty t) = n_tp (ty t) + n_fn (ty t) + typed_x t (map fst rs)"
  "n_fp (fold typed_verdict rs ty t) = n_fp (ty t)"
proof (induction rs arbitrary: ty)
  case (Cons r rs)
  {
    case 1
    show ?case
      using Cons(1)[of "typed_verdict r ty"]
      by (simp add: typed_verdict_def Let_def typed_hits_def add_tp_def add_fn_def case_prod_unfold)
  next
    case 2
    show ?case
      using Cons(2)[of "typed_verdict r ty"]
      by (simp add: typed_verdict_def Let_def typed_x_def add_tp_def add_fn_def split: if_splits)
  next
    case 3
    show ?case
      using Cons(3)[of "typed_verdict r ty"]
      by (simp add: typed_verdict_def Let_def add_tp_def add_fn_def)
  }
qed (simp_all add: typed_hits_def)

lemma typed_alarms:
  "n_fp (fold typed_alarm gus ty t) = n_fp (ty t) + int (length (filter (\<lambda>(g, u). ent_type g = t \<and> \<not> u) gus))"
  "n_tp (fold typed_alarm gus ty t) = n_tp (ty t)" "n_fn (fold typed_alarm gus ty t) = n_fn (ty t)"
proof (induction gus arbitrary: ty)
  case (Cons r gus)
  {
    case 1
    show ?case
      using Cons(1)[of "typed_alarm r ty"] by (simp add: typed_alarm_def add_fp_def case_prod_unfold)
  next
    case 2
    show ?case
      using Cons(2)[of "typed_alarm r ty"] by (simp add: typed_alarm_def add_fp_def)
  next
    case 3
    show ?case
      using Cons(3)[of "typed_alarm r ty"] by (simp add: typed_alarm_def add_fp_def)
  }
qed simp_all

lemma used_by_type:
  assumes "map fst rs = xs" "length used = length got" "\<forall>r \<in> set rs. match_ok got threshold True r"
    "distinct (matched_indices rs)" "\<forall>j < length got. used ! j \<longleftrightarrow> j \<in> set (matched_indices rs)"
  shows "int (length (filter (\<lambda>(g, u). ent_type g = t \<and> u) (zip got used))) = typed_hits t rs"
proof -
  have "length (filter (\<lambda>(g, u). ent_type g = t \<and> u) (zip got used))
      = card {j. j < length got \<and> ent_type (got ! j) = t \<and> used ! j}"
    using assms(2) by (simp add: length_filter_conv_card conj_ac cong: conj_cong)
  also have "{j. j < length got \<and> ent_type (got ! j) = t \<and> used ! j}
      = set (filter (\<lambda>j. ent_type (got ! j) = t) (matched_indices rs))"
  proof -
    have "j < length got" if "j \<in> set (matched_indices rs)" for j
      using assms(3) that by (auto simp: matched_indices_def match_ok_def)
    then show ?thesis
      using assms(5) by auto
  qed
  also have "card (set (filter (\<lambda>j. ent_type (got ! j) = t) (matched_indices rs)))
      = length (filter (\<lambda>j. ent_type (got ! j) = t) (matched_indices rs))"
    using assms(4) by (intro distinct_card) simp
  also have "int (length (filter (\<lambda>j. ent_type (got ! j) = t) (matched_indices rs))) = typed_hits t rs"
    using assms(3)
  proof (induction rs)
    case (Cons r rs)
    then show ?case
      by (cases r; cases "snd r") (auto simp: typed_hits_def match_ok_def eligible_def)
  qed (simp add: typed_hits_def)
  finally show ?thesis .
qed

lemma tally_typed_counts:
  assumes "match_spans xs got threshold True = m"
  shows "n_tp (tally_typed got m ty t) + n_fn (tally_typed got m ty t) = n_tp (ty t) + n_fn (ty t) + typed_x t xs"
    "n_tp (tally_typed got m ty t) + n_fp (tally_typed got m ty t) = n_tp (ty t) + n_fp (ty t) + typed_g t got"
proof -
  obtain rs used where m: "m = (rs, used)"
    by fastforce
  have s: "map fst rs = xs" "length used = length got" "\<forall>r \<in> set rs. match_ok got threshold True r"
    "distinct (matched_indices rs)" "\<forall>j < length got. used ! j \<longleftrightarrow> j \<in> set (matched_indices rs)"
    using match_loop_ok[OF assms[unfolded match_spans_def m]] by auto
  have z: "typed_g t got = int (length (filter (\<lambda>(g, u). ent_type g = t \<and> u) (zip got used)))
      + int (length (filter (\<lambda>(g, u). ent_type g = t \<and> \<not> u) (zip got used)))"
    using s(2)
  proof (induction got arbitrary: used)
    case (Cons g got)
    then show ?case
      by (cases used) (auto simp: typed_g_def)
  qed simp
  show "n_tp (tally_typed got m ty t) + n_fn (tally_typed got m ty t) = n_tp (ty t) + n_fn (ty t) + typed_x t xs"
    "n_tp (tally_typed got m ty t) + n_fp (tally_typed got m ty t) = n_tp (ty t) + n_fp (ty t) + typed_g t got"
    using typed_verdicts[of rs ty t] typed_alarms[of "zip got used" "fold typed_verdict rs ty" t]
      used_by_type[OF s, of t] z s(1)
    by (simp_all add: m tally_typed_def)
qed

lemma false_alarms:
  "v_offset_errors (fold false_alarm got v) = v_offset_errors v"
  "n_tp (v_typed (fold false_alarm got v) t) = n_tp (v_typed v t)"
  "n_fn (v_typed (fold false_alarm got v) t) = n_fn (v_typed v t)"
  "n_fp (v_typed (fold false_alarm got v) t) = n_fp (v_typed v t) + typed_g t got"
  by (induction got arbitrary: v) (auto simp: false_alarm_def add_fp_def typed_g_def)

lemma eval_sample_counts:
  fixes took s got v
  defines "v' \<equiv> eval_sample took s got v"
  shows "v_offset_errors v' = v_offset_errors v + int (length (filter (offset_error (s_text s)) got))"
    "n_tp (v_typed v' t) + n_fn (v_typed v' t)
      = n_tp (v_typed v t) + n_fn (v_typed v t) + (if s_negative s then 0 else typed_x t (s_expected s))"
    "n_tp (v_typed v' t) + n_fp (v_typed v' t) = n_tp (v_typed v t) + n_fp (v_typed v t) + typed_g t got"
  using tally_typed_counts[OF refl, where xs = "s_expected s" and got = got and ty = "v_typed v"]
  by (simp_all add: v'_def eval_sample_def Let_def false_alarms)

lemma eval_loop_counts:
  assumes "list_all2 (\<lambda>s got. analyze (s_text s) = Inr got) samples predicted"
  shows "\<exists>v'. eval_loop analyze elapsed i samples v = Inr v'
    \<and> v_offset_errors v' = v_offset_errors v
        + sum_list (map2 (\<lambda>s got. int (length (filter (offset_error (s_text s)) got))) samples predicted)
    \<and> (\<forall>t. n_tp (v_typed v' t) + n_fn (v_typed v' t) = n_tp (v_typed v t) + n_fn (v_typed v t)
          + typed_x t (concat (map s_expected (filter (\<lambda>s. \<not> s_negative s) samples)))
        \<and> n_tp (v_typed v' t) + n_fp (v_typed v' t) = n_tp (v_typed v t) + n_fp (v_typed v t)
          + typed_g t (concat predicted))"
  using assms
proof (induction samples predicted arbitrary: i v rule: list_all2_induct)
  case (Cons s ss got gots)
  obtain v' where v': "eval_loop analyze elapsed (Suc i) ss (eval_sample (elapsed i) s got v) = Inr v'"
    and c: "v_offset_errors v' = v_offset_errors (eval_sample (elapsed i) s got v)
        + sum_list (map2 (\<lambda>s got. int (length (filter (offset_error (s_text s)) got))) ss gots)"
      "\<And>t. n_tp (v_typed v' t) + n_fn (v_typed v' t)
          = n_tp (v_typed (eval_sample (elapsed i) s got v) t) + n_fn (v_typed (eval_sample (elapsed i) s got v) t)
          + typed_x t (concat (map s_expected (filter (\<lambda>s. \<not> s_negative s) ss)))"
      "\<And>t. n_tp (v_typed v' t) + n_fp (v_typed v' t)
          = n_tp (v_typed (eval_sample (elapsed i) s got v) t) + n_fp (v_typed (eval_sample (elapsed i) s got v) t)
          + typed_g t (concat gots)"
    using Cons.IH[of "Suc i" "eval_sample (elapsed i) s got v"] by blast
  show ?case
    using v' c Cons.hyps(1) eval_sample_counts[of "elapsed i" s got v] by (intro exI[of _ v']) simp
qed simp

lemma no_offset_error: "entity_fits text g \<Longrightarrow> \<not> offset_error text g"
  by (auto simp: entity_fits_def span_ok_def offset_error_def)

text \<open>The matching is one to one: every expected span gets one verdict, in order; no prediction
  is used twice, exactly the used ones are marked, and each match has the type it must have and an
  overlap of at least the threshold.\<close>

theorem matching_is_one_to_one:
  "\<exists>rs used. match_spans xs got threshold rt = (rs, used) \<and> map fst rs = xs \<and> length used = length got
    \<and> distinct (matched_indices rs)
    \<and> {j. j < length got \<and> used ! j} = set (matched_indices rs)
    \<and> list_all (match_ok got threshold rt) rs"
proof -
  obtain rs used where m: "match_spans xs got threshold rt = (rs, used)"
    by fastforce
  have s: "map fst rs = xs" "length used = length got" "\<forall>r \<in> set rs. match_ok got threshold rt r"
    "distinct (matched_indices rs)" "\<forall>j < length got. used ! j \<longleftrightarrow> j \<in> set (matched_indices rs)"
    using match_loop_ok[OF m[unfolded match_spans_def]] by auto
  have "j < length got" if "j \<in> set (matched_indices rs)" for j
    using s(3) that by (auto simp: matched_indices_def match_ok_def)
  then show ?thesis
    using m s by (auto simp: list_all_iff)
qed

definition sample_eval :: "sample list" where
  "sample_eval =
    [\<lparr>s_text = ''mail a@b.ru'', s_expected = [\<lparr>x_type = EMAIL, x_text = ''a@b.ru'', x_start = 5, x_end = 11\<rparr>],
      s_negative = False\<rparr>,
     \<lparr>s_text = ''hello world'', s_expected = [], s_negative = True\<rparr>]"

lemma default_evaluation:
  assumes "ucd_ok u" "samples \<noteq> []" "\<forall>s \<in> set samples. valid_string (s_text s)"
  shows "\<exists>m predicted.
    evaluate (engine_analyze u (default_registry u) (engine_min_score (Fin 0))) elapsed samples = Inr m
    \<and> list_all2 (\<lambda>s got. engine_analyze u (default_registry u) (engine_min_score (Fin 0)) (s_text s) = Inr got)
        samples predicted
    \<and> e_offset_errors m = 0
    \<and> (\<forall>t. let c = snd (e_typed m t) in
         n_tp c + n_fn c = typed_x t (concat (map s_expected (filter (\<lambda>s. \<not> s_negative s) samples)))
         \<and> n_tp c + n_fp c = typed_g t (concat predicted))"
proof -
  let ?an = "engine_analyze u (default_registry u) (engine_min_score (Fin 0))"
  let ?got = "\<lambda>s. case ?an (s_text s) of Inr es \<Rightarrow> es | Inl _ \<Rightarrow> []"
  have got: "?an (s_text s) = Inr (?got s) \<and> (\<forall>g \<in> set (?got s). \<not> offset_error (s_text s) g)" if "s \<in> set samples" for s
  proof -
    obtain es where "?an (s_text s) = Inr es" "\<forall>e \<in> set es. entity_fits (s_text s) e"
      using default_analyze_ok[OF assms(1), of "s_text s" "engine_min_score (Fin 0)"] assms(3) \<open>s \<in> set samples\<close> by blast
    then show ?thesis
      using no_offset_error by simp
  qed
  have l: "list_all2 (\<lambda>s got. ?an (s_text s) = Inr got) samples (map ?got samples)"
    using got by (simp add: list.rel_map list.rel_refl_strong)
  obtain v where v: "eval_loop ?an elapsed 0 samples eval_start = Inr v"
    and o: "v_offset_errors v = v_offset_errors eval_start
        + sum_list (map2 (\<lambda>s got. int (length (filter (offset_error (s_text s)) got))) samples (map ?got samples))"
    and c: "\<forall>t. n_tp (v_typed v t) + n_fn (v_typed v t) = n_tp (v_typed eval_start t) + n_fn (v_typed eval_start t)
          + typed_x t (concat (map s_expected (filter (\<lambda>s. \<not> s_negative s) samples)))
        \<and> n_tp (v_typed v t) + n_fp (v_typed v t) = n_tp (v_typed eval_start t) + n_fp (v_typed eval_start t)
          + typed_g t (concat (map ?got samples))"
    using eval_loop_counts[OF l, where elapsed = elapsed and i = 0 and v = eval_start] by blast
  have "map2 (\<lambda>s got. int (length (filter (offset_error (s_text s)) got))) samples (map ?got samples) = map (\<lambda>_. 0) samples"
    using got by (induction samples) (auto simp: filter_empty_conv)
  then have z: "v_offset_errors v = 0"
    using o by (simp add: eval_start_def)
  show ?thesis
    by (intro exI conjI, simp only: evaluate_def v rbind_simps, simp only: length_0_conv assms(2) if_False, rule l)
      (use z c in \<open>simp_all add: eval_start_def no_counts_def Let_def\<close>)
qed

text \<open>C39: The evaluation of the default engine on samples of valid text ends with figures when there is
  a sample: the engine makes no offset error, and of each type the hits and misses add up to the
  expected spans of the positive samples, the hits and false alarms to all the engine found.\<close>

theorem evaluation_accounts_for_every_span:
  assumes "ucd_ok u" "samples \<noteq> []" "\<forall>s \<in> set samples. valid_string (s_text s)"
  shows "\<exists>m predicted.
    evaluate (engine_analyze u (default_registry u) (engine_min_score (Fin 0))) elapsed samples = Inr m
    \<and> list_all2 (\<lambda>s got. engine_analyze u (default_registry u) (engine_min_score (Fin 0)) (s_text s) = Inr got)
        samples predicted
    \<and> e_offset_errors m = 0
    \<and> (\<forall>t. let c = snd (e_typed m t) in
         n_tp c + n_fn c = typed_x t (concat (map s_expected (filter (\<lambda>s. \<not> s_negative s) samples)))
         \<and> n_tp c + n_fp c = typed_g t (concat predicted))"
  by (rule default_evaluation[OF assms])

theorem evaluation_accounts_for_every_span_witness:
  "\<exists>m predicted.
    evaluate (engine_analyze russian_ucd (default_registry russian_ucd) (engine_min_score (Fin 0))) (\<lambda>_. 1000) sample_eval = Inr m
    \<and> list_all2 (\<lambda>s got. engine_analyze russian_ucd (default_registry russian_ucd) (engine_min_score (Fin 0)) (s_text s) = Inr got)
        sample_eval predicted
    \<and> e_offset_errors m = 0
    \<and> (let c = snd (e_typed m EMAIL) in n_tp c + n_fn c = 1)"
proof -
  have v: "\<forall>s \<in> set sample_eval. valid_string (s_text s)"
    by code_simp
  have n: "sample_eval \<noteq> []"
    by (simp add: sample_eval_def)
  have e: "typed_x EMAIL (concat (map s_expected (filter (\<lambda>s. \<not> s_negative s) sample_eval))) = 1"
    by code_simp
  show ?thesis
    using evaluation_accounts_for_every_span[OF russian_ucd_ok n v, of "\<lambda>_. 1000"] e by (auto simp: Let_def)
qed

lemma evaluation_needs_samples: "evaluate analyze elapsed [] = Inl Panic"
  by (simp add: evaluate_def)

section \<open>The sweep of the gate\<close>

definition called_safe :: "ucd \<Rightarrow> gate_config \<Rightarrow> gate_sample \<Rightarrow> bool" where
  "called_safe u cfg s \<longleftrightarrow> d_route (gate_evaluate u cfg (g_text s)) = SAFE"

lemma gate_counts_eq:
  "n_tp (fold (gate_count u cfg) ss c) = n_tp c + int (length (filter (\<lambda>s. g_has_pii s = 1 \<and> \<not> called_safe u cfg s) ss))"
  "n_fn (fold (gate_count u cfg) ss c) = n_fn c + int (length (filter (\<lambda>s. g_has_pii s = 1 \<and> called_safe u cfg s) ss))"
  "n_fp (fold (gate_count u cfg) ss c) = n_fp c + int (length (filter (\<lambda>s. g_has_pii s \<noteq> 1 \<and> \<not> called_safe u cfg s) ss))"
  "n_safe (fold (gate_count u cfg) ss c) = n_safe c + int (length (filter (called_safe u cfg) ss))"
  by (induction ss arbitrary: c)
    (auto simp: gate_count_def called_safe_def Let_def split: gate_route.split)

lemma sweep_safe:
  "called_safe u (sweep_config lo hi) s \<longleftrightarrow> f_lt (d_score (gate_evaluate u default_gate_config (g_text s))) lo"
proof -
  have "gate_checks u (sweep_config lo hi) t = gate_checks u default_gate_config t" for t
    by (simp add: gate_checks_def structural_signals_def context_words_def sweep_config_def)
  then show ?thesis
    by (simp add: called_safe_def gate_evaluate_def Let_def route_for_score_def sweep_config_def case_prod_unfold)
qed

lemma filter_less:
  assumes "\<And>s. s \<in> set ss \<Longrightarrow> p s \<Longrightarrow> q s"
  shows "length (filter p ss) \<le> length (filter q ss)"
  using assms by (induction ss) (auto intro: le_SucI)

lemma f_ratio_mono:
  assumes "0 \<le> n" "n \<le> k" "k \<le> d" "d < 2 ^ 53"
  shows "\<not> f_lt (f_ratio k d) (f_ratio n d)"
proof (cases "d = 0")
  case False
  have "f_ratio i d = f_round (of_int i / of_int d)" if "0 \<le> i" "i \<le> d" for i
    using that False assms(4) by (simp add: f_ratio_def f_of_int_exact)
  moreover have "(of_int n / of_int d :: rat) \<le> of_int k / of_int d"
    using assms by (simp add: divide_right_mono)
  ultimately show ?thesis
    using f_round_mono assms by simp
qed (simp add: f_ratio_def)

text \<open>C40: The trade-off of the sweep: over the same samples a higher low threshold never calls fewer
  texts safe, never raises the hits or the false alarms, and never raises the recall.\<close>

theorem sweep_is_monotone:
  assumes "f_le lo lo'" "int (length samples) < 2 ^ 53"
  shows "\<exists>m m'. m = evaluate_gate u (sweep_config lo hi) samples \<and> m' = evaluate_gate u (sweep_config lo' hi) samples
    \<and> n_safe (gm_counts m) \<le> n_safe (gm_counts m')
    \<and> n_tp (gm_counts m') \<le> n_tp (gm_counts m) \<and> n_fp (gm_counts m') \<le> n_fp (gm_counts m)
    \<and> n_tp (gm_counts m) + n_fn (gm_counts m) = n_tp (gm_counts m') + n_fn (gm_counts m')
    \<and> \<not> f_lt (gm_recall m) (gm_recall m')"
proof -
  let ?s = "called_safe u (sweep_config lo hi)" and ?s' = "called_safe u (sweep_config lo' hi)"
  have nan: "lo' \<noteq> NaN" "\<not> f_lt lo' lo"
    using assms(1) by (auto simp: f_le_def f_eq_iff dest: f_lt_asym)
  have safe: "?s x \<Longrightarrow> ?s' x" for x
    using f_lt_cotrans[OF nan(1)] nan(2) by (auto simp: sweep_safe)
  have all: "length (filter (\<lambda>x. g_has_pii x = 1 \<and> \<not> p x) samples) + length (filter (\<lambda>x. g_has_pii x = 1 \<and> p x) samples)
      = length (filter (\<lambda>x. g_has_pii x = 1) samples)" for p
    by (induction samples) auto
  define tp fn tp' fn' where n: "tp = length (filter (\<lambda>x. g_has_pii x = 1 \<and> \<not> ?s x) samples)"
    "fn = length (filter (\<lambda>x. g_has_pii x = 1 \<and> ?s x) samples)"
    "tp' = length (filter (\<lambda>x. g_has_pii x = 1 \<and> \<not> ?s' x) samples)"
    "fn' = length (filter (\<lambda>x. g_has_pii x = 1 \<and> ?s' x) samples)"
  have sum: "tp + fn = tp' + fn'" and le: "tp' \<le> tp"
    using all[of ?s] all[of ?s'] safe by (auto simp: n intro: filter_less)
  have "tp + fn \<le> length samples"
    unfolding n all by (rule length_filter_le)
  then have bound: "int (tp + fn) < 2 ^ 53"
    using assms(2) by linarith
  have "\<not> f_lt (f_ratio (int tp) (int (tp + fn))) (f_ratio (int tp') (int (tp + fn)))"
    using le bound by (intro f_ratio_mono) simp_all
  moreover have "length (filter ?s samples) \<le> length (filter ?s' samples)"
    "length (filter (\<lambda>x. g_has_pii x \<noteq> 1 \<and> \<not> ?s' x) samples) \<le> length (filter (\<lambda>x. g_has_pii x \<noteq> 1 \<and> \<not> ?s x) samples)"
    using safe by (auto intro: filter_less)
  moreover have "int tp' + int fn' = int (tp + fn)"
    using sum by simp
  ultimately show ?thesis
    using le sum by (simp add: evaluate_gate_def Let_def gate_counts_eq no_gate_counts_def no_counts_def counts.defs
        flip: n of_nat_add)
qed

definition sample_gate :: "gate_sample list" where
  "sample_gate = [\<lparr>g_text = ''call 7707083893'', g_has_pii = 1\<rparr>, \<lparr>g_text = ''hello'', g_has_pii = 0\<rparr>]"

theorem sweep_is_monotone_witness:
  "n_safe (gm_counts (evaluate_gate russian_ucd (sweep_config (f_round (3 / 10)) (f_round (7 / 10))) sample_gate))
   \<le> n_safe (gm_counts (evaluate_gate russian_ucd (sweep_config (f_round (1 / 2)) (f_round (7 / 10))) sample_gate))"
proof -
  have l: "f_le (f_round (3 / 10)) (f_round (1 / 2))" "int (length sample_gate) < 2 ^ 53"
    by code_simp+
  show ?thesis
    using sweep_is_monotone[OF l, of russian_ucd "f_round (7 / 10)"] by blast
qed

end
