(* ===== verification/Samples.thy ===== *)
theory Samples
  imports Evaluation
begin

text \<open>
  The data sets of the two evaluations, \<open>internal/eval/dataset.go\<close> and \<open>internal/gateeval/dataset.go\<close>.
  The texts mix alphabets, so the seven-bit code of \<open>Dict\<close> is extended: a bar before a letter of the
  code makes it a capital, an ampersand takes the next character as it is, and the numero sign, the
  two quotation marks and the long dash are written as a star, less and greater, and per cent.
\<close>

section \<open>Literals\<close>

definition capital :: "rune \<Rightarrow> rune" where
  "capital r = (if r = 0x451 then 0x401 else r - 32)"

fun rus_runes :: "string \<Rightarrow> rune list" where
  "rus_runes [] = []"
| "rus_runes [c] = [ru_char c]"
| "rus_runes (c # d # cs) =
     (if c = CHR ''|'' then capital (ru_char d) # rus_runes cs
      else if c = CHR ''&'' then byte d # rus_runes cs
      else (if c = CHR ''*'' then 0x2116 else if c = CHR ''<'' then 0xAB else if c = CHR ''>'' then 0xBB
            else if c = CHR ''%'' then 0x2014 else ru_char c) # rus_runes (d # cs))"

definition rus :: "string \<Rightarrow> string" where
  "rus s = encode_all (rus_runes s)"

text \<open>A sample with the spans of the values named, each found by \<open>exp\<close>, and a negative one.\<close>

fun expect_all :: "string \<Rightarrow> (etype \<times> string) list \<Rightarrow> expected list res" where
  "expect_all text [] = Inr []"
| "expect_all text ((typ, value) # xs) =
     rbind (expect text typ (rus value)) (\<lambda>e. rbind (expect_all text xs) (\<lambda>es. Inr (e # es)))"

datatype entry = Positive string "(etype \<times> string) list" | Negative string | Placed string etype string int int

fun entry_sample :: "entry \<Rightarrow> sample res" where
  "entry_sample (Positive t xs) =
     rbind (expect_all (rus t) xs) (\<lambda>es. Inr \<lparr>s_text = rus t, s_expected = es, s_negative = False\<rparr>)"
| "entry_sample (Negative t) = Inr \<lparr>s_text = rus t, s_expected = [], s_negative = True\<rparr>"
| "entry_sample (Placed t typ v i j) =
     Inr \<lparr>s_text = rus t, s_expected = [\<lparr>x_type = typ, x_text = rus v, x_start = i, x_end = j\<rparr>], s_negative = False\<rparr>"

fun all_samples :: "entry list \<Rightarrow> sample list res" where
  "all_samples [] = Inr []"
| "all_samples (r # rs) = rbind (entry_sample r) (\<lambda>s. rbind (all_samples rs) (\<lambda>ss. Inr (s # ss)))"

section \<open>The rule engine\<close>

definition data_1 :: "entry list" where
  "data_1 =
    [Positive ''|KLIENT: |IWANOW |IWAN |PETROWI^'' [(FULL_NAME, ''|IWANOW |IWAN |PETROWI^'')],
     Positive ''|F|I|O ZAQWITELQ: |PETROWA |ANNA |SERGEEWNA'' [(FULL_NAME, ''|PETROWA |ANNA |SERGEEWNA'')],
     Positive ''|SOTRUDNIK |IWAN |PETROW PODAL ZAQWKU'' [(FULL_NAME, ''|IWAN |PETROW'')],
     Positive ''|ZA#M]IK: |SIDOROW |ALEKSEJ |WIKTOROWI^'' [(FULL_NAME, ''|SIDOROW |ALEKSEJ |WIKTOROWI^'')],
     Positive ''|DERVATELX POLISA |KUZNECOWA |MARIQ'' [(FULL_NAME, ''|KUZNECOWA |MARIQ'')],
     Positive ''|PACIENT: |WOLKOW |DMITRIJ |SERGEEWI^'' [(FULL_NAME, ''|WOLKOW |DMITRIJ |SERGEEWI^'')],
     Positive ''|DATA ROVDENIQ: 15.03.1990'' [(BIRTH_DATE, ''15.03.1990'')],
     Positive ''|RODILSQ 01-02-2000'' [(BIRTH_DATE, ''01-02-2000'')],
     Positive ''|DATA ROVDENIQ 12 QNWARQ 1985'' [(BIRTH_DATE, ''12 QNWARQ 1985'')],
     Positive ''|RODILASX 05/11/1992'' [(BIRTH_DATE, ''05/11/1992'')],
     Positive ''|DENX ROVDENIQ: 30.06.1978'' [(BIRTH_DATE, ''30.06.1978'')],
     Positive ''|GOD ROVDENIQ 1988'' [(BIRTH_DATE, ''1988'')],
     Positive ''|DATA ROVDENIQ: 1990-03-15'' [(BIRTH_DATE, ''1990-03-15'')],
     Positive ''|RODILSQ W 1990 GODU W |MOSKWE'' [(BIRTH_DATE, ''1990''), (BIRTH_PLACE, ''|MOSKWE'')],
     Positive ''|MESTO ROVDENIQ: GOROD |MOSKWA'' [(BIRTH_PLACE, ''GOROD |MOSKWA'')],
     Positive ''|RODILSQ W GORODE |SANKT-|PETERBURG'' [(BIRTH_PLACE, ''GORODE |SANKT-|PETERBURG'')],
     Positive ''|MESTO ROVDENIQ: |MOSKWA, DATA ROVDENIQ 15.03.1990'' [(BIRTH_PLACE, ''|MOSKWA''), (BIRTH_DATE, ''15.03.1990'')],
     Positive ''|UROVENEC GORODA |KAZANX'' [(BIRTH_PLACE, ''GORODA |KAZANX'')],
     Positive ''|RODILASX W |NOWOSIBIRSKE'' [(BIRTH_PLACE, ''|NOWOSIBIRSKE'')],
     Positive ''|PASPORT 4510 123456'' [(PASSPORT, ''4510 123456'')],
     Positive ''|SERIQ 45 10 NOMER 123456'' [(PASSPORT, ''|SERIQ 45 10 NOMER 123456'')],
     Positive ''|PASPORT GRAVDANINA |R|F 7712 345678'' [(PASSPORT, ''7712 345678''), (CITIZENSHIP, ''|R|F'')],
     Positive ''|SERIQ I NOMER PASPORTA: 4510 123456'' [(PASSPORT, ''4510 123456'')],
     Positive ''|GRAVDANSTWO: |ROSSIJSKAQ |FEDERACIQ'' [(CITIZENSHIP, ''|ROSSIJSKAQ |FEDERACIQ'')],
     Positive ''|GRAVDANIN |R|F'' [(CITIZENSHIP, ''|R|F'')]]"

definition data_2 :: "entry list" where
  "data_2 =
    [Positive ''|GRAVDANSTWO: |R|F.'' [(CITIZENSHIP, ''|R|F'')],
     Positive ''|GRAVDANKA |RESPUBLIKI |BELARUSX'' [(CITIZENSHIP, ''|RESPUBLIKI |BELARUSX'')],
     Positive ''|GRAVDANSTWO: |KAZAHSTAN'' [(CITIZENSHIP, ''|KAZAHSTAN'')],
     Positive ''|PASPORT WYDAN |O|W|M |U|M|W|D |ROSSII PO G. |MOSKWE'' [(PASSPORT_ISSUER, ''|O|W|M |U|M|W|D |ROSSII PO G. |MOSKWE'')],
     Positive ''|PASPORT WYDAN |O|W|M |U|M|W|D |ROSSII PO G. |MOSKWE 20.04.2010'' [(PASSPORT_ISSUER, ''|O|W|M |U|M|W|D |ROSSII PO G. |MOSKWE'')],
     Positive ''|WYDAN |O|M|W|D |ROSSII PO RAJONU |HAMOWNIKI'' [(PASSPORT_ISSUER, ''|O|M|W|D |ROSSII PO RAJONU |HAMOWNIKI'')],
     Positive ''|KEM WYDAN: |U|F|M|S |ROSSII PO G. |SANKT-|PETERBURGU'' [(PASSPORT_ISSUER, ''|U|F|M|S |ROSSII PO G. |SANKT-|PETERBURGU'')],
     Positive ''|KOD PODRAZDELENIQ 770-001'' [(DEPARTMENT_CODE, ''770-001'')],
     Positive ''|PASPORT, KOD PODRAZDELENIQ 452-013'' [(DEPARTMENT_CODE, ''452-013'')],
     Positive ''|KOD PODRAZDELENIQ: 770-123'' [(DEPARTMENT_CODE, ''770-123'')],
     Positive ''|PASPORT WYDAN 20.04.2010'' [(PASSPORT_ISSUE_DATE, ''20.04.2010'')],
     Positive ''|DATA WYDA^I: 05.11.2015'' [(PASSPORT_ISSUE_DATE, ''05.11.2015'')],
     Positive ''|DATA WYDA^I PASPORTA: 20.07.2015'' [(PASSPORT_ISSUE_DATE, ''20.07.2015'')],
     Positive ''|RODILSQ 15 MARTA 1990 GODA'' [(BIRTH_DATE, ''15 MARTA 1990'')],
     Positive ''|PASPORT WYDAN 15 MARTA 2008'' [(PASSPORT_ISSUE_DATE, ''15 MARTA 2008'')],
     Positive ''|WODITELXSKOE UDOSTOWERENIE 7712 345678'' [(DRIVER_LICENSE, ''7712 345678'')],
     Positive ''|WODITELXSKIE PRAWA 4510 123456'' [(DRIVER_LICENSE, ''4510 123456'')],
     Positive ''|W/U 7712 345678'' [(DRIVER_LICENSE, ''7712 345678'')],
     Positive ''|WODITELXSKOE UDOSTOWERENIE 77 12 345678'' [(DRIVER_LICENSE, ''77 12 345678'')],
     Positive ''|W|U: 77 12 345678'' [(DRIVER_LICENSE, ''77 12 345678'')],
     Positive ''|WODITELXSKOE UDOSTOWERENIE 77-12 345678'' [(DRIVER_LICENSE, ''77-12 345678'')],
     Positive ''|WODITELXSKOE UDOSTOWERENIE 77 12 *345678'' [(DRIVER_LICENSE, ''77 12 *345678'')],
     Positive ''|ADRES: G. |MOSKWA, UL. |TWERSKAQ, D. 10, KW. 5'' [(ADDRESS, ''G. |MOSKWA, UL. |TWERSKAQ, D. 10, KW. 5'')],
     Positive ''|ADRES REGISTRACII: 101000, G. |MOSKWA, UL. |ARBAT, D. 1'' [(ADDRESS, ''101000, G. |MOSKWA, UL. |ARBAT, D. 1'')],
     Positive ''|PROVIWAET PO ADRESU: G. |KAZANX, UL. |BAUMANA, D. 7, KW. 12'' [(ADDRESS, ''G. |KAZANX, UL. |BAUMANA, D. 7, KW. 12'')]]"

definition data_3 :: "entry list" where
  "data_3 =
    [Positive ''|ADRES PROVIWANIQ: G. |NOWOSIBIRSK, PR-T |LENINA, D. 3'' [(ADDRESS, ''G. |NOWOSIBIRSK, PR-T |LENINA, D. 3'')],
     Positive ''|KLIENT VIWET PO ADRESU: G. |MOSKWA, UL. |TWERSKAQ, D. 10, KW. 5'' [(ADDRESS, ''G. |MOSKWA, UL. |TWERSKAQ, D. 10, KW. 5'')],
     Positive ''&Email: ivanov&@example.com'' [(EMAIL, ''ivanov&@example.com'')],
     Positive ''|~LEKTRONNAQ PO^TA: petrova&@mail.ru'' [(EMAIL, ''petrova&@mail.ru'')],
     Positive ''e-mail: a.sidorov&@yandex.ru'' [(EMAIL, ''a.sidorov&@yandex.ru'')],
     Positive ''|TELEFON: +7 (912) 345-67-89'' [(PHONE, ''+7 (912) 345-67-89'')],
     Positive ''|MOBILXNYJ 8 912 345 67 89'' [(PHONE, ''8 912 345 67 89'')],
     Positive ''|TEL. +79123456789'' [(PHONE, ''+79123456789'')],
     Positive ''|KONTAKTNYJ TELEFON: 7 (495) 123-45-67'' [(PHONE, ''7 (495) 123-45-67'')],
     Positive ''|I|N|N 7707083893'' [(INN, ''7707083893'')],
     Positive ''|I|N|N FIZI^ESKOGO LICA 500100732259'' [(INN, ''500100732259'')],
     Positive ''|I|N|N: 7707083893'' [(INN, ''7707083893'')],
     Positive ''|NOMER KARTY 4532 0151 1283 0366'' [(CARD_NUMBER, ''4532 0151 1283 0366'')],
     Positive ''|KARTA 4532015112830366'' [(CARD_NUMBER, ''4532015112830366'')],
     Positive ''|NOMER BANKOWSKOJ KARTY: 4916 1197 1130 4546'' [(CARD_NUMBER, ''4916 1197 1130 4546'')],
     Positive ''&C&V&V 123'' [(CVV, ''123'')],
     Positive ''|KOD BEZOPASNOSTI 456'' [(CVV, ''456'')],
     Positive ''|NOMER KARTY 4532 0151 1283 0366, &C&V&V 123'' [(CARD_NUMBER, ''4532 0151 1283 0366''), (CVV, ''123'')],
     Positive ''|PIN-KOD 7305'' [(PIN, ''7305'')],
     Positive ''&P&I&N 1234'' [(PIN, ''1234'')],
     Positive ''|NOMER KARTY 4532 0151 1283 0366, PIN-KOD 7305'' [(CARD_NUMBER, ''4532 0151 1283 0366''), (PIN, ''7305'')],
     Positive ''|DERVATELX KARTY &I&V&A&N &P&E&T&R&O&V'' [(CARDHOLDER_NAME, ''&I&V&A&N &P&E&T&R&O&V'')],
     Positive ''&C&A&R&D&H&O&L&D&E&R: &I&V&A&N &P&E&T&R&O&V'' [(CARDHOLDER_NAME, ''&I&V&A&N &P&E&T&R&O&V'')],
     Positive ''|NA KARTE UKAZANO &A&N&N&A &S&I&D&O&R&O&V&A'' [(CARDHOLDER_NAME, ''&A&N&N&A &S&I&D&O&R&O&V&A'')],
     Positive ''|KLIENT |IWANOW |IWAN |PETROWI^, DATA ROVDENIQ 15.03.1990, PASPORT 4510 123456, |I|N|N 7707083893, TEL. +7 (912) 345-67-89, email ivanov&@example.com'' [(FULL_NAME, ''|IWANOW |IWAN |PETROWI^''), (BIRTH_DATE, ''15.03.1990''), (PASSPORT, ''4510 123456''), (INN, ''7707083893''), (PHONE, ''+7 (912) 345-67-89''), (EMAIL, ''ivanov&@example.com'')]]"

definition data_4 :: "entry list" where
  "data_4 =
    [Positive ''|ZAQWITELX: |PETROWA |ANNA, ADRES: G. |MOSKWA, UL. |TWERSKAQ, D. 10, KW. 5, GRAVDANSTWO |R|F'' [(FULL_NAME, ''|PETROWA |ANNA''), (ADDRESS, ''G. |MOSKWA, UL. |TWERSKAQ, D. 10, KW. 5''), (CITIZENSHIP, ''|R|F'')],
     Positive ''|NOMER KARTY 4532 0151 1283 0366, &C&V&V 123, PIN-KOD 7305, DERVATELX &I&V&A&N &P&E&T&R&O&V'' [(CARD_NUMBER, ''4532 0151 1283 0366''), (CVV, ''123''), (PIN, ''7305''), (CARDHOLDER_NAME, ''&I&V&A&N &P&E&T&R&O&V'')],
     Positive ''|PASPORT 4510 123456, WYDAN |O|W|M |U|M|W|D |ROSSII PO G. |MOSKWE, KOD PODRAZDELENIQ 770-001, DATA WYDA^I 20.04.2010'' [(PASSPORT, ''4510 123456''), (PASSPORT_ISSUER, ''|O|W|M |U|M|W|D |ROSSII PO G. |MOSKWE''), (DEPARTMENT_CODE, ''770-001''), (PASSPORT_ISSUE_DATE, ''20.04.2010'')],
     Positive ''|WODITELXSKOE UDOSTOWERENIE 7712 345678, ADRES: G. |MOSKWA, UL. |TWERSKAQ, D. 10, KW. 5'' [(DRIVER_LICENSE, ''7712 345678''), (ADDRESS, ''G. |MOSKWA, UL. |TWERSKAQ, D. 10, KW. 5'')],
     Positive ''|F|I|O: |SMIRNOW |P#TR |IWANOWI^'' [(FULL_NAME, ''|SMIRNOW |P#TR |IWANOWI^'')],
     Positive ''|KLIENT: |KUZNECOWA |ANNA'' [(FULL_NAME, ''|KUZNECOWA |ANNA'')],
     Positive ''|DATA ROVDENIQ 25.12.1975'' [(BIRTH_DATE, ''25.12.1975'')],
     Positive ''|RODILSQ 3 MARTA 1995'' [(BIRTH_DATE, ''3 MARTA 1995'')],
     Positive ''|MESTO ROVDENIQ: G. |EKATERINBURG'' [(BIRTH_PLACE, ''G. |EKATERINBURG'')],
     Positive ''|RODILSQ W |SAMARE'' [(BIRTH_PLACE, ''|SAMARE'')],
     Positive ''|PASPORT 4509 876543'' [(PASSPORT, ''4509 876543'')],
     Positive ''|SERIQ 45 09 NOMER 876543'' [(PASSPORT, ''|SERIQ 45 09 NOMER 876543'')],
     Positive ''|PASPORT: SERIQ 4510, NOMER 123456'' [(PASSPORT, ''SERIQ 4510, NOMER 123456'')],
     Positive ''PASPORT 4510 *123456'' [(PASSPORT, ''4510 *123456'')],
     Positive ''PASPORT 45 10 * 123456'' [(PASSPORT, ''45 10 * 123456'')],
     Positive ''SERIQ 45 10, NOMER 123456'' [(PASSPORT, ''SERIQ 45 10, NOMER 123456'')],
     Positive ''|GRAVDANSTWO: |UKRAINA'' [(CITIZENSHIP, ''|UKRAINA'')],
     Positive ''|GRAVDANIN |KAZAHSTANA'' [(CITIZENSHIP, ''|KAZAHSTANA'')],
     Positive ''QWLQETSQ GRAVDANINOM |ARMENII'' [(CITIZENSHIP, ''|ARMENII'')],
     Positive ''|GRAVDANSTWO ZAQWITELQ |ROSSIQ'' [(CITIZENSHIP, ''|ROSSIQ'')],
     Placed ''|ROSSIQ % STRANA. |GRAVDANSTWO KLIENTA |ROSSIQ'' CITIZENSHIP ''|ROSSIQ'' 69 81,
     Positive ''|PASPORT WYDAN |O|M|W|D |ROSSII PO G. |KAZANI'' [(PASSPORT_ISSUER, ''|O|M|W|D |ROSSII PO G. |KAZANI'')],
     Positive ''|KOD PODRAZDELENIQ 160-045'' [(DEPARTMENT_CODE, ''160-045'')],
     Positive ''|DATA WYDA^I 12.08.2012'' [(PASSPORT_ISSUE_DATE, ''12.08.2012'')],
     Positive ''|WODITELXSKOE UDOSTOWERENIE 9901 234567'' [(DRIVER_LICENSE, ''9901 234567'')]]"

definition data_5 :: "entry list" where
  "data_5 =
    [Positive ''|ADRES: G. |SANKT-|PETERBURG, |NEWSKIJ PR-T, D. 15, KW. 3'' [(ADDRESS, ''G. |SANKT-|PETERBURG, |NEWSKIJ PR-T, D. 15, KW. 3'')],
     Positive ''&Email: smirnov&@yandex.ru'' [(EMAIL, ''smirnov&@yandex.ru'')],
     Positive ''|TELEFON: 8 (495) 123-45-67'' [(PHONE, ''8 (495) 123-45-67'')],
     Positive ''|I|N|N 500100732259'' [(INN, ''500100732259'')],
     Positive ''|NOMER KARTY 4485 2757 4230 8327'' [(CARD_NUMBER, ''4485 2757 4230 8327'')],
     Positive ''&C&V&V 789'' [(CVV, ''789'')],
     Positive ''|PIN-KOD 4321'' [(PIN, ''4321'')],
     Positive ''|DERVATELX KARTY &P&E&T&R&O&V &I&V&A&N'' [(CARDHOLDER_NAME, ''&P&E&T&R&O&V &I&V&A&N'')],
     Positive ''|KLIENT: |WOLKOW |DMITRIJ, DATA ROVDENIQ 10.10.1980, PASPORT 4510 123456, WYDAN |O|W|M |U|M|W|D |ROSSII PO G. |MOSKWE, KOD PODRAZDELENIQ 770-001, |I|N|N 7707083893, TEL. +7 (912) 345-67-89, email volkov&@example.com, ADRES: G. |MOSKWA, UL. |TWERSKAQ, D. 10, KW. 5'' [(FULL_NAME, ''|WOLKOW |DMITRIJ''), (BIRTH_DATE, ''10.10.1980''), (PASSPORT, ''4510 123456''), (PASSPORT_ISSUER, ''|O|W|M |U|M|W|D |ROSSII PO G. |MOSKWE''), (DEPARTMENT_CODE, ''770-001''), (INN, ''7707083893''), (PHONE, ''+7 (912) 345-67-89''), (EMAIL, ''volkov&@example.com''), (ADDRESS, ''G. |MOSKWA, UL. |TWERSKAQ, D. 10, KW. 5'')],
     Positive ''|GRAVDANSTWO: |ROSSIJSKAQ |FEDERACIQ, PASPORT 4510 123456, DATA ROVDENIQ 15.03.1990'' [(CITIZENSHIP, ''|ROSSIJSKAQ |FEDERACIQ''), (PASSPORT, ''4510 123456''), (BIRTH_DATE, ''15.03.1990'')],
     Negative ''|ALEKSANDR |SERGEEWI^ |PU[KIN % WELIKIJ RUSSKIJ PO~T.'',
     Negative ''|LEW |NIKOLAEWI^ |TOLSTOJ NAPISAL ROMAN <|WOJNA I MIR>.'',
     Negative ''|PO~T |ALEKSANDR |SERGEEWI^ |PU[KIN RODILSQ W |MOSKWE.'',
     Negative ''|WLADIMIR |PUTIN % PREZIDENT |ROSSII.'',
     Negative ''|@RIJ |GAGARIN % PERWYJ KOSMONAWT.'',
     Negative ''|P#TR |^AJKOWSKIJ % WELIKIJ RUSSKIJ KOMPOZITOR.'',
     Negative ''|OTDELENIE BANKA NAHODITSQ PO ADRESU: G. |MOSKWA, UL. |TWERSKAQ, D. 1.'',
     Negative ''|OFIS BANKA RASPOLOVEN PO ADRESU: G. |KAZANX, UL. |BAUMANA, D. 5.'',
     Negative ''|MAGAZIN NAHODITSQ PO ADRESU: G. |MOSKWA, UL. |TWERSKAQ, D. 1.'',
     Negative ''|ADRES RESTORANA: G. |MOSKWA, UL. |TWERSKAQ, D. 1.'',
     Negative ''|NOMER ZAKAZA 1234567890123456.'',
     Negative ''|NOMER ZAKAZA 1234567890.'',
     Negative ''|ARTIKUL 4510123456.'',
     Negative ''|ARTIKUL 7707083893.'',
     Negative ''|ARTIKUL 500100732259.'']"

definition data_6 :: "entry list" where
  "data_6 =
    [Negative ''|NOMER DOKUMENTA 4510 123456.'',
     Negative ''|NOMER NAKLADNOJ 1234567890.'',
     Negative ''|TREK-NOMER 1234567890.'',
     Negative ''|NOMER DOGOWORA 1234567890.'',
     Negative ''|S^#T-FAKTURA 1234567890.'',
     Negative ''|KWITANCIQ 1234567890.'',
     Negative ''|NOMER ZAQWKI 1234567890.'',
     Negative ''|NOMER PARTII 1234567890.'',
     Negative ''|SERIJNYJ NOMER 4510123456.'',
     Negative ''|NOMER S^#TA 1234567890.'',
     Negative ''|KOD 770-001 UKAZAN W ZAQWKE.'',
     Negative ''|KOD TOWARA 770-001.'',
     Negative ''|PARTIQ TOWARA 770-001.'',
     Negative ''|KOD DOSTUPA 7305.'',
     Negative ''|PAROLX 1234.'',
     Negative ''|KOD PODTWERVDENIQ 1234.'',
     Negative ''|KOD KLIENTA 1234.'',
     Negative ''|LEKCIQ PROJD#T W AUDITORII 314.'',
     Negative ''|KABINET 314.'',
     Negative ''|KOMNATA 314.'',
     Negative ''|OFIS 314.'',
     Negative ''|POME]ENIE 314.'',
     Negative ''|KONFERENCIQ SOSTOITSQ 15.03.2025.'',
     Negative ''|WSTRE^A NAZNA^ENA NA 20.04.2025 W 15:00.'',
     Negative ''|DATA ROVDENIQ 31.02.2000.'']"

definition data_7 :: "entry list" where
  "data_7 =
    [Negative ''|ROSSIQ % KRUPNEJ[AQ STRANA MIRA.'',
     Negative ''|GERMANIQ % STRANA W CENTRE |EWROPY.'',
     Negative ''|KARTA METRO 4532 0151 1283 0366.'',
     Negative ''|TRANSPORTNAQ KARTA 4916 1197 1130 4546.'',
     Negative ''|SLUVBA PODDERVKI: 8 800 123 45 67.'',
     Negative ''|GORQ^AQ LINIQ: +7 (495) 123-45-67.'',
     Negative ''|NA[ email: support&@example.com.'',
     Negative ''|OBRA]AJTESX PO TELEFONU 8 800 555 35 35.'',
     Negative ''|TELEFON OFISA: +7 (495) 123-45-67.'',
     Negative ''&Email KOMPANII: info&@company.ru.'',
     Negative ''&Email OTDELA PRODAV: sales&@company.ru.'',
     Negative ''hello world'',
     Negative ''&Open &A&I platform'',
     Negative ''|KARTA LOQLXNOSTI 4111 1111 1111 1111.'',
     Negative ''|KOD BEZOPASNOSTI 123 DLQ ZAMKA.'',
     Negative ''&P&I&N 1234 OT TELEFONA.'',
     Negative ''KOD 123 OT ZAMKA.'',
     Negative ''KOD BEZOPASNOSTI 123 DLQ SEJFA.'',
     Negative ''&P&I&N &S&I&M-KARTY 1234.'',
     Negative ''KOD ROUTERA 1234.'',
     Negative ''KOD ZAQWKI 770-001.'',
     Negative ''77 12 345678'',
     Negative ''7712 345678'',
     Negative ''4510 123456'',
     Negative ''|ADRES OFISA: G. |MOSKWA, UL. |TWERSKAQ, D. 1.'']"

definition dataset :: "sample list res" where
  "dataset = all_samples (data_1 @ data_2 @ data_3 @ data_4 @ data_5 @ data_6 @ data_7)"

section \<open>The gate\<close>

definition gate_data_1 :: "gate_sample list" where
  "gate_data_1 = map (\<lambda>(t, n). \<lparr>g_text = rus t, g_has_pii = n\<rparr>)
    [(''SEGODNQ HORO[AQ POGODA NA ULICE'', 0),
     (''KONFERENCIQ SOSTOITSQ W PQTNICU'', 0),
     (''MY OBSUDILI PLAN NA SLEDU@]IJ KWARTAL'', 0),
     (''OT^#T GOTOW I OTPRAWLEN RUKOWODSTWU'', 0),
     (''WSTRE^A NAZNA^ENA NA DESQTX UTRA'', 0),
     (''PROEKT ZAWER[#N W SROK'', 0),
     (''KOMANDA RABOTAET NAD NOWOJ WERSIEJ'', 0),
     (''DOKUMENTY PODPISANY'', 0),
     (''ZASEDANIE PERENESENO NA SLEDU@]U@ NEDEL@'', 0),
     (''REZULXTATY TESTIROWANIQ POLOVITELXNYE'', 0),
     (''MY POLU^ILI WA[E PISXMO'', 0),
     (''BLAGODARIM ZA OBRA]ENIE'', 0),
     (''ZAQWKA PRINQTA W OBRABOTKU'', 0),
     (''STATUS ZAKAZA OBNOWL#N'', 0),
     (''OPLATA PRO[LA USPE[NO'', 0),
     (''DOSTAWKA BUDET ZAWTRA'', 0),
     (''NOMER WA[EGO OBRA]ENIQ 12345'', 0),
     (''KOD PODTWERVDENIQ OTPRAWLEN'', 0),
     (''MY SWQVEMSQ S WAMI POZVE'', 0),
     (''SPASIBO ZA POKUPKU'', 0),
     (''4510 123456'', 1),
     (''PASPORT 4510 123456'', 1),
     (''SERIQ 4510 NOMER 123456'', 1),
     (''7712 345678'', 1),
     (''WODITELXSKOE UDOSTOWERENIE 77 12 345678'', 1),
     (''7707083893'', 1),
     (''|I|N|N 7707083893'', 1),
     (''4532 0151 1283 0366'', 1),
     (''NOMER KARTY 4532 0151 1283 0366'', 1),
     (''+7 (912) 345-67-89'', 1),
     (''TELEFON +7 (912) 345-67-89'', 1),
     (''ivanov&@example.com'', 1),
     (''email ivanov&@example.com'', 1),
     (''15.03.1990'', 1),
     (''DATA ROVDENIQ 15.03.1990'', 1),
     (''770-001'', 1),
     (''KOD PODRAZDELENIQ 770-001'', 1),
     (''|IWAN |PETROW'', 1),
     (''KLIENT |IWAN |PETROW'', 1),
     (''|SMIRNOWA |ANNA |SERGEEWNA'', 1),
     (''ZAQWITELX |SMIRNOWA |ANNA'', 1),
     (''PROVIWAET PO ADRESU G. |MOSKWA UL. |TWERSKAQ D. 10'', 1),
     (''ADRES REGISTRACII G. |KAZANX UL. |BAUMANA D. 7'', 1),
     (''GRAVDANSTWO |ROSSIJSKAQ |FEDERACIQ'', 1),
     (''GRAVDANIN |KAZAHSTANA'', 1),
     (''RODILSQ W GORODE |SANKT-|PETERBURG'', 1),
     (''MESTO ROVDENIQ GOROD |MOSKWA'', 1),
     (''&C&V&V 123'', 1),
     (''PIN-KOD 7305'', 1),
     (''DERVATELX KARTY &I&V&A&N &P&E&T&R&O&V'', 1),
     (''PASPORT WYDAN |O|W|M |U|M|W|D |ROSSII'', 1),
     (''KOD PODRAZDELENIQ 452-013'', 1),
     (''WODITELXSKIE PRAWA 9901 234567'', 1),
     (''|I|N|N FIZI^ESKOGO LICA 500100732259'', 1),
     (''NOMER S^#TA 40817810099910004312'', 1)]"

definition gate_data_2 :: "gate_sample list" where
  "gate_data_2 = map (\<lambda>(t, n). \<lparr>g_text = rus t, g_has_pii = n\<rparr>)
    [(''PASPORT 45 10 * 123456'', 1),
     (''SERIQ 45 10, NOMER 123456'', 1),
     (''QWLQETSQ GRAVDANINOM |ARMENII'', 1),
     (''|GRAVDANKA |RESPUBLIKI |BELARUSX'', 1),
     (''RODILSQ W 1990 GODU'', 1),
     (''DATA ROVDENIQ 12 QNWARQ 1985'', 1),
     (''VIWET PO ADRESU G. |NOWOSIBIRSK'', 1),
     (''ZAREGISTRIROWAN PO ADRESU G. |EKATERINBURG'', 1),
     (''KLIENT |KUZNECOWA |MARIQ'', 1),
     (''PACIENT |WOLKOW |DMITRIJ'', 1),
     (''ZA#M]IK |SIDOROW |ALEKSEJ'', 1),
     (''DERVATELX POLISA |PETROWA |ANNA'', 1),
     (''|ABDULLAEW |TIMUR |RA[IDOWI^'', 1),
     (''KLIENT |ABDULLAEW |TIMUR'', 1),
     (''PROVIWAET W DEREWNE |MALYE |KL@^I'', 1),
     (''ADRES: POS#LOK |SOSNOWYJ |BOR, ULICA |LESNAQ'', 1),
     (''RODILSQ W SELE |WERHNIE |POLQNY'', 1),
     (''1234 567890'', 1),
     (''9876 543210'', 1),
     (''123456789012'', 1),
     (''1234567890'', 1),
     (''4111 1111 1111 1111'', 1),
     (''5555 5555 5555 4444'', 1),
     (''KOD 123'', 1),
     (''NOMER 4567'', 1),
     (''PAROLX 1234'', 1),
     (''KOD DOSTUPA 7305'', 1),
     (''OFIS KOMPANII NAHODITSQ PO ADRESU G. |MOSKWA UL. |TWERSKAQ D. 1'', 0),
     (''MAGAZIN RASPOLOVEN PO ADRESU G. |KAZANX UL. |BAUMANA D. 5'', 0),
     (''SLUVBA PODDERVKI 8 800 123 45 67'', 0),
     (''GORQ^AQ LINIQ +7 (495) 123-45-67'', 0),
     (''NA[ email support&@example.com'', 0),
     (''OTDEL PRODAV sales&@company.ru'', 0),
     (''|ROSSIQ % KRUPNEJ[AQ STRANA MIRA'', 0),
     (''|GERMANIQ % STRANA W CENTRE |EWROPY'', 0),
     (''|LETIM W |KAZAHSTAN'', 0),
     (''KARTA METRO 4532 0151 1283 0366'', 0),
     (''TRANSPORTNAQ KARTA 4916 1197 1130 4546'', 0),
     (''NOMER ZAKAZA 1234567890'', 0),
     (''ARTIKUL 4510123456'', 0),
     (''KOD TOWARA 770-001'', 0),
     (''KOD ZAQWKI 770-001'', 0),
     (''AUDITORIQ 314'', 0),
     (''KABINET 314'', 0),
     (''KONFERENCIQ SOSTOITSQ 15.03.2025'', 0),
     (''WSTRE^A NAZNA^ENA NA 20.04.2025'', 0),
     (''|ALEKSANDR |SERGEEWI^ |PU[KIN % WELIKIJ RUSSKIJ PO~T'', 0),
     (''|LEW |NIKOLAEWI^ |TOLSTOJ NAPISAL ROMAN'', 0),
     (''|WLADIMIR |PUTIN % PREZIDENT |ROSSII'', 0),
     (''|@RIJ |GAGARIN % PERWYJ KOSMONAWT'', 0),
     (''|P#TR |^AJKOWSKIJ % WELIKIJ KOMPOZITOR'', 0),
     (''KOD 123 OT ZAMKA'', 0),
     (''&P&I&N 1234 OT TELEFONA'', 0),
     (''KOD ROUTERA 1234'', 0)]"

definition gate_dataset :: "gate_sample list" where
  "gate_dataset = gate_data_1 @ gate_data_2"

section \<open>The data set is valid\<close>

definition sample_ok :: "sample \<Rightarrow> bool" where
  "sample_ok s \<longleftrightarrow> valid_string (s_text s)
     \<and> (\<forall>x \<in> set (s_expected s). slice_ok (s_text s) (x_start x) (x_end x)
          \<and> slice (s_text s) (x_start x) (x_end x) = x_text x \<and> x_text x \<noteq> [])
     \<and> (s_negative s \<longrightarrow> s_expected s = [])"

text \<open>The check of an entry on its runes.\<close>

definition runes_ok :: "rune list \<Rightarrow> (etype \<times> string) list \<Rightarrow> bool" where
  "runes_ok r xs \<longleftrightarrow> list_all valid_rune r \<and> list_all (\<lambda>(typ, v). v \<noteq> [] \<and> contains r (rus_runes v)) xs"

fun entry_ok :: "entry \<Rightarrow> bool" where
  "entry_ok (Positive t xs) \<longleftrightarrow> runes_ok (rus_runes t) xs"
| "entry_ok (Negative t) \<longleftrightarrow> list_all valid_rune (rus_runes t)"
| "entry_ok (Placed t typ v i j) \<longleftrightarrow> sample_ok
     \<lparr>s_text = rus t, s_expected = [\<lparr>x_type = typ, x_text = rus v, x_start = i, x_end = j\<rparr>], s_negative = False\<rparr>"

lemma rus_found:
  assumes "contains (rus_runes t) (rus_runes v)" "v \<noteq> []"
  shows "\<exists>x. expect (rus t) ty (rus v) = Inr x \<and> slice_ok (rus t) (x_start x) (x_end x)
    \<and> slice (rus t) (x_start x) (x_end x) = x_text x \<and> x_text x \<noteq> []"
proof -
  obtain a b where ab: "rus_runes t = a @ rus_runes v @ b"
    using assms(1) by (auto simp: contains_iff)
  have "contains (rus t) (rus v)"
    unfolding contains_iff rus_def ab by (simp add: encode_all_def) blast
  then obtain i where i: "str_index (rus t) (rus v) = Some i"
    by (auto simp: contains_def)
  then have p: "prefix (rus v) (drop i (rus t))" "i + length (rus v) \<le> length (rus t)"
    using str_index_Some by blast+
  have "rus_runes v \<noteq> []"
    using assms(2) by (cases v rule: rus_runes.cases) auto
  then have "rus v \<noteq> []"
    by (cases "rus_runes v") (auto simp: rus_def encode_all_def encode_rune_nonempty)
  then show ?thesis
    using i p by (auto simp: expect_def slice_ok_def slice_def prefix_def nat_add_distrib)
qed

lemma expect_all_ok:
  assumes "list_all (\<lambda>(ty, v). v \<noteq> [] \<and> contains (rus_runes t) (rus_runes v)) xs"
  shows "\<exists>es. expect_all (rus t) xs = Inr es \<and> map x_type es = map fst xs
    \<and> (\<forall>x \<in> set es. slice_ok (rus t) (x_start x) (x_end x)
        \<and> slice (rus t) (x_start x) (x_end x) = x_text x \<and> x_text x \<noteq> [])"
  using assms
proof (induction xs)
  case (Cons y xs)
  obtain ty v where y: "y = (ty, v)"
    by fastforce
  obtain x where x: "expect (rus t) ty (rus v) = Inr x" "slice_ok (rus t) (x_start x) (x_end x)"
    "slice (rus t) (x_start x) (x_end x) = x_text x" "x_text x \<noteq> []"
    using rus_found[of t v ty] Cons.prems by (auto simp: y)
  moreover have "x_type x = ty"
    using x(1) by (auto simp: expect_def split: option.splits)
  ultimately show ?case
    using Cons by (auto simp: y)
qed simp

lemma entry_sample_ok: "entry_ok e \<Longrightarrow> \<exists>s. entry_sample e = Inr s \<and> sample_ok s"
proof (induction e rule: entry_ok.induct)
  case (1 t xs)
  then show ?case
    using expect_all_ok[of t xs] by (auto simp: runes_ok_def sample_ok_def rus_def valid_encode_all)
next
  case (2 t)
  then show ?case
    by (auto simp: sample_ok_def rus_def valid_encode_all)
qed auto

lemma all_samples_ok:
  "list_all entry_ok es \<Longrightarrow> \<exists>ss. all_samples es = Inr ss \<and> length ss = length es \<and> list_all sample_ok ss"
proof (induction es)
  case (Cons e es)
  then show ?case
    using entry_sample_ok[of e] by auto
qed simp

text \<open>The parts are checked one by one.\<close>

lemma part_1: "list_all entry_ok data_1"
  by code_simp

lemma part_2: "list_all entry_ok data_2"
  by code_simp

lemma part_3: "list_all entry_ok data_3"
  by code_simp

lemma part_4: "list_all entry_ok data_4"
  by code_simp

lemma part_5: "list_all entry_ok data_5"
  by code_simp

lemma part_6: "list_all entry_ok data_6"
  by code_simp

lemma part_7: "list_all entry_ok data_7"
  by code_simp

lemma data_lengths:
  "length data_1 + length data_2 + length data_3 + length data_4 + length data_5 + length data_6 + length data_7 = 175"
  by (simp add: data_1_def data_2_def data_3_def data_4_def data_5_def data_6_def data_7_def)

lemma dataset_ok: "\<exists>ss. dataset = Inr ss \<and> length ss = 175 \<and> list_all sample_ok ss"
  using all_samples_ok[of "data_1 @ data_2 @ data_3 @ data_4 @ data_5 @ data_6 @ data_7"] data_lengths
    part_1 part_2 part_3 part_4 part_5 part_6 part_7
  unfolding dataset_def list_all_append length_append add.assoc by auto

lemma gate_dataset_length: "length gate_dataset = 109"
  by (simp add: gate_dataset_def gate_data_1_def gate_data_2_def)

text \<open>C38: The data set of the evaluation is valid and the default engine can be evaluated on it: none of
  its values is missing from its text, each of the 175 samples is UTF-8 with spans that hold the
  values named, the evaluation ends with figures, the engine makes no offset error, and of each type
  the hits and misses add up to the spans expected.\<close>

theorem data_set_is_evaluated:
  assumes "ucd_ok u"
  shows "\<exists>ss m. dataset = Inr ss \<and> length ss = 175 \<and> list_all sample_ok ss
    \<and> evaluate (engine_analyze u (default_registry u) (engine_min_score (Fin 0))) elapsed ss = Inr m
    \<and> e_offset_errors m = 0
    \<and> (\<forall>t. n_tp (snd (e_typed m t)) + n_fn (snd (e_typed m t))
        = typed_x t (concat (map s_expected (filter (\<lambda>s. \<not> s_negative s) ss))))"
proof -
  obtain ss where ss: "dataset = Inr ss" "length ss = 175" "list_all sample_ok ss"
    using dataset_ok by blast
  then have "ss \<noteq> []" "\<forall>s \<in> set ss. valid_string (s_text s)"
    by (auto simp: list_all_iff sample_ok_def)
  from default_evaluation[OF assms this, of elapsed] ss show ?thesis
    unfolding Let_def by blast
qed

theorem data_set_is_evaluated_witness:
  "\<exists>ss m. dataset = Inr ss \<and> length ss = 175
    \<and> evaluate (engine_analyze russian_ucd (default_registry russian_ucd) (engine_min_score (Fin 0))) (\<lambda>_. 1) ss = Inr m
    \<and> e_offset_errors m = 0"
  using data_set_is_evaluated[OF russian_ucd_ok, of "\<lambda>_. 1"] by blast

end
