(* ===== verification/Traffic.thy ===== *)
theory Traffic
  imports Masking
begin

text \<open>
  Requests one after another: what the Processor does for one identifier is not disturbed by the
  requests that come in between, for other identifiers or for the same one, from any consumer.
\<close>

text \<open>The worlds requests leave behind; each request runs in a context of its own.\<close>

definition serve_all :: "(process_request \<Rightarrow> ('s world, string) sm) \<Rightarrow> process_request list \<Rightarrow> 's world \<Rightarrow> 's world" where
  "serve_all proc reqs w = fold (\<lambda>req w. snd (proc req w)) reqs w"

context processing
begin

section \<open>What a request leaves alone\<close>

definition leaves :: "string \<Rightarrow> 's world \<Rightarrow> 's world \<Rightarrow> bool" where
  "leaves pid w w' \<longleftrightarrow> calm w' \<and> (\<exists>k. w_clock w' = (\<lambda>n. w_clock w (n + k)))
     \<and> (\<forall>t \<ge> w_clock w' 0. view t (w_store w') pid = view t (w_store w) pid)"

lemma leaves_refl: "calm w \<Longrightarrow> leaves pid w w"
  by (auto simp: leaves_def intro: exI[of _ 0])

lemma leaves_later:
  assumes "calm w" "leaves pid w w'"
  shows "w_clock w 0 \<le> w_clock w' 0"
proof -
  obtain k where "w_clock w' = (\<lambda>n. w_clock w (n + k))"
    using assms(2) by (auto simp: leaves_def)
  then show ?thesis
    using assms(1) by (simp add: calm_def mono_def)
qed

lemma leaves_trans:
  assumes "leaves pid w w'" "leaves pid w' w''"
  shows "leaves pid w w''"
proof -
  obtain k l where k: "w_clock w' = (\<lambda>n. w_clock w (n + k))" "w_clock w'' = (\<lambda>n. w_clock w' (n + l))"
    using assms by (auto simp: leaves_def)
  have "w_clock w' 0 \<le> w_clock w'' 0"
    using leaves_later[OF _ assms(2)] assms(1) by (auto simp: leaves_def)
  moreover have "w_clock w'' = (\<lambda>n. w_clock w (n + (l + k)))"
    by (simp add: k add.assoc)
  ultimately show ?thesis
    using assms unfolding leaves_def by fastforce
qed

lemma leaves_tick:
  assumes "calm w" "inv st" "\<forall>t \<ge> w_clock w 0. view t st pid = view t (w_store w) pid"
  shows "leaves pid w (tick w st)"
  using calm_tick[OF assms(1,2)] later_ge[of "w_clock w" 0] assms
  by (auto simp: leaves_def later_def calm_def intro!: exI[of _ "Suc 0"])

lemma upd_leaves:
  assumes "calm w" "payload_id s \<noteq> pid" "upd (Some s) w = (r, w')"
  shows "leaves pid w w'"
proof -
  obtain st where "w' = tick w st" "inv st" "\<forall>t \<ge> w_clock w 0. view t st pid = view t (w_store w) pid"
    using upd_live[of w s] assms by (auto simp: calm_def split: if_splits)
  then show ?thesis
    using leaves_tick[OF assms(1)] by simp
qed

lemma put_leaves:
  assumes "calm w" "payload_id s \<noteq> pid" "put (Some s) w = (r, w')"
  shows "leaves pid w w'"
proof -
  obtain q st where "put (Some s) w = (q, tick w st)" "inv st"
    and v: "\<forall>t \<ge> w_clock w 0. view t st =
      (if q = Inr True then (view t (w_store w))(payload_id s := stored s t) else view t (w_store w))"
    using put_live[of w s] assms(1) by (auto simp: calm_def)
  moreover have "\<forall>t \<ge> w_clock w 0. view t st pid = view t (w_store w) pid"
    using v assms(2) by (cases "q = Inr True") simp_all
  ultimately show ?thesis
    using leaves_tick[OF assms(1)] assms(3) by simp
qed

lemma mask_new_leaves:
  assumes "calm w" "payload_id s \<noteq> pid" "mask_new upd mask_fn req pol s w = (r, w')"
  shows "leaves pid w w'"
proof -
  have m: "on_ctx (mask_fn (payload req) pol) w = (val (mask_fn (payload req) pol), w)"
    by (rule on_ctx_polls[OF mask_polls]) (use assms(1) in \<open>simp add: calm_def\<close>)
  show ?thesis
  proof (cases "val (mask_fn (payload req) pol)")
    case (Inl e)
    obtain q w1 where u: "upd (Some (s\<lparr>status := FAILED\<rparr>)) w = (q, w1)"
      by fastforce
    then have "w' = w \<or> w' = w1"
      using assms(3) Inl by (auto simp: mask_new_def m split: if_splits)
    then show ?thesis
      using leaves_refl[OF assms(1)] upd_leaves[OF assms(1) _ u] assms(2) by auto
  next
    case (Inr mm)
    obtain q w1 where u: "upd (Some (s\<lparr>mappings := snd mm, status := READY\<rparr>)) w = (q, w1)"
      by fastforce
    then have "w' = w1"
      using assms(3) Inr by (cases q; cases mm) (auto simp: mask_new_def m mbind_def ret_def)
    then show ?thesis
      using upd_leaves[OF assms(1) _ u] assms(2) by simp
  qed
qed

lemma process_leaves:
  assumes "calm w" "process get put upd ps mask_fn hash ttl req w = (r, w')"
    and "req_payload_id req = pid \<Longrightarrow> view (w_clock w 0) (w_store w) pid \<noteq> None"
  shows "leaves pid w w'"
proof (cases "policy_of ps req")
  case (Inl e)
  then show ?thesis
    using assms(2) leaves_refl[OF assms(1)] by (simp add: process_live[OF assms(1)])
next
  case (Inr pol)
  show ?thesis
  proof (cases "view (w_clock w 0) (w_store w) (req_payload_id req)")
    case (Some s)
    obtain st where st: "w' = tick w st" "calm (tick w st)" "\<forall>t \<ge> w_clock w 0. view t st = view t (w_store w)"
      using process_existing[OF assms(1) Inr Some, of mask_fn hash ttl] assms(2) by auto
    then have "inv st"
      by (simp add: calm_def)
    then show ?thesis
      unfolding st(1) using st(3) by (intro leaves_tick[OF assms(1)]) simp_all
  next
    case None
    then have pid: "payload_id (new_session hash ttl req now) \<noteq> pid" for now
      using assms(3) by (auto simp: new_session_def)
    let ?s = "new_session hash ttl req (w_clock w (Suc 0))"
    obtain w1 where w1: "process get put upd ps mask_fn hash ttl req w =
        mbind (put (Some ?s)) (\<lambda>added. if \<not> added then throw ErrProcessingInProgress
          else mask_new upd mask_fn req pol ?s) w1"
      "calm w1" "w_ctx w1 = w_ctx w" "w_clock w1 = later (later (w_clock w))"
      "\<forall>t \<ge> w_clock w 0. view t (w_store w1) = view t (w_store w)"
      using process_new[OF assms(1) Inr None] by blast
    have clock: "w_clock w1 = (\<lambda>n. w_clock w (n + 2))"
      by (simp add: w1(4) later_def)
    then have "w_clock w 0 \<le> w_clock w1 0"
      using assms(1) by (simp add: calm_def mono_def)
    then have "\<forall>t \<ge> w_clock w1 0. view t (w_store w1) pid = view t (w_store w) pid"
      using w1(5) by fastforce
    then have l1: "leaves pid w w1"
      unfolding leaves_def using w1(2) clock by blast
    obtain q w2 where p: "put (Some ?s) w1 = (q, w2)"
      by fastforce
    have l2: "leaves pid w1 w2"
      using put_leaves[OF w1(2) pid p] .
    have "w' = w2 \<or> (\<exists>r. mask_new upd mask_fn req pol ?s w2 = (r, w'))"
      using assms(2) unfolding w1(1) by (cases q) (auto simp: mbind_def p throw_def split: if_splits)
    moreover have "calm w2"
      using l2 by (simp add: leaves_def)
    ultimately have "leaves pid w2 w'"
      using leaves_refl mask_new_leaves[OF _ pid] by blast
    then show ?thesis
      using leaves_trans l1 l2 by blast
  qed
qed

section \<open>Traffic\<close>

lemma serve_all_leaves:
  assumes "calm w" "\<forall>t \<ge> w_clock w 0. view t (w_store w) pid = stored s t"
    and "\<not> is_expired s (w_clock (serve_all (process get put upd ps mask_fn hash ttl) reqs w) 0)"
  shows "leaves pid w (serve_all (process get put upd ps mask_fn hash ttl) reqs w)"
  using assms
proof (induction reqs arbitrary: w)
  case Nil
  then show ?case
    by (simp add: serve_all_def leaves_refl)
next
  case (Cons req reqs)
  let ?P = "process get put upd ps mask_fn hash ttl"
  obtain r w1 where p: "?P req w = (r, w1)"
    by fastforce
  have rest: "serve_all ?P (req # reqs) w = serve_all ?P reqs w1"
    by (simp add: serve_all_def p)
  show ?case
  proof (cases "is_expired s (w_clock w 0)")
    case True
    \<comment> \<open>then the session is expired at every later time too\<close>
    have clock: "w_clock w 0 \<le> w_clock (serve_all ?P reqs' u) 0" if "calm u" "w_clock w 0 \<le> w_clock u 0" for u reqs'
      using that
    proof (induction reqs' arbitrary: u)
      case (Cons q qs)
      obtain r' u' where u': "?P q u = (r', u')"
        by fastforce
      obtain pid' where "leaves pid' u u'"
        using process_leaves[OF Cons.prems(1) u', of "req_payload_id q @ ''x''"] by auto
      then show ?case
        using Cons.IH[of u'] leaves_later[OF Cons.prems(1)] Cons.prems(2) u'
        by (fastforce simp: serve_all_def leaves_def)
    qed (simp add: serve_all_def)
    show ?thesis
      using is_expired_mono[OF True clock[OF Cons.prems(1) order_refl, of "req # reqs"]] Cons.prems(3) by blast
  next
    case False
    then have "view (w_clock w 0) (w_store w) pid \<noteq> None"
      using Cons.prems(2) by (simp add: stored_def)
    then have l: "leaves pid w w1"
      using process_leaves[OF Cons.prems(1) p] by blast
    then have "calm w1" "\<forall>t \<ge> w_clock w1 0. view t (w_store w1) pid = stored s t"
      using Cons.prems(2) leaves_later[OF Cons.prems(1) l] by (auto simp: leaves_def)
    then show ?thesis
      using Cons.IH[of w1] Cons.prems(3) leaves_trans[OF l] rest by simp
  qed
qed

lemma session_survives:
  assumes "calm w" "policy_of ps req = Inr pol" "policy_of ps req' = Inr pol'"
    and "view (w_clock w 0) (w_store w) (req_payload_id req) = None"
    and "process get put upd ps mask_fn hash ttl req w = (Inr out, w')"
    and "w_clock (serve_all (process get put upd ps mask_fn hash ttl) reqs w') 0 < w_clock w (Suc 0) + ttl"
    and "req_payload_id req' = req_payload_id req"
  obtains ms s where "val (mask_fn (payload req) pol) = Inr (out, ms)"
    "s = (new_session hash ttl req (w_clock w (Suc 0)))\<lparr>mappings := ms, status := READY\<rparr>"
    "fst (process get put upd ps mask_fn hash ttl req' (serve_all (process get put upd ps mask_fn hash ttl) reqs w'))
      = val (handle_existing hash req' s pol')"
proof -
  let ?wn = "serve_all (process get put upd ps mask_fn hash ttl) reqs w'"
  obtain ms s where s: "val (mask_fn (payload req) pol) = Inr (out, ms)"
    "s = (new_session hash ttl req (w_clock w (Suc 0)))\<lparr>mappings := ms, status := READY\<rparr>"
    "calm w'" "w_clock w' = (\<lambda>n. w_clock w (n + 4))"
    "\<forall>t \<ge> w_clock w 3. view t (w_store w') = (view t (w_store w))(req_payload_id req := stored s t)"
    using process_masks[OF assms(1,2,4,5)] .
  have "w_clock w 3 \<le> w_clock w' 0"
    using assms(1) by (simp add: s(4) calm_def mono_def)
  then have v: "\<forall>t \<ge> w_clock w' 0. view t (w_store w') (req_payload_id req) = stored s t"
    using s(5) by auto
  have e: "\<not> is_expired s (w_clock ?wn 0)"
    using assms(6) by (simp add: s(2) is_expired_def new_session_def)
  have l: "leaves (req_payload_id req) w' ?wn"
    by (rule serve_all_leaves[OF s(3) v e])
  then have "view (w_clock ?wn 0) (w_store ?wn) (req_payload_id req') = Some s"
    using v e leaves_later[OF s(3) l] by (simp add: leaves_def assms(7) stored_def)
  moreover have "calm ?wn"
    using l by (simp add: leaves_def)
  ultimately have "fst (process get put upd ps mask_fn hash ttl req' ?wn) = val (handle_existing hash req' s pol')"
    using process_existing[OF _ assms(3), of ?wn s mask_fn hash ttl] by auto
  then show thesis
    using that s(1,2) by blast
qed

lemma restored_after_traffic:
  assumes "calm w" "policy_of ps req = Inr pol" "policy_of ps req' = Inr pol'"
    and "view (w_clock w 0) (w_store w) (req_payload_id req) = None"
    and "process get put upd ps mask_fn hash ttl req w = (Inr out, w')"
    and "w_clock (serve_all (process get put upd ps mask_fn hash ttl) reqs w') 0 < w_clock w (Suc 0) + ttl"
    and "req_payload_id req' = req_payload_id req"
    and "payload req' = out" "out \<noteq> payload req" "\<not> has_token (payload req)"
    and "hash out \<noteq> hash (payload req)" "detokenization_allowed pol'"
  shows "fst (process get put upd ps mask_fn hash ttl req' (serve_all (process get put upd ps mask_fn hash ttl) reqs w'))
    = Inr (payload req)"
proof -
  obtain ms s where s: "val (mask_fn (payload req) pol) = Inr (out, ms)"
    "s = (new_session hash ttl req (w_clock w (Suc 0)))\<lparr>mappings := ms, status := READY\<rparr>"
    "fst (process get put upd ps mask_fn hash ttl req' (serve_all (process get put upd ps mask_fn hash ttl) reqs w'))
      = val (handle_existing hash req' s pol')"
    using session_survives[OF assms(1-7)] .
  then show ?thesis
    using existing_restores[of "payload req" pol out ms s req' hash pol'] assms(8-12)
    by (simp add: new_session_def)
qed

lemma repeated_after_traffic:
  assumes "calm w" "policy_of ps req = Inr pol" "policy_of ps req' = Inr pol'"
    and "view (w_clock w 0) (w_store w) (req_payload_id req) = None"
    and "process get put upd ps mask_fn hash ttl req w = (Inr out, w')"
    and "w_clock (serve_all (process get put upd ps mask_fn hash ttl) reqs w') 0 < w_clock w (Suc 0) + ttl"
    and "req_payload_id req' = req_payload_id req"
    and "payload req' = payload req" "req_mask_kinds_set req' = req_mask_kinds_set req"
    and "set (req_mask_kinds req') = set (req_mask_kinds req)"
  shows "fst (process get put upd ps mask_fn hash ttl req' (serve_all (process get put upd ps mask_fn hash ttl) reqs w'))
    = Inr out"
proof -
  obtain ms s where s: "val (mask_fn (payload req) pol) = Inr (out, ms)"
    "s = (new_session hash ttl req (w_clock w (Suc 0)))\<lparr>mappings := ms, status := READY\<rparr>"
    "fst (process get put upd ps mask_fn hash ttl req' (serve_all (process get put upd ps mask_fn hash ttl) reqs w'))
      = val (handle_existing hash req' s pol')"
    using session_survives[OF assms(1-7)] .
  have "mask_kinds_match (new_session hash ttl req (w_clock w (Suc 0))) req'"
    using assms(9,10) by (simp add: mask_kinds_match_new)
  then have "mask_kinds_match s req'"
    by (simp add: s(2) mask_kinds_match_iff)
  then show ?thesis
    using existing_repeats[of req' pol out ms s hash pol'] s assms(8)
    by (simp add: new_session_def)
qed

end

end
