(* ===== verification/Spec2Isabelle.thy ===== *)
theory Spec2Isabelle
  imports Extractor Validator Engine Service Recognition SessionSpec Batches Startup Samples Traffic
begin

text \<open>
  A model of alpha_proxy, an HTTP service that masks personal data in texts and restores it.

  \<^bold>\<open>The program.\<close>  A client sends a payload with an identifier.  The chain of handlers built in
  \<open>internal/app\<close> logs, measures, recovers from panics, authenticates, limits and decodes the request
  (\<open>internal/middleware\<close>, \<open>auth\<close>, \<open>ratelimit\<close>, \<open>api\<close>) and calls the Processor
  (\<open>internal/processor\<close>).  For a new identifier the Processor creates a session in the store and asks
  the cascade masker (\<open>internal/masking\<close>): the rule engine (\<open>internal/engine\<close>) finds personal data in
  the whole text, its findings are blanked out (\<open>internal/residual\<close>), the text is cut into
  overlapping chunks (\<open>internal/ml/chunker.go\<close>), workers send each chunk through the batcher to the
  extractor service, and the two sets of findings are combined into one plan of tokens which is
  applied to the text (\<open>internal/tokenizer\<close>).  A repeated request gets the same masked text; a
  request whose payload is the masked text gets the original back.

  \<^bold>\<open>The theories\<close>, in the order they build on one another; \<open>src/\<close> is left out of the paths.
  \<^item> \<open>Prelude\<close>: results as sums over the errors of the program, state-passing computations, the context
    (\<open>ctx\<close>: how many more times it is polled alive, and its cause), slices with Go's panics, numbers in
    decimal.  \<open>Floats\<close>, \<open>FloatOrder\<close>: doubles as rationals with infinities and NaN, rounded to nearest
    even; rounding is monotone.  \<open>Utf8\<close>, \<open>GoStrings\<close>: runes and strings.  \<open>GoSort\<close>: the insertion sort
    that stands for \<open>sort.Slice\<close>; the properties hold of orders that leave one result only, or the
    order is an argument.  \<open>Regex\<close>: Go's \<open>regexp\<close>, with the relation an expression denotes.
  \<^item> \<open>Pii\<close>: \<open>internal/pii\<close> and \<open>entity\<close>.  \<open>Allocator\<close>, \<open>Detokenizer\<close>, \<open>Plan\<close>, \<open>Apply\<close>, \<open>Merge\<close>: the files
    of \<open>internal/tokenizer\<close>.  \<open>Chunker\<close>, \<open>MlClient\<close>, \<open>Batching\<close>, \<open>Batches\<close>, \<open>Extractor\<close>: \<open>internal/ml\<close>, the
    batcher as a step relation on queue, collector, workers and answers.  \<open>Residual\<close>, \<open>Resolver\<close>,
    \<open>Masking\<close>: \<open>internal/residual\<close>, \<open>resolver\<close>, \<open>masking\<close> and \<open>cascade\<close>.
  \<^item> \<open>World\<close>, \<open>Store\<close>, \<open>SessionSpec\<close>, \<open>PolicyProvider\<close>, \<open>Processor\<close>, \<open>Traffic\<close>: the session store with its clock, the
    map from identifiers to live sessions it refines, policies, and \<open>Processor.Process\<close>.
  \<^item> \<open>Normalize\<close>, \<open>Recognizer\<close>, \<open>Dict\<close>, \<open>DictData\<close>, \<open>Scorer\<close>, \<open>Validator\<close>, \<open>Cvv\<close>, \<open>Name\<close>, \<open>Country\<close>, \<open>Address\<close>,
    \<open>Rules\<close>, \<open>BirthPlace\<close>, \<open>Engine\<close>, \<open>Recognition\<close>: normalization, the dictionaries, the context scorer
    (\<open>internal/context\<close>), each recognizer, and the rule engine with its detector.
  \<^item> \<open>Config\<close>, \<open>RateLimit\<close>, \<open>Access\<close>, \<open>Http\<close>, \<open>Server\<close>, \<open>Guard\<close>, \<open>Lifecycle\<close>, \<open>Service\<close>, \<open>Telemetry\<close>, \<open>Startup\<close>:
    configuration, limiters, authentication and policies, the handlers, their contract, which
    requests reach the sessions, serving and shutdown, the properties of the service, the metrics of
    the pipeline, and \<open>run\<close> and \<open>main\<close>.
  \<^item> \<open>Gate\<close>, \<open>Evaluation\<close>, \<open>Samples\<close>: the heuristic gate and the router (\<open>internal/gate\<close>, \<open>internal/cascade\<close>),
    the evaluation of engine and gate (\<open>internal/eval\<close>, \<open>gateeval\<close>) and their data sets.

  \<^bold>\<open>The interfaces\<close> are locales: what a recognizer promises of its candidates (\<open>rule_recognizer\<close>,
  which every recognizer meets under \<open>tables\<close>, the laws \<open>ucd_ok\<close> of the Unicode tables, themselves met
  by \<open>russian_ucd\<close>), the store the Processor runs on and the maskers it calls (\<open>session_store\<close>,
  \<open>processing\<close>), the orders of the sorts (\<open>strict_weak\<close>, \<open>strict_total\<close>), and what the chain asks of a
  handler (\<open>tame_handler\<close>, \<open>answering_handler\<close>, \<open>asking_handler\<close>).  Each is interpreted on the
  definitions of the component that provides it.

  \<^bold>\<open>What is shown.\<close>  Of the tokenizer: plans are disjoint and have fresh tokens, combining loses no
  accepted byte and lets the strongest finding win, in every order; masking is a splice that
  detokenization undoes.  Of the Processor: round trip and idempotence through any traffic in between, error states.  Of the store:
  refinement of a map, one owner of an identifier, refusal only when full.  Of the cascade: it never
  panics, the order of the workers does not matter, exactly the accepted findings are masked.  Of the
  rule engine: it is total on valid text and its entities are where they say; no match of the mail
  expression is missed; card numbers pass the checksum.  Of the batcher: every job is in one place and
  is answered once with its own result.  Of the service: every request is answered and accounted for,
  only admitted ones reach the sessions, limits hold, the process leaves nothing open.  Of gate and
  evaluation: structured data is never called safe, counts add up, the sweep is monotone, the data
  set is valid and is evaluated without an offset error.

  \<^bold>\<open>Bounds and termination.\<close>  Loops are structural or have a measure; the only fuel is that of the
  repetition in \<open>Regex.runs\<close>, the length of the text, which is enough because every round that counts
  moves on.  Integers are unbounded: they are lengths, offsets and counts that memory bounds; where a
  range matters (\<open>strconv.Atoi\<close>, durations, limits) it is checked as the code does.

  \<^bold>\<open>Arguments of the model\<close> stand for code outside the repository: the Unicode tables (\<open>ucd\<close>), SHA-256,
  the JSON codec and media types, the parsers of durations and floats, the remote call of the
  extractor, the HTTP server, the Prometheus registry and its page, dialling and listening.  Mutexes make
  an operation one step, so concurrent requests are sequences of steps; goroutines of the chunk workers
  are an arbitrary order.  Russian literals are in a seven-bit code, read by \<open>ru\<close> (see \<open>Dict\<close>).

  \<^bold>\<open>Not modelled\<close>: the generated gRPC code and the connection's balancing; the Python service behind
  it; the printing of reports by \<open>WriteReport\<close>; the front ends
  \<open>cmd/evaluate\<close>, \<open>cmd/gateeval\<close> and \<open>cmd/loadcheck\<close>, which are input and output; the wrapper of
  \<open>slog\<close>, whose records are the list \<open>x_log\<close>; histogram values other than those of ML requests.
\<close>

section \<open>Sample inputs for the witnesses\<close>

definition sample_policy :: policy where
  "sample_policy = \<lparr>allowed_kinds = (\<lambda>_. True), detokenization_allowed = True, min_confidence = Fin 0,
     masking_strategy = ''token'', allow_partial_result = False\<rparr>"

definition sample_text :: string where
  "sample_text = ''mail a@b.ru''"

definition sample_analyze :: "string \<Rightarrow> entity list" where
  "sample_analyze t =
     (if t = sample_text
      then [\<lparr>ent_type = EMAIL, ent_text = ''a@b.ru'', ent_start = 5, ent_end = 11,
             ent_score = Fin 1, ent_reason = []\<rparr>]
      else [])"

definition sample_respond :: "string \<Rightarrow> string \<Rightarrow> entity list res" where
  "sample_respond text gate = Inr []"

abbreviation sample_mask :: masker where
  "sample_mask \<equiv> cascade_mask sample_analyze (Some sample_respond) default_chunk_config (\<lambda>n. [0..<n])"

definition sample_world :: "memory_store world" where
  "sample_world = \<lparr>w_ctx = background, w_clock = int, w_store = new_memory_store 10\<rparr>"

definition sample_request :: process_request where
  "sample_request = \<lparr>payload = sample_text, req_payload_id = ''p1'', consumer_id = ''c'',
     req_mask_kinds = [], req_mask_kinds_set = False\<rparr>"

definition sample_policies :: policies where
  "sample_policies = [''c'' \<mapsto> sample_policy]"

definition sample_hash :: "string \<Rightarrow> nat list" where
  "sample_hash s = map of_char s"

abbreviation sample_process :: "process_request \<Rightarrow> (memory_store world, string) sm" where
  "sample_process \<equiv>
     process mem_get mem_put_if_absent mem_update sample_policies sample_mask sample_hash 1000"

lemma sample_world_calm:
  "live (w_ctx sample_world) = None" "store_inv (w_store sample_world)" "mono (w_clock sample_world)"
  by (simp_all add: sample_world_def background_def store_inv_new mono_def)

lemma sample_run:
  "sample_process sample_request sample_world =
     (Inr ''mail <EMAIL_1>'', snd (sample_process sample_request sample_world))"
proof (rule prod_eqI)
  show "fst (sample_process sample_request sample_world)
    = fst (Inr ''mail <EMAIL_1>'' :: string res, snd (sample_process sample_request sample_world))"
    unfolding fst_conv by code_simp
qed simp

definition sample_ml :: "replacement list" where
  "sample_ml = [\<lparr>r_start = 0, r_end = 5, r_token = ''x'', r_original = ''ab cd'', r_kind = PIIKindCity,
     r_source = SourceML, r_conf = Fin 1\<rparr>]"

definition sample_be :: "replacement list" where
  "sample_be = [\<lparr>r_start = 3, r_end = 5, r_token = ''y'', r_original = ''cd'', r_kind = PIIKindPhone,
     r_source = SourceReg, r_conf = Fin 1\<rparr>]"

lemma sample_combined:
  "val (combine_plans ''ab cd'' sample_ml sample_be sample_policy) =
     Inr [\<lparr>r_start = 0, r_end = 3, r_token = ''<CITY_1>'', r_original = ''ab '', r_kind = PIIKindCity,
            r_source = SourceML, r_conf = Fin 1\<rparr>,
          \<lparr>r_start = 3, r_end = 5, r_token = ''<PHONE_1>'', r_original = ''cd'', r_kind = PIIKindPhone,
            r_source = SourceReg, r_conf = Fin 1\<rparr>]"
  by code_simp

section \<open>Requests\<close>

text \<open>C1: A text that was masked is restored: a request with the same identifier whose payload is the
  masked text gets the original, whatever requests were served in between, of any consumer and for
  any identifier, the same one included, as long as the session has not expired, the policy allows
  detokenization, the original contains nothing that looks like a token, something was masked, and
  the hashes of the two texts differ.  The store is the memory store and the masker the cascade, for
  any rule engine, extractor, chunk configuration and worker order.\<close>

theorem masked_text_survives_traffic:
  fixes w :: "memory_store world" and ps analyze ext cfg sched hash ttl
  defines "proc \<equiv> process mem_get mem_put_if_absent mem_update ps (cascade_mask analyze ext cfg sched) hash ttl"
  assumes "live (w_ctx w) = None" "store_inv (w_store w)" "mono (w_clock w)"
    and "policy_of ps req = Inr pol" "policy_of ps req' = Inr pol'"
    and "view_at (w_clock w 0) (w_store w) (req_payload_id req) = None"
    and "proc req w = (Inr masked_text, w')"
    and "w_clock (serve_all proc others w') 0 < w_clock w (Suc 0) + ttl" "req_payload_id req' = req_payload_id req"
    and "payload req' = masked_text" "masked_text \<noteq> payload req" "\<not> has_token (payload req)"
    and "hash masked_text \<noteq> hash (payload req)" "detokenization_allowed pol'"
  shows "fst (proc req' (serve_all proc others w')) = Inr (payload req)"
  unfolding proc_def
  by (rule cascade.restored_after_traffic[OF _ assms(5-15)[unfolded proc_def]]) (simp add: mem.calm_def assms(2-4))

definition other_request :: process_request where
  "other_request = sample_request\<lparr>req_payload_id := ''p2''\<rparr>"

lemma sample_traffic:
  "w_clock (serve_all sample_process [other_request, sample_request] (snd (sample_process sample_request sample_world))) 0 = 9"
  by code_simp

lemma sample_policies_apply:
  "policy_of sample_policies sample_request = Inr sample_policy"
  "policy_of sample_policies (sample_request\<lparr>payload := t\<rparr>) = Inr sample_policy"
  "view_at (w_clock sample_world 0) (w_store sample_world) (req_payload_id sample_request) = None"
  by (simp_all add: policy_of_def sample_policies_def sample_request_def sample_world_def view_new)

theorem masked_text_survives_traffic_witness:
  "fst (sample_process (sample_request\<lparr>payload := ''mail <EMAIL_1>''\<rparr>)
      (serve_all sample_process [other_request, sample_request] (snd (sample_process sample_request sample_world))))
    = Inr (payload sample_request)"
proof -
  have tok: "\<not> has_token (payload sample_request)" and
    hash: "sample_hash ''mail <EMAIL_1>'' \<noteq> sample_hash (payload sample_request)"
    by code_simp+
  show ?thesis
    by (rule masked_text_survives_traffic[OF sample_world_calm sample_policies_apply sample_run])
      (use tok hash sample_traffic in
        \<open>simp_all add: sample_world_def sample_request_def sample_text_def sample_policy_def\<close>)
qed



text \<open>A text that was masked is restored: a second request with the same identifier whose payload
  is the masked text gets the original, before the session expires, when the policy allows
  detokenization, the original contains nothing that looks like a token, something was masked,
  and the hashes of the two texts differ.  The store is the memory store and the masker the
  cascade, for any rule engine, extractor, chunk configuration and worker order.\<close>

theorem masked_text_is_restored:
  fixes w :: "memory_store world"
  assumes "live (w_ctx w) = None" "store_inv (w_store w)" "mono (w_clock w)"
    and "policy_of ps req = Inr pol" "policy_of ps req' = Inr pol'"
    and "view_at (w_clock w 0) (w_store w) (req_payload_id req) = None"
    and "process mem_get mem_put_if_absent mem_update ps (cascade_mask analyze ext cfg sched) hash ttl req w
      = (Inr masked_text, w')"
    and "w_clock w 4 < w_clock w (Suc 0) + ttl" "req_payload_id req' = req_payload_id req"
    and "payload req' = masked_text" "masked_text \<noteq> payload req" "\<not> has_token (payload req)"
    and "hash masked_text \<noteq> hash (payload req)" "detokenization_allowed pol'"
  shows "fst (process mem_get mem_put_if_absent mem_update ps (cascade_mask analyze ext cfg sched) hash ttl req' w')
    = Inr (payload req)"
  by (rule cascade.process_restore[OF _ assms(4-14)]) (simp add: mem.calm_def assms(1-3))

theorem masked_text_is_restored_witness:
  "fst (sample_process (sample_request\<lparr>payload := ''mail <EMAIL_1>''\<rparr>)
      (snd (sample_process sample_request sample_world))) = Inr ''mail a@b.ru''"
proof -
  have pol: "policy_of sample_policies sample_request = Inr sample_policy"
    "policy_of sample_policies (sample_request\<lparr>payload := ''mail <EMAIL_1>''\<rparr>) = Inr sample_policy"
    by (simp_all add: policy_of_def sample_policies_def sample_request_def)
  have view: "view_at (w_clock sample_world 0) (w_store sample_world) (req_payload_id sample_request) = None"
    by (simp add: sample_world_def view_new)
  have tok: "\<not> has_token (payload sample_request)" and
    hash: "sample_hash ''mail <EMAIL_1>'' \<noteq> sample_hash (payload sample_request)"
    by code_simp+
  have "fst (sample_process (sample_request\<lparr>payload := ''mail <EMAIL_1>''\<rparr>)
      (snd (sample_process sample_request sample_world))) = Inr (payload sample_request)"
    by (rule masked_text_is_restored[OF sample_world_calm pol view sample_run])
      (use tok hash in \<open>simp_all add: sample_world_def sample_request_def sample_text_def sample_policy_def\<close>)
  then show ?thesis
    by (simp add: sample_request_def sample_text_def)
qed



text \<open>A request repeated before its session expires, with the same text and the same set of mask
  kinds, gets the same masked text again, whatever the consumer's policy has become.\<close>

theorem repeated_request_repeats_result:
  fixes w :: "memory_store world"
  assumes "live (w_ctx w) = None" "store_inv (w_store w)" "mono (w_clock w)"
    and "policy_of ps req = Inr pol" "policy_of ps req' = Inr pol'"
    and "view_at (w_clock w 0) (w_store w) (req_payload_id req) = None"
    and "process mem_get mem_put_if_absent mem_update ps (cascade_mask analyze ext cfg sched) hash ttl req w
      = (Inr masked_text, w')"
    and "w_clock w 4 < w_clock w (Suc 0) + ttl" "req_payload_id req' = req_payload_id req"
    and "payload req' = payload req" "req_mask_kinds_set req' = req_mask_kinds_set req"
    and "set (req_mask_kinds req') = set (req_mask_kinds req)"
  shows "fst (process mem_get mem_put_if_absent mem_update ps (cascade_mask analyze ext cfg sched) hash ttl req' w')
    = Inr masked_text"
  by (rule cascade.process_retry[OF _ assms(4-12)]) (simp add: mem.calm_def assms(1-3))

theorem repeated_request_repeats_result_witness:
  "fst (sample_process sample_request (snd (sample_process sample_request sample_world)))
    = Inr ''mail <EMAIL_1>''"
proof -
  have pol: "policy_of sample_policies sample_request = Inr sample_policy"
    by (simp add: policy_of_def sample_policies_def sample_request_def)
  have view: "view_at (w_clock sample_world 0) (w_store sample_world) (req_payload_id sample_request) = None"
    by (simp add: sample_world_def view_new)
  show ?thesis
    by (rule repeated_request_repeats_result[OF sample_world_calm pol pol view sample_run])
      (simp_all add: sample_world_def)
qed

text \<open>C6: What the combination of the two plans is: for valid plans it succeeds, its replacements stand
  in order without overlaps and carry fresh tokens, they cover exactly what the accepted
  replacements of both plans cover, and applying them succeeds.\<close>

theorem combined_plan_is_sound:
  assumes "list_all (repl_ok text) (ml @ be)"
  shows "\<exists>plan. val (combine_plans text ml be pol) = Inr plan \<and> chain_ok text 0 plan
    \<and> tokens_fresh text plan \<and> bytes_of plan = bytes_of (accepted pol (ml @ be))
    \<and> val (apply_replacements text plan)
        = Inr (splice text 0 plan (int (length text)), map mapping_of plan)"
  using combined_plan_spec[OF assms, of pol] val_apply_chain tokens_fresh_consistent assms
  by (auto simp: val_combine_plans)

theorem combined_plan_is_sound_witness:
  "\<exists>plan. val (combine_plans ''ab cd'' sample_ml sample_be sample_policy) = Inr plan
    \<and> chain_ok ''ab cd'' 0 plan \<and> tokens_fresh ''ab cd'' plan
    \<and> bytes_of plan = bytes_of (accepted sample_policy (sample_ml @ sample_be))
    \<and> val (apply_replacements ''ab cd'' plan)
        = Inr (splice ''ab cd'' 0 plan (int (length ''ab cd'')), map mapping_of plan)"
  by (rule combined_plan_is_sound) code_simp

text \<open>C7: Each byte of the combined plan is replaced for a strongest accepted candidate covering it:
  no accepted candidate that covers the byte comes before that candidate in the order of type
  priority, primary source, confidence, length, and so on.\<close>

theorem strongest_candidate_wins:
  assumes "list_all (repl_ok text) (ml @ be)" "list_all no_nan (ml @ be)"
    and "val (combine_plans text ml be pol) = Inr plan" "r \<in> set plan" "i \<in> span_of r"
    and "c \<in> set (accepted pol (ml @ be))" "i \<in> span_of c"
  shows "\<exists>d \<in> set (accepted pol (ml @ be)). r_kind r = r_kind d \<and> r_source r = r_source d
    \<and> i \<in> span_of d \<and> \<not> candidate_less c d"
proof -
  have "plan = combined_plan text pol (ml @ be)"
    using assms(1,3) by (simp add: val_combine_plans del: list_all_append)
  then show ?thesis
    using combined_plan_strongest[OF assms(1,2) _ assms(5,6,7)] assms(4) by simp
qed

theorem strongest_candidate_wins_witness:
  "\<exists>d \<in> set (accepted sample_policy (sample_ml @ sample_be)). PIIKindPhone = r_kind d
    \<and> SourceReg = r_source d \<and> 4 \<in> span_of d \<and> \<not> candidate_less (hd sample_ml) d"
proof -
  have "list_all (repl_ok ''ab cd'') (sample_ml @ sample_be)" "list_all no_nan (sample_ml @ sample_be)"
    by code_simp+
  moreover have "hd sample_ml \<in> set (accepted sample_policy (sample_ml @ sample_be))"
    by (simp add: accepted_def accepts_def sample_ml_def sample_be_def sample_policy_def)
  moreover have "4 \<in> span_of (hd sample_ml)"
    by (simp add: sample_ml_def)
  ultimately show ?thesis
    using strongest_candidate_wins[of "''ab cd''" sample_ml sample_be sample_policy _
      "\<lparr>r_start = 3, r_end = 5, r_token = ''<PHONE_1>'', r_original = ''cd'', r_kind = PIIKindPhone,
        r_source = SourceReg, r_conf = Fin 1\<rparr>" 4 "hd sample_ml", OF _ _ sample_combined]
    by simp
qed

text \<open>C8: The combined plan does not depend on the order in which the detectors report: any
  distribution and order of the same replacements over the two plans gives the same result, as
  long as no confidence is NaN.\<close>

theorem combination_ignores_order:
  assumes "mset (ml @ be) = mset (ml' @ be')" "list_all no_nan (ml @ be)"
  shows "val (combine_plans text ml be pol) = val (combine_plans text ml' be' pol)"
proof -
  have "set (ml @ be) = set (ml' @ be')"
    using assms(1) by (metis set_mset_mset)
  then have "list_all (repl_ok text) (ml @ be) = list_all (repl_ok text) (ml' @ be')"
    by (simp only: list_all_iff)
  then show ?thesis
    using combined_plan_perm[OF _ assms(2,1)] unfolding val_combine_plans by metis
qed

theorem combination_ignores_order_witness:
  "val (combine_plans ''ab cd'' sample_ml sample_be sample_policy)
    = val (combine_plans ''ab cd'' sample_be sample_ml sample_policy)"
  by (rule combination_ignores_order) (simp_all add: sample_ml_def sample_be_def no_nan_def)

text \<open>C9: Masking and detokenizing are inverse: the masked text of the cascade, detokenized with the
  mappings returned beside it, is the original, when the original contains nothing that looks
  like a token.\<close>

theorem mask_then_detokenize:
  assumes "val (cascade_mask analyze ext cfg sched text pol) = Inr (m, ms)" "\<not> has_token text"
  shows "val (detokenize m ms) = Inr text"
proof -
  obtain rs where "val (apply_replacements text rs) = Inr (m, ms)" "tokens_fresh text rs"
    using cascade_mask_applies[OF assms(1)] by blast
  then show ?thesis
    using val_detok_masked assms(2) tokens_fresh_form by blast
qed

lemma sample_masked:
  "val (sample_mask sample_text sample_policy) =
     Inr (''mail <EMAIL_1>'',
       [\<lparr>m_token = ''<EMAIL_1>'', m_original = ''a@b.ru'', m_kind = PIIKindEmail, m_source = SourceReg,
         m_start = 5, m_end = 11\<rparr>])"
  by code_simp

theorem mask_then_detokenize_witness:
  "val (detokenize ''mail <EMAIL_1>''
     [\<lparr>m_token = ''<EMAIL_1>'', m_original = ''a@b.ru'', m_kind = PIIKindEmail, m_source = SourceReg,
       m_start = 5, m_end = 11\<rparr>]) = Inr sample_text"
  by (rule mask_then_detokenize[OF sample_masked]) code_simp



text \<open>C11: The order in which the workers finish the chunks does not change the extracted entities:
  when every chunk is answered, they stand in the order of the chunks.\<close>

theorem worker_order_is_irrelevant:
  assumes "valid_string text" "length residual = length text" "\<forall>c \<in> set cs. chunk_ok text cfg c"
    and "arrangement sched"
    and "\<forall>c \<in> set cs. chunk_outcome ext (job_of text residual c) = Inr (g c)"
  shows "val (run_chunks ext sched text residual cs) = Inr (concat (map g cs))"
  using assms by (rule run_chunks_ok)

definition sample_chunks :: "text_chunk list" where
  "sample_chunks =
    [\<lparr>ch_text = ''ab.'', start_code_point = 0, end_code_point = 3, start_byte = 0, end_byte = 3\<rparr>,
     \<lparr>ch_text = '' cd'', start_code_point = 3, end_code_point = 6, start_byte = 3, end_byte = 6\<rparr>]"

theorem worker_order_is_irrelevant_witness:
  "val (run_chunks (Some sample_respond) (\<lambda>n. rev [0..<n]) ''ab. cd'' ''ab. cd'' sample_chunks)
    = Inr (concat (map (\<lambda>_. []) sample_chunks))"
proof (rule worker_order_is_irrelevant)
  show "valid_string ''ab. cd''" by code_simp
  have "list_all (chunk_ok ''ab. cd'' default_chunk_config) sample_chunks" by code_simp
  then show "\<forall>c \<in> set sample_chunks. chunk_ok ''ab. cd'' default_chunk_config c"
    by (simp add: list_all_iff)
  show "arrangement (\<lambda>n. rev [0..<n])"
    by (auto simp: arrangement_def)
  show "\<forall>c \<in> set sample_chunks. chunk_outcome (Some sample_respond) (job_of ''ab. cd'' ''ab. cd'' c) = Inr []"
    by (simp add: chunk_outcome_def sample_respond_def)
qed simp

section \<open>Sessions\<close>

text \<open>C22: A request for a session that is being processed, or whose processing failed, is answered
  with that state's error, without masking anything and without changing what the store shows.\<close>

theorem unfinished_session_answers:
  fixes w :: "memory_store world"
  assumes "live (w_ctx w) = None" "store_inv (w_store w)" "mono (w_clock w)"
    and "policy_of ps req = Inr pol"
    and "view_at (w_clock w 0) (w_store w) (req_payload_id req) = Some s" "status s \<noteq> READY"
  shows "\<exists>st. process mem_get mem_put_if_absent mem_update ps mask_fn hash ttl req w =
      (Inl (if status s = PROCESSING then ErrProcessingInProgress else ErrDetectorUnavailable), tick w st)
    \<and> (\<forall>t \<ge> w_clock w 0. view_at t st = view_at t (w_store w))"
proof -
  have "mem.calm w" using assms(1-3) by (simp add: mem.calm_def)
  moreover have "val (handle_existing hash req s pol) =
      Inl (if status s = PROCESSING then ErrProcessingInProgress else ErrDetectorUnavailable)"
    using assms(6) by (cases "status s") (simp_all add: handle_existing_def)
  ultimately show ?thesis
    using mem.process_existing[OF _ assms(4,5), of mask_fn hash ttl] by force
qed

definition busy_session :: session where
  "busy_session = new_session sample_hash 1000 sample_request 0"

definition busy_world :: "memory_store world" where
  "busy_world = sample_world\<lparr>w_store := \<lparr>max_sessions = 10, sessions = [(''p1'', busy_session)],
     next_purge = None\<rparr>\<rparr>"

lemma busy_world_calm:
  "live (w_ctx busy_world) = None" "store_inv (w_store busy_world)" "mono (w_clock busy_world)"
  by (simp_all add: busy_world_def sample_world_def background_def store_inv_def mono_def busy_session_def
      new_session_def sample_request_def)

theorem unfinished_session_answers_witness:
  "\<exists>st. sample_process sample_request busy_world = (Inl ErrProcessingInProgress, tick busy_world st)
    \<and> (\<forall>t \<ge> w_clock busy_world 0. view_at t st = view_at t (w_store busy_world))"
proof -
  have "policy_of sample_policies sample_request = Inr sample_policy"
    by (simp add: policy_of_def sample_policies_def sample_request_def)
  moreover have "view_at (w_clock busy_world 0) (w_store busy_world) (req_payload_id sample_request) = Some busy_session"
    by (simp add: busy_world_def sample_world_def view_at_def sample_request_def stored_def is_expired_def
        busy_session_def new_session_def)
  moreover have "status busy_session = PROCESSING"
    by (simp add: busy_session_def new_session_def)
  ultimately show ?thesis
    using unfinished_session_answers[OF busy_world_calm, of sample_policies sample_request sample_policy
        busy_session sample_mask sample_hash 1000]
    by simp
qed

text \<open>C23: When masking fails while the request's context is still live, the session is kept as
  failed, so that later requests are told that the detector was unavailable.\<close>

theorem failed_masking_is_recorded:
  fixes w :: "memory_store world"
  assumes "live (w_ctx w) = None" "store_inv (w_store w)" "mono (w_clock w)"
    and "policy_of ps req = Inr pol"
    and "view_at (w_clock w 0) (w_store w) (req_payload_id req) = None"
    and "fst (process mem_get mem_put_if_absent mem_update ps mask_fn hash ttl req w) \<noteq> Inl ErrStoreUnavailable"
    and "mask_fn (payload req) pol (w_ctx w) = (Inl e, c)" "live c = None" "e \<noteq> Panic"
    and "0 < ttl" "w_clock w 3 < w_clock w (Suc 0) + ttl"
  shows "\<exists>w'. process mem_get mem_put_if_absent mem_update ps mask_fn hash ttl req w = (Inl e, w')
    \<and> (\<forall>t \<ge> w_clock w 3. view_at t (w_store w') = (view_at t (w_store w))
         (req_payload_id req :=
            stored ((new_session hash ttl req (w_clock w (Suc 0)))\<lparr>status := FAILED\<rparr>) t))"
  using mem.process_mask_fails(2)[OF _ assms(4-7,9-11)] assms(1-3,8) by (simp add: mem.calm_def)

definition failing_mask :: masker where
  "failing_mask text pol = throw ErrInvalidMLResponse"

abbreviation failing_process :: "process_request \<Rightarrow> (memory_store world, string) sm" where
  "failing_process \<equiv>
     process mem_get mem_put_if_absent mem_update sample_policies failing_mask sample_hash 1000"

theorem failed_masking_is_recorded_witness:
  "\<exists>w'. failing_process sample_request sample_world = (Inl ErrInvalidMLResponse, w')
    \<and> (\<forall>t \<ge> 3. view_at t (w_store w') = (view_at t (w_store sample_world))
         (''p1'' := stored ((new_session sample_hash 1000 sample_request 1)\<lparr>status := FAILED\<rparr>) t))"
proof -
  have "policy_of sample_policies sample_request = Inr sample_policy"
    by (simp add: policy_of_def sample_policies_def sample_request_def)
  moreover have "view_at (w_clock sample_world 0) (w_store sample_world) (req_payload_id sample_request) = None"
    by (simp add: sample_world_def view_new)
  moreover have "fst (failing_process sample_request sample_world) \<noteq> Inl ErrStoreUnavailable"
    by code_simp
  moreover have "failing_mask (payload sample_request) sample_policy (w_ctx sample_world)
      = (Inl ErrInvalidMLResponse, w_ctx sample_world)"
    by (simp add: failing_mask_def throw_apply)
  ultimately show ?thesis
    using failed_masking_is_recorded[OF sample_world_calm, of sample_policies sample_request sample_policy
        failing_mask sample_hash 1000 ErrInvalidMLResponse "w_ctx sample_world"] sample_world_calm(1)
    by (simp add: sample_world_def sample_request_def)
qed





text \<open>C25: The memory store refuses a new session only for lack of room: the answer to an insertion is
  false when a session with the identifier is visible, true when fewer than the maximum of
  unexpired sessions are stored, and an error otherwise.  The sweep of expired sessions, which
  runs at most once a second below capacity, never costs a slot.\<close>

theorem insertion_refused_only_when_full:
  fixes w :: "memory_store world"
  assumes "live (w_ctx w) = None" "store_inv (w_store w)"
  shows "fst (mem_put_if_absent (Some s) w) =
    (if view_at (w_clock w 0) (w_store w) (payload_id s) \<noteq> None then Inr False
     else if int (live_count (w_clock w 0) (w_store w)) < max_sessions (w_store w) then Inr True
     else Inl ErrStoreUnavailable)"
  using assms by (rule mem_put_result)

theorem insertion_refused_only_when_full_witness:
  "fst (mem_put_if_absent (Some busy_session) sample_world) = Inr True"
  using insertion_refused_only_when_full[OF sample_world_calm(1,2), of busy_session]
  by (simp add: sample_world_def view_at_def live_count_def new_memory_store_def)

text \<open>One identifier is masked at most once at a time: after a session was inserted, another
  insertion under the same identifier fails as long as the first session has not expired.\<close>

theorem identifier_is_taken_once:
  fixes w :: "memory_store world"
  assumes "live (w_ctx w) = None" "store_inv (w_store w)" "mono (w_clock w)"
    and "mem_put_if_absent (Some s) w = (Inr True, w')" "\<not> is_expired s (w_clock w' 0)"
    and "payload_id s' = payload_id s"
  shows "fst (mem_put_if_absent (Some s') w') = Inr False"
  using assms by (rule mem.put_once)

lemma sample_put:
  "mem_put_if_absent (Some busy_session) sample_world =
     (Inr True, snd (mem_put_if_absent (Some busy_session) sample_world))"
proof (rule prod_eqI)
  show "fst (mem_put_if_absent (Some busy_session) sample_world)
    = fst (Inr True :: bool res, snd (mem_put_if_absent (Some busy_session) sample_world))"
    unfolding fst_conv by code_simp
qed simp

theorem identifier_is_taken_once_witness:
  "fst (mem_put_if_absent (Some busy_session) (snd (mem_put_if_absent (Some busy_session) sample_world)))
    = Inr False"
  by (rule identifier_is_taken_once[OF sample_world_calm sample_put]) code_simp+

text \<open>A session that was inserted is found unchanged until it expires.\<close>

theorem inserted_session_is_found:
  fixes w :: "memory_store world"
  assumes "live (w_ctx w) = None" "store_inv (w_store w)" "mono (w_clock w)"
    and "mem_put_if_absent (Some s) w = (Inr True, w')" "\<not> is_expired s (w_clock w' 0)"
  shows "fst (mem_get (payload_id s) w') = Inr s"
  using assms by (rule mem.get_after_put)

theorem inserted_session_is_found_witness:
  "fst (mem_get (payload_id busy_session) (snd (mem_put_if_absent (Some busy_session) sample_world)))
    = Inr busy_session"
  by (rule inserted_session_is_found[OF sample_world_calm sample_put]) code_simp

text \<open>The mask kinds of a request only narrow the consumer's policy: they are all known kinds the
  policy allows, exactly they are allowed afterwards, and nothing else of the policy changes.\<close>

theorem mask_kinds_only_narrow:
  assumes "apply_mask_kinds pol kinds = Inr pol'"
  shows "{k. allowed_kinds pol' k} = {k. kind_name k \<in> set kinds}
    \<and> {k. allowed_kinds pol' k} \<subseteq> {k. allowed_kinds pol k}
    \<and> set kinds \<subseteq> range kind_name
    \<and> pol'\<lparr>allowed_kinds := allowed_kinds pol\<rparr> = pol"
proof -
  obtain allowed where a: "mask_kinds_loop pol (\<lambda>_. False) kinds = Inr allowed" "pol' = pol\<lparr>allowed_kinds := allowed\<rparr>"
    using assms by (auto simp: apply_mask_kinds_def rbind_Inr_iff)
  show ?thesis
    using mask_kinds_loop_Inr[OF a(1)] by (auto simp: a(2) kind_name_inj)
qed

theorem mask_kinds_only_narrow_witness:
  "\<exists>pol'. apply_mask_kinds sample_policy [''email'', ''phone'', ''email''] = Inr pol'
    \<and> allowed_kinds pol' PIIKindPhone \<and> \<not> allowed_kinds pol' PIIKindCity"
proof -
  have "\<exists>pol'. apply_mask_kinds sample_policy [''email'', ''phone'', ''email''] = Inr pol'"
    by (simp add: apply_mask_kinds_def kind_of_string_def kinds_list_def sample_policy_def)
  then obtain pol' where pol': "apply_mask_kinds sample_policy [''email'', ''phone'', ''email''] = Inr pol'"
    by blast
  then have "{k. allowed_kinds pol' k} = {k. kind_name k \<in> set [''email'', ''phone'', ''email'']}"
    using mask_kinds_only_narrow by blast
  then have "allowed_kinds pol' k \<longleftrightarrow> kind_name k \<in> set [''email'', ''phone'', ''email'']" for k
    by blast
  then show ?thesis
    using pol' by (intro exI[of _ pol']) simp
qed

text \<open>A repeated request matches the session of the first one exactly when it makes the same
  choice of mask kinds: both without one, or both with the same set, in any order and with
  repetitions.\<close>

theorem mask_kinds_compared_as_sets:
  "mask_kinds_match (new_session hash ttl req now) req' \<longleftrightarrow>
     req_mask_kinds_set req = req_mask_kinds_set req'
     \<and> (req_mask_kinds_set req \<longrightarrow> set (req_mask_kinds req) = set (req_mask_kinds req'))"
  by (rule mask_kinds_match_new)

theorem mask_kinds_compared_as_sets_witness:
  "mask_kinds_match
     (new_session sample_hash 1000
       (sample_request\<lparr>req_mask_kinds := [''phone'', ''email''], req_mask_kinds_set := True\<rparr>) 0)
     (sample_request\<lparr>req_mask_kinds := [''email'', ''phone'', ''email''], req_mask_kinds_set := True\<rparr>)"
  unfolding mask_kinds_compared_as_sets by auto

section \<open>Texts and spans\<close>



text \<open>C27: Nothing of a text is left out of its chunks: every byte lies in one of them.\<close>

theorem chunks_cover_text:
  assumes "config_ok cfg" "valid_string text" "val (split_text text cfg) = Inr cs"
    and "0 \<le> i" "i < int (length text)"
  shows "\<exists>c \<in> set cs. start_byte c \<le> i \<and> i < end_byte c"
proof -
  have "text \<noteq> []" using assms(4,5) by auto
  then have "chunks_from text cfg 0 cs"
    using split_text_ok[OF assms(1,2)] assms(3) by auto
  then show ?thesis
    using chunks_cover[of "text" cfg 0 cs i] assms by simp
qed

theorem chunks_cover_text_witness:
  "\<exists>c \<in> set [\<lparr>ch_text = sample_text, start_code_point = 0, end_code_point = 11, start_byte = 0, end_byte = 11\<rparr>].
     start_byte c \<le> 7 \<and> 7 < end_byte c"
  by (rule chunks_cover_text[of default_chunk_config sample_text]) code_simp+

text \<open>The boundary a chunk ends at is a nearest one to the target among the positions searched.\<close>

theorem nearest_boundary_is_chosen:
  assumes "\<forall>cp \<in> set cps. 0 \<le> cp \<and> \<bar>cp - goal\<bar> < max_int" "cp \<in> set cps" "is_boundary rs cp"
  shows "best_boundary rs goal (-1) max_int cps \<in> set cps
    \<and> is_boundary rs (best_boundary rs goal (-1) max_int cps)
    \<and> \<bar>best_boundary rs goal (-1) max_int cps - goal\<bar> \<le> \<bar>cp - goal\<bar>"
  using best_boundary_nearest[of "-1" max_int goal cps rs] best_boundary_in[of rs goal "-1" max_int cps] assms
  by auto

theorem nearest_boundary_is_chosen_witness:
  "\<bar>best_boundary [10, 97, 10, 97, 97] 2 (-1) max_int [1, 2, 3] - 2\<bar> \<le> \<bar>3 - (2 :: int)\<bar>"
  using nearest_boundary_is_chosen[of "[1, 2, 3]" 2 3 "[10, 97, 10, 97, 97]"]
  by (simp add: max_int_def is_boundary_def)

text \<open>C30: The residual the gate sees has the length of the original, a space at every byte some
  finding covers, and the original byte everywhere else.\<close>

theorem residual_blanks_findings:
  assumes "k < length orig"
  shows "length (build orig spans) = length orig
    \<and> build orig spans ! k = (if \<exists>s \<in> set spans. covers s k then CHR '' '' else orig ! k)"
  using nth_build[OF assms] by simp

theorem residual_blanks_findings_witness:
  "length (build sample_text (sample_analyze sample_text)) = length sample_text
    \<and> build sample_text (sample_analyze sample_text) ! 6
      = (if \<exists>s \<in> set (sample_analyze sample_text). covers s 6 then CHR '' '' else sample_text ! 6)"
  by (rule residual_blanks_findings) (simp add: sample_text_def)

text \<open>The residual of a UTF-8 text is UTF-8 when every finding is a valid span, however the
  findings overlap.\<close>

theorem residual_is_utf8:
  assumes "valid_string text" "\<forall>s \<in> set spans. span_ok text (ent_start s) (ent_end s)"
  shows "valid_string (build text spans)"
  using assms by (rule valid_build)

theorem residual_is_utf8_witness: "valid_string (build sample_text (sample_analyze sample_text))"
proof (rule residual_is_utf8)
  show "valid_string sample_text" by code_simp
  have "list_all (\<lambda>s. span_ok sample_text (ent_start s) (ent_end s)) (sample_analyze sample_text)"
    by code_simp
  then show "\<forall>s \<in> set (sample_analyze sample_text). span_ok sample_text (ent_start s) (ent_end s)"
    by (simp add: list_all_iff)
qed

text \<open>C31: The rule engine's resolver returns entities in order and without overlaps, each of them one
  of the candidates with at least the minimum score.\<close>

theorem resolver_result_is_disjoint:
  assumes "\<forall>s \<in> set spans. 0 \<le> c_start s \<and> c_start s < c_end s"
  shows "sorted_wrt (\<lambda>a b. ent_end a \<le> ent_start b) (resolve m spans)
    \<and> set (resolve m spans) \<subseteq> to_entity ` {s \<in> set spans. f_le m (c_score s)}"
  using resolve_disjoint[OF assms] resolve_from_input[OF assms] by blast

definition sample_candidate :: "int \<Rightarrow> int \<Rightarrow> esource list \<Rightarrow> candidate_span" where
  "sample_candidate s e srcs = \<lparr>c_type = CARD_NUMBER, c_text = [], c_start = s, c_end = e, c_score = Fin 1,
     c_sources = srcs, c_reason = [], c_contextual = False\<rparr>"

definition sample_candidates :: "candidate_span list" where
  "sample_candidates = [sample_candidate 0 40 [SourceDictionary], sample_candidate 5 10 [SourceRegex],
     sample_candidate 30 35 [SourceChecksum]]"

theorem resolver_result_is_disjoint_witness:
  "sorted_wrt (\<lambda>a b. ent_end a \<le> ent_start b) (resolve (Fin 0) sample_candidates)
    \<and> set (resolve (Fin 0) sample_candidates) \<subseteq> to_entity ` {s \<in> set sample_candidates. f_le (Fin 0) (c_score s)}"
  by (rule resolver_result_is_disjoint) (simp add: sample_candidates_def sample_candidate_def)


text \<open>The allocator's search for a free number ends: it tries at most one number more than the
  text has bytes, and the token found is the first numbered token that the text does not
  contain.\<close>

theorem token_search_ends:
  assumes "alloc_loop text kind n = (m, token)"
  shows "n < m \<and> m \<le> n + length text + 1 \<and> token = token_of kind m \<and> \<not> contains text token
    \<and> (\<forall>i. n < i \<and> i < m \<longrightarrow> contains text (token_of kind i))"
  using alloc_loop_spec[OF assms] alloc_loop_tries[OF assms] by blast

theorem token_search_ends_witness:
  "alloc_loop ''<CITY_1>'' PIIKindCity 0 = (2, ''<CITY_2>'') \<and> (2 :: nat) \<le> 0 + length ''<CITY_1>'' + 1"
proof -
  have e: "alloc_loop ''<CITY_1>'' PIIKindCity 0 = (2, ''<CITY_2>'')" by code_simp
  then show ?thesis using token_search_ends[OF e] by blast
qed

text \<open>One text gets one token for each kind and original, and different tokens for different
  ones; no token occurs in the text.\<close>

theorem plan_tokens_are_fresh:
  assumes "val (build_replacement_plan text es pol) = Inr plan" "r \<in> set plan" "r' \<in> set plan"
  shows "(r_token r = r_token r' \<longleftrightarrow> r_kind r = r_kind r' \<and> r_original r = r_original r')
    \<and> (\<exists>n. r_token r = token_of (r_kind r) n) \<and> \<not> contains text (r_token r)"
  using build_plan_fresh[OF assms(1)] assms(2,3) unfolding tokens_fresh_def by blast

definition sample_entity :: "int \<Rightarrow> int \<Rightarrow> pii_entity" where
  "sample_entity s e = \<lparr>e_kind = PIIKindCity, e_start = s, e_end = e, e_conf = Fin 1, e_source = SourceML\<rparr>"

definition sample_replacement :: "int \<Rightarrow> int \<Rightarrow> string \<Rightarrow> string \<Rightarrow> replacement" where
  "sample_replacement s e tok orig = \<lparr>r_start = s, r_end = e, r_token = tok, r_original = orig,
     r_kind = PIIKindCity, r_source = SourceML, r_conf = Fin 1\<rparr>"

theorem plan_tokens_are_fresh_witness:
  "\<not> contains ''ab<CITY_1>cdab'' ''<CITY_2>''"
proof -
  have plan: "val (build_replacement_plan ''ab<CITY_1>cdab''
      [sample_entity 0 2, sample_entity 10 12, sample_entity 12 14] sample_policy) =
    Inr [sample_replacement 0 2 ''<CITY_2>'' ''ab'', sample_replacement 10 12 ''<CITY_3>'' ''cd'',
         sample_replacement 12 14 ''<CITY_2>'' ''ab'']"
    by code_simp
  show ?thesis
    using plan_tokens_are_fresh[OF plan, of "sample_replacement 0 2 ''<CITY_2>'' ''ab''"
        "sample_replacement 12 14 ''<CITY_2>'' ''ab''"]
    by (simp add: sample_replacement_def)
qed

text \<open>C33: Applying replacements is an error or a splice: the sorted replacements stand in order, are
  valid spans of the text with its bytes as originals and non-empty tokens, and equal tokens
  stand for equal originals, and then the result is the text with every span replaced by its
  token and one mapping for each replacement; otherwise the answer is an invalid span.\<close>

theorem apply_is_splice:
  "val (apply_replacements text rs) =
     (let srt = go_sort starts_before rs in
      if chain_ok text 0 srt \<and> repl_consistent srt
      then Inr (splice text 0 srt (int (length text)), map mapping_of srt)
      else Inl ErrInvalidSpan)"
  by (rule val_apply_replacements)

text \<open>The order of the replacements does not matter.\<close>

theorem apply_ignores_order:
  assumes "mset rs = mset rs'"
  shows "val (apply_replacements text rs) = val (apply_replacements text rs')"
  using assms by (rule val_apply_perm)

theorem apply_ignores_order_witness:
  "val (apply_replacements ''ab cd'' [sample_replacement 0 2 ''x'' ''ab'', sample_replacement 3 5 ''y'' ''cd''])
    = val (apply_replacements ''ab cd'' [sample_replacement 3 5 ''y'' ''cd'', sample_replacement 0 2 ''x'' ''ab''])"
  by (rule apply_ignores_order) simp

text \<open>C34: A text with a well-formed token that is not in the mappings is refused as a whole: nothing
  is detokenized.\<close>

theorem unknown_token_is_refused:
  assumes "is_token inner" "CHR ''<'' # inner @ [CHR ''>''] \<notin> m_token ` set ms"
  shows "val (detokenize (a @ CHR ''<'' # inner @ CHR ''>'' # b) ms) = Inl ErrUnknownToken"
  using assms by (rule detokenize_unknown)

theorem unknown_token_is_refused_witness:
  "val (detokenize (''x'' @ CHR ''<'' # ''CITY_7'' @ CHR ''>'' # ''y'')
     [mapping_of (sample_replacement 0 2 ''<CITY_1>'' ''ab'')]) = Inl ErrUnknownToken"
  by (rule unknown_token_is_refused) (code_simp, simp add: mapping_of_def sample_replacement_def)

end
